(* ===== verification/Prelude.thy ===== *)
theory Prelude
  imports Complex_Main "HOL-Library.AList" "HOL-Library.List_Lexorder" "HOL-Library.Char_ord"
begin

section \<open>Prelude: Python values, errors, strings and dictionaries\<close>

text \<open>
  Shared vocabulary of the development. It holds the error type of the model (one constructor per
  kind of Python exception the modelled code raises or catches), the result type and its
  sequencing operator, the list-based dictionaries whose order stands for Python's iteration
  order, and the string operations of Python 2 that the sources use (split, join, strip, isdigit,
  int, the decimal and fixed-point formats), with the round trips between printing and parsing.
  The collection \<open>icsw_defs\<close> gathers the definitions that component proofs unfold and
  \<open>res_simps\<close> the equations of the result type.
\<close>

named_theorems icsw_defs
named_theorems res_simps

subsection \<open>Errors and results\<close>

datatype py_error =
    KeyError
  | IndexError
  | ValueError
  | TypeError
  | AttributeError
  | UnboundLocalError
  | OverflowError
  | Interrupted
  | IOError
  | OperationalError
  | ZeroDivisionError
  | AssertionError
  | RuntimeError
  | ReError
  | PlainException

type_synonym 'a res = "py_error + 'a"

text \<open>Floating point numbers are modelled by exact rationals: comparisons and differences are
  those of the mathematical values, rounding of intermediate results is not modelled.\<close>

type_synonym py_float = rat

definition bind_r :: "'a res \<Rightarrow> ('a \<Rightarrow> 'b res) \<Rightarrow> 'b res" where
  "bind_r m f = (case m of Inl e \<Rightarrow> Inl e | Inr x \<Rightarrow> f x)"

lemma bind_r_Inl [simp, res_simps]: "bind_r (Inl e) f = Inl e"
  by (simp add: bind_r_def)

lemma bind_r_Inr [simp, res_simps]: "bind_r (Inr x) f = f x"
  by (simp add: bind_r_def)

lemma bind_r_eq_Inr: "bind_r m f = Inr y \<longleftrightarrow> (\<exists>x. m = Inr x \<and> f x = Inr y)"
  by (cases m) auto

fun mapM_r :: "('a \<Rightarrow> 'b res) \<Rightarrow> 'a list \<Rightarrow> 'b list res" where
  "mapM_r f [] = Inr []"
| "mapM_r f (x # xs) = bind_r (f x) (\<lambda>y. bind_r (mapM_r f xs) (\<lambda>ys. Inr (y # ys)))"

lemma mapM_r_all_Inr: "(\<And>x. x \<in> set xs \<Longrightarrow> f x = Inr (g x)) \<Longrightarrow> mapM_r f xs = Inr (map g xs)"
  by (induction xs) auto

lemma mapM_r_map_inv: "(\<And>x. x \<in> set xs \<Longrightarrow> f (g x) = Inr x) \<Longrightarrow> mapM_r f (map g xs) = Inr xs"
  by (induction xs) auto

lemma mapM_r_map: "mapM_r f (map g xs) = mapM_r (\<lambda>x. f (g x)) xs"
  by (induction xs) auto

lemma filter_full: "length xs \<le> length (filter P xs) \<Longrightarrow> filter P xs = xs"
proof (rule filter_True, rule ballI, rule ccontr)
  fix x assume "length xs \<le> length (filter P xs)" "x \<in> set xs" "\<not> P x"
  with length_filter_less [of x xs P] show False by simp
qed

lemma upt_0_4: "[0..<4] = [0, 1, 2, 3 :: nat]"
  by code_simp

lemma mapM_r_length: "mapM_r f xs = Inr ys \<Longrightarrow> length ys = length xs"
  by (induction xs arbitrary: ys) (auto simp: bind_r_eq_Inr)

definition dict_get :: "'k \<Rightarrow> ('k \<times> 'v) list \<Rightarrow> 'v res" where
  "dict_get k d = (case map_of d k of None \<Rightarrow> Inl KeyError | Some v \<Rightarrow> Inr v)"

definition list_get :: "'a list \<Rightarrow> nat \<Rightarrow> 'a res" where
  "list_get xs i = (if i < length xs then Inr (xs ! i) else Inl IndexError)"

lemma list_get_Inr [simp]: "i < length xs \<Longrightarrow> list_get xs i = Inr (xs ! i)"
  by (simp add: list_get_def)

lemma dict_get_Inr [simp]: "map_of d k = Some v \<Longrightarrow> dict_get k d = Inr v"
  by (simp add: dict_get_def)

lemma dict_get_None [simp]: "map_of d k = None \<Longrightarrow> dict_get k d = Inl KeyError"
  by (simp add: dict_get_def)

subsection \<open>Strings\<close>

definition startswith :: "string \<Rightarrow> string \<Rightarrow> bool" where
  "startswith s p \<longleftrightarrow> take (length p) s = p"

definition endswith :: "string \<Rightarrow> string \<Rightarrow> bool" where
  "endswith s p \<longleftrightarrow> length p \<le> length s \<and> drop (length s - length p) s = p"

text \<open>Python's \<open>s.split(c)\<close> for a one-character separator: always at least one part.\<close>

fun py_split :: "char \<Rightarrow> string \<Rightarrow> string list" where
  "py_split c [] = [[]]"
| "py_split c (x # xs) =
     (if x = c then [] # py_split c xs
      else (case py_split c xs of [] \<Rightarrow> [[x]] | p # ps \<Rightarrow> (x # p) # ps))"

fun py_join :: "string \<Rightarrow> string list \<Rightarrow> string" where
  "py_join sep [] = []"
| "py_join sep [p] = p"
| "py_join sep (p # q # ps) = p @ sep @ py_join sep (q # ps)"

definition is_space :: "char \<Rightarrow> bool" where
  "is_space c \<longleftrightarrow> of_char c \<in> {9, 10, 11, 12, 13, 32 :: nat}"

definition py_strip :: "string \<Rightarrow> string" where
  "py_strip s = rev (dropWhile is_space (rev (dropWhile is_space s)))"

definition is_digit :: "char \<Rightarrow> bool" where
  "is_digit c \<longleftrightarrow> 48 \<le> (of_char c :: nat) \<and> (of_char c :: nat) \<le> 57"

definition py_isdigit :: "string \<Rightarrow> bool" where
  "py_isdigit s \<longleftrightarrow> s \<noteq> [] \<and> list_all is_digit s"

definition digit_val :: "char \<Rightarrow> nat" where
  "digit_val c = of_char c - 48"

definition dec_val :: "string \<Rightarrow> nat" where
  "dec_val s = foldl (\<lambda>n c. 10 * n + digit_val c) 0 s"

fun str_of_nat :: "nat \<Rightarrow> string" where
  "str_of_nat n =
     (if n < 10 then [char_of (48 + n)] else str_of_nat (n div 10) @ [char_of (48 + n mod 10)])"

declare str_of_nat.simps [simp del]

definition str_of_int :: "int \<Rightarrow> string" where
  "str_of_int i = (if i < 0 then CHR ''-'' # str_of_nat (nat (- i)) else str_of_nat (nat i))"

text \<open>Python's \<open>int(s)\<close> on a byte string: surrounding white space and one sign are accepted.\<close>

definition py_int :: "string \<Rightarrow> int res" where
  "py_int s =
     (let t = py_strip s in
      case t of
        [] \<Rightarrow> Inl ValueError
      | c # r \<Rightarrow>
          if c = CHR ''-'' then (if py_isdigit r then Inr (- int (dec_val r)) else Inl ValueError)
          else if c = CHR ''+'' then (if py_isdigit r then Inr (int (dec_val r)) else Inl ValueError)
          else if py_isdigit t then Inr (int (dec_val t)) else Inl ValueError)"

lemma py_split_nonempty [simp]: "py_split c s \<noteq> []"
  by (induction s) (auto split: list.splits)

lemma py_split_no_sep: "c \<notin> set s \<Longrightarrow> py_split c s = [s]"
  by (induction s) auto

lemma py_split_append_sep: "c \<notin> set p \<Longrightarrow> py_split c (p @ c # s) = p # py_split c s"
  by (induction p) auto

lemma py_split_join:
  "ps \<noteq> [] \<Longrightarrow> (\<And>p. p \<in> set ps \<Longrightarrow> c \<notin> set p) \<Longrightarrow> py_split c (py_join [c] ps) = ps"
proof (induction "[c]" ps rule: py_join.induct)
  case 1
  then show ?case by simp
next
  case (2 p)
  then show ?case by (simp add: py_split_no_sep)
next
  case (3 p q ps)
  then show ?case by (simp add: py_split_append_sep)
qed

lemma py_join_split: "py_join [c] (py_split c s) = s"
proof (induction s)
  case Nil
  then show ?case by simp
next
  case (Cons x xs)
  obtain p ps where p: "py_split c xs = p # ps"
    by (cases "py_split c xs") simp_all
  from Cons p show ?case by (cases ps) auto
qed

lemma py_strip_id: "s \<noteq> [] \<Longrightarrow> \<not> is_space (hd s) \<Longrightarrow> \<not> is_space (last s) \<Longrightarrow> py_strip s = s"
proof -
  assume a: "s \<noteq> []" "\<not> is_space (hd s)" "\<not> is_space (last s)"
  then have "dropWhile is_space s = s" by (cases s) auto
  moreover from a have "dropWhile is_space (rev s) = rev s"
    by (cases "rev s") (auto simp: hd_rev [symmetric])
  ultimately show ?thesis by (simp add: py_strip_def)
qed

lemma digit_not_space: "is_digit c \<Longrightarrow> \<not> is_space c"
  by (auto simp: is_digit_def is_space_def)

lemma is_digit_char_of [simp]: "n < 10 \<Longrightarrow> is_digit (char_of (48 + n))" for n :: nat
  by (simp add: is_digit_def)

lemma digit_val_char_of [simp]: "n < 10 \<Longrightarrow> digit_val (char_of (48 + n)) = n" for n :: nat
  by (simp add: digit_val_def)

lemma dec_val_Nil [simp]: "dec_val [] = 0"
  by (simp add: dec_val_def)

lemma dec_val_snoc [simp]: "dec_val (s @ [c]) = 10 * dec_val s + digit_val c"
  by (simp add: dec_val_def)

lemma str_of_nat_digits: "py_isdigit (str_of_nat n)"
proof (induction n rule: str_of_nat.induct)
  case (1 n)
  then show ?case
    by (cases "n < 10") (auto simp: str_of_nat.simps [of n] py_isdigit_def)
qed

lemma dec_val_str_of_nat [simp]: "dec_val (str_of_nat n) = n"
proof (induction n rule: str_of_nat.induct)
  case (1 n)
  show ?case
  proof (cases "n < 10")
    case True
    have "dec_val ([] @ [char_of (48 + n)]) = n" using True by (simp only: dec_val_snoc) simp
    with True show ?thesis by (simp add: str_of_nat.simps [of n])
  next
    case False
    with 1 show ?thesis by (simp add: str_of_nat.simps [of n])
  qed
qed

lemma str_of_nat_no_char: "\<not> is_digit c \<Longrightarrow> c \<notin> set (str_of_nat n)"
  using str_of_nat_digits [of n] by (auto simp: py_isdigit_def list_all_iff)

lemma str_of_nat_nonempty [simp]: "str_of_nat n \<noteq> []"
  using str_of_nat_digits [of n] by (simp add: py_isdigit_def)

lemma py_isdigit_hd_last:
  "py_isdigit s \<Longrightarrow> s \<noteq> [] \<and> is_digit (hd s) \<and> is_digit (last s)"
  by (auto simp: py_isdigit_def list_all_iff)

lemma py_strip_digits: "py_isdigit s \<Longrightarrow> py_strip s = s"
  using py_isdigit_hd_last [of s] by (simp add: py_strip_id digit_not_space)

lemma is_digit_not_sign [simp]: "is_digit c \<Longrightarrow> c \<noteq> CHR ''-''" "is_digit c \<Longrightarrow> c \<noteq> CHR ''+''"
  by (auto simp: is_digit_def)

lemma py_int_digits: "py_isdigit s \<Longrightarrow> py_int s = Inr (int (dec_val s))"
  using py_isdigit_hd_last [of s]
  by (cases s) (auto simp: py_int_def py_strip_digits Let_def)

lemma py_int_str_of_nat [simp]: "py_int (str_of_nat n) = Inr (int n)"
  by (simp add: py_int_digits str_of_nat_digits)

lemma str_of_nat_inj [simp]: "str_of_nat m = str_of_nat n \<longleftrightarrow> m = n"
  by (metis dec_val_str_of_nat)

lemma str_of_int_nonneg: "0 \<le> i \<Longrightarrow> str_of_int i = str_of_nat (nat i)"
  by (simp add: str_of_int_def)

lemma is_space_minus: "\<not> is_space (CHR ''-'')"
  by (simp add: is_space_def)

lemma py_int_str_of_int [simp]: "py_int (str_of_int i) = Inr i"
proof (cases "i < 0")
  case False
  then show ?thesis by (simp add: str_of_int_nonneg)
next
  case True
  let ?d = "str_of_nat (nat (- i))"
  have "last (CHR ''-'' # ?d) = last ?d" by simp
  then have "py_strip (CHR ''-'' # ?d) = CHR ''-'' # ?d"
    using py_isdigit_hd_last [OF str_of_nat_digits [of "nat (- i)"]]
    by (intro py_strip_id) (simp_all add: digit_not_space is_space_minus)
  with True show ?thesis
    by (simp add: py_int_def str_of_int_def str_of_nat_digits)
qed

subsection \<open>Numbers with a fraction\<close>

text \<open>Python's \<open>float(s)\<close> for decimal numerals with an optional sign and fraction; exponents and the
  names of the infinities and of the not-a-number are not accepted by the model.\<close>

definition dec_frac :: "string \<Rightarrow> py_float res" where
  "dec_frac r =
     (case py_split CHR ''.'' r of
        [a] \<Rightarrow> if py_isdigit a then Inr (rat_of_nat (dec_val a)) else Inl ValueError
      | [a, b] \<Rightarrow>
          if (a = [] \<or> py_isdigit a) \<and> (b = [] \<or> py_isdigit b) \<and> (a \<noteq> [] \<or> b \<noteq> [])
          then Inr (rat_of_nat (dec_val a) + rat_of_nat (dec_val b) / 10 ^ length b)
          else Inl ValueError
      | _ \<Rightarrow> Inl ValueError)"

definition py_float_of :: "string \<Rightarrow> py_float res" where
  "py_float_of s =
     (case py_strip s of
        [] \<Rightarrow> Inl ValueError
      | c # r \<Rightarrow>
          if c = CHR ''-'' then bind_r (dec_frac r) (\<lambda>x. Inr (- x))
          else if c = CHR ''+'' then dec_frac r
          else dec_frac (c # r))"

text \<open>\<open>int(x)\<close> of a floating point number rounds towards zero.\<close>

definition py_trunc :: "py_float \<Rightarrow> int" where
  "py_trunc x = (if x < 0 then - \<lfloor>- x\<rfloor> else \<lfloor>x\<rfloor>)"

lemma py_trunc_of_int [simp]: "py_trunc (of_int i) = i"
  by (simp add: py_trunc_def)

lemma py_trunc_bounds: "\<bar>of_int (py_trunc x) - x\<bar> < 1" "0 \<le> x \<Longrightarrow> of_int (py_trunc x) \<le> x"
proof -
  note f = floor_correct [of x, unfolded of_int_add of_int_1] floor_correct [of "- x", unfolded of_int_add of_int_1]
  have t: "rat_of_int (py_trunc x) = (if x < 0 then - of_int \<lfloor>- x\<rfloor> else of_int \<lfloor>x\<rfloor>)"
    by (simp add: py_trunc_def)
  show "\<bar>of_int (py_trunc x) - x\<bar> < 1" using t f by (cases "x < 0"; simp only: if_True if_False abs_less_iff; linarith)
  show "0 \<le> x \<Longrightarrow> of_int (py_trunc x) \<le> x" using t f by (cases "x < 0"; simp only: if_True if_False abs_less_iff; linarith)
qed

lemma dec_frac_digits: "py_isdigit s \<Longrightarrow> dec_frac s = Inr (rat_of_nat (dec_val s))"
proof -
  assume s: "py_isdigit s"
  then have "CHR ''.'' \<notin> set s" by (auto simp: py_isdigit_def list_all_iff is_digit_def)
  with s show ?thesis by (simp add: dec_frac_def py_split_no_sep)
qed

lemma py_float_of_str_of_int [simp]: "py_float_of (str_of_int i) = Inr (of_int i)"
proof (cases "i < 0")
  case False
  have "py_float_of s = dec_frac s" if "py_isdigit s" for s
    using py_isdigit_hd_last [OF that] that by (cases s) (auto simp: py_float_of_def py_strip_digits)
  with False show ?thesis by (simp add: str_of_int_nonneg str_of_nat_digits dec_frac_digits)
next
  case True
  let ?d = "str_of_nat (nat (- i))"
  have "py_strip (CHR ''-'' # ?d) = CHR ''-'' # ?d"
    using py_isdigit_hd_last [OF str_of_nat_digits [of "nat (- i)"]]
    by (intro py_strip_id) (simp_all add: digit_not_space is_space_minus)
  with True show ?thesis
    by (simp add: py_float_of_def str_of_int_def str_of_nat_digits dec_frac_digits)
qed

subsection \<open>Paths\<close>

definition path_join :: "string \<Rightarrow> string \<Rightarrow> string" where
  "path_join a b =
     (if startswith b ''/'' then b
      else if a = [] \<or> endswith a ''/'' then a @ b else a @ ''/'' @ b)"

definition py_basename :: "string \<Rightarrow> string" where
  "py_basename p = last (py_split CHR ''/'' p)"

text \<open>\<open>str.split()\<close> without arguments: the maximal runs of characters that are not white space.\<close>

fun py_words :: "string \<Rightarrow> string \<Rightarrow> string list" where
  "py_words w [] = (if w = [] then [] else [w])"
| "py_words w (c # cs) =
     (if is_space c then (if w = [] then [] else [w]) @ py_words [] cs else py_words (w @ [c]) cs)"

definition py_split_ws :: "string \<Rightarrow> string list" where
  "py_split_ws s = py_words [] s"

definition py_lower :: "string \<Rightarrow> string" where
  "py_lower s = map (\<lambda>c. if of_char c \<in> {65..90 :: nat} then char_of (of_char c + 32 :: nat) else c) s"

text \<open>\<open>s.split(c, n)\<close> for a one-character separator, and the two parts of \<open>s.split(sep, 1)\<close> where \<open>sep\<close> occurs.\<close>

fun split_max :: "char \<Rightarrow> nat \<Rightarrow> string \<Rightarrow> string list" where
  "split_max c 0 s = [s]"
| "split_max c (Suc n) s =
     (case dropWhile (\<lambda>x. x \<noteq> c) s of [] \<Rightarrow> [s] | _ # r \<Rightarrow> takeWhile (\<lambda>x. x \<noteq> c) s # split_max c n r)"

fun split_on :: "string \<Rightarrow> string \<Rightarrow> (string \<times> string) option" where
  "split_on sep [] = None"
| "split_on sep (c # r) =
     (if startswith (c # r) sep then Some ([], drop (length sep) (c # r))
      else map_option (\<lambda>(a, b). (c # a, b)) (split_on sep r))"

lemma split_max_part: "c \<notin> set p \<Longrightarrow> split_max c (Suc n) (p @ c # r) = p # split_max c n r"
proof -
  assume c: "c \<notin> set p"
  then have "takeWhile (\<lambda>x. x \<noteq> c) p = p" by (auto simp: takeWhile_eq_all_conv)
  then have "takeWhile (\<lambda>x. x \<noteq> c) (p @ c # r) = p" "dropWhile (\<lambda>x. x \<noteq> c) (p @ c # r) = c # r"
    using c by (auto simp: takeWhile_append dropWhile_append)
  then show ?thesis by simp
qed

text \<open>\<open>s.count(t)\<close> as a truth value: \<open>t\<close> occurs in \<open>s\<close>.\<close>

fun contains_str :: "string \<Rightarrow> string \<Rightarrow> bool" where
  "contains_str t [] \<longleftrightarrow> t = []"
| "contains_str t (c # cs) \<longleftrightarrow> startswith (c # cs) t \<or> contains_str t cs"

end
