(* ===== verification/Ipv4.thy ===== *)
theory Ipv4
  imports Prelude
begin

unbundle bit_operations_syntax

section \<open>IPv4 addresses (initat/tools/ipvx_tools.py)\<close>

text \<open>
  The class \<open>ipv4\<close>: its constructor over the accepted argument types, the cached string and hash
  representations, the arithmetic, bitwise and comparison operators, and network matching. An
  object is a record of its four attributes. The lemmas show that an address of four octets is
  recovered from its printed form, that the operators agree with arithmetic on the 32-bit
  value, and which addresses the network predicates accept.
\<close>

subsection \<open>The object and its representations\<close>

record ipv4 =
  parts :: "int list"
  inv_parts :: "int list"
  str_rep :: string
  int_rep :: int

text \<open>Arguments of the constructor by their Python type. \<open>IpTuple\<close> is a tuple; \<open>IpBool\<close> a
  number that is neither \<open>int\<close> nor \<open>long\<close>.\<close>

datatype ipv4_arg =
    IpObj ipv4
  | IpInt int
  | IpStr string
  | IpIntList "int list"
  | IpStrList "string list"
  | IpTuple "int list"
  | IpBool bool

definition hex_digit :: "nat \<Rightarrow> char" where
  "hex_digit n = (if n < 10 then char_of (48 + n) else char_of (87 + n))"

fun hex_of_nat :: "nat \<Rightarrow> string" where
  "hex_of_nat n =
     (if n < 16 then [hex_digit n] else hex_of_nat (n div 16) @ [hex_digit (n mod 16)])"

declare hex_of_nat.simps [simp del]

text \<open>The format \<open>{:02x}\<close>.\<close>

definition hex02 :: "int \<Rightarrow> string" where
  "hex02 i =
     (if i < 0 then CHR ''-'' # hex_of_nat (nat (- i))
      else (let h = hex_of_nat (nat i) in if length h < 2 then CHR ''0'' # h else h))"

definition is_hex :: "char \<Rightarrow> bool" where
  "is_hex c \<longleftrightarrow> is_digit c \<or> (97 \<le> (of_char c :: nat) \<and> (of_char c :: nat) \<le> 102)"

definition hex_digit_val :: "char \<Rightarrow> nat" where
  "hex_digit_val c = (if is_digit c then of_char c - 48 else of_char c - 87)"

definition hex_val :: "string \<Rightarrow> nat" where
  "hex_val s = foldl (\<lambda>n c. 16 * n + hex_digit_val c) 0 s"

text \<open>\<open>int(s, 16)\<close> on the strings built from \<open>hex02\<close>: lower-case digits and minus signs.\<close>

definition py_int16 :: "string \<Rightarrow> int res" where
  "py_int16 s =
     (case s of
        [] \<Rightarrow> Inl ValueError
      | c # r \<Rightarrow>
          if c = CHR ''-'' then
            (if r \<noteq> [] \<and> list_all is_hex r then Inr (- int (hex_val r)) else Inl ValueError)
          else if list_all is_hex s then Inr (int (hex_val s)) else Inl ValueError)"

definition update_rep :: "int list \<Rightarrow> int list \<Rightarrow> ipv4 res" where
  "update_rep ps ips =
     bind_r (py_int16 (concat (map hex02 ps)))
       (\<lambda>h. Inr \<lparr>parts = ps, inv_parts = ips, str_rep = py_join ''.'' (map str_of_int ps), int_rep = h\<rparr>)"

subsection \<open>The constructor\<close>

definition octet_candidates :: "string \<Rightarrow> int list" where
  "octet_candidates s =
     filter (\<lambda>x. 0 \<le> x \<and> x \<le> 255)
       (map (\<lambda>y. int (dec_val y)) (filter py_isdigit (py_split CHR ''.'' (py_strip s))))"

definition ipv4_of_string :: "string \<Rightarrow> ipv4 res" where
  "ipv4_of_string s =
     (if length (octet_candidates s) = 4
      then bind_r (mapM_r py_int (py_split CHR ''.'' (py_strip s))) (\<lambda>ps. update_rep ps (rev ps))
      else Inl ValueError)"

definition ipv4_of_number :: "int \<Rightarrow> ipv4 res" where
  "ipv4_of_number n =
     (let ips = map (\<lambda>k. (n div 256 ^ k) AND 255) [0..<4] in update_rep (rev ips) ips)"

text \<open>The branch taken first for \<open>int\<close> and \<open>long\<close> calls \<open>list(in_value)\<close>, which raises.\<close>

fun new_ipv4 :: "ipv4_arg \<Rightarrow> ipv4 res" where
  "new_ipv4 (IpObj ip) = ipv4_of_string (str_rep ip)"
| "new_ipv4 (IpInt n) = Inl TypeError"
| "new_ipv4 (IpStr s) = ipv4_of_string s"
| "new_ipv4 (IpIntList ps) = (if ps = [] then Inl IndexError else update_rep ps (rev ps))"
| "new_ipv4 (IpStrList ss) =
     (if ss = [] then Inl IndexError
      else bind_r (mapM_r py_int ss) (\<lambda>ps. update_rep ps (rev ps)))"
| "new_ipv4 (IpTuple ps) = Inl TypeError"
| "new_ipv4 (IpBool b) = ipv4_of_number (if b then 1 else 0)"

subsection \<open>Operators\<close>

definition ipv4_value :: "ipv4 \<Rightarrow> int res" where
  "ipv4_value ip =
     map_sum id fst
       (foldl (\<lambda>acc idx. bind_r acc (\<lambda>(bin_ip, mult).
           bind_r (list_get (inv_parts ip) idx) (\<lambda>p. Inr (bin_ip + p * mult, mult * 256))))
         (Inr (0, 1)) [0..<4])"

function netmask_loop :: "int \<Rightarrow> int \<Rightarrow> int" where
  "netmask_loop bin_mask bits =
     (if even bin_mask \<and> bin_mask \<noteq> 0 then netmask_loop (bin_mask div 2) (bits - 1) else bits)"
  by pat_completeness auto
termination
  by (relation "measure (\<lambda>(m, b). nat \<bar>m\<bar>)") auto

declare netmask_loop.simps [simp del]

definition netmask_bits :: "ipv4 \<Rightarrow> int res" where
  "netmask_bits ip =
     bind_r (ipv4_value ip) (\<lambda>v. Inr (if v \<noteq> 0 then netmask_loop v 32 else 0))"

definition of_octets :: "int list \<Rightarrow> ipv4 res" where
  "of_octets ps = new_ipv4 (IpStr (py_join ''.'' (map str_of_int ps)))"

definition ipv4_invert :: "ipv4 \<Rightarrow> ipv4 res" where
  "ipv4_invert ip = of_octets (map (\<lambda>x. 255 - x) (parts ip))"

definition ipv4_and :: "ipv4 \<Rightarrow> ipv4 \<Rightarrow> ipv4 res" where
  "ipv4_and a b = of_octets (map2 (\<lambda>x y. x AND y) (parts a) (parts b))"

definition ipv4_or :: "ipv4 \<Rightarrow> ipv4 \<Rightarrow> ipv4 res" where
  "ipv4_or a b = of_octets (map2 (\<lambda>x y. x OR y) (parts a) (parts b))"

definition ipv4_eq :: "ipv4 \<Rightarrow> ipv4 \<Rightarrow> bool" where
  "ipv4_eq a b \<longleftrightarrow> parts a = parts b"

definition ipv4_ne :: "ipv4 \<Rightarrow> ipv4 \<Rightarrow> bool" where
  "ipv4_ne a b \<longleftrightarrow> parts a \<noteq> parts b"

definition ipv4_hash :: "ipv4 \<Rightarrow> int" where
  "ipv4_hash ip = int_rep ip"

definition ipv4_len :: "ipv4 \<Rightarrow> nat" where
  "ipv4_len ip = length (str_rep ip)"

function carry_loop :: "int \<Rightarrow> int \<Rightarrow> int \<times> int" where
  "carry_loop new_val ov =
     (if new_val > 255 then carry_loop (new_val - 256) (ov + 1) else (new_val, ov))"
  by pat_completeness auto
termination
  by (relation "measure (\<lambda>(v, ov). nat v)") auto

declare carry_loop.simps [simp del]

fun add_loop :: "nat list \<Rightarrow> int list \<Rightarrow> int list \<Rightarrow> int list \<times> int \<Rightarrow> (int list \<times> int) res" where
  "add_loop [] p q st = Inr st"
| "add_loop (i # is) p q (new_v, ov) =
     bind_r (list_get p i) (\<lambda>x. bind_r (list_get q i) (\<lambda>y.
       let (v, c) = carry_loop (x + y + ov) 0 in add_loop is p q (new_v[i := v], c)))"

definition ipv4_add :: "ipv4 \<Rightarrow> ipv4 \<Rightarrow> ipv4 res" where
  "ipv4_add a b =
     bind_r (add_loop [3, 2, 1, 0] (parts a) (parts b) ([0, 0, 0, 0], 0))
       (\<lambda>(new_v, ov). if ov \<noteq> 0 then Inl ValueError else of_octets new_v)"

fun lex_loop :: "nat list \<Rightarrow> int list \<Rightarrow> int list \<Rightarrow> bool \<Rightarrow> bool res" where
  "lex_loop [] p q dflt = Inr dflt"
| "lex_loop (i # is) p q dflt =
     bind_r (list_get p i) (\<lambda>x. bind_r (list_get q i) (\<lambda>y.
       if x > y then Inr False else if x < y then Inr True else lex_loop is p q dflt))"

definition ipv4_lt :: "ipv4 \<Rightarrow> ipv4 \<Rightarrow> bool res" where
  "ipv4_lt a b = lex_loop [0..<4] (parts a) (parts b) False"

definition ipv4_gt :: "ipv4 \<Rightarrow> ipv4 \<Rightarrow> bool res" where
  "ipv4_gt a b = lex_loop [0..<4] (parts b) (parts a) False"

definition ipv4_le :: "ipv4 \<Rightarrow> ipv4 \<Rightarrow> bool res" where
  "ipv4_le a b = lex_loop [0..<4] (parts a) (parts b) True"

definition ipv4_ge :: "ipv4 \<Rightarrow> ipv4 \<Rightarrow> bool res" where
  "ipv4_ge a b = lex_loop [0..<4] (parts b) (parts a) True"

subsection \<open>Networks\<close>

definition priv_networks :: "(ipv4 \<times> ipv4) list res" where
  "priv_networks =
     mapM_r (\<lambda>(nw, nm). bind_r (new_ipv4 (IpStr nw)) (\<lambda>a. bind_r (new_ipv4 (IpStr nm)) (\<lambda>b. Inr (a, b))))
       [(''10.0.0.0'', ''255.0.0.0''),
        (''172.16.0.0'', ''255.224.0.0''),
        (''192.168.0.0'', ''255.255.0.0'')]"

fun private_loop :: "ipv4 \<Rightarrow> (ipv4 \<times> ipv4) list \<Rightarrow> bool res" where
  "private_loop ip [] = Inr False"
| "private_loop ip ((nw, nm) # rest) =
     bind_r (ipv4_and ip nm) (\<lambda>m. if ipv4_eq m nw then Inr True else private_loop ip rest)"

definition ipv4_private :: "ipv4 \<Rightarrow> bool res" where
  "ipv4_private ip = bind_r priv_networks (private_loop ip)"

record nw_stuff =
  nw_network :: string
  nw_netmask :: string
  nw_pk :: int

definition network_matches :: "ipv4 \<Rightarrow> nw_stuff \<Rightarrow> bool res" where
  "network_matches ip nw =
     bind_r (new_ipv4 (IpStr (nw_netmask nw))) (\<lambda>nm. bind_r (ipv4_and ip nm) (\<lambda>m.
       bind_r (new_ipv4 (IpStr (nw_network nw))) (\<lambda>n. Inr (ipv4_eq m n))))"

fun match_loop :: "ipv4 \<Rightarrow> nw_stuff list \<Rightarrow> (int \<times> nw_stuff) list \<Rightarrow> (int \<times> nw_stuff) list res" where
  "match_loop ip [] acc = Inr acc"
| "match_loop ip (nw # rest) acc =
     bind_r (new_ipv4 (IpStr (nw_network nw))) (\<lambda>network.
     bind_r (new_ipv4 (IpStr (nw_netmask nw))) (\<lambda>netmask.
     bind_r (ipv4_and ip netmask) (\<lambda>m.
       if ipv4_eq m network
       then bind_r (netmask_bits netmask) (\<lambda>bits. match_loop ip rest (acc @ [(bits, nw)]))
       else match_loop ip rest acc)))"

text \<open>\<open>sorted(match_list, reverse=True)\<close> compares the pairs: by bits, then by the network objects
  themselves. Their order is Python 2's default order of objects, a parameter \<open>key\<close>.\<close>

definition sort_matches :: "(nw_stuff \<Rightarrow> int) \<Rightarrow> (int \<times> nw_stuff) list \<Rightarrow> (int \<times> nw_stuff) list" where
  "sort_matches key ms = sort_key (\<lambda>m. - fst m) (sort_key (\<lambda>m. - key (snd m)) ms)"

definition find_matching_network ::
  "(nw_stuff \<Rightarrow> int) \<Rightarrow> ipv4 \<Rightarrow> nw_stuff list \<Rightarrow> (int \<times> nw_stuff) list res" where
  "find_matching_network key ip nws =
     bind_r (match_loop ip nws []) (\<lambda>ms. Inr (sort_matches key ms))"

definition is_loopback_network :: "ipv4 \<Rightarrow> bool res" where
  "is_loopback_network nw_addr =
     bind_r (new_ipv4 (IpStr ''127.0.0.0'')) (\<lambda>lo.
       bind_r (ipv4_and nw_addr lo) (\<lambda>m. Inr (ipv4_eq m lo)))"

definition get_network_name_from_mask :: "string \<Rightarrow> string" where
  "get_network_name_from_mask nw_mask =
     (case map_of [(''255.255.255.0'', ''C''), (''255.255.0.0'', ''B''), (''255.0.0.0'', ''A'')] nw_mask of
        None \<Rightarrow> nw_mask | Some n \<Rightarrow> n)"

subsection \<open>Well-formed addresses\<close>

definition octet :: "int \<Rightarrow> bool" where
  "octet x \<longleftrightarrow> 0 \<le> x \<and> x \<le> 255"

definition value4 :: "int list \<Rightarrow> int" where
  "value4 ps = ps ! 0 * 16777216 + ps ! 1 * 65536 + ps ! 2 * 256 + ps ! 3"

definition ip_of_parts :: "int list \<Rightarrow> ipv4" where
  "ip_of_parts ps =
     \<lparr>parts = ps, inv_parts = rev ps, str_rep = py_join ''.'' (map str_of_int ps), int_rep = value4 ps\<rparr>"

definition octets4 :: "int list \<Rightarrow> bool" where
  "octets4 ps \<longleftrightarrow> length ps = 4 \<and> list_all octet ps"

definition wf_ip :: "ipv4 \<Rightarrow> bool" where
  "wf_ip ip \<longleftrightarrow> octets4 (parts ip) \<and> ip = ip_of_parts (parts ip)"

lemma octets4E:
  assumes "octets4 ps"
  obtains a b c d where "ps = [a, b, c, d]" "octet a" "octet b" "octet c" "octet d"
proof -
  from assms have "length ps = Suc (Suc (Suc (Suc 0)))" by (simp add: octets4_def)
  then obtain a b c d where "ps = [a, b, c, d]" by (auto simp: length_Suc_conv)
  with assms that show ?thesis by (auto simp: octets4_def)
qed

lemma octets4_Cons [simp]: "octets4 [a, b, c, d] \<longleftrightarrow> octet a \<and> octet b \<and> octet c \<and> octet d"
  by (simp add: octets4_def)

lemma ip_of_parts_sel [simp]:
  "parts (ip_of_parts ps) = ps" "inv_parts (ip_of_parts ps) = rev ps"
  "str_rep (ip_of_parts ps) = py_join ''.'' (map str_of_int ps)"
  "int_rep (ip_of_parts ps) = value4 ps"
  by (simp_all add: ip_of_parts_def)

lemma wf_ip_of_parts [simp]: "wf_ip (ip_of_parts ps) \<longleftrightarrow> octets4 ps"
  by (simp add: wf_ip_def)

lemma wf_ipE:
  assumes "wf_ip ip"
  obtains ps where "octets4 ps" "ip = ip_of_parts ps"
  using assms by (auto simp: wf_ip_def)

subsection \<open>The hexadecimal representation\<close>

lemma hex_digit_hex [simp]: "n < 16 \<Longrightarrow> is_hex (hex_digit n)"
  by (auto simp: is_hex_def hex_digit_def is_digit_def)

lemma hex_digit_val_digit [simp]: "n < 16 \<Longrightarrow> hex_digit_val (hex_digit n) = n"
  by (auto simp: hex_digit_val_def hex_digit_def is_digit_def)

lemma hex_digit_zero: "hex_digit 0 = CHR ''0''"
  by code_simp

lemma hex02_octet: "octet a \<Longrightarrow> hex02 a = [hex_digit (nat a div 16), hex_digit (nat a mod 16)]"
proof -
  assume a: "octet a"
  then have lt: "nat a < 256" "\<not> a < 0" by (auto simp: octet_def)
  show ?thesis
  proof (cases "nat a < 16")
    case True
    with lt show ?thesis
      by (simp add: hex02_def hex_of_nat.simps [of "nat a"] Let_def hex_digit_zero)
  next
    case False
    with lt have "nat a div 16 < 16" by simp
    with False lt show ?thesis
      by (simp add: hex02_def hex_of_nat.simps [of "nat a"] hex_of_nat.simps [of "nat a div 16"] Let_def)
  qed
qed

lemma hex_digit_not_minus: "n < 16 \<Longrightarrow> hex_digit n \<noteq> CHR ''-''"
  using hex_digit_hex [of n] by (auto simp: is_hex_def is_digit_def)

lemma py_int16_octets:
  assumes "octet a" "octet b" "octet c" "octet d"
  shows "py_int16 (concat (map hex02 [a, b, c, d])) = Inr (value4 [a, b, c, d])"
proof -
  have lt: "nat x div 16 < 16" if "octet x" for x using that by (auto simp: octet_def)
  let ?h = "\<lambda>x. [hex_digit (nat x div 16), hex_digit (nat x mod 16)]"
  have "py_int16 (?h a @ ?h b @ ?h c @ ?h d) = Inr (int (hex_val (?h a @ ?h b @ ?h c @ ?h d)))"
    using lt assms by (simp add: py_int16_def hex_digit_not_minus)
  also have "int (hex_val (?h a @ ?h b @ ?h c @ ?h d)) = value4 [a, b, c, d]"
    using lt assms by (simp add: hex_val_def value4_def octet_def)
  finally show ?thesis using assms by (simp add: hex02_octet)
qed

lemma update_rep_octets: "octets4 ps \<Longrightarrow> update_rep ps (rev ps) = Inr (ip_of_parts ps)"
  by (erule octets4E) (simp add: update_rep_def py_int16_octets [simplified] ip_of_parts_def)

subsection \<open>Printing and parsing\<close>

lemma str_of_octet_digits: "octet x \<Longrightarrow> py_isdigit (str_of_int x)"
  by (simp add: octet_def str_of_int_nonneg str_of_nat_digits)

lemma str_of_octet_dot: "octet x \<Longrightarrow> CHR ''.'' \<notin> set (str_of_int x)"
  using str_of_octet_digits [of x] by (auto simp: py_isdigit_def list_all_iff is_digit_def)

lemma dec_val_octet: "octet x \<Longrightarrow> int (dec_val (str_of_int x)) = x"
  by (simp add: octet_def str_of_int_nonneg)

lemma strip_dotted:
  assumes "octets4 ps"
  shows "py_strip (py_join ''.'' (map str_of_int ps)) = py_join ''.'' (map str_of_int ps)"
proof -
  from assms obtain a b c d where ps: "ps = [a, b, c, d]" and o: "octet a" "octet d"
    by (rule octets4E)
  note ha = py_isdigit_hd_last [OF str_of_octet_digits [OF o(1)]]
  note hd = py_isdigit_hd_last [OF str_of_octet_digits [OF o(2)]]
  from ha hd ps show ?thesis
    by (intro py_strip_id) (simp_all add: digit_not_space)
qed

lemma split_dotted:
  assumes "octets4 ps"
  shows "py_split CHR ''.'' (py_strip (py_join ''.'' (map str_of_int ps))) = map str_of_int ps"
proof -
  from assms have "list_all octet ps" "ps \<noteq> []" by (auto simp: octets4_def)
  then show ?thesis
    unfolding strip_dotted [OF assms]
    by (intro py_split_join) (auto simp: list_all_iff str_of_octet_dot)
qed

lemma octet_candidates_dotted:
  assumes "octets4 ps"
  shows "octet_candidates (py_join ''.'' (map str_of_int ps)) = ps"
  using assms
  by (elim octets4E)
    (simp add: octet_candidates_def split_dotted [simplified] str_of_octet_digits dec_val_octet octet_def
      split_dotted [of "[a, b, c, d]" for a b c d, simplified])

lemma of_octets_wf: "octets4 ps \<Longrightarrow> of_octets ps = Inr (ip_of_parts ps)"
proof -
  assume ps: "octets4 ps"
  then have "length ps = 4" by (simp add: octets4_def)
  moreover have "mapM_r py_int (map str_of_int ps) = Inr ps"
    by (simp add: mapM_r_map_inv)
  ultimately show ?thesis using ps
    by (simp add: of_octets_def ipv4_of_string_def octet_candidates_dotted split_dotted update_rep_octets)
qed

lemma new_ipv4_dotted: "octets4 ps \<Longrightarrow> new_ipv4 (IpStr (str_rep (ip_of_parts ps))) = Inr (ip_of_parts ps)"
  using of_octets_wf [of ps] by (simp add: of_octets_def)

lemma ipv4_value_wf: "octets4 ps \<Longrightarrow> ipv4_value (ip_of_parts ps) = Inr (value4 ps)"
  by (erule octets4E) (simp add: ipv4_value_def value4_def upt_0_4)

subsection \<open>Agreement with 32-bit arithmetic\<close>

lemma value4_bounds: "octets4 ps \<Longrightarrow> 0 \<le> value4 ps \<and> value4 ps < 4294967296"
  by (erule octets4E) (auto simp: value4_def octet_def)

lemma lex_loop_octets:
  assumes "octet a" "octet b" "octet c" "octet d" "octet e" "octet f" "octet g" "octet h"
  shows "lex_loop [0, 1, 2, 3] [a, b, c, d] [e, f, g, h] dflt =
    Inr (value4 [a, b, c, d] < value4 [e, f, g, h] \<or>
         dflt \<and> value4 [a, b, c, d] = value4 [e, f, g, h])"
  using assms by (auto simp: value4_def octet_def)

lemma lex_loop_value:
  assumes "octets4 ps" "octets4 qs"
  shows "lex_loop [0..<4] ps qs dflt = Inr (value4 ps < value4 qs \<or> dflt \<and> value4 ps = value4 qs)"
  using assms by (elim octets4E) (simp only: lex_loop_octets upt_0_4)

lemma value4_inj: "octets4 ps \<Longrightarrow> octets4 qs \<Longrightarrow> value4 ps = value4 qs \<longleftrightarrow> ps = qs"
proof (elim octets4E)
  fix a b c d e f g h
  assume o: "ps = [a, b, c, d]" "qs = [e, f, g, h]" "octet b" "octet c" "octet d" "octet f" "octet g" "octet h"
  have dm: "(X * 256 + x) div 256 = X" "(X * 256 + x) mod 256 = x" if "octet x" for X x :: int
    using that by (simp_all add: octet_def div_pos_pos_trivial)
  have digit: "X * 256 + x = Y * 256 + y \<longleftrightarrow> X = Y \<and> x = y" if "octet x" "octet y" for X Y x y :: int
    using dm [OF that(1), of X] dm [OF that(2), of Y] by metis
  have horner: "value4 [p, q, r, s] = ((p * 256 + q) * 256 + r) * 256 + s" for p q r s
    by (simp add: value4_def)
  show ?thesis unfolding o(1,2) horner digit [OF o(5,8)] digit [OF o(4,7)] digit [OF o(3,6)] by auto
qed

lemma carry_loop_eq: "0 \<le> v \<Longrightarrow> carry_loop v ov = (v mod 256, ov + v div 256)"
proof (induction v ov rule: carry_loop.induct)
  case (1 v ov)
  show ?case
  proof (cases "v > 255")
    case True
    have "(v - 256) mod 256 = v mod 256" "(v - 256) div 256 = v div 256 - 1"
      by (simp_all add: mod_diff_right_eq [symmetric] div_diff)
    with 1 True show ?thesis by (simp add: carry_loop.simps [of v ov])
  next
    case False
    with 1 show ?thesis by (simp add: carry_loop.simps [of v ov])
  qed
qed

text \<open>Schoolbook addition in base 256: the digits and the final carry.\<close>

lemma base256_add:
  fixes x y z w :: int
  assumes c1: "c1 = w div 256" and c2: "c2 = (z + c1) div 256" and c3: "c3 = (y + c2) div 256"
  shows "x * 16777216 + y * 65536 + z * 256 + w =
    ((x + c3) div 256) * 4294967296 +
    value4 [(x + c3) mod 256, (y + c2) mod 256, (z + c1) mod 256, w mod 256]"
proof -
  have m: "k mod 256 = k - 256 * (k div 256)" for k :: int by presburger
  have "value4 [(x + c3) mod 256, (y + c2) mod 256, (z + c1) mod 256, w mod 256] =
      ((x + c3) - 256 * ((x + c3) div 256)) * 16777216 + ((y + c2) - 256 * c3) * 65536
      + ((z + c1) - 256 * c2) * 256 + (w - 256 * c1)"
    unfolding value4_def c1 c2 c3 by (simp only: m) simp
  then show ?thesis by (simp add: algebra_simps)
qed

lemma add_loop_octets:
  assumes "octets4 ps" "octets4 qs"
  obtains rs ov where "add_loop [3, 2, 1, 0] ps qs ([0, 0, 0, 0], 0) = Inr (rs, ov)"
    "octets4 rs" "0 \<le> ov" "value4 ps + value4 qs = ov * 4294967296 + value4 rs"
proof -
  from assms obtain a b c d where ps: "ps = [a, b, c, d]" and o: "octet a" "octet b" "octet c" "octet d"
    by (elim octets4E)
  from assms obtain e f g h where qs: "qs = [e, f, g, h]" and p: "octet e" "octet f" "octet g" "octet h"
    by (elim octets4E)
  define c1 c2 c3 where "c1 = (d + h) div 256" and "c2 = (c + g + c1) div 256" and "c3 = (b + f + c2) div 256"
  let ?rs = "[(a + e + c3) mod 256, (b + f + c2) mod 256, (c + g + c1) mod 256, (d + h) mod 256]"
  have nn: "0 \<le> c1" "0 \<le> c2" "0 \<le> c3"
    using o p by (auto simp: octet_def c1_def c2_def c3_def)
  have run: "add_loop [3, 2, 1, 0] ps qs ([0, 0, 0, 0], 0) = Inr (?rs, (a + e + c3) div 256)"
    using o p nn by (simp add: ps qs carry_loop_eq octet_def c1_def c2_def c3_def)
  have "value4 ps + value4 qs = ((a + e + c3) div 256) * 4294967296 + value4 ?rs"
    unfolding base256_add [OF c1_def c2_def c3_def, symmetric] by (simp add: value4_def ps qs)
  moreover have "octet (k mod 256)" for k
    using pos_mod_bound [of 256 k] pos_mod_sign [of 256 k] by (simp add: octet_def)
  then have "octets4 ?rs" by simp
  moreover have "0 \<le> (a + e + c3) div 256"
    using o p nn by (simp add: octet_def pos_imp_zdiv_nonneg_iff)
  ultimately show ?thesis using run that by blast
qed

lemma ipv4_add_wf:
  assumes "octets4 ps" "octets4 qs"
  shows "if value4 ps + value4 qs < 4294967296
    then \<exists>rs. ipv4_add (ip_of_parts ps) (ip_of_parts qs) = Inr (ip_of_parts rs) \<and> octets4 rs
              \<and> value4 rs = value4 ps + value4 qs
    else ipv4_add (ip_of_parts ps) (ip_of_parts qs) = Inl ValueError"
proof -
  obtain rs ov where run: "add_loop [3, 2, 1, 0] ps qs ([0, 0, 0, 0], 0) = Inr (rs, ov)"
    and rs: "octets4 rs" "0 \<le> ov" "value4 ps + value4 qs = ov * 4294967296 + value4 rs"
    using add_loop_octets [OF assms] by metis
  then have add: "ipv4_add (ip_of_parts ps) (ip_of_parts qs) =
      (if ov \<noteq> 0 then Inl ValueError else Inr (ip_of_parts rs))"
    by (simp add: ipv4_add_def of_octets_wf del: add_loop.simps)
  from rs value4_bounds [OF rs(1)] have "value4 ps + value4 qs < 4294967296 \<longleftrightarrow> ov = 0" by auto
  with add rs show ?thesis by auto
qed

subsection \<open>Bitwise operators and networks\<close>

lemma octet_and: "octet x \<Longrightarrow> octet y \<Longrightarrow> octet (x AND y)"
  using AND_upper1 [of x y] by (auto simp: octet_def)

lemma octet_or: "octet x \<Longrightarrow> octet y \<Longrightarrow> octet (x OR y)"
  using OR_upper [of x 8 y] by (auto simp: octet_def)

lemma octet_and_255: "octet x \<Longrightarrow> x AND 255 = x"
proof -
  assume "octet x"
  then have "x AND mask 8 = x" by (simp add: take_bit_eq_mask [symmetric] take_bit_int_eq_self octet_def)
  then show ?thesis by (simp add: mask_eq_exp_minus_1)
qed

lemma octet_and_127: "octet x \<Longrightarrow> x AND 127 = 127 \<longleftrightarrow> x = 127 \<or> x = 255"
proof -
  assume x: "octet x"
  have "x AND mask 7 = x mod 2 ^ 7" by (simp add: take_bit_eq_mask [symmetric] take_bit_eq_mod)
  then have "x AND 127 = x mod 128" by (simp add: mask_eq_exp_minus_1)
  moreover have "x mod 128 = 127 \<longleftrightarrow> x = 127 \<or> x = 255" using x unfolding octet_def by presburger
  ultimately show ?thesis by simp
qed

lemma and_224_not_16: "x AND 224 \<noteq> (16 :: int)"
proof
  assume "x AND 224 = 16"
  then have "bit (x AND 224) 4 = bit (16 :: int) 4" by simp
  then show False by (simp add: bit_and_iff)
qed

lemma ipv4_and_wf:
  "octets4 ps \<Longrightarrow> octets4 qs \<Longrightarrow>
   ipv4_and (ip_of_parts ps) (ip_of_parts qs) = Inr (ip_of_parts (map2 (\<lambda>x y. x AND y) ps qs))"
  by (elim octets4E) (simp add: ipv4_and_def of_octets_wf octet_and)

lemma ipv4_or_wf:
  "octets4 ps \<Longrightarrow> octets4 qs \<Longrightarrow>
   ipv4_or (ip_of_parts ps) (ip_of_parts qs) = Inr (ip_of_parts (map2 (\<lambda>x y. x OR y) ps qs))"
  by (elim octets4E) (simp add: ipv4_or_def of_octets_wf octet_or)

lemma ipv4_invert_wf:
  "octets4 ps \<Longrightarrow> ipv4_invert (ip_of_parts ps) = Inr (ip_of_parts (map (\<lambda>x. 255 - x) ps))"
  by (elim octets4E) (simp add: ipv4_invert_def of_octets_wf octet_def)

lemma dotted_literals:
  "''10.0.0.0'' = str_rep (ip_of_parts [10, 0, 0, 0])"
  "''255.0.0.0'' = str_rep (ip_of_parts [255, 0, 0, 0])"
  "''172.16.0.0'' = str_rep (ip_of_parts [172, 16, 0, 0])"
  "''255.224.0.0'' = str_rep (ip_of_parts [255, 224, 0, 0])"
  "''192.168.0.0'' = str_rep (ip_of_parts [192, 168, 0, 0])"
  "''255.255.0.0'' = str_rep (ip_of_parts [255, 255, 0, 0])"
  "''127.0.0.0'' = str_rep (ip_of_parts [127, 0, 0, 0])"
  by code_simp+

lemma priv_networks_eq:
  "priv_networks =
     Inr [(ip_of_parts [10, 0, 0, 0], ip_of_parts [255, 0, 0, 0]),
          (ip_of_parts [172, 16, 0, 0], ip_of_parts [255, 224, 0, 0]),
          (ip_of_parts [192, 168, 0, 0], ip_of_parts [255, 255, 0, 0])]"
  unfolding priv_networks_def dotted_literals
  by (simp add: new_ipv4_dotted octet_def del: new_ipv4.simps ip_of_parts_sel)

lemma netmask_loop_odd: "odd m \<Longrightarrow> netmask_loop (m * 2 ^ k) bits = bits - int k"
proof (induction k arbitrary: bits)
  case 0
  then show ?case by (simp add: netmask_loop.simps)
next
  case (Suc k)
  then have "m \<noteq> 0" by auto
  moreover have "m * 2 ^ Suc k div 2 = m * 2 ^ k" by simp
  ultimately show ?case
    using Suc by (subst netmask_loop.simps) simp
qed

lemma netmask_bits_prefix:
  assumes ps: "octets4 ps" and n: "n \<le> 32" and v: "value4 ps = 2 ^ 32 - 2 ^ (32 - n)"
  shows "netmask_bits (ip_of_parts ps) = Inr (int n)"
proof (cases "n = 0")
  case True
  with ps v show ?thesis by (simp add: netmask_bits_def ipv4_value_wf)
next
  case False
  have "(2 :: int) ^ 32 = 2 ^ n * 2 ^ (32 - n)" using n by (simp add: power_add [symmetric])
  then have "value4 ps = (2 ^ n - 1) * 2 ^ (32 - n)" using v by (simp add: algebra_simps)
  moreover have "odd ((2 :: int) ^ n - 1)" using False by simp
  moreover from this have "(2 :: int) ^ n - 1 \<noteq> 0" by (metis even_zero)
  ultimately have "netmask_loop (value4 ps) 32 = 32 - int (32 - n)" "value4 ps \<noteq> 0"
    using netmask_loop_odd [of "2 ^ n - 1" "32 - n" 32] by simp_all
  with ps n show ?thesis by (simp add: netmask_bits_def ipv4_value_wf)
qed

lemma sort_matches_sorted: "sorted (map (\<lambda>m. - fst m) (sort_matches key ms))"
  by (simp add: sort_matches_def)

lemma sort_matches_set: "set (sort_matches key ms) = set ms"
  by (simp add: sort_matches_def)

lemma py_isdigit_int: "py_isdigit y \<Longrightarrow> py_int y = Inr (int (dec_val y))"
  by (rule py_int_digits)

lemma ipv4_of_string_wf:
  assumes "ipv4_of_string s = Inr ip" and "length (parts ip) = 4"
  shows "wf_ip ip"
proof -
  let ?xs = "py_split CHR ''.'' (py_strip s)"
  from assms(1) obtain ps where cand: "length (octet_candidates s) = 4"
    and ps: "mapM_r py_int ?xs = Inr ps" and up: "update_rep ps (rev ps) = Inr ip"
    by (cases "length (octet_candidates s) = 4") (auto simp: ipv4_of_string_def bind_r_eq_Inr)
  from up have "parts ip = ps" by (auto simp: update_rep_def bind_r_eq_Inr)
  with assms(2) mapM_r_length [OF ps] have len: "length ?xs = 4" "length ps = 4" by simp_all
  have "length (octet_candidates s) \<le> length (map (\<lambda>y. int (dec_val y)) (filter py_isdigit ?xs))"
    unfolding octet_candidates_def by (rule length_filter_le)
  with cand len have "filter py_isdigit ?xs = ?xs" by (intro filter_full) simp
  then have digits: "\<forall>y\<in>set ?xs. py_isdigit y" by (simp add: filter_id_conv)
  have "mapM_r py_int ?xs = Inr (map (\<lambda>y. int (dec_val y)) ?xs)"
    by (rule mapM_r_all_Inr) (simp add: digits py_isdigit_int)
  with ps have ps_eq: "ps = map (\<lambda>y. int (dec_val y)) ?xs" by simp
  have "octet_candidates s = filter (\<lambda>x. 0 \<le> x \<and> x \<le> 255) ps"
    by (simp only: octet_candidates_def \<open>filter py_isdigit ?xs = ?xs\<close> ps_eq)
  with cand len have "filter (\<lambda>x. 0 \<le> x \<and> x \<le> 255) ps = ps" by (intro filter_full) simp
  then have "octets4 ps" using len by (auto simp: octets4_def list_all_iff octet_def filter_id_conv)
  with up update_rep_octets [of ps] show ?thesis by auto
qed

subsection \<open>Properties\<close>

text \<open>Printing and parsing are inverse. An address of four octets is recovered from its string by
  the constructor, and conversely every string the constructor accepts as four parts is printed
  back as an address with the same octets, value and hash.\<close>

theorem ipv4_print_parse:
  assumes "wf_ip ip"
  shows "new_ipv4 (IpStr (str_rep ip)) = Inr ip \<and> new_ipv4 (IpObj ip) = Inr ip"
  using assms new_ipv4_dotted by (auto elim!: wf_ipE)

theorem ipv4_print_parse_witness:
  "new_ipv4 (IpStr ''192.168.1.17'') = Inr (ip_of_parts [192, 168, 1, 17])"
proof -
  have w: "wf_ip (ip_of_parts [192, 168, 1, 17])" by (simp add: octet_def)
  have "str_rep (ip_of_parts [192, 168, 1, 17]) = ''192.168.1.17''" by code_simp
  with ipv4_print_parse [OF w] show ?thesis by simp
qed

text \<open>\<open>__add__\<close> is addition of the 32-bit values: the sum is returned when it fits and
  ValueError is raised exactly when it overflows.\<close>

theorem ipv4_add_value:
  assumes "wf_ip a" and "wf_ip b"
  shows "if ipv4_hash a + ipv4_hash b < 2 ^ 32
    then \<exists>ip. ipv4_add a b = Inr ip \<and> wf_ip ip \<and> ipv4_value ip = Inr (ipv4_hash a + ipv4_hash b)
    else ipv4_add a b = Inl ValueError"
proof -
  from assms obtain ps qs where w: "octets4 ps" "octets4 qs" "a = ip_of_parts ps" "b = ip_of_parts qs"
    by (auto elim!: wf_ipE)
  from ipv4_add_wf [OF w(1,2)] show ?thesis
    by (auto simp: w ipv4_hash_def ipv4_value_wf split: if_splits)
qed

theorem ipv4_add_value_witness:
  "\<exists>ip. ipv4_add (ip_of_parts [10, 0, 0, 255]) (ip_of_parts [0, 0, 0, 1]) = Inr ip
     \<and> ipv4_value ip = Inr 167772416"
proof -
  have w: "wf_ip (ip_of_parts [10, 0, 0, 255])" "wf_ip (ip_of_parts [0, 0, 0, 1])"
    by (simp_all add: octet_def)
  from ipv4_add_value [OF w] show ?thesis by (auto simp: ipv4_hash_def value4_def)
qed

text \<open>The four comparison operators are the order of the 32-bit values, and equal hashes mean
  equal addresses.\<close>

theorem ipv4_order_value:
  assumes "wf_ip a" and "wf_ip b"
  shows "ipv4_lt a b = Inr (ipv4_hash a < ipv4_hash b) \<and> ipv4_le a b = Inr (ipv4_hash a \<le> ipv4_hash b) \<and>
    ipv4_gt a b = Inr (ipv4_hash a > ipv4_hash b) \<and> ipv4_ge a b = Inr (ipv4_hash a \<ge> ipv4_hash b) \<and>
    ipv4_eq a b = (ipv4_hash a = ipv4_hash b)"
proof -
  from assms obtain ps qs where w: "octets4 ps" "octets4 qs" "a = ip_of_parts ps" "b = ip_of_parts qs"
    by (auto elim!: wf_ipE)
  show ?thesis
    by (simp add: w ipv4_hash_def lex_loop_value ipv4_lt_def ipv4_le_def ipv4_gt_def ipv4_ge_def
        ipv4_eq_def value4_inj [symmetric] order_le_less eq_commute)
qed

theorem ipv4_order_value_witness:
  "ipv4_lt (ip_of_parts [10, 0, 0, 255]) (ip_of_parts [10, 0, 1, 0]) = Inr True"
proof -
  have w: "wf_ip (ip_of_parts [10, 0, 0, 255])" "wf_ip (ip_of_parts [10, 0, 1, 0])"
    by (simp_all add: octet_def)
  from ipv4_order_value [OF w] show ?thesis by (simp add: ipv4_hash_def value4_def)
qed

text \<open>The property \<open>private\<close> holds exactly for 10.0.0.0/8 and 192.168.0.0/16. The entry meant for
  172.16.0.0/12 carries the mask 255.224.0.0, which clears the bit that its network address has
  set, so no address of that range is ever recognised.\<close>

theorem ipv4_private_iff:
  assumes "octets4 [a, b, c, d]"
  shows "ipv4_private (ip_of_parts [a, b, c, d]) = Inr (a = 10 \<or> (a = 192 \<and> b = 168))"
  using assms
  by (simp add: ipv4_private_def priv_networks_eq ipv4_and_wf octet_and octet_def ipv4_eq_def
      octet_and_255 [unfolded octet_def] and_224_not_16)

theorem ipv4_private_iff_witness:
  "ipv4_private (ip_of_parts [172, 16, 5, 1]) = Inr False \<and> ipv4_private (ip_of_parts [192, 168, 0, 1]) = Inr True"
  using ipv4_private_iff [of 172 16 5 1] ipv4_private_iff [of 192 168 0 1] by (simp add: octet_def)

subsection \<open>Longest prefix match\<close>

text \<open>A network entry is usable when both its strings are dotted addresses of four octets.\<close>

definition nw_ok :: "nw_stuff \<Rightarrow> bool" where
  "nw_ok nw \<longleftrightarrow>
     (case (new_ipv4 (IpStr (nw_network nw)), new_ipv4 (IpStr (nw_netmask nw))) of
        (Inr n, Inr m) \<Rightarrow> length (parts n) = 4 \<and> length (parts m) = 4
      | _ \<Rightarrow> False)"

lemma nw_okE:
  assumes "nw_ok nw"
  obtains ns ms where "octets4 ns" "octets4 ms" "new_ipv4 (IpStr (nw_network nw)) = Inr (ip_of_parts ns)"
    "new_ipv4 (IpStr (nw_netmask nw)) = Inr (ip_of_parts ms)"
proof -
  from assms obtain n m where nm: "ipv4_of_string (nw_network nw) = Inr n"
    "ipv4_of_string (nw_netmask nw) = Inr m" "length (parts n) = 4" "length (parts m) = 4"
    by (auto simp: nw_ok_def split: sum.splits)
  then have "wf_ip n" "wf_ip m" by (auto intro: ipv4_of_string_wf)
  with nm that show ?thesis by (auto elim!: wf_ipE)
qed

lemma match_loop_filter:
  assumes "octets4 ps" and "\<And>nw. nw \<in> set nws \<Longrightarrow> nw_ok nw"
  shows "\<exists>ms. match_loop (ip_of_parts ps) nws acc = Inr (acc @ ms) \<and>
    map snd ms = filter (\<lambda>nw. network_matches (ip_of_parts ps) nw = Inr True) nws"
  using assms(2)
proof (induction nws arbitrary: acc)
  case Nil
  then show ?case by simp
next
  case (Cons nw nws)
  from Cons.prems have "nw_ok nw" by simp
  then obtain ns ms where nw: "octets4 ns" "octets4 ms"
    "new_ipv4 (IpStr (nw_network nw)) = Inr (ip_of_parts ns)"
    "new_ipv4 (IpStr (nw_netmask nw)) = Inr (ip_of_parts ms)"
    by (rule nw_okE)
  then obtain v where v: "netmask_bits (ip_of_parts ms) = Inr v"
    by (auto simp: netmask_bits_def ipv4_value_wf)
  have m: "network_matches (ip_of_parts ps) nw = Inr (map2 (\<lambda>x y. x AND y) ps ms = ns)"
    using nw assms(1) by (simp add: network_matches_def ipv4_and_wf ipv4_eq_def del: new_ipv4.simps)
  from Cons.IH [of acc] Cons.IH [of "acc @ [(v, nw)]"] Cons.prems
  show ?case
    using nw assms(1) v m by (auto simp: ipv4_and_wf ipv4_eq_def simp del: new_ipv4.simps)
qed

text \<open>\<open>find_matching_network\<close> returns exactly the networks that contain the address, each with its
  prefix length, and lists them by decreasing prefix length, so its first entry is the most
  specific network, whatever the default order of the network objects is.\<close>

theorem find_matching_network_longest_first:
  assumes "wf_ip ip" and "\<And>nw. nw \<in> set nws \<Longrightarrow> nw_ok nw"
  shows "\<exists>ms. find_matching_network key ip nws = Inr ms \<and>
    snd ` set ms = {nw \<in> set nws. network_matches ip nw = Inr True} \<and>
    sorted_wrt (\<lambda>x y. fst x \<ge> fst y) ms"
proof -
  from assms(1) obtain ps where ps: "octets4 ps" "ip = ip_of_parts ps" by (rule wf_ipE)
  from match_loop_filter [OF ps(1) assms(2), of nws "[]"] obtain ms where
    run: "match_loop ip nws [] = Inr ms" and ms: "map snd ms = filter (\<lambda>nw. network_matches ip nw = Inr True) nws"
    using ps(2) by auto
  from ms have "snd ` set ms = {nw \<in> set nws. network_matches ip nw = Inr True}"
    by (metis set_filter set_map)
  moreover have "sorted_wrt (\<lambda>x y. fst x \<ge> fst y) (sort_matches key ms)"
    using sort_matches_sorted [of key ms] by (simp add: sorted_map)
  ultimately show ?thesis using run
    by (simp add: find_matching_network_def sort_matches_set)
qed

theorem find_matching_network_longest_first_witness:
  "\<exists>ms. find_matching_network nw_pk (ip_of_parts [10, 0, 2, 3])
       [\<lparr>nw_network = ''10.0.0.0'', nw_netmask = ''255.0.0.0'', nw_pk = 1\<rparr>,
        \<lparr>nw_network = ''10.0.0.0'', nw_netmask = ''255.255.0.0'', nw_pk = 2\<rparr>] = Inr ms \<and>
     sorted_wrt (\<lambda>x y. fst x \<ge> fst y) ms"
proof -
  let ?nws = "[\<lparr>nw_network = ''10.0.0.0'', nw_netmask = ''255.0.0.0'', nw_pk = 1\<rparr>,
        \<lparr>nw_network = ''10.0.0.0'', nw_netmask = ''255.255.0.0'', nw_pk = 2\<rparr>]"
  have w: "wf_ip (ip_of_parts [10, 0, 2, 3])" by (simp add: octet_def)
  have "nw_ok nw" if "nw \<in> set ?nws" for nw
    using that unfolding dotted_literals
    by (auto simp: nw_ok_def new_ipv4_dotted octet_def simp del: new_ipv4.simps ip_of_parts_sel(3))
  from find_matching_network_longest_first [OF w this, where key = nw_pk] show ?thesis by blast
qed

end
