(* ===== verification/State_Schema.thy ===== *)
theory State_Schema
  imports Prelude
begin

section \<open>The database schema of the service states (ServiceState.check_schema)\<close>

text \<open>
  The SQLite database is the list of its tables with their column names, the rows of the version table and
  the names of its indices. Adding a column that exists is the error SQLite raises. A statement that
  changes the schema is committed at once, the version rows only with the \<open>commit\<close> at the end.
\<close>

definition INIT_SQL_SCHEMA_VERSION :: int where "INIT_SQL_SCHEMA_VERSION = 1"
definition SQL_SCHEMA_VERSION :: int where "SQL_SCHEMA_VERSION = 2"

record schema_db =
  db_tables :: "(string \<times> string list) list"
  db_version :: "int list"
  db_indices :: "string list"

definition table_dict :: "(string \<times> string list) list" where
  "table_dict =
     [(''schema_version'', [''version'']),
      (''service'', [''idx'', ''name'', ''target_state'', ''active'', ''created'', ''ignore'']),
      (''state'', [''idx'', ''service'', ''pstate'', ''cstate'', ''license_state'', ''proc_info_str'', ''created'']),
      (''action'', [''idx'', ''service'', ''action'', ''success'', ''runtime'', ''finished'', ''created''])]"

definition create_tables :: "schema_db \<Rightarrow> schema_db" where
  "create_tables db =
     db\<lparr>db_tables := db_tables db @ filter (\<lambda>(n, _). n \<notin> fst ` set (db_tables db)) table_dict\<rparr>"

definition add_column :: "string \<Rightarrow> string \<Rightarrow> schema_db \<Rightarrow> schema_db res" where
  "add_column tab col db =
     (case map_of (db_tables db) tab of
        None \<Rightarrow> Inl OperationalError
      | Some cols \<Rightarrow> if col \<in> set cols then Inl OperationalError
                     else Inr (db\<lparr>db_tables := AList.update tab (cols @ [col]) (db_tables db)\<rparr>))"

definition index_names :: "string list" where
  "index_names = map (\<lambda>(t, f). t @ ''_'' @ f)
     [(''state'', ''service''), (''state'', ''created''), (''action'', ''service''), (''action'', ''created'')]"

definition check_schema :: "schema_db \<Rightarrow> schema_db res" where
  "check_schema db =
     (let all_tables = db_tables db;
          db1 = create_tables db;
          db2 = (if db_version db1 = []
                 then db1\<lparr>db_version := [if all_tables = [] then SQL_SCHEMA_VERSION else INIT_SQL_SCHEMA_VERSION]\<rparr>
                 else db1);
          cur_vers = hd (db_version db2)
      in bind_r (if cur_vers \<noteq> SQL_SCHEMA_VERSION then
                   bind_r (if cur_vers = 1
                           then bind_r (add_column ''service'' ''ignore'' db2) (\<lambda>db. Inr (db, 2))
                           else Inr (db2, cur_vers)) (\<lambda>(db3, v).
                   Inr (db3\<lparr>db_version := [v]\<rparr>))
                 else Inr db2) (\<lambda>db4.
         Inr (db4\<lparr>db_indices := db_indices db4 @ filter (\<lambda>i. i \<notin> set (db_indices db4)) index_names\<rparr>)))"

subsection \<open>Upgrades\<close>

definition complete_db :: "schema_db \<Rightarrow> bool" where
  "complete_db db \<longleftrightarrow> fst ` set table_dict \<subseteq> fst ` set (db_tables db) \<and>
     (\<exists>cols. map_of (db_tables db) ''service'' = Some cols \<and> ''ignore'' \<in> set cols) \<and>
     hd (db_version db) = SQL_SCHEMA_VERSION \<and> db_version db \<noteq> [] \<and> set index_names \<subseteq> set (db_indices db)"

text \<open>The databases the program meets: none, one of the first version (with or without a version row) whose
  service table has no ignore flag, and a current one.\<close>

definition supported_db :: "schema_db \<Rightarrow> bool" where
  "supported_db db \<longleftrightarrow>
     db_tables db = [] \<and> db_version db = [] \<or>
     db_tables db \<noteq> [] \<and> (db_version db = [] \<or> hd (db_version db) = INIT_SQL_SCHEMA_VERSION) \<and>
       (\<exists>cols. map_of (db_tables db) ''service'' = Some cols \<and> ''ignore'' \<notin> set cols) \<or>
     db_version db \<noteq> [] \<and> hd (db_version db) = SQL_SCHEMA_VERSION \<and>
       (\<exists>cols. map_of (db_tables db) ''service'' = Some cols \<and> ''ignore'' \<in> set cols)"

lemma create_tables_dom: "fst ` set table_dict \<subseteq> fst ` set (db_tables (create_tables db))"
proof (rule image_subsetI)
  fix x assume "x \<in> set table_dict"
  then show "fst x \<in> fst ` set (db_tables (create_tables db))"
    by (cases "fst x \<in> fst ` set (db_tables db)") (auto simp: create_tables_def case_prod_unfold image_Un)
qed

lemma create_tables_keeps: "map_of (db_tables db) t = Some cols \<Longrightarrow> map_of (db_tables (create_tables db)) t = Some cols"
  by (simp add: create_tables_def map_add_def)

lemma create_tables_simps [simp]: "db_version (create_tables db) = db_version db" "db_indices (create_tables db) = db_indices db"
  by (simp_all add: create_tables_def)

lemma create_tables_empty: "db_tables db = [] \<Longrightarrow> db_tables (create_tables db) = table_dict"
  by (simp add: create_tables_def)

lemma create_tables_done: "fst ` set table_dict \<subseteq> fst ` set (db_tables db) \<Longrightarrow> create_tables db = db"
proof -
  assume a: "fst ` set table_dict \<subseteq> fst ` set (db_tables db)"
  then have "filter (\<lambda>(n, _). n \<notin> fst ` set (db_tables db)) table_dict = []"
    by (force simp: filter_empty_conv)
  then show ?thesis by (simp add: create_tables_def)
qed

lemma add_column_Inr:
  assumes "map_of (db_tables db) tab = Some cols" and "col \<notin> set cols"
  shows "add_column tab col db = Inr (db\<lparr>db_tables := AList.update tab (cols @ [col]) (db_tables db)\<rparr>)"
  using assms by (simp add: add_column_def)

lemma update_keys: "fst ` set (AList.update k v d) = insert k (fst ` set d)"
  by (induction d) auto

lemma check_schema_complete:
  assumes "supported_db db"
  obtains db' where "check_schema db = Inr db'" "complete_db db'"
    "\<forall>t cols. map_of (db_tables db) t = Some cols \<longrightarrow> (\<exists>more. map_of (db_tables db') t = Some (cols @ more))"
proof -
  note dom = create_tables_dom [of db]
  consider (new) "db_tables db = []" "db_version db = []"
    | (old) cols where "db_tables db \<noteq> []" "db_version db = [] \<or> db_version db \<noteq> [] \<and> hd (db_version db) = 1"
        "map_of (db_tables db) ''service'' = Some cols" "''ignore'' \<notin> set cols"
    | (current) cols where "db_version db \<noteq> []" "hd (db_version db) = 2" "map_of (db_tables db) ''service'' = Some cols" "''ignore'' \<in> set cols"
    using assms unfolding supported_db_def INIT_SQL_SCHEMA_VERSION_def SQL_SCHEMA_VERSION_def by blast
  then show thesis
  proof cases
    case new
    have "map_of table_dict ''service'' = Some (the (map_of table_dict ''service''))" "''ignore'' \<in> set (the (map_of table_dict ''service''))"
      by (simp_all add: table_dict_def)
    with new show thesis
      by (intro that [of "db\<lparr>db_tables := table_dict, db_version := [2],
             db_indices := db_indices db @ filter (\<lambda>i. i \<notin> set (db_indices db)) index_names\<rparr>"])
        (auto simp: check_schema_def Let_def create_tables_def complete_db_def SQL_SCHEMA_VERSION_def)
  next
    case old
    let ?db = "create_tables db"
    have c: "map_of (db_tables ?db) ''service'' = Some cols" using create_tables_keeps [OF old(3)] .
    let ?r = "?db\<lparr>db_tables := AList.update ''service'' (cols @ [''ignore'']) (db_tables ?db), db_version := [2],
             db_indices := db_indices db @ filter (\<lambda>i. i \<notin> set (db_indices db)) index_names\<rparr>"
    have "check_schema db = Inr ?r"
      using old(1, 2) c old(4)
      by (auto simp: check_schema_def Let_def SQL_SCHEMA_VERSION_def INIT_SQL_SCHEMA_VERSION_def add_column_def)
    moreover have "complete_db ?r"
      using dom by (auto simp: complete_db_def SQL_SCHEMA_VERSION_def update_keys update_conv')
    moreover have "\<exists>more. map_of (db_tables ?r) t = Some (cs @ more)" if "map_of (db_tables db) t = Some cs" for t cs
      using create_tables_keeps [OF that] that old(3) by (auto simp: update_conv')
    ultimately show thesis using that by blast
  next
    case current
    let ?r = "(create_tables db)\<lparr>db_indices := db_indices db @ filter (\<lambda>i. i \<notin> set (db_indices db)) index_names\<rparr>"
    have "check_schema db = Inr ?r" using current by (simp add: check_schema_def Let_def SQL_SCHEMA_VERSION_def)
    moreover have "complete_db ?r"
      using dom current create_tables_keeps [OF current(3)] by (auto simp: complete_db_def SQL_SCHEMA_VERSION_def)
    ultimately show thesis using that create_tables_keeps [of db] by force
  qed
qed

lemma check_schema_idle: "complete_db db \<Longrightarrow> check_schema db = Inr db"
proof -
  assume c: "complete_db db"
  then have "filter (\<lambda>i. i \<notin> set (db_indices db)) index_names = []" by (auto simp: complete_db_def filter_empty_conv)
  with c show ?thesis
    using create_tables_done [of db] by (simp add: check_schema_def Let_def complete_db_def)
qed

text \<open>C12: checking the schema brings every supported database to the current version: all tables and indices
  exist, the service table has the ignore flag, the columns of existing tables are kept, and a second
  check changes nothing.\<close>

theorem check_schema_upgrades:
  assumes "supported_db db"
  shows "\<exists>db'. check_schema db = Inr db' \<and> complete_db db' \<and> check_schema db' = Inr db' \<and>
     (\<forall>t cols. map_of (db_tables db) t = Some cols \<longrightarrow> (\<exists>more. map_of (db_tables db') t = Some (cols @ more)))"
  using check_schema_complete [OF assms] check_schema_idle by metis

theorem check_schema_upgrades_witness:
  "\<exists>db'. check_schema \<lparr>db_tables = [(''service'', [''idx'', ''name''])], db_version = [], db_indices = []\<rparr> = Inr db' \<and> complete_db db'"
  using check_schema_upgrades [of "\<lparr>db_tables = [(''service'', [''idx'', ''name''])], db_version = [], db_indices = []\<rparr>"]
  by (auto simp: supported_db_def)

text \<open>A first start that was interrupted after the creation of the service table, but before the version was
  recorded, leaves a database no later start can use: the check takes it for an old one and fails adding
  a column that exists, and it fails again on what it leaves behind.\<close>

theorem check_schema_interrupted:
  assumes "db_version db = []" and "map_of (db_tables db) ''service'' = map_of table_dict ''service''"
  shows "check_schema db = Inl OperationalError \<and> check_schema (create_tables db) = Inl OperationalError"
proof -
  obtain cols where cols: "map_of table_dict ''service'' = Some cols" "''ignore'' \<in> set cols" by (simp add: table_dict_def)
  have fail: "check_schema d = Inl OperationalError"
    if "db_version d = []" "map_of (db_tables d) ''service'' = Some cols" for d
    using that create_tables_keeps [OF that(2)] cols
    by (auto simp: check_schema_def Let_def add_column_def INIT_SQL_SCHEMA_VERSION_def SQL_SCHEMA_VERSION_def)
  from fail [of db] fail [of "create_tables db"] create_tables_keeps [of db "''service''"] assms cols show ?thesis by simp
qed

theorem check_schema_interrupted_witness:
  "check_schema \<lparr>db_tables = take 2 table_dict, db_version = [], db_indices = []\<rparr> = Inl OperationalError"
  using check_schema_interrupted [of "\<lparr>db_tables = take 2 table_dict, db_version = [], db_indices = []\<rparr>"]
  by (simp add: table_dict_def)

end
