(* ===== verification/Service_Constants.thy ===== *)
theory Service_Constants
  imports Prelude
begin

section \<open>Service constants and the action table\<close>

text \<open>
  The state constants of initat/icsw/service/constants.py with the label dictionaries computed
  from the module's names, and the decision table \<open>ServiceActionState\<close> of
  initat/meta_server/servicestate.py: a dictionary from (target, process, configured, license)
  state tuples to an action, filled by \<open>add_state\<close> from partial specifications in the order of
  \<open>init_sas\<close>. The lemmas give the table in closed form and the safety facts the meta-server
  relies on.
\<close>

subsection \<open>The constants\<close>

text \<open>The integer constants of the module in the order of their assignments.\<close>

definition module_locals :: "(string \<times> int) list" where
  "module_locals =
     [(''SERVICE_OK'', 0), (''SERVICE_DEAD'', 1), (''SERVICE_INCOMPLETE'', 2),
      (''SERVICE_NOT_INSTALLED'', 3), (''SERVICE_NOT_CONFIGURED'', 4),
      (''CONF_STATE_RUN'', 0), (''CONF_STATE_STOP'', 1), (''CONF_STATE_IP_MISMATCH'', 2),
      (''CONF_STATE_MODELS_CHANGED'', 3),
      (''LIC_STATE_VIOLATED'', 120), (''LIC_STATE_VALID'', 100), (''LIC_STATE_GRACE'', 80),
      (''LIC_STATE_NEW_INSTALL'', 60), (''LIC_STATE_EXPIRED'', 40), (''LIC_STATE_VALID_IN_FUTURE'', 20),
      (''LIC_STATE_NONE'', 0), (''LIC_STATE_NOT_NEEDED'', -1), (''LIC_STATE_FP_MISMATCH'', 300),
      (''TARGET_STATE_STOPPED'', 0), (''TARGET_STATE_RUNNING'', 1)]"

abbreviation SERVICE_OK :: int where "SERVICE_OK \<equiv> 0"
abbreviation SERVICE_DEAD :: int where "SERVICE_DEAD \<equiv> 1"
abbreviation SERVICE_INCOMPLETE :: int where "SERVICE_INCOMPLETE \<equiv> 2"
abbreviation SERVICE_NOT_INSTALLED :: int where "SERVICE_NOT_INSTALLED \<equiv> 3"
abbreviation SERVICE_NOT_CONFIGURED :: int where "SERVICE_NOT_CONFIGURED \<equiv> 4"
abbreviation CONF_STATE_RUN :: int where "CONF_STATE_RUN \<equiv> 0"
abbreviation CONF_STATE_STOP :: int where "CONF_STATE_STOP \<equiv> 1"
abbreviation CONF_STATE_IP_MISMATCH :: int where "CONF_STATE_IP_MISMATCH \<equiv> 2"
abbreviation CONF_STATE_MODELS_CHANGED :: int where "CONF_STATE_MODELS_CHANGED \<equiv> 3"
abbreviation LIC_STATE_VIOLATED :: int where "LIC_STATE_VIOLATED \<equiv> 120"
abbreviation LIC_STATE_VALID :: int where "LIC_STATE_VALID \<equiv> 100"
abbreviation LIC_STATE_GRACE :: int where "LIC_STATE_GRACE \<equiv> 80"
abbreviation LIC_STATE_NEW_INSTALL :: int where "LIC_STATE_NEW_INSTALL \<equiv> 60"
abbreviation LIC_STATE_EXPIRED :: int where "LIC_STATE_EXPIRED \<equiv> 40"
abbreviation LIC_STATE_VALID_IN_FUTURE :: int where "LIC_STATE_VALID_IN_FUTURE \<equiv> 20"
abbreviation LIC_STATE_NONE :: int where "LIC_STATE_NONE \<equiv> 0"
abbreviation LIC_STATE_NOT_NEEDED :: int where "LIC_STATE_NOT_NEEDED \<equiv> -1"
abbreviation LIC_STATE_FP_MISMATCH :: int where "LIC_STATE_FP_MISMATCH \<equiv> 300"
abbreviation TARGET_STATE_STOPPED :: int where "TARGET_STATE_STOPPED \<equiv> 0"
abbreviation TARGET_STATE_RUNNING :: int where "TARGET_STATE_RUNNING \<equiv> 1"

text \<open>\<open>key.split("_", n)[n].lower().replace("_", " ")\<close>\<close>

definition to_lower :: "char \<Rightarrow> char" where
  "to_lower c = (let n = (of_char c :: nat) in if 65 \<le> n \<and> n \<le> 90 then char_of (n + 32) else c)"

definition dict_label :: "nat \<Rightarrow> string \<Rightarrow> string" where
  "dict_label n key =
     map (\<lambda>c. if c = CHR ''_'' then CHR '' '' else to_lower c) (py_join ''_'' (drop n (py_split CHR ''_'' key)))"

definition const_dict :: "string \<Rightarrow> nat \<Rightarrow> (int \<times> string) list" where
  "const_dict pre n = map (\<lambda>(k, v). (v, dict_label n k)) (filter (\<lambda>(k, v). startswith k pre) module_locals)"

definition STATE_DICT :: "(int \<times> string) list" where
  "STATE_DICT = const_dict ''SERVICE_'' 1"

definition LIC_STATE_DICT :: "(int \<times> string) list" where
  "LIC_STATE_DICT = const_dict ''LIC_STATE_'' 2"

definition CONF_STATE_DICT :: "(int \<times> string) list" where
  "CONF_STATE_DICT = const_dict ''CONF_STATE_'' 2"

definition TARGET_STATE_DICT :: "(int \<times> string) list" where
  "TARGET_STATE_DICT = const_dict ''TARGET_STATE_'' 2"

lemma STATE_DICT_eq:
  "STATE_DICT = [(0, ''ok''), (1, ''dead''), (2, ''incomplete''), (3, ''not installed''), (4, ''not configured'')]"
  by code_simp

lemma LIC_STATE_DICT_eq:
  "LIC_STATE_DICT =
     [(120, ''violated''), (100, ''valid''), (80, ''grace''), (60, ''new install''), (40, ''expired''),
      (20, ''valid in future''), (0, ''none''), (-1, ''not needed''), (300, ''fp mismatch'')]"
  by code_simp

lemma CONF_STATE_DICT_eq:
  "CONF_STATE_DICT = [(0, ''run''), (1, ''stop''), (2, ''ip mismatch''), (3, ''models changed'')]"
  by code_simp

lemma TARGET_STATE_DICT_eq: "TARGET_STATE_DICT = [(0, ''stopped''), (1, ''running'')]"
  by code_simp

lemmas state_dict_eqs = STATE_DICT_eq LIC_STATE_DICT_eq CONF_STATE_DICT_eq TARGET_STATE_DICT_eq

subsection \<open>The decision table\<close>

text \<open>A specification: for each key a list of states, or None where the state does not matter.\<close>

record sas =
  sas_target :: "int list option"
  sas_process :: "int list option"
  sas_configured :: "int list option"
  sas_license :: "int list option"
  sas_action :: string

text \<open>\<open>ServiceActionState.mapping\<close>: iterating a dictionary gives its keys.\<close>

definition sas_vals :: "sas \<Rightarrow> int list list" where
  "sas_vals s =
     [case sas_target s of None \<Rightarrow> map fst TARGET_STATE_DICT | Some vs \<Rightarrow> vs,
      case sas_process s of None \<Rightarrow> map fst STATE_DICT | Some vs \<Rightarrow> vs,
      case sas_configured s of None \<Rightarrow> map fst CONF_STATE_DICT | Some vs \<Rightarrow> vs,
      case sas_license s of None \<Rightarrow> map fst LIC_STATE_DICT | Some vs \<Rightarrow> vs]"

definition als_step :: "int list list \<Rightarrow> int list \<Rightarrow> int list list" where
  "als_step als vals =
     (if als = [] then map (\<lambda>v. [v]) vals else concat (map (\<lambda>pl. map (\<lambda>v. pl @ [v]) vals) als))"

definition sas_tuples :: "sas \<Rightarrow> int list list" where
  "sas_tuples s = foldl als_step [] (sas_vals s)"

type_synonym d_dict = "(int list \<times> string) list"

definition add_state :: "d_dict \<Rightarrow> sas \<Rightarrow> d_dict" where
  "add_state d s = fold (\<lambda>t d. AList.update t (sas_action s) d) (sas_tuples s) d"

definition sas_specs :: "sas list" where
  "sas_specs =
     [\<lparr>sas_target = Some [TARGET_STATE_RUNNING], sas_process = Some [SERVICE_OK],
       sas_configured = Some [CONF_STATE_RUN],
       sas_license = Some [LIC_STATE_VALID, LIC_STATE_NOT_NEEDED, LIC_STATE_GRACE],
       sas_action = ''keep''\<rparr>,
      \<lparr>sas_target = Some [TARGET_STATE_RUNNING], sas_process = Some [SERVICE_DEAD],
       sas_configured = Some [CONF_STATE_STOP, CONF_STATE_IP_MISMATCH],
       sas_license = Some [LIC_STATE_VIOLATED, LIC_STATE_EXPIRED, LIC_STATE_VALID_IN_FUTURE, LIC_STATE_NONE],
       sas_action = ''keep''\<rparr>,
      \<lparr>sas_target = Some [TARGET_STATE_RUNNING],
       sas_process = Some [SERVICE_INCOMPLETE, SERVICE_NOT_INSTALLED, SERVICE_DEAD],
       sas_configured = Some [CONF_STATE_RUN],
       sas_license = Some [LIC_STATE_VALID, LIC_STATE_NOT_NEEDED, LIC_STATE_GRACE],
       sas_action = ''start''\<rparr>,
      \<lparr>sas_target = Some [TARGET_STATE_RUNNING],
       sas_process = Some [SERVICE_OK, SERVICE_INCOMPLETE],
       sas_configured = Some [CONF_STATE_STOP, CONF_STATE_IP_MISMATCH, CONF_STATE_MODELS_CHANGED],
       sas_license = None,
       sas_action = ''stop''\<rparr>,
      \<lparr>sas_target = Some [TARGET_STATE_STOPPED],
       sas_process = Some [SERVICE_DEAD, SERVICE_NOT_INSTALLED, SERVICE_NOT_CONFIGURED],
       sas_configured = None, sas_license = None,
       sas_action = ''keep''\<rparr>,
      \<lparr>sas_target = Some [TARGET_STATE_STOPPED],
       sas_process = Some [SERVICE_INCOMPLETE, SERVICE_OK],
       sas_configured = None, sas_license = None,
       sas_action = ''stop''\<rparr>]"

definition init_sas :: d_dict where
  "init_sas = foldl add_state [] sas_specs"

definition get_action :: "d_dict \<Rightarrow> int list \<Rightarrow> string" where
  "get_action d t = (case map_of d t of None \<Rightarrow> ''keep'' | Some a \<Rightarrow> a)"

type_synonym state4 = "int \<times> int \<times> int \<times> int"

definition check_current_state :: "state4 \<Rightarrow> bool \<times> string" where
  "check_current_state ct =
     (case ct of (t, p, c, l) \<Rightarrow> let a = get_action init_sas [t, p, c, l] in (a = ''keep'', a))"

subsection \<open>The table in closed form\<close>

lemma map_of_fold_update:
  "map_of (fold (\<lambda>t d. AList.update t a d) ts d) k = (if k \<in> set ts then Some a else map_of d k)"
  by (induction ts arbitrary: d) (auto simp: update_conv')

definition sas_matches :: "sas \<Rightarrow> int list \<Rightarrow> bool" where
  "sas_matches s k \<longleftrightarrow> list_all2 (\<lambda>x vs. x \<in> set vs) k (sas_vals s)"

lemma map_of_add_state:
  "map_of (add_state d s) k = (if k \<in> set (sas_tuples s) then Some (sas_action s) else map_of d k)"
  by (simp add: add_state_def map_of_fold_update)

lemma set_als_step_Nil [simp]: "set (als_step [] vals) = {[v] |v. v \<in> set vals}"
  by (auto simp: als_step_def)

lemma set_als_step:
  "als \<noteq> [] \<Longrightarrow> set (als_step als vals) = {pl @ [v] |pl v. pl \<in> set als \<and> v \<in> set vals}"
  by (auto simp: als_step_def)

lemma sas_tuples_iff:
  assumes "list_all (\<lambda>vs. vs \<noteq> []) (sas_vals s)"
  shows "[t, p, c, l] \<in> set (sas_tuples s) \<longleftrightarrow> sas_matches s [t, p, c, l]"
proof -
  obtain a b g h where v: "sas_vals s = [a, b, g, h]" by (simp add: sas_vals_def)
  with assms have ne: "a \<noteq> []" "b \<noteq> []" "g \<noteq> []" "h \<noteq> []" by simp_all
  have nonempty: "als_step als vals \<noteq> []" if "vals \<noteq> []" for als vals
    using that by (cases als; cases vals) (auto simp: als_step_def)
  have "set (sas_tuples s) = {[x, y, z, w] |x y z w. x \<in> set a \<and> y \<in> set b \<and> z \<in> set g \<and> w \<in> set h}"
    by (simp add: sas_tuples_def v set_als_step nonempty ne) force
  then show ?thesis by (auto simp: sas_matches_def v)
qed

lemma sas_specs_nonempty: "s \<in> set sas_specs \<Longrightarrow> list_all (\<lambda>vs. vs \<noteq> []) (sas_vals s)"
  by (auto simp: sas_specs_def sas_vals_def state_dict_eqs)

lemma map_of_init_sas:
  "map_of (foldl add_state [] ss) k =
     map_option sas_action (find (\<lambda>s. k \<in> set (sas_tuples s)) (rev ss))"
proof (induction ss rule: rev_induct)
  case Nil
  then show ?case by simp
next
  case (snoc s ss)
  then show ?case by (simp add: map_of_add_state)
qed

text \<open>All entries of the table, for states drawn from the label dictionaries.\<close>

definition known_states :: "state4 \<Rightarrow> bool" where
  "known_states ct \<longleftrightarrow>
     (case ct of (t, p, c, l) \<Rightarrow> t \<in> fst ` set TARGET_STATE_DICT \<and> p \<in> fst ` set STATE_DICT \<and>
        c \<in> fst ` set CONF_STATE_DICT \<and> l \<in> fst ` set LIC_STATE_DICT)"

definition action_spec :: "state4 \<Rightarrow> string" where
  "action_spec ct =
     (case ct of (t, p, c, l) \<Rightarrow>
        if t = TARGET_STATE_STOPPED then
          (if p \<in> {SERVICE_OK, SERVICE_INCOMPLETE} then ''stop'' else ''keep'')
        else if c = CONF_STATE_RUN then
          (if p \<in> {SERVICE_DEAD, SERVICE_INCOMPLETE, SERVICE_NOT_INSTALLED}
              \<and> l \<in> {LIC_STATE_VALID, LIC_STATE_GRACE, LIC_STATE_NOT_NEEDED} then ''start'' else ''keep'')
        else (if p \<in> {SERVICE_OK, SERVICE_INCOMPLETE} then ''stop'' else ''keep''))"

lemma get_action_find:
  "get_action init_sas [t, p, c, l] =
     (case find (\<lambda>s. sas_matches s [t, p, c, l]) (rev sas_specs) of None \<Rightarrow> ''keep'' | Some s \<Rightarrow> sas_action s)"
proof -
  have "find (\<lambda>s. [t, p, c, l] \<in> set (sas_tuples s)) (rev sas_specs) =
      find (\<lambda>s. sas_matches s [t, p, c, l]) (rev sas_specs)"
    by (intro find_cong refl sas_tuples_iff sas_specs_nonempty) simp
  then show ?thesis
    by (simp add: get_action_def init_sas_def map_of_init_sas split: option.splits)
qed

text \<open>The table need not be built to look up one combination, nor the label dictionaries to read a label.\<close>

declare state_dict_eqs [code]

lemma check_current_state_code [code]:
  "check_current_state (t, p, c, l) =
     (let a = (case find (\<lambda>s. sas_matches s [t, p, c, l]) (rev sas_specs) of None \<Rightarrow> ''keep'' | Some s \<Rightarrow> sas_action s)
      in (a = ''keep'', a))"
  by (simp add: check_current_state_def get_action_find Let_def)

text \<open>For every combination of known states the action table gives exactly this decision: services
  which should be stopped are stopped when they run (also partially), services which should run are
  started when they are configured, licensed and not completely running, and stopped when they are not
  configured here; in all other cases nothing happens, and the state counts as stable in exactly those.\<close>

theorem action_table:
  assumes "known_states ct"
  shows "check_current_state ct = (action_spec ct = ''keep'', action_spec ct)"
proof -
  obtain t p c l where ct: "ct = (t, p, c, l)" by (cases ct) auto
  have "get_action init_sas [t, p, c, l] = action_spec ct"
    using assms unfolding get_action_find ct
    by (auto simp: sas_specs_def sas_matches_def sas_vals_def state_dict_eqs known_states_def action_spec_def)
  then show ?thesis by (simp add: check_current_state_def ct Let_def)
qed

theorem action_table_witness:
  "check_current_state (1, 1, 0, 100) = (action_spec (1, 1, 0, 100) = ''keep'', action_spec (1, 1, 0, 100))"
  by (rule action_table) (simp add: known_states_def state_dict_eqs)

end
