(* ===== verification/Instance_Xml.thy ===== *)
theory Instance_Xml
  imports Service_Constants
begin

section \<open>Service instances (initat/icsw/service/instance.py)\<close>

text \<open>
  \<open>InstanceXML\<close> collects the service descriptions of the XML files under servers.d. An XML
  \<open>instance\<close> element is a record of the attributes and children the sources read; the children
  written at run time (the \<open>result\<close> element of a service check) are a field of it. Elements are
  mutable and shared between the tree and the lookup tables, so the tables hold positions in the
  tree. Reading, RelaxNG validation and parsing of the files is lxml's work: the model starts from
  the parsed files, with the verdict of the validator as a field.
\<close>

subsection \<open>Elements\<close>

record psi =
  psi_text :: string
  psi_state :: int
  psi_source :: "string option"
  psi_info_str :: "string option"
  psi_num_started :: "int option"
  psi_num_found :: "int option"
  psi_num_diff :: "int option"
  psi_start_time :: "int option"
  psi_diff_info :: "(int \<times> int) list"

record pid_el =
  pe_pid :: int
  pe_count :: nat
  pe_main :: bool

record check_result =
  cr_psi :: "psi option"
  cr_pids :: "pid_el list"
  cr_memory :: "(int \<times> (string \<times> int) list) option"
  cr_meta :: "(int \<times> int) option"
  cr_configured :: "int option"
  cr_config_info :: string
  cr_license :: "int option"
  cr_version_ok :: "bool option"
  cr_version :: "string option"

record access_dir =
  ad_path :: string
  ad_create :: string
  ad_recursive :: string
  ad_mask :: "string option"
  ad_user :: string
  ad_group :: string

record instance_el =
  el_attrib :: "(string \<times> string) list"
  el_config_enums :: "string list"
  el_required_ips :: "string list"
  el_required_license :: "string option"
  el_ignore_missing_db :: bool
  el_needed_for_start :: "(string \<times> string option) list"
  el_old_binary :: "string option"
  el_prog_title :: "string option"
  el_prog_name :: "string option"
  el_module_name :: "string option"
  el_args :: "(string \<times> string) list"
  el_nice_level :: "string option"
  el_access_dirs :: "access_dir list"
  el_access_files :: "(string \<times> string \<times> string) list"
  el_ports :: "(string option \<times> string) list"
  el_node_split :: bool
  el_result :: "check_result option"

definition el_attr :: "instance_el \<Rightarrow> string \<Rightarrow> string res" where
  "el_attr el key = dict_get key (el_attrib el)"

text \<open>The name attribute; the schema makes it mandatory, so a missing one reads as empty.\<close>

definition el_name :: "instance_el \<Rightarrow> string" where
  "el_name el = (case map_of (el_attrib el) ''name'' of None \<Rightarrow> [] | Some n \<Rightarrow> n)"

subsection \<open>Validation\<close>

definition IGNORE_MD5S :: "string list" where
  "IGNORE_MD5S = [''39939c77aa728b14cd26ee10b7070401'', ''f06717b8d1334fe1e6ced9ee1f7cb9df'']"

text \<open>A parsed file: its md5 sum, the verdict of the RelaxNG schema for its kind and its content.\<close>

record xml_file =
  xf_name :: string
  xf_md5 :: string
  xf_ng_valid :: bool
  xf_overlay :: "string option"
  xf_instances :: "instance_el list"

definition relax_validate :: "xml_file \<Rightarrow> bool" where
  "relax_validate f = (if xf_md5 f \<in> set IGNORE_MD5S then True else xf_ng_valid f)"

definition is_overlay :: "xml_file \<Rightarrow> bool res" where
  "is_overlay f =
     bind_r (py_int (case xf_overlay f of None \<Rightarrow> ''0'' | Some v \<Rightarrow> v)) (\<lambda>i. Inr (i \<noteq> 0))"

subsection \<open>Reading\<close>

record instance_xml =
  ix_tree :: "instance_el list"
  ix_lut :: "(string \<times> nat) list"
  ix_enum_lut :: "(string \<times> nat) list"
  ix_alias_lut :: "(string \<times> string) list"
  ix_needed_for_start :: "(string \<times> string list) list"
  ix_needed_for_stop :: "(string \<times> string list) list"

definition empty_xml :: instance_xml where
  "empty_xml = \<lparr>ix_tree = [], ix_lut = [], ix_enum_lut = [], ix_alias_lut = [],
     ix_needed_for_start = [], ix_needed_for_stop = []\<rparr>"

definition IGNORE_DUPS :: "string list" where
  "IGNORE_DUPS = [''memcached'']"

definition alias_names :: "instance_el \<Rightarrow> string list" where
  "alias_names el =
     (case map_of (el_attrib el) ''alias'' of None \<Rightarrow> [] | Some a \<Rightarrow> py_split CHR '','' a)"

fun add_names :: "nat \<Rightarrow> string list \<Rightarrow> (string \<times> nat) list \<Rightarrow> (string \<times> nat) list res" where
  "add_names i [] lut = Inr lut"
| "add_names i (n # ns) lut =
     (case map_of lut n of
        Some _ \<Rightarrow> if n \<in> set IGNORE_DUPS then add_names i ns lut else Inl KeyError
      | None \<Rightarrow> add_names i ns (AList.update n i lut))"

text \<open>One \<open>sub_inst\<close> of a file. \<open>enums\<close> are the texts of the \<open>config-enum\<close> elements which are still in
  the tree of the file at that moment: the XPath expression is evaluated on the file's tree, and
  \<open>tree.append\<close> moves every handled instance out of it.\<close>

definition add_instance :: "string list \<Rightarrow> instance_xml \<Rightarrow> instance_el \<Rightarrow> instance_xml res" where
  "add_instance enums ix el =
     (let i = length (ix_tree ix) in
      bind_r (el_attr el ''name'') (\<lambda>name.
      bind_r (add_names i (name # alias_names el) (ix_lut ix)) (\<lambda>lut.
        Inr (ix\<lparr>ix_alias_lut := fold (\<lambda>a d. AList.update a name d) (alias_names el) (ix_alias_lut ix),
                ix_lut := lut,
                ix_enum_lut := fold (\<lambda>e d. AList.update e i d) enums (ix_enum_lut ix),
                ix_tree := ix_tree ix @ [el]\<rparr>))))"

fun add_instances :: "instance_xml \<Rightarrow> instance_el list \<Rightarrow> instance_xml res" where
  "add_instances ix [] = Inr ix"
| "add_instances ix (el # els) =
     bind_r (add_instance (concat (map el_config_enums (el # els))) ix el) (\<lambda>ix'. add_instances ix' els)"

fun add_files :: "instance_xml \<Rightarrow> xml_file list \<Rightarrow> instance_xml res" where
  "add_files ix [] = Inr ix"
| "add_files ix (f # fs) = bind_r (add_instances ix (xf_instances f)) (\<lambda>ix'. add_files ix' fs)"

text \<open>Appending the children of an overlay instance: lists are extended, and the first of two
  elements of the same name is the one later lookups find.\<close>

definition or_else :: "'a option \<Rightarrow> 'a option \<Rightarrow> 'a option" where
  "or_else a b = (case a of None \<Rightarrow> b | Some x \<Rightarrow> Some x)"

definition merge_overlay :: "instance_el \<Rightarrow> instance_el \<Rightarrow> instance_el" where
  "merge_overlay m ov =
     m\<lparr>el_config_enums := el_config_enums m @ el_config_enums ov,
       el_required_ips := el_required_ips m @ el_required_ips ov,
       el_required_license := or_else (el_required_license m) (el_required_license ov),
       el_ignore_missing_db := el_ignore_missing_db m \<or> el_ignore_missing_db ov,
       el_needed_for_start := el_needed_for_start m @ el_needed_for_start ov,
       el_old_binary := or_else (el_old_binary m) (el_old_binary ov),
       el_prog_title := or_else (el_prog_title m) (el_prog_title ov),
       el_prog_name := or_else (el_prog_name m) (el_prog_name ov),
       el_module_name := or_else (el_module_name m) (el_module_name ov),
       el_args := el_args m @ el_args ov,
       el_nice_level := or_else (el_nice_level m) (el_nice_level ov),
       el_access_dirs := el_access_dirs m @ el_access_dirs ov,
       el_access_files := el_access_files m @ el_access_files ov,
       el_ports := el_ports m @ el_ports ov,
       el_node_split := el_node_split m \<or> el_node_split ov\<rparr>"

fun overlay_tree :: "instance_el list \<Rightarrow> instance_el \<Rightarrow> instance_el list" where
  "overlay_tree [] ov = []"
| "overlay_tree (m # ms) ov =
     (if el_name m = el_name ov then merge_overlay m ov # ms else m # overlay_tree ms ov)"

definition apply_overlays :: "instance_xml \<Rightarrow> xml_file list \<Rightarrow> instance_xml" where
  "apply_overlays ix ovs =
     ix\<lparr>ix_tree := fold (\<lambda>ov tree. overlay_tree tree ov) (concat (map xf_instances ovs)) (ix_tree ix)\<rparr>"

definition append_to :: "string \<Rightarrow> string \<Rightarrow> (string \<times> string list) list \<Rightarrow> (string \<times> string list) list" where
  "append_to k v d = AList.update k ((case map_of d k of None \<Rightarrow> [] | Some vs \<Rightarrow> vs) @ [v]) d"

definition add_need :: "string \<Rightarrow> string \<Rightarrow> bool \<Rightarrow> instance_xml \<Rightarrow> instance_xml" where
  "add_need inst_name need symm ix =
     ix\<lparr>ix_needed_for_start := append_to inst_name need (ix_needed_for_start ix),
        ix_needed_for_stop :=
          (if symm then append_to need inst_name (ix_needed_for_stop ix) else ix_needed_for_stop ix)\<rparr>"

fun add_needs ::
  "instance_el list \<Rightarrow> string \<Rightarrow> (string \<times> string option) list \<Rightarrow> instance_xml \<Rightarrow> instance_xml res" where
  "add_needs tree inst_name [] ix = Inr ix"
| "add_needs tree inst_name ((need, symm) # needs) ix =
     bind_r (py_int (case symm of None \<Rightarrow> ''0'' | Some v \<Rightarrow> v)) (\<lambda>s.
       if need \<notin> set (map el_name tree) then Inl KeyError
       else if need = inst_name then Inl KeyError
       else add_needs tree inst_name needs (add_need inst_name need (s \<noteq> 0) ix))"

fun add_all_needs :: "instance_el list \<Rightarrow> instance_el list \<Rightarrow> instance_xml \<Rightarrow> instance_xml res" where
  "add_all_needs tree [] ix = Inr ix"
| "add_all_needs tree (el # els) ix =
     bind_r (add_needs tree (el_name el) (el_needed_for_start el) ix) (add_all_needs tree els)"

definition build_dependency_dict :: "instance_xml \<Rightarrow> instance_xml res" where
  "build_dependency_dict ix =
     add_all_needs (ix_tree ix) (ix_tree ix) (ix\<lparr>ix_needed_for_start := [], ix_needed_for_stop := []\<rparr>)"

text \<open>\<open>read\<close>. The list holds the files that could be parsed in the order in which the dictionary of
  trees is iterated; \<open>ord\<close> is the order in which a set of names is iterated.\<close>

definition read_xml :: "(string list \<Rightarrow> string list) \<Rightarrow> xml_file list \<Rightarrow> instance_xml res" where
  "read_xml ord files =
     bind_r (mapM_r is_overlay files) (\<lambda>flags.
       let insts = map fst (filter (\<lambda>(f, ov). \<not> ov) (zip files flags));
           ovs = map fst (filter snd (zip files flags))
       in if \<not> list_all relax_validate insts then Inl ValueError
          else
            let keys = ord (map xf_name insts);
                ov_keys = ord (map xf_name (filter relax_validate ovs));
                keys' = filter (\<lambda>k. k = ''client.xml'') keys @ filter (\<lambda>k. k \<noteq> ''client.xml'') keys;
                by_name = (\<lambda>fs k. filter (\<lambda>f. xf_name f = k) fs)
            in bind_r (add_files empty_xml (concat (map (by_name insts) keys'))) (\<lambda>ix.
               build_dependency_dict (apply_overlays ix (concat (map (by_name ovs) ov_keys)))))"

subsection \<open>Accessors\<close>

definition get_start_dependencies :: "instance_xml \<Rightarrow> string \<Rightarrow> string list" where
  "get_start_dependencies ix n = (case map_of (ix_needed_for_start ix) n of None \<Rightarrow> [] | Some ds \<Rightarrow> ds)"

definition get_stop_dependencies :: "instance_xml \<Rightarrow> string \<Rightarrow> string list" where
  "get_stop_dependencies ix n = (case map_of (ix_needed_for_stop ix) n of None \<Rightarrow> [] | Some ds \<Rightarrow> ds)"

definition ix_contains :: "instance_xml \<Rightarrow> string \<Rightarrow> bool" where
  "ix_contains ix n \<longleftrightarrow> map_of (ix_lut ix) n \<noteq> None"

definition ix_getitem :: "instance_xml \<Rightarrow> string \<Rightarrow> nat res" where
  "ix_getitem ix n = dict_get n (ix_lut ix)"

definition resolve_enum :: "instance_xml \<Rightarrow> string \<Rightarrow> nat res" where
  "resolve_enum ix e = dict_get e (ix_enum_lut ix)"

text \<open>The decorator \<open>ResolveInstance\<close>: a name, an enum member or an element.\<close>

datatype inst_ref = RefName string | RefEnum string | RefEl nat

fun resolve_instance :: "instance_xml \<Rightarrow> inst_ref \<Rightarrow> instance_el res" where
  "resolve_instance ix (RefName n) = bind_r (ix_getitem ix n) (list_get (ix_tree ix))"
| "resolve_instance ix (RefEnum e) = bind_r (resolve_enum ix e) (list_get (ix_tree ix))"
| "resolve_instance ix (RefEl i) = list_get (ix_tree ix) i"

definition get_config_enums :: "instance_xml \<Rightarrow> inst_ref \<Rightarrow> string list res" where
  "get_config_enums ix r = bind_r (resolve_instance ix r) (\<lambda>el. Inr (el_config_enums el))"

definition get_pid_file_name :: "instance_xml \<Rightarrow> inst_ref \<Rightarrow> string res" where
  "get_pid_file_name ix r = bind_r (resolve_instance ix r) (\<lambda>el. el_attr el ''pid_file_name'')"

definition get_attrib :: "instance_xml \<Rightarrow> inst_ref \<Rightarrow> (string \<times> string) list res" where
  "get_attrib ix r = bind_r (resolve_instance ix r) (\<lambda>el. Inr (el_attrib el))"

definition do_node_split :: "instance_xml \<Rightarrow> inst_ref \<Rightarrow> bool res" where
  "do_node_split ix r = bind_r (resolve_instance ix r) (\<lambda>el. Inr (el_node_split el))"

definition get_uuid_postfix :: "instance_xml \<Rightarrow> inst_ref \<Rightarrow> string res" where
  "get_uuid_postfix ix r = bind_r (resolve_instance ix r) (\<lambda>el. el_attr el ''uuid-postfix'')"

datatype port_result = Port int | PortDict "(string \<times> int) list"

definition port_dict :: "instance_el \<Rightarrow> (string \<times> int) list res" where
  "port_dict el =
     foldl (\<lambda>acc (ty, tx). bind_r acc (\<lambda>d. bind_r (py_int tx) (\<lambda>p.
         Inr (AList.update (case ty of None \<Rightarrow> ''command'' | Some t \<Rightarrow> t) p d))))
       (Inr []) (el_ports el)"

definition get_port_dict :: "instance_xml \<Rightarrow> inst_ref \<Rightarrow> string option \<Rightarrow> bool \<Rightarrow> port_result res" where
  "get_port_dict ix r ptype command =
     bind_r (resolve_instance ix r) (\<lambda>el. bind_r (port_dict el) (\<lambda>pd.
       if command then
         (case pd of
            [(_, p)] \<Rightarrow> Inr (Port p)
          | _ \<Rightarrow> bind_r (dict_get ''command'' pd) (\<lambda>p. Inr (Port p)))
       else (case ptype of
          Some (t # ts) \<Rightarrow> bind_r (dict_get (t # ts) pd) (\<lambda>p. Inr (Port p))
        | _ \<Rightarrow> Inr (PortDict pd))))"

definition norm_defaults :: "string \<Rightarrow> (string \<times> string) list" where
  "norm_defaults name =
     [(''runs_on'', ''server''), (''any-processes-ok'', ''0''), (''pid_file_name'', name @ ''.pid''),
      (''init_script_name'', name), (''startstop'', ''1''), (''process_name'', name), (''wait_time'', ''10'')]"

definition add_default :: "string \<times> string \<Rightarrow> (string \<times> string) list \<Rightarrow> (string \<times> string) list" where
  "add_default kv d = (case map_of d (fst kv) of None \<Rightarrow> AList.update (fst kv) (snd kv) d | Some _ \<Rightarrow> d)"

definition normalize_el :: "instance_el \<Rightarrow> instance_el" where
  "normalize_el el = el\<lparr>el_attrib := fold add_default (norm_defaults (el_name el)) (el_attrib el)\<rparr>"

definition normalize :: "instance_xml \<Rightarrow> instance_xml" where
  "normalize ix = ix\<lparr>ix_tree := map normalize_el (ix_tree ix)\<rparr>"

text \<open>The constructor and \<open>reread\<close>.\<close>

definition new_instance_xml :: "(string list \<Rightarrow> string list) \<Rightarrow> xml_file list \<Rightarrow> instance_xml res" where
  "new_instance_xml ord files = bind_r (read_xml ord files) (\<lambda>ix. Inr (normalize ix))"

subsection \<open>The lookup tables\<close>

text \<open>The names an element answers to, and what the tables promise: every entry points to an element
  with that name, and every name of an element is found again, at that very element unless it is one
  of the tolerated duplicates.\<close>

definition names_of :: "instance_el \<Rightarrow> string list" where
  "names_of el = el_name el # alias_names el"

definition lut_ok :: "instance_el list \<Rightarrow> (string \<times> nat) list \<Rightarrow> bool" where
  "lut_ok tree lut \<longleftrightarrow>
     (\<forall>n i. map_of lut n = Some i \<longrightarrow> i < length tree \<and> n \<in> set (names_of (tree ! i))) \<and>
     (\<forall>i < length tree. \<forall>n \<in> set (names_of (tree ! i)).
        \<exists>j. map_of lut n = Some j \<and> (j = i \<or> n \<in> set IGNORE_DUPS))"

text \<open>Enums point to an element that declares them, up to the enums of the instances \<open>pend\<close> of the
  current file that have not been handled yet.\<close>

definition enum_ok :: "instance_el list \<Rightarrow> instance_el list \<Rightarrow> (string \<times> nat) list \<Rightarrow> bool" where
  "enum_ok pend tree elut \<longleftrightarrow>
     (\<forall>e i. map_of elut e = Some i \<longrightarrow>
        i < length tree \<and>
        (e \<in> set (el_config_enums (tree ! i)) \<or> e \<in> set (concat (map el_config_enums pend))))"

lemma add_names_map_of:
  "add_names i ns lut = Inr lut' \<Longrightarrow>
     (\<forall>n. map_of lut' n = (if n \<in> set ns \<and> map_of lut n = None then Some i else map_of lut n)) \<and>
     (\<forall>n \<in> set ns. map_of lut n = None \<or> n \<in> set IGNORE_DUPS)"
proof (induction i ns lut rule: add_names.induct)
  case (2 i n ns lut)
  show ?case
  proof (cases "map_of lut n")
    case None
    with 2 show ?thesis by (auto simp: update_conv' split: if_splits)
  next
    case (Some j)
    with 2 show ?thesis by (auto split: if_splits)
  qed
qed simp

lemma fold_update_const:
  "map_of (fold (\<lambda>e d. AList.update e i d) es d) k = (if k \<in> set es then Some i else map_of d k)"
  by (induction es arbitrary: d) (auto simp: update_conv')

lemma add_instance_ok:
  assumes "add_instance (concat (map el_config_enums (el # els))) ix el = Inr ix'"
    and "lut_ok (ix_tree ix) (ix_lut ix)" and "enum_ok (el # els) (ix_tree ix) (ix_enum_lut ix)"
  shows "lut_ok (ix_tree ix') (ix_lut ix')" and "enum_ok els (ix_tree ix') (ix_enum_lut ix')"
proof -
  obtain lut where nm: "el_attr el ''name'' = Inr (el_name el)"
    and lut: "add_names (length (ix_tree ix)) (names_of el) (ix_lut ix) = Inr lut"
    and t: "ix_tree ix' = ix_tree ix @ [el]" "ix_lut ix' = lut"
      "ix_enum_lut ix' = fold (\<lambda>e d. AList.update e (length (ix_tree ix)) d)
         (concat (map el_config_enums (el # els))) (ix_enum_lut ix)"
    using assms(1)
    by (auto simp: add_instance_def Let_def bind_r_eq_Inr el_attr_def dict_get_def el_name_def
        names_of_def split: option.splits)
  note an = add_names_map_of [OF lut]
  show "lut_ok (ix_tree ix') (ix_lut ix')"
    unfolding lut_ok_def t
  proof (intro conjI allI impI ballI)
    fix n i assume "map_of lut n = Some i"
    with an assms(2) show "i < length (ix_tree ix @ [el])" "n \<in> set (names_of ((ix_tree ix @ [el]) ! i))"
      unfolding lut_ok_def by (auto simp: nth_append split: if_splits) (metis less_SucI less_irrefl)+
  next
    fix i n assume i: "i < length (ix_tree ix @ [el])" and n: "n \<in> set (names_of ((ix_tree ix @ [el]) ! i))"
    show "\<exists>j. map_of lut n = Some j \<and> (j = i \<or> n \<in> set IGNORE_DUPS)"
    proof (cases "i < length (ix_tree ix)")
      case True
      with n assms(2) obtain j where "map_of (ix_lut ix) n = Some j" "j = i \<or> n \<in> set IGNORE_DUPS"
        unfolding lut_ok_def by (fastforce simp: nth_append)
      with an show ?thesis by auto
    next
      case False
      with i have "i = length (ix_tree ix)" by simp
      with n have "i = length (ix_tree ix)" "n \<in> set (names_of el)" by simp_all
      with an show ?thesis by (cases "map_of (ix_lut ix) n") auto
    qed
  qed
  show "enum_ok els (ix_tree ix') (ix_enum_lut ix')"
    using assms(3) unfolding enum_ok_def t fold_update_const
    by (auto simp: nth_append less_Suc_eq split: if_splits)
qed

lemma enum_ok_mono: "enum_ok [] tree elut \<Longrightarrow> enum_ok pend tree elut"
  by (fastforce simp: enum_ok_def)

lemma add_instances_ok:
  "add_instances ix els = Inr ix' \<Longrightarrow> lut_ok (ix_tree ix) (ix_lut ix) \<Longrightarrow>
   enum_ok els (ix_tree ix) (ix_enum_lut ix) \<Longrightarrow>
   lut_ok (ix_tree ix') (ix_lut ix') \<and> enum_ok [] (ix_tree ix') (ix_enum_lut ix')"
proof (induction ix els rule: add_instances.induct)
  case (2 ix el els)
  from 2(2) obtain ix1 where "add_instance (concat (map el_config_enums (el # els))) ix el = Inr ix1"
    and "add_instances ix1 els = Inr ix'" by (auto simp: bind_r_eq_Inr)
  with 2 add_instance_ok show ?case by blast
qed simp

lemma add_files_ok:
  "add_files ix fs = Inr ix' \<Longrightarrow> lut_ok (ix_tree ix) (ix_lut ix) \<Longrightarrow> enum_ok [] (ix_tree ix) (ix_enum_lut ix) \<Longrightarrow>
   lut_ok (ix_tree ix') (ix_lut ix') \<and> enum_ok [] (ix_tree ix') (ix_enum_lut ix')"
proof (induction ix fs rule: add_files.induct)
  case (2 ix f fs)
  from 2(2) obtain ix1 where "add_instances ix (xf_instances f) = Inr ix1" "add_files ix1 fs = Inr ix'"
    by (auto simp: bind_r_eq_Inr)
  with 2 enum_ok_mono add_instances_ok show ?case by blast
qed simp

text \<open>Elements that keep their names and lose no enum keep the tables right; overlays and the
  defaults of \<open>normalize\<close> are such changes.\<close>

definition extends :: "instance_el \<Rightarrow> instance_el \<Rightarrow> bool" where
  "extends m m' \<longleftrightarrow> names_of m' = names_of m \<and> set (el_config_enums m) \<subseteq> set (el_config_enums m')"

lemma tables_extend:
  assumes "list_all2 extends tree tree'"
  shows "lut_ok tree lut \<Longrightarrow> lut_ok tree' lut" and "enum_ok [] tree elut \<Longrightarrow> enum_ok [] tree' elut"
  using assms by (auto simp: lut_ok_def enum_ok_def list_all2_conv_all_nth extends_def subset_iff)

lemma extends_refl: "list_all2 extends tree tree"
  by (simp add: list_all2_refl extends_def)

lemma extends_trans: "list_all2 extends t1 t2 \<Longrightarrow> list_all2 extends t2 t3 \<Longrightarrow> list_all2 extends t1 t3"
  by (rule list_all2_trans [where ?P1.0 = extends and ?P2.0 = extends]) (auto simp: extends_def)

lemma merge_overlay_extends: "extends m (merge_overlay m ov)"
  by (simp add: extends_def merge_overlay_def names_of_def el_name_def alias_names_def)

lemma overlay_tree_extends: "list_all2 extends tree (overlay_tree tree ov)"
  by (induction tree) (auto simp: extends_refl merge_overlay_extends extends_def [of m m for m])

lemma overlays_extend:
  "list_all2 extends tree (fold (\<lambda>ov t. overlay_tree t ov) ovs tree)"
proof (induction ovs arbitrary: tree)
  case (Cons ov ovs)
  from extends_trans [OF overlay_tree_extends Cons.IH] show ?case by simp
qed (simp add: extends_refl)

lemma add_default_other: "k \<noteq> fst kv \<Longrightarrow> map_of (add_default kv d) k = map_of d k"
  by (auto simp: add_default_def update_conv' split: option.splits)

lemma normalize_el_extends: "extends el (normalize_el el)"
  by (simp add: extends_def normalize_el_def names_of_def el_name_def alias_names_def norm_defaults_def
      add_default_other)

lemma add_need_frame [simp]:
  "ix_tree (add_need n d s ix) = ix_tree ix" "ix_lut (add_need n d s ix) = ix_lut ix"
  "ix_enum_lut (add_need n d s ix) = ix_enum_lut ix"
  by (simp_all add: add_need_def)

lemma add_needs_frame:
  "add_needs tree n ds ix = Inr ix' \<Longrightarrow>
   ix_tree ix' = ix_tree ix \<and> ix_lut ix' = ix_lut ix \<and> ix_enum_lut ix' = ix_enum_lut ix"
  by (induction tree n ds ix rule: add_needs.induct)
    (auto simp: bind_r_eq_Inr split: if_splits)

lemma add_all_needs_frame:
  "add_all_needs tree els ix = Inr ix' \<Longrightarrow>
   ix_tree ix' = ix_tree ix \<and> ix_lut ix' = ix_lut ix \<and> ix_enum_lut ix' = ix_enum_lut ix"
  by (induction tree els ix rule: add_all_needs.induct) (auto simp: bind_r_eq_Inr dest: add_needs_frame)

lemma new_instance_xml_steps:
  assumes "new_instance_xml ord files = Inr ix"
  obtains fs ovs ix0 ix1 where "add_files empty_xml fs = Inr ix0"
    and "build_dependency_dict (apply_overlays ix0 ovs) = Inr ix1" and "ix = normalize ix1"
  using assms
  by (auto simp: new_instance_xml_def read_xml_def bind_r_eq_Inr Let_def split: if_splits)

text \<open>After the service descriptions have been read (files, aliases, overlays, defaults), every
  entry of the name table leads to an instance of the tree that has this name or alias, every name and
  alias of every instance is found and leads to that instance (a tolerated duplicate such as memcached
  may lead to another one), and every enum leads to an instance that declares it.\<close>

theorem instance_lut_complete:
  assumes "new_instance_xml ord files = Inr ix"
  shows "lut_ok (ix_tree ix) (ix_lut ix) \<and> enum_ok [] (ix_tree ix) (ix_enum_lut ix)"
proof -
  from assms obtain fs ovs ix0 ix1 where 1: "add_files empty_xml fs = Inr ix0"
    and 2: "build_dependency_dict (apply_overlays ix0 ovs) = Inr ix1" and 3: "ix = normalize ix1"
    by (rule new_instance_xml_steps)
  have "lut_ok (ix_tree ix0) (ix_lut ix0) \<and> enum_ok [] (ix_tree ix0) (ix_enum_lut ix0)"
    by (rule add_files_ok [OF 1]) (simp_all add: empty_xml_def lut_ok_def enum_ok_def)
  moreover have "list_all2 extends (ix_tree ix0) (ix_tree ix1)"
    and "ix_lut ix1 = ix_lut ix0" "ix_enum_lut ix1 = ix_enum_lut ix0"
    using add_all_needs_frame [OF 2 [unfolded build_dependency_dict_def]]
    by (simp_all add: apply_overlays_def overlays_extend)
  moreover have "list_all2 extends (ix_tree ix1) (ix_tree ix)"
    by (simp add: 3 normalize_def list_all2_map2 normalize_el_extends list_all2_refl)
  ultimately show ?thesis using tables_extend extends_trans 3 by (simp add: normalize_def)
qed

subsection \<open>Dependencies\<close>

definition symmetrical :: "string option \<Rightarrow> bool" where
  "symmetrical a \<longleftrightarrow> (\<exists>i. py_int (case a of None \<Rightarrow> ''0'' | Some v \<Rightarrow> v) = Inr i \<and> i \<noteq> 0)"

lemma append_to_lookup:
  "(case map_of (append_to k v d) n of None \<Rightarrow> [] | Some ds \<Rightarrow> ds) =
   (case map_of d n of None \<Rightarrow> [] | Some ds \<Rightarrow> ds) @ (if n = k then [v] else [])"
  by (auto simp: append_to_def update_conv' split: option.splits)

lemma add_need_start [simp]:
  "get_start_dependencies (add_need n d s ix) m = get_start_dependencies ix m @ (if m = n then [d] else [])"
  by (simp add: get_start_dependencies_def add_need_def append_to_lookup)

lemma add_need_stop [simp]:
  "get_stop_dependencies (add_need n d s ix) m =
     get_stop_dependencies ix m @ (if s \<and> m = d then [n] else [])"
  by (simp add: get_stop_dependencies_def add_need_def append_to_lookup)

lemma add_needs_deps:
  "add_needs tree n ds ix = Inr ix' \<Longrightarrow>
     (\<forall>m. get_start_dependencies ix' m = get_start_dependencies ix m @ (if m = n then map fst ds else [])) \<and>
     (\<forall>m x. x \<in> set (get_stop_dependencies ix' m) \<longleftrightarrow>
        x \<in> set (get_stop_dependencies ix m) \<or> x = n \<and> (\<exists>s. (m, s) \<in> set ds \<and> symmetrical s)) \<and>
     (\<forall>d \<in> fst ` set ds. d \<in> el_name ` set tree \<and> d \<noteq> n)"
proof (induction tree n ds ix rule: add_needs.induct)
  case (2 tree n d symm ds ix)
  from 2(2) obtain i where i: "py_int (case symm of None \<Rightarrow> ''0'' | Some v \<Rightarrow> v) = Inr i"
    and d: "d \<in> el_name ` set tree" "d \<noteq> n"
    and r: "add_needs tree n ds (add_need n d (i \<noteq> 0) ix) = Inr ix'"
    by (auto simp: bind_r_eq_Inr split: if_splits)
  from i have s: "symmetrical symm \<longleftrightarrow> i \<noteq> 0" by (auto simp: symmetrical_def)
  from d have c: "d \<in> set (map el_name tree)" by simp
  from 2(1) [OF _ d(2) r] c s d show ?case by auto
qed simp

lemma add_all_needs_deps:
  "add_all_needs tree els ix = Inr ix' \<Longrightarrow>
     (\<forall>m d. d \<in> set (get_start_dependencies ix' m) \<longleftrightarrow> d \<in> set (get_start_dependencies ix m) \<or>
        (\<exists>el \<in> set els. el_name el = m \<and> d \<in> fst ` set (el_needed_for_start el))) \<and>
     (\<forall>m d. d \<in> set (get_stop_dependencies ix' m) \<longleftrightarrow> d \<in> set (get_stop_dependencies ix m) \<or>
        (\<exists>el \<in> set els. el_name el = d \<and> (\<exists>s. (m, s) \<in> set (el_needed_for_start el) \<and> symmetrical s))) \<and>
     (\<forall>el \<in> set els. \<forall>d \<in> fst ` set (el_needed_for_start el). d \<in> el_name ` set tree \<and> d \<noteq> el_name el)"
proof (induction tree els ix rule: add_all_needs.induct)
  case (2 tree el els ix)
  from 2(2) obtain ix1 where 1: "add_needs tree (el_name el) (el_needed_for_start el) ix = Inr ix1"
    and r: "add_all_needs tree els ix1 = Inr ix'" by (auto simp: bind_r_eq_Inr)
  from add_needs_deps [OF 1] 2(1) [OF r] show ?case by auto
qed simp

lemma normalize_el_frame [simp]:
  "el_name (normalize_el el) = el_name el" "el_needed_for_start (normalize_el el) = el_needed_for_start el"
  using normalize_el_extends [of el] by (simp_all add: extends_def names_of_def normalize_el_def)

text \<open>The start dependencies of a service are exactly the needed-for-start entries of the
  instances with its name, the stop dependencies exactly the inverses of the symmetrical ones, and
  every start dependency is another service which exists.\<close>

theorem dependencies_exact:
  assumes "new_instance_xml ord files = Inr ix"
  shows "(d \<in> set (get_start_dependencies ix n) \<longleftrightarrow>
            (\<exists>el \<in> set (ix_tree ix). el_name el = n \<and> d \<in> fst ` set (el_needed_for_start el))) \<and>
         (n \<in> set (get_stop_dependencies ix d) \<longleftrightarrow>
            (\<exists>el \<in> set (ix_tree ix). el_name el = n \<and>
               (\<exists>s. (d, s) \<in> set (el_needed_for_start el) \<and> symmetrical s))) \<and>
         (d \<in> set (get_start_dependencies ix n) \<longrightarrow> d \<noteq> n \<and> d \<in> el_name ` set (ix_tree ix))"
proof -
  from assms obtain fs ovs ix0 ix1 where 2: "build_dependency_dict (apply_overlays ix0 ovs) = Inr ix1"
    and 3: "ix = normalize ix1" by (rule new_instance_xml_steps)
  have t: "ix_tree ix1 = ix_tree (apply_overlays ix0 ovs)"
    using add_all_needs_frame [OF 2 [unfolded build_dependency_dict_def]] by simp
  have e: "\<And>m. get_start_dependencies (ix0\<lparr>ix_needed_for_start := [], ix_needed_for_stop := []\<rparr>) m = []"
    "\<And>m. get_stop_dependencies (ix0\<lparr>ix_needed_for_start := [], ix_needed_for_stop := []\<rparr>) m = []" for ix0
    by (simp_all add: get_start_dependencies_def get_stop_dependencies_def)
  have f: "get_start_dependencies ix = get_start_dependencies ix1"
    "get_stop_dependencies ix = get_stop_dependencies ix1" "ix_tree ix = map normalize_el (ix_tree ix1)"
    by (auto simp: 3 normalize_def get_start_dependencies_def get_stop_dependencies_def)
  from add_all_needs_deps [OF 2 [unfolded build_dependency_dict_def], unfolded e, folded t] f
  show ?thesis by (auto simp: image_image)
qed

text \<open>A small configuration: a daemon with an alias, a symmetrical dependency and an overlay.\<close>

definition demo_el :: "string \<Rightarrow> (string \<times> string) list \<Rightarrow> string list \<Rightarrow> (string \<times> string option) list \<Rightarrow> instance_el" where
  "demo_el n attrs enums needs =
     \<lparr>el_attrib = (''name'', n) # attrs, el_config_enums = enums, el_required_ips = [],
      el_required_license = None, el_ignore_missing_db = False, el_needed_for_start = needs,
      el_old_binary = None, el_prog_title = None, el_prog_name = None, el_module_name = None,
      el_args = [], el_nice_level = None, el_access_dirs = [], el_access_files = [], el_ports = [], el_node_split = False,
      el_result = None\<rparr>"

definition demo_files :: "xml_file list" where
  "demo_files =
     [\<lparr>xf_name = ''client.xml'', xf_md5 = [], xf_ng_valid = True, xf_overlay = None,
       xf_instances = [demo_el ''a'' [(''alias'', ''b'')] [''e''] [],
                       demo_el ''c'' [] [''f''] [(''a'', Some ''1'')]]\<rparr>,
      \<lparr>xf_name = ''o.xml'', xf_md5 = [], xf_ng_valid = True, xf_overlay = Some ''1'',
       xf_instances = [demo_el ''a'' [] [''g''] []]\<rparr>]"

lemma demo_files_read: "\<not> isl (new_instance_xml (\<lambda>ns. ns) demo_files)"
  by code_simp

theorem instance_lut_complete_witness:
  "\<exists>ix. new_instance_xml (\<lambda>ns. ns) demo_files = Inr ix \<and>
     lut_ok (ix_tree ix) (ix_lut ix) \<and> enum_ok [] (ix_tree ix) (ix_enum_lut ix)"
  using demo_files_read instance_lut_complete [of "\<lambda>ns. ns" demo_files]
  by (cases "new_instance_xml (\<lambda>ns. ns) demo_files") auto

theorem dependencies_exact_witness:
  "\<exists>ix. new_instance_xml (\<lambda>ns. ns) demo_files = Inr ix \<and>
     (''a'' \<in> set (get_start_dependencies ix ''c'') \<longleftrightarrow>
        (\<exists>el \<in> set (ix_tree ix). el_name el = ''c'' \<and> ''a'' \<in> fst ` set (el_needed_for_start el)))"
  using demo_files_read dependencies_exact [of "\<lambda>ns. ns" demo_files _ "''a''" "''c''"]
  by (cases "new_instance_xml (\<lambda>ns. ns) demo_files") auto

subsection \<open>Defaults\<close>

lemma add_default_dom:
  "map_of (add_default kv d) k = (case map_of d k of Some v \<Rightarrow> Some v
     | None \<Rightarrow> if k = fst kv then Some (snd kv) else None)"
  by (auto simp: add_default_def update_conv' split: option.splits)

lemma fold_add_default:
  "map_of (fold add_default kvs d) k = (case map_of d k of Some v \<Rightarrow> Some v | None \<Rightarrow> map_of kvs k)"
  by (induction kvs arbitrary: d) (auto simp: add_default_dom split: option.splits)

lemma fold_add_default_idle:
  "(\<And>k. k \<in> fst ` set kvs \<Longrightarrow> map_of d k \<noteq> None) \<Longrightarrow> fold add_default kvs d = d"
proof (induction kvs)
  case (Cons kv kvs)
  then have "map_of d (fst kv) \<noteq> None" "fold add_default kvs d = d" by auto
  then show ?case by (auto simp: add_default_def [of kv])
qed simp

lemma normalize_el_lookup:
  "map_of (el_attrib (normalize_el el)) k =
     (case map_of (el_attrib el) k of Some v \<Rightarrow> Some v | None \<Rightarrow> map_of (norm_defaults (el_name el)) k)"
  by (simp add: normalize_el_def fold_add_default)

lemma normalize_el_idem: "normalize_el (normalize_el el) = normalize_el el"
proof -
  have "fold add_default (norm_defaults (el_name el)) (el_attrib (normalize_el el)) = el_attrib (normalize_el el)"
  proof (rule fold_add_default_idle)
    fix k assume "k \<in> fst ` set (norm_defaults (el_name el))"
    then have "map_of (norm_defaults (el_name el)) k \<noteq> None" by (simp add: map_of_eq_None_iff)
    then show "map_of (el_attrib (normalize_el el)) k \<noteq> None"
      by (auto simp: normalize_el_lookup split: option.splits)
  qed
  then show ?thesis by (simp add: normalize_el_def [of "normalize_el el"])
qed

text \<open>Normalizing gives every instance every default attribute, keeps each attribute that was
  set, leaves names alone and changes nothing when it is repeated (as \<open>reread\<close> does).\<close>

theorem normalize_defaults:
  "normalize (normalize ix) = normalize ix \<and>
   list_all2 (\<lambda>el el'. el_name el' = el_name el \<and>
       (\<forall>k. map_of (el_attrib el') k =
         (case map_of (el_attrib el) k of Some v \<Rightarrow> Some v | None \<Rightarrow> map_of (norm_defaults (el_name el)) k)))
     (ix_tree ix) (ix_tree (normalize ix))"
  by (simp add: normalize_def normalize_el_idem list_all2_map2 normalize_el_lookup list_all2_refl)

subsection \<open>The interface to the dependencies\<close>

text \<open>What the meta-server relies on: a service never has to be started before itself, and a service
  that has to be stopped before another one is one that needs the other for its start.\<close>

locale dependency_source =
  fixes start_deps stop_deps :: "string \<Rightarrow> string list"
  assumes start_irrefl: "n \<notin> set (start_deps n)"
    and stop_inverse: "n \<in> set (stop_deps d) \<Longrightarrow> d \<in> set (start_deps n)"
begin

lemma stop_irrefl: "n \<notin> set (stop_deps n)"
  using start_irrefl stop_inverse by blast

text \<open>Between two services there is at most one of the orders, unless the start dependencies already
  contradict each other.\<close>

lemma stop_antisym: "n \<in> set (stop_deps d) \<Longrightarrow> d \<in> set (stop_deps n) \<Longrightarrow> d \<in> set (start_deps n) \<and> n \<in> set (start_deps d)"
  using stop_inverse by blast

end

definition loaded_start :: "(string list \<Rightarrow> string list) \<Rightarrow> xml_file list \<Rightarrow> string \<Rightarrow> string list" where
  "loaded_start ord files n = (case new_instance_xml ord files of Inl _ \<Rightarrow> [] | Inr ix \<Rightarrow> get_start_dependencies ix n)"

definition loaded_stop :: "(string list \<Rightarrow> string list) \<Rightarrow> xml_file list \<Rightarrow> string \<Rightarrow> string list" where
  "loaded_stop ord files n = (case new_instance_xml ord files of Inl _ \<Rightarrow> [] | Inr ix \<Rightarrow> get_stop_dependencies ix n)"

lemma loaded_dependencies:
  assumes "new_instance_xml ord files = Inr ix"
  shows "(d \<in> set (get_start_dependencies ix n) \<longrightarrow> d \<noteq> n) \<and>
         (n \<in> set (get_stop_dependencies ix d) \<longrightarrow> d \<in> set (get_start_dependencies ix n))"
proof -
  from assms obtain fs ovs ix0 ix1 where 2: "build_dependency_dict (apply_overlays ix0 ovs) = Inr ix1"
    and 3: "ix = normalize ix1" by (rule new_instance_xml_steps)
  have e: "\<And>m. get_start_dependencies (ix0\<lparr>ix_needed_for_start := [], ix_needed_for_stop := []\<rparr>) m = []"
    "\<And>m. get_stop_dependencies (ix0\<lparr>ix_needed_for_start := [], ix_needed_for_stop := []\<rparr>) m = []" for ix0
    by (simp_all add: get_start_dependencies_def get_stop_dependencies_def)
  have f: "get_start_dependencies ix = get_start_dependencies ix1" "get_stop_dependencies ix = get_stop_dependencies ix1"
    by (auto simp: 3 normalize_def get_start_dependencies_def get_stop_dependencies_def)
  let ?t = "ix_tree (apply_overlays ix0 ovs)"
  note d = add_all_needs_deps [OF 2 [unfolded build_dependency_dict_def], unfolded e, simplified]
  have "d \<noteq> n" if "d \<in> set (get_start_dependencies ix1 n)"
  proof -
    from d that obtain el x where "el \<in> set ?t" "el_name el = n" "x \<in> set (el_needed_for_start el)" "d = fst x" by auto
    with d show ?thesis by auto
  qed
  moreover have "d \<in> set (get_start_dependencies ix1 n)" if "n \<in> set (get_stop_dependencies ix1 d)"
  proof -
    from d that obtain el x where "el \<in> set ?t" "el_name el = n" "(d, x) \<in> set (el_needed_for_start el)" by auto
    with d show ?thesis by (auto intro!: bexI [of _ el] image_eqI [of _ fst "(d, x)"])
  qed
  ultimately show ?thesis by (simp add: f)
qed

interpretation loaded: dependency_source "loaded_start ord files" "loaded_stop ord files" for ord files
proof (unfold_locales, goal_cases)
  case (1 n)
  show ?case using loaded_dependencies [of ord files _ n n] by (auto simp: loaded_start_def split: sum.splits)
next
  case (2 n d)
  then show ?case using loaded_dependencies [of ord files _ d n]
    by (auto simp: loaded_start_def loaded_stop_def split: sum.splits)
qed

end
