(* ===== verification/Logging_Tools.thy ===== *)
theory Logging_Tools
  imports Prelude
begin

section \<open>Formatting helpers (initat/tools/logging_tools.py)\<close>

text \<open>
  The log levels with their maps, the plural and time formatters and the compression of number lists
  into ranges. The main results are that compressing a list of process ids and reading the text back
  gives the sorted list, and that the printed time parts add up to the number of seconds.
\<close>

subsection \<open>Log levels\<close>

abbreviation LOG_LEVEL_OK :: int where "LOG_LEVEL_OK \<equiv> 20"
abbreviation LOG_LEVEL_WARN :: int where "LOG_LEVEL_WARN \<equiv> 30"
abbreviation LOG_LEVEL_ERROR :: int where "LOG_LEVEL_ERROR \<equiv> 40"
abbreviation LOG_LEVEL_CRITICAL :: int where "LOG_LEVEL_CRITICAL \<equiv> 50"

definition map_old_to_new_level :: "int \<Rightarrow> int" where
  "map_old_to_new_level l =
     (case map_of [(0, LOG_LEVEL_OK), (5, LOG_LEVEL_WARN), (10, LOG_LEVEL_ERROR), (20, LOG_LEVEL_CRITICAL)] l of
        None \<Rightarrow> l | Some n \<Rightarrow> n)"

definition map_log_level_to_log_status :: "int \<Rightarrow> string" where
  "map_log_level_to_log_status l =
     (case map_of [(LOG_LEVEL_OK, ''i''), (LOG_LEVEL_WARN, ''w''), (LOG_LEVEL_ERROR, ''e''),
                   (LOG_LEVEL_CRITICAL, ''c'')] l of
        None \<Rightarrow> ''c'' | Some s \<Rightarrow> s)"

definition get_log_level_str :: "int \<Rightarrow> string" where
  "get_log_level_str l =
     (case map_of [(LOG_LEVEL_OK, ''ok''), (LOG_LEVEL_WARN, ''warn''), (LOG_LEVEL_ERROR, ''err''),
                   (LOG_LEVEL_CRITICAL, ''crit'')] l of
        None \<Rightarrow> ''lev'' @ str_of_int l | Some s \<Rightarrow> s)"

text \<open>The priority \<open>my_syslog\<close> chooses: LOG_WARNING 4, LOG_ERR 3, LOG_INFO 6.\<close>

definition syslog_priority :: "int \<Rightarrow> nat" where
  "syslog_priority l = (if l \<ge> LOG_LEVEL_WARN then 4 else if l \<ge> LOG_LEVEL_ERROR then 3 else 6)"

subsection \<open>Numbers in text\<close>

text \<open>Minimal width formats \<open>{:wd}\<close> and \<open>{:0wd}\<close> (the sign counts).\<close>

definition pad_left :: "char \<Rightarrow> nat \<Rightarrow> string \<Rightarrow> string" where
  "pad_left c w s = replicate (w - length s) c @ s"

definition fmt_0d :: "nat \<Rightarrow> int \<Rightarrow> string" where
  "fmt_0d w i =
     (if i < 0 then CHR ''-'' # pad_left CHR ''0'' (w - 1) (str_of_nat (nat (- i)))
      else pad_left CHR ''0'' w (str_of_nat (nat i)))"

definition fmt_d :: "nat \<Rightarrow> int \<Rightarrow> string" where
  "fmt_d w i = pad_left CHR '' '' w (str_of_int i)"

definition ascii_lower :: "char \<Rightarrow> char" where
  "ascii_lower c = (let n = (of_char c :: nat) in if 65 \<le> n \<and> n \<le> 90 then char_of (n + 32) else c)"

text \<open>\<open>get_plural\<close> for a count; the stem loses its last letter only for the ending \<open>ies\<close>.\<close>

definition plural_ending :: "string \<Rightarrow> nat \<times> string" where
  "plural_ending s =
     (case rev s of
        [] \<Rightarrow> (length s, ''s'')
      | l # r \<Rightarrow>
          if ascii_lower l \<in> {CHR ''s'', CHR ''x'', CHR ''h''} then (length s, ''es'')
          else if ascii_lower l = CHR ''y'' then
            (case r of
               k # _ \<Rightarrow> if ascii_lower k \<in> {CHR ''a'', CHR ''e'', CHR ''i'', CHR ''o'', CHR ''u''}
                        then (length s, ''s'') else (length s - 1, ''ies'')
             | [] \<Rightarrow> (length s - 1, ''ies''))
          else (length s, ''s''))"

definition get_plural_fmt :: "bool \<Rightarrow> int \<Rightarrow> string \<Rightarrow> int \<Rightarrow> string" where
  "get_plural_fmt show_int fstr_len s num =
     (let (end_idx, p_str) = (if num \<noteq> 1 then plural_ending s else (length s, []));
          f_str = (if fstr_len > 0 then fmt_d (nat fstr_len) num @ '' ''
                   else if fstr_len < 0 then fmt_0d (nat (- fstr_len)) num @ '' ''
                   else str_of_int num @ '' '')
      in (if show_int then f_str else []) @ take end_idx s @ p_str)"

definition get_plural :: "string \<Rightarrow> int \<Rightarrow> string" where
  "get_plural s num = get_plural_fmt True 0 s num"

lemma get_plural_examples:
  "get_plural ''process'' 2 = ''2 processes''" "get_plural ''pid'' 1 = ''1 pid''"
  "get_plural ''entry'' 0 = ''0 entries''" "get_plural ''day'' 3 = ''3 days''"
  by code_simp+

text \<open>\<open>get_time_str\<close> for a whole number of seconds; Python 2's division of integers rounds down.\<close>

definition time_parts :: "int \<Rightarrow> int list" where
  "time_parts secs =
     (let (ps, left) = foldl (\<lambda>(ps, left) d. let p = left div d in (ps @ [p], left - d * p))
            ([], secs) [3600 * 24, 3600, 60]
      in ps @ [left])"

fun hms_list :: "bool \<Rightarrow> int list \<Rightarrow> string list" where
  "hms_list any_written [] = []"
| "hms_list any_written (x # xs) =
     (if x \<noteq> 0 then (if any_written then fmt_0d 2 x else str_of_int x) # hms_list True xs
      else if any_written then fmt_0d 2 x # hms_list any_written xs
      else hms_list any_written xs)"

definition get_time_str :: "int \<Rightarrow> string" where
  "get_time_str secs =
     (case time_parts secs of
        [] \<Rightarrow> []
      | days # parts \<Rightarrow>
          py_join '' '' ((if days \<noteq> 0 then [get_plural ''day'' days] else []) @ [py_join '':'' (hms_list False parts)]))"

text \<open>\<open>get_diff_time_str\<close> for an integer number of seconds in the long format.\<close>

definition get_diff_time_str :: "int \<Rightarrow> string" where
  "get_diff_time_str diff_secs =
     (let a = \<bar>diff_secs\<bar>;
          diff_str =
            (if a = 0 then ''0.000 useconds''
             else if a > 60 then
               let m0 = a div 60; s = a - 60 * m0;
                   h0 = (if m0 > 60 then m0 div 60 else 0);
                   m = (if m0 > 60 then m0 - 60 * h0 else m0) in
               if h0 \<noteq> 0 then
                 (if h0 > 24 then
                    let d0 = h0 div 24; h = h0 - 24 * d0 in
                    if d0 > 365 then
                      let y = d0 div 365; d = d0 - 365 * y in
                      str_of_int y @ ''y '' @ fmt_d 3 d @ ''d '' @ fmt_0d 2 h @ '':'' @ fmt_0d 2 m @ '':'' @ fmt_0d 2 s
                    else str_of_int d0 @ ''d '' @ fmt_0d 2 h @ '':'' @ fmt_0d 2 m @ '':'' @ fmt_0d 2 s
                  else str_of_int h0 @ '':'' @ fmt_0d 2 m @ '':'' @ fmt_0d 2 s)
               else str_of_int m @ '':'' @ fmt_0d 2 s
             else str_of_int a @ '' seconds'')
      in if diff_secs < 0 then diff_str @ '' [NEGATIVE TIME]'' else diff_str)"

subsection \<open>Compression of number lists\<close>

definition num_add_p :: "int \<Rightarrow> int \<Rightarrow> string" where
  "num_add_p s e =
     (if e = s then str_of_int s
      else if e = s + 1 then str_of_int s @ ''/'' @ str_of_int e
      else str_of_int s @ ''-'' @ str_of_int e)"

text \<open>The loop of \<open>compress_num_list\<close> over the sorted numbers that are not excluded: \<open>s\<close> is the start of
  the current range and \<open>l\<close> its last number.\<close>

fun num_ranges :: "int \<Rightarrow> int \<Rightarrow> int list \<Rightarrow> (int \<times> int) list" where
  "num_ranges s l [] = [(s, l)]"
| "num_ranges s l (e # es) = (if e = l + 1 then num_ranges s e es else (s, l) # num_ranges e e es)"

definition compress_num_list :: "int list \<Rightarrow> int list \<Rightarrow> string" where
  "compress_num_list ql excl =
     (case filter (\<lambda>t. t \<notin> set excl) (sort ql) of
        [] \<Rightarrow> []
      | e # es \<Rightarrow> py_join '', '' (map (\<lambda>(s, l). num_add_p s l) (num_ranges e e es)))"

text \<open>Reading such a text: the parts between commas are numbers, pairs or ranges.\<close>

definition expand_part :: "string \<Rightarrow> int list res" where
  "expand_part p =
     (case py_split CHR ''/'' p of
        [a, b] \<Rightarrow> bind_r (py_int a) (\<lambda>x. bind_r (py_int b) (\<lambda>y. Inr [x, y]))
      | _ \<Rightarrow>
        (case py_split CHR ''-'' p of
           [a, b] \<Rightarrow> bind_r (py_int a) (\<lambda>x. bind_r (py_int b) (\<lambda>y. Inr [x..y]))
         | _ \<Rightarrow> bind_r (py_int p) (\<lambda>x. Inr [x])))"

definition expand_num_list :: "string \<Rightarrow> int list res" where
  "expand_num_list s =
     (if s = [] then Inr []
      else bind_r (mapM_r expand_part (py_split CHR '','' s)) (\<lambda>ps. Inr (concat ps)))"

lemma num_ranges_expand:
  "s \<le> l \<Longrightarrow> concat (map (\<lambda>(a, b). [a..b]) (num_ranges s l es)) = [s..l] @ es"
  by (induction s l es rule: num_ranges.induct) (auto simp: upto_rec2 upto_rec1)

lemma num_ranges_bounds:
  "0 \<le> s \<Longrightarrow> s \<le> l \<Longrightarrow> list_all (\<lambda>x. 0 \<le> x) es \<Longrightarrow> (a, b) \<in> set (num_ranges s l es) \<Longrightarrow> 0 \<le> a \<and> a \<le> b"
  by (induction s l es rule: num_ranges.induct) (auto split: if_splits)

lemma num_ranges_nonempty [simp]: "num_ranges s l es \<noteq> []"
  by (induction s l es rule: num_ranges.induct) auto

lemma py_join_Cons_hd: "py_join sep ((c # p) # ps) = c # py_join sep (p # ps)"
  by (cases ps) auto

lemma py_join_comma_space:
  "py_join '', '' (p # ps) = py_join [CHR '',''] (p # map (\<lambda>q. CHR '' '' # q) ps)"
  by (induction ps arbitrary: p) (auto simp: py_join_Cons_hd)

lemma py_strip_space [simp]: "py_strip (CHR '' '' # s) = py_strip s"
  by (simp add: py_strip_def is_space_def)

lemma py_int_space [simp]: "py_int (CHR '' '' # s) = py_int s"
  by (simp add: py_int_def)

lemma str_of_nat_no_punct [simp]:
  "CHR ''/'' \<notin> set (str_of_nat n)" "CHR ''-'' \<notin> set (str_of_nat n)" "CHR '','' \<notin> set (str_of_nat n)"
  by (simp_all add: str_of_nat_no_char is_digit_def)

lemma num_add_p_no_comma: "0 \<le> s \<Longrightarrow> s \<le> e \<Longrightarrow> CHR '','' \<notin> set (num_add_p s e)"
  by (simp add: num_add_p_def str_of_int_nonneg)

lemma expand_part_add_p:
  assumes "0 \<le> s" "s \<le> e"
  shows "expand_part (num_add_p s e) = Inr [s..e] \<and> expand_part (CHR '' '' # num_add_p s e) = Inr [s..e]"
proof -
  have sp: "py_split c (CHR '' '' # str_of_nat n) = [CHR '' '' # str_of_nat n]" if "c \<in> {CHR ''/'', CHR ''-''}" for c n
    using that by (intro py_split_no_sep) auto
  have sa: "py_split c (CHR '' '' # str_of_nat n @ c # t) = (CHR '' '' # str_of_nat n) # py_split c t"
    if "c \<in> {CHR ''/'', CHR ''-''}" for c n t
    using that py_split_append_sep [of c "CHR '' '' # str_of_nat n" t] by auto
  have na: "CHR ''/'' \<notin> set (str_of_nat m @ CHR ''-'' # str_of_nat n)" for m n by simp
  consider "e = s" | "e = s + 1" | "e > s + 1" using assms by linarith
  then show ?thesis
  proof cases
    case 1
    with assms show ?thesis
      by (simp add: num_add_p_def str_of_int_nonneg expand_part_def py_split_no_sep sp)
  next
    case 2
    with assms show ?thesis
      by (simp add: num_add_p_def str_of_int_nonneg expand_part_def py_split_no_sep py_split_append_sep
          sa upto_rec1)
  next
    case 3
    have "py_split CHR ''/'' (CHR '' '' # str_of_nat m @ CHR ''-'' # str_of_nat n) =
        [CHR '' '' # str_of_nat m @ CHR ''-'' # str_of_nat n]" for m n
      by (rule py_split_no_sep) simp
    with 3 assms show ?thesis
      by (simp add: num_add_p_def str_of_int_nonneg expand_part_def py_split_no_sep [OF na]
          py_split_no_sep py_split_append_sep sa)
  qed
qed

text \<open>The text made from a list of process ids determines the list: splitting it at the commas and
  expanding pairs and ranges gives the sorted numbers without the excluded ones, repetitions included.\<close>

theorem compress_num_list_roundtrip:
  assumes "list_all (\<lambda>x. 0 \<le> x) ql"
  shows "expand_num_list (compress_num_list ql excl) = Inr (filter (\<lambda>t. t \<notin> set excl) (sort ql))"
proof (cases "filter (\<lambda>t. t \<notin> set excl) (sort ql)")
  case Nil
  then show ?thesis by (simp add: compress_num_list_def expand_num_list_def)
next
  case (Cons e es)
  have "set (e # es) \<subseteq> set ql" using Cons [symmetric] by auto
  with assms have nn: "0 \<le> e" "list_all (\<lambda>x. 0 \<le> x) es" by (auto simp: list_all_iff)
  obtain r rs where r: "num_ranges e e es = r # rs" by (cases "num_ranges e e es") auto
  let ?f = "\<lambda>(s, l). num_add_p s l" and ?x = "\<lambda>(s, l). [s..l]" and ?sp = "\<lambda>q. CHR '' '' # q"
  have b: "\<And>a b. (a, b) \<in> set (r # rs) \<Longrightarrow> 0 \<le> a \<and> a \<le> b"
    using num_ranges_bounds [OF nn(1) order.refl nn(2)] r by metis
  let ?parts = "?f r # map ?sp (map ?f rs)"
  have c: "compress_num_list ql excl = py_join [CHR '',''] ?parts"
    by (simp only: compress_num_list_def Cons list.case r list.map py_join_comma_space)
  have nc: "\<And>a b. (a, b) \<in> set (r # rs) \<Longrightarrow> CHR '','' \<notin> set (num_add_p a b)"
    using b num_add_p_no_comma by blast
  have sp: "py_split CHR '','' (compress_num_list ql excl) = ?parts"
    unfolding c by (rule py_split_join) (use nc in auto)
  have "mapM_r expand_part ?parts = Inr (map ?x (r # rs))"
  proof -
    have "mapM_r (\<lambda>x. expand_part (?sp (?f x))) rs = Inr (map ?x rs)"
      using b expand_part_add_p by (intro mapM_r_all_Inr) auto
    then show ?thesis using b [of "fst r" "snd r"] expand_part_add_p [of "fst r" "snd r"]
      by (cases r) (simp add: mapM_r_map)
  qed
  moreover have "compress_num_list ql excl \<noteq> []"
    using sp by (cases "compress_num_list ql excl") (auto simp: num_add_p_def str_of_int_def dest: sym split: prod.splits if_splits)
  ultimately show ?thesis
    using num_ranges_expand [of e e es] by (simp add: expand_num_list_def sp Cons r)
qed

theorem compress_num_list_roundtrip_witness:
  "expand_num_list (compress_num_list [7, 3, 4, 5, 9, 10] [9]) =
     Inr (filter (\<lambda>t. t \<notin> set [9]) (sort [7, 3, 4, 5, 9, 10 :: int]))"
  by (rule compress_num_list_roundtrip) simp

lemma time_parts_eq:
  "time_parts secs = [secs div 86400, secs mod 86400 div 3600, secs mod 3600 div 60, secs mod 60]"
  by (simp add: time_parts_def Let_def minus_mult_div_eq_mod mod_mod_cancel)

text \<open>The parts printed by \<open>get_time_str\<close> are days, hours, minutes and seconds in their ranges and
  add up to the given number of seconds.\<close>

theorem time_parts_sum:
  "\<exists>d h m s. time_parts secs = [d, h, m, s] \<and> secs = 86400 * d + 3600 * h + 60 * m + s \<and>
     0 \<le> h \<and> h < 24 \<and> 0 \<le> m \<and> m < 60 \<and> 0 \<le> s \<and> s < 60"
proof (intro exI conjI)
  show "time_parts secs = [secs div 86400, secs mod 86400 div 3600, secs mod 3600 div 60, secs mod 60]"
    by (rule time_parts_eq)
  have "(secs mod 86400) mod 3600 = secs mod 3600" "(secs mod 3600) mod 60 = secs mod 60"
    by (simp_all add: mod_mod_cancel)
  then show "secs = 86400 * (secs div 86400) + 3600 * (secs mod 86400 div 3600) + 60 * (secs mod 3600 div 60) + secs mod 60"
    using mult_div_mod_eq [of 86400 secs] mult_div_mod_eq [of 3600 "secs mod 86400"]
      mult_div_mod_eq [of 60 "secs mod 3600"] by linarith
qed (simp_all add: div_less_iff_less_mult pos_imp_zdiv_nonneg_iff)

end
