(* ===== verification/Process_Tools.thy ===== *)
theory Process_Tools
  imports Logging_Tools
begin

section \<open>Processes and meta-server info blocks (initat/tools/process_tools.py)\<close>

text \<open>
  The process table as psutil shows it, the effects on the system that the modelled code triggers
  (recorded in the order in which they happen), the MSI block in which a daemon announces its
  processes (construction, parsing, saving, bookkeeping of pids and the check against the process
  table), the pid files, and the search for other instances of a program to kill.
\<close>

subsection \<open>The process table and effects\<close>

text \<open>A process: None stands for the exception of a process that has vanished.\<close>

record proc =
  pr_status :: "string option"
  pr_cmdline :: "string list option"
  pr_ppid :: int

type_synonym proc_dict = "(int \<times> proc) list"

datatype effect =
    Kill int int
  | Unlink string
  | CallCommand string
  | Spawn "string list"
  | Shell string
  | MakeDirs string
  | Chmod string int
  | Chown string string string
  | SignalRestart

definition lower_str :: "string \<Rightarrow> string" where
  "lower_str s = map ascii_lower s"

definition pids_text :: "int list \<Rightarrow> string" where
  "pids_text ps = py_join '', '' (map str_of_int ps)"

subsection \<open>The MSI block\<close>

record msi_block =
  msi_pids :: "int list"
  msi_pid_names :: "(int \<times> string) list"
  msi_pid_proc_names :: "(int \<times> string) list"
  msi_start_time :: py_float
  msi_file_name :: "string option"
  msi_blk_name :: "string option"
  msi_server_dir :: string
  msi_parsed :: bool
  msi_found :: "int list"
  msi_pids_found :: "int list"
  msi_missing_list :: "int list"
  msi_bound_dict :: "(int \<times> int) list"

text \<open>The content of a block file: the texts of the name elements, of the start time, and per pid
  element its text and its attributes name and proc_name.\<close>

record msi_xml =
  mx_names :: "string list"
  mx_start_time :: "string option"
  mx_pids :: "(string \<times> string option \<times> string option) list"

definition reset_block :: msi_block where
  "reset_block =
     \<lparr>msi_pids = [], msi_pid_names = [], msi_pid_proc_names = [], msi_start_time = 0, msi_file_name = None,
      msi_blk_name = None, msi_server_dir = [], msi_parsed = False, msi_found = [], msi_pids_found = [],
      msi_missing_list = [], msi_bound_dict = []\<rparr>"

definition py_dirname :: "string \<Rightarrow> string" where
  "py_dirname p =
     (let h = take (length p - length (py_basename p)) p in
      if list_all (\<lambda>c. c = CHR ''/'') h then h
      else rev (dropWhile (\<lambda>c. c = CHR ''/'') (rev h)))"

fun parse_pids :: "nat \<Rightarrow> (string \<times> string option \<times> string option) list \<Rightarrow> msi_block \<Rightarrow> msi_block res" where
  "parse_pids idx [] b = Inr b"
| "parse_pids idx ((tx, nm, pn) # ps) b =
     bind_r (py_int tx) (\<lambda>pid.
       parse_pids (idx + 1) ps
         (b\<lparr>msi_pids := List.insert pid (msi_pids b),
            msi_pid_names := AList.update pid
              (case nm of None \<Rightarrow> ''proc'' @ str_of_nat (idx + 1) | Some n \<Rightarrow> n) (msi_pid_names b),
            msi_pid_proc_names := AList.update pid
              (case pn of None \<Rightarrow> [] | Some n \<Rightarrow> n) (msi_pid_proc_names b)\<rparr>))"

text \<open>\<open>_parse_file\<close> after the content could be read; \<open>ctime\<close> is the change time of the file.\<close>

definition parse_file :: "int \<Rightarrow> string \<Rightarrow> msi_xml \<Rightarrow> msi_block \<Rightarrow> msi_block res" where
  "parse_file ctime name x b =
     bind_r (list_get (mx_names x) 0) (\<lambda>n.
     bind_r (case mx_start_time x of
               None \<Rightarrow> Inr ctime
             | Some s \<Rightarrow> bind_r (py_float_of s) (\<lambda>f. Inr (py_trunc f))) (\<lambda>st.
       parse_pids 0 (mx_pids x)
         (b\<lparr>msi_file_name := Some name, msi_blk_name := Some n, msi_start_time := of_int st\<rparr>)))"

text \<open>The constructor. \<open>content\<close> is what reading the file gives, None when the XML cannot be read.\<close>

definition new_msi_block :: "(string \<Rightarrow> msi_xml option) \<Rightarrow> int \<Rightarrow> py_float \<Rightarrow> string \<Rightarrow> msi_block res" where
  "new_msi_block content ctime now name =
     (let fresh = (\<lambda>n. reset_block\<lparr>msi_start_time := now, msi_server_dir := ''/var/lib/meta-server'', msi_blk_name := n\<rparr>)
      in if startswith name ''/'' then
           (case content name of
              None \<Rightarrow> Inr (fresh None)
            | Some x \<Rightarrow> bind_r (parse_file ctime name x reset_block)
                (\<lambda>b. Inr (b\<lparr>msi_server_dir := py_dirname name, msi_parsed := True\<rparr>)))
         else Inr (fresh (Some name)))"

text \<open>\<open>add_actual_pid\<close>: \<open>act_pid\<close> 0 or None means the own pid; \<open>ps_name\<close> is the name psutil reports, None
  when it raises.\<close>

definition own_pid :: "int \<Rightarrow> int option \<Rightarrow> int" where
  "own_pid getpid act_pid = (case act_pid of None \<Rightarrow> getpid | Some p \<Rightarrow> if p = 0 then getpid else p)"

definition add_actual_pid :: "int \<Rightarrow> (int \<Rightarrow> string option) \<Rightarrow> int option \<Rightarrow> string \<Rightarrow> msi_block \<Rightarrow> msi_block" where
  "add_actual_pid getpid ps_name act_pid process_name b =
     (let pid = own_pid getpid act_pid;
          pn = (case ps_name pid of None \<Rightarrow> [] | Some n \<Rightarrow> n);
          nm = (if process_name = [] then ''proc'' @ str_of_nat (length (msi_pid_names b) + 1) else process_name)
      in b\<lparr>msi_pids := List.insert pid (msi_pids b),
           msi_pid_names := AList.update pid nm (msi_pid_names b),
           msi_pid_proc_names := AList.update pid pn (msi_pid_proc_names b)\<rparr>)"

definition remove_actual_pid :: "int \<Rightarrow> int option \<Rightarrow> msi_block \<Rightarrow> msi_block res" where
  "remove_actual_pid getpid act_pid b =
     (let pid = own_pid getpid act_pid in
      if pid \<in> set (msi_pids b) then Inr (b\<lparr>msi_pids := remove1 pid (msi_pids b)\<rparr>) else Inl KeyError)"

text \<open>\<open>get_pids\<close>; the parent of a listed process is looked up and thrown away, but a process without
  a parent makes the lookup fail.\<close>

datatype parent_info = NoSuchProcess | NoParent | Parent int

definition get_pids :: "(int \<Rightarrow> parent_info) \<Rightarrow> string option \<Rightarrow> string option \<Rightarrow> msi_block \<Rightarrow> int list res" where
  "get_pids parent process_name name b =
     bind_r (case process_name of
               None \<Rightarrow> Inr (msi_pids b)
             | Some pn \<Rightarrow>
                 if msi_pid_proc_names b \<noteq> [] \<and> list_all (\<lambda>(_, v). v = []) (msi_pid_proc_names b)
                 then Inr (msi_pids b)
                 else bind_r (mapM_r (\<lambda>p. bind_r (dict_get p (msi_pid_proc_names b)) (\<lambda>v. Inr (p, v))) (msi_pids b))
                        (\<lambda>pvs. Inr (map fst (filter (\<lambda>(p, v). v = pn) pvs)))) (\<lambda>l1.
     let l2 = (case name of
                 None \<Rightarrow> l1
               | Some nm \<Rightarrow> filter (\<lambda>p. (case map_of (msi_pid_names b) p of None \<Rightarrow> ''???'' | Some v \<Rightarrow> v) = nm) l1)
     in if \<exists>p \<in> set l2. parent p = NoParent then Inl AttributeError else Inr l2)"

definition set_pids :: "int list \<Rightarrow> msi_block \<Rightarrow> msi_block" where
  "set_pids ps b = b\<lparr>msi_pids := remdups ps\<rparr>"

definition get_process_name :: "int \<Rightarrow> msi_block \<Rightarrow> string res" where
  "get_process_name pid b = dict_get pid (msi_pid_names b)"

definition get_sys_process_name :: "int \<Rightarrow> msi_block \<Rightarrow> string res" where
  "get_sys_process_name pid b = dict_get pid (msi_pid_proc_names b)"

definition get_info :: "msi_block \<Rightarrow> string" where
  "get_info b =
     (let ps = sort (remdups (msi_pids b)) in
      get_plural ''pid'' (int (length ps)) @ '': '' @ (if ps = [] then ''---'' else pids_text ps))"

definition save :: "msi_block \<Rightarrow> (msi_block \<times> msi_xml) res" where
  "save b =
     bind_r (mapM_r (\<lambda>p. bind_r (get_process_name p b) (\<lambda>n. bind_r (get_sys_process_name p b) (\<lambda>pn.
         Inr (str_of_int p, Some n, Some pn)))) (sort (msi_pids b))) (\<lambda>pl.
     case msi_blk_name b of
       None \<Rightarrow> Inl TypeError
     | Some n \<Rightarrow>
         Inr (b\<lparr>msi_file_name := Some (case msi_file_name b of
                    None \<Rightarrow> path_join (msi_server_dir b) n
                  | Some f \<Rightarrow> if f = [] then path_join (msi_server_dir b) n else f)\<rparr>,
              \<lparr>mx_names = (if n = [] then [] else [n]),
               mx_start_time = Some (str_of_int (py_trunc (msi_start_time b))), mx_pids = pl\<rparr>))"

definition msi_eq :: "msi_block \<Rightarrow> msi_block \<Rightarrow> bool" where
  "msi_eq a b \<longleftrightarrow> msi_blk_name a = msi_blk_name b \<and> sort (msi_pids a) = sort (msi_pids b)"

definition get_main_pid :: "msi_block \<Rightarrow> int option" where
  "get_main_pid b =
     (case filter (\<lambda>(_, v). v = ''main'') (msi_pid_names b) of [] \<Rightarrow> None | (p, _) # _ \<Rightarrow> Some p)"

definition proc_alive :: "proc_dict \<Rightarrow> int \<Rightarrow> bool" where
  "proc_alive act p \<longleftrightarrow>
     (case map_of act p of
        None \<Rightarrow> False
      | Some pr \<Rightarrow> (case pr_status pr of
                      None \<Rightarrow> False
                    | Some st \<Rightarrow> lower_str st \<in> {''running'', ''sleeping''}))"

text \<open>\<open>check_block\<close>: an empty dictionary makes it read the process list itself.\<close>

definition check_block :: "proc_dict \<Rightarrow> proc_dict \<Rightarrow> msi_block \<Rightarrow> bool \<times> msi_block" where
  "check_block proc_list act_dict b =
     (let act = (if act_dict = [] then proc_list else act_dict);
          found = filter (proc_alive act) (msi_pids b);
          uniq = remdups (found @ msi_pids b);
          missing = filter (\<lambda>p. p \<notin> set found) uniq;
          bound = map (\<lambda>p. (p, if p \<notin> set found then -1 else if p \<notin> set (msi_pids b) then 1 else 0)) uniq;
          ok = (if \<exists>(_, v) \<in> set bound. v \<noteq> 0 then False
                else if found = [] then False
                else \<not> (\<exists>(_, v) \<in> set bound. v > 0))
      in (ok, b\<lparr>msi_found := found,
                msi_pids_found := filter (\<lambda>p. map_of act p \<noteq> None) found,
                msi_missing_list := missing,
                msi_bound_dict := bound\<rparr>))"

text \<open>\<open>pid_check_string\<close>; \<open>procs\<close> lists the pid and, if there, the name of every entry of the dictionary.\<close>

definition pid_check_string :: "(int \<times> string option) list \<Rightarrow> msi_block \<Rightarrow> string" where
  "pid_check_string procs b =
     (let name = (\<lambda>p. case map_of (rev procs) p of None \<Rightarrow> ''unknown'' | Some None \<Rightarrow> ''unknown'' | Some (Some n) \<Rightarrow> n);
          mis = (\<lambda>p v. if p \<in> set (msi_missing_list b) then ''missing''
                       else if v \<noteq> 0 then
                         str_of_int \<bar>v\<bar> @ '' '' @ (if v < 0 then ''missing'' else ''too much'') @ '', '' @
                         str_of_int (if p \<in> set (msi_found b) then 1 else 0) @ '' found)''
                       else ''OK'');
          pl = map (\<lambda>(p, v). name p @ ''@'' @ str_of_int p @ '': '' @ mis p v) (sort_key fst (msi_bound_dict b))
      in if pl = [] then ''no processes''
         else get_plural ''process'' (int (length pl)) @ '': '' @ py_join '', '' pl)"

definition kill_all_found_pids :: "(int \<Rightarrow> bool) \<Rightarrow> msi_block \<Rightarrow> string \<times> effect list" where
  "kill_all_found_pids kill_ok b =
     (let ps = sort (msi_found b);
          oks = filter kill_ok ps; errs = filter (\<lambda>p. \<not> kill_ok p) ps;
          part = (\<lambda>l. if l = [] then ''---'' else get_plural ''pid'' (int (length l)) @ '' ('' @ pids_text l @ '')'')
      in if ps = [] then (''no pids to kill'', [])
         else (get_plural ''pid'' (int (length ps)) @ '' to kill ('' @ pids_text ps @ ''); ok: '' @ part oks @
               '', error: '' @ part errs,
               map (\<lambda>p. Kill p 9) ps))"

subsection \<open>Well-formed blocks and the file round trip\<close>

definition wf_msi :: "msi_block \<Rightarrow> bool" where
  "wf_msi b \<longleftrightarrow> distinct (msi_pids b) \<and>
     (\<forall>p \<in> set (msi_pids b). map_of (msi_pid_names b) p \<noteq> None \<and> map_of (msi_pid_proc_names b) p \<noteq> None)"

lemma wf_msi_add [simp]: "wf_msi b \<Longrightarrow> wf_msi (add_actual_pid g psn a n b)"
  by (auto simp: wf_msi_def add_actual_pid_def Let_def update_conv')

lemma wf_msi_remove: "wf_msi b \<Longrightarrow> remove_actual_pid g a b = Inr b' \<Longrightarrow> wf_msi b'"
  by (auto simp: wf_msi_def remove_actual_pid_def Let_def split: if_splits)

lemma wf_msi_parse_pids: "parse_pids i ps b = Inr b' \<Longrightarrow> wf_msi b \<Longrightarrow> wf_msi b'"
proof (induction i ps b rule: parse_pids.induct)
  case (2 idx tx nm pn ps b)
  from 2(2) obtain pid where p: "py_int tx = Inr pid"
    and r: "parse_pids (idx + 1) ps
         (b\<lparr>msi_pids := List.insert pid (msi_pids b),
            msi_pid_names := AList.update pid
              (case nm of None \<Rightarrow> ''proc'' @ str_of_nat (idx + 1) | Some n \<Rightarrow> n) (msi_pid_names b),
            msi_pid_proc_names := AList.update pid
              (case pn of None \<Rightarrow> [] | Some n \<Rightarrow> n) (msi_pid_proc_names b)\<rparr>) = Inr b'"
    by (auto simp: bind_r_eq_Inr)
  from 2(1) [OF r] 2(3) show ?case by (auto simp: wf_msi_def update_conv')
qed simp

lemma wf_msi_frame:
  "wf_msi (b\<lparr>msi_server_dir := d, msi_parsed := x\<rparr>) = wf_msi b"
  "wf_msi (b\<lparr>msi_file_name := f, msi_blk_name := n, msi_start_time := t\<rparr>) = wf_msi b"
  by (simp_all add: wf_msi_def)

lemma wf_msi_new: "new_msi_block content ctime now name = Inr b \<Longrightarrow> wf_msi b"
  by (auto simp: new_msi_block_def Let_def bind_r_eq_Inr parse_file_def wf_msi_frame
      dest!: wf_msi_parse_pids split: if_splits option.splits)
    (auto simp: wf_msi_def reset_block_def)

lemma parse_printed_pids:
  "\<exists>b'. parse_pids i (map (\<lambda>p. (str_of_int p, Some (nm p), Some (pn p))) ps) b = Inr b' \<and>
     set (msi_pids b') = set (msi_pids b) \<union> set ps \<and>
     (\<forall>q. map_of (msi_pid_names b') q = (if q \<in> set ps then Some (nm q) else map_of (msi_pid_names b) q)) \<and>
     (\<forall>q. map_of (msi_pid_proc_names b') q = (if q \<in> set ps then Some (pn q) else map_of (msi_pid_proc_names b) q)) \<and>
     msi_blk_name b' = msi_blk_name b \<and> msi_start_time b' = msi_start_time b"
proof (induction ps arbitrary: i b)
  case (Cons p ps)
  let ?b = "b\<lparr>msi_pids := List.insert p (msi_pids b),
      msi_pid_names := AList.update p (nm p) (msi_pid_names b),
      msi_pid_proc_names := AList.update p (pn p) (msi_pid_proc_names b)\<rparr>"
  show ?case using Cons [of "i + 1" ?b] by (auto simp: update_conv' fun_upd_def)
qed simp

lemma sort_eq_of_set_eq: "distinct xs \<Longrightarrow> distinct ys \<Longrightarrow> set xs = set ys \<Longrightarrow> sort xs = sort ys"
  for xs ys :: "'a :: linorder list"
  by (metis distinct_remdups_id sorted_list_of_set_sort_remdups)

lemma save_printed_pids:
  assumes "wf_msi b"
  shows "mapM_r (\<lambda>p. bind_r (get_process_name p b) (\<lambda>n. bind_r (get_sys_process_name p b) (\<lambda>pn.
           Inr (str_of_int p, Some n, Some pn)))) (sort (msi_pids b)) =
         Inr (map (\<lambda>p. (str_of_int p, Some (the (map_of (msi_pid_names b) p)),
                Some (the (map_of (msi_pid_proc_names b) p)))) (sort (msi_pids b)))"
  using assms
  by (intro mapM_r_all_Inr) (auto simp: wf_msi_def get_process_name_def get_sys_process_name_def dict_get_def)

text \<open>Saving a block whose processes all have names and a non-empty block name succeeds, and a
  meta-server that reads the file later gets an equal block: same name, same set of pids with the same
  names, and the start time cut to whole seconds.\<close>

theorem msi_save_parse:
  assumes wf: "wf_msi b" and n: "msi_blk_name b = Some n" "n \<noteq> []"
    and f: "startswith f ''/''"
  shows "\<exists>b1 x. save b = Inr (b1, x) \<and>
           (\<exists>b2. new_msi_block (\<lambda>_. Some x) ctime now f = Inr b2 \<and> msi_parsed b2 \<and> msi_eq b2 b \<and>
              msi_start_time b2 = of_int (py_trunc (msi_start_time b)) \<and>
              (\<forall>p \<in> set (msi_pids b). get_process_name p b2 = get_process_name p b \<and>
                 get_sys_process_name p b2 = get_sys_process_name p b))"
proof -
  let ?pl = "map (\<lambda>p. (str_of_int p, Some (the (map_of (msi_pid_names b) p)),
                Some (the (map_of (msi_pid_proc_names b) p)))) (sort (msi_pids b))"
  let ?x = "\<lparr>mx_names = [n], mx_start_time = Some (str_of_int (py_trunc (msi_start_time b))), mx_pids = ?pl\<rparr>"
  obtain b1 where s: "save b = Inr (b1, ?x)"
    using n by (auto simp: save_def save_printed_pids [OF wf])
  let ?b0 = "reset_block\<lparr>msi_file_name := Some f, msi_blk_name := Some n,
      msi_start_time := of_int (py_trunc (msi_start_time b))\<rparr>"
  obtain b' where p: "parse_pids 0 ?pl ?b0 = Inr b'" "set (msi_pids b') = set (msi_pids b)"
      "msi_blk_name b' = Some n" "msi_start_time b' = of_int (py_trunc (msi_start_time b))"
      "\<And>q. q \<in> set (msi_pids b) \<Longrightarrow> map_of (msi_pid_names b') q = Some (the (map_of (msi_pid_names b) q))"
      "\<And>q. q \<in> set (msi_pids b) \<Longrightarrow> map_of (msi_pid_proc_names b') q = Some (the (map_of (msi_pid_proc_names b) q))"
    using parse_printed_pids [of 0 "\<lambda>p. the (map_of (msi_pid_names b) p)"
        "\<lambda>p. the (map_of (msi_pid_proc_names b) p)" "sort (msi_pids b)" ?b0]
    by (auto simp: reset_block_def)
  have "wf_msi b'" by (rule wf_msi_parse_pids [OF p(1)]) (simp add: wf_msi_def reset_block_def)
  then have e: "sort (msi_pids b') = sort (msi_pids b)"
    using wf p(2) by (intro sort_eq_of_set_eq) (auto simp: wf_msi_def)
  have "new_msi_block (\<lambda>_. Some ?x) ctime now f = Inr (b'\<lparr>msi_server_dir := py_dirname f, msi_parsed := True\<rparr>)"
    using f p(1) by (simp add: new_msi_block_def Let_def parse_file_def)
  with s p e wf n show ?thesis
    by (auto simp: msi_eq_def get_process_name_def get_sys_process_name_def dict_get_def wf_msi_def)
qed

definition demo_block :: msi_block where
  "demo_block = add_actual_pid 7 (\<lambda>_. None) (Some 9) ''main''
     (add_actual_pid 7 (\<lambda>_. Some ''py'') None [] (reset_block\<lparr>msi_blk_name := Some ''srv''\<rparr>))"

lemma wf_msi_empty: "wf_msi (reset_block\<lparr>msi_blk_name := n\<rparr>)"
  by (simp add: wf_msi_def reset_block_def)

lemma wf_demo_block: "wf_msi demo_block"
  by (simp only: demo_block_def wf_msi_add wf_msi_empty)

theorem msi_save_parse_witness:
  "\<exists>b1 x. save demo_block = Inr (b1, x) \<and>
     (\<exists>b2. new_msi_block (\<lambda>_. Some x) 0 0 ''/var/lib/meta-server/srv'' = Inr b2 \<and> msi_eq b2 demo_block)"
  using msi_save_parse [OF wf_demo_block, of "''srv''" "''/var/lib/meta-server/srv''" 0 0]
  by (fastforce simp: startswith_def demo_block_def add_actual_pid_def Let_def)

text \<open>A block is reported as complete exactly if it names processes and each of them is running or
  sleeping; the missing list holds the others, and the reported differences are 0 for processes which
  were found and -1 for those which were not (the branch for processes that are too much is dead).\<close>

theorem check_block_iff:
  "fst (check_block pl act b) =
     (msi_pids b \<noteq> [] \<and> list_all (proc_alive (if act = [] then pl else act)) (msi_pids b)) \<and>
   set (msi_missing_list (snd (check_block pl act b))) =
     {p \<in> set (msi_pids b). \<not> proc_alive (if act = [] then pl else act) p} \<and>
   set (msi_bound_dict (snd (check_block pl act b))) =
     (\<lambda>p. (p, if proc_alive (if act = [] then pl else act) p then 0 else -1)) ` set (msi_pids b) \<and>
   set (msi_pids_found (snd (check_block pl act b))) =
     {p \<in> set (msi_pids b). proc_alive (if act = [] then pl else act) p}"
proof -
  define a where "a = (if act = [] then pl else act)"
  have u: "set (remdups (filter (proc_alive a) (msi_pids b) @ msi_pids b)) = set (msi_pids b)" by auto
  have pd: "map_of a p \<noteq> None" if "proc_alive a p" for p
    using that by (auto simp: proc_alive_def split: option.splits)
  have "fst (check_block pl act b) = (msi_pids b \<noteq> [] \<and> list_all (proc_alive a) (msi_pids b))"
    unfolding check_block_def Let_def a_def [symmetric] fst_conv set_map u
    by (auto simp: list_all_iff filter_empty_conv split: if_splits)
  moreover have "set (msi_missing_list (snd (check_block pl act b))) = {p \<in> set (msi_pids b). \<not> proc_alive a p}"
    unfolding check_block_def Let_def a_def [symmetric] by auto
  moreover have "set (msi_bound_dict (snd (check_block pl act b))) =
     (\<lambda>p. (p, if proc_alive a p then 0 else -1)) ` set (msi_pids b)"
    unfolding check_block_def Let_def a_def [symmetric] by (auto simp: image_iff)
  moreover have "set (msi_pids_found (snd (check_block pl act b))) = {p \<in> set (msi_pids b). proc_alive a p}"
    unfolding check_block_def Let_def a_def [symmetric] using pd by auto
  ultimately show ?thesis unfolding a_def by blast
qed

subsection \<open>Pid files\<close>

type_synonym file_map = "string \<Rightarrow> string option"

definition RUN_DIR :: string where
  "RUN_DIR = ''/var/run''"

datatype pid_arg = PidNone | PidInt int | PidStr string | PidList "int list"

fun arg_pids :: "int \<Rightarrow> pid_arg \<Rightarrow> int list res" where
  "arg_pids getpid PidNone = Inr [getpid]"
| "arg_pids getpid (PidInt p) = Inr [p]"
| "arg_pids getpid (PidStr s) = bind_r (py_int s) (\<lambda>p. Inr [p])"
| "arg_pids getpid (PidList ps) = Inr ps"

definition append_pid_file :: "string \<Rightarrow> string" where
  "append_pid_file name =
     (if startswith name ''/'' then name
      else let f = path_join RUN_DIR name in if endswith f ''.pid'' then f else f @ ''.pid'')"

definition remove_pid_file :: "string \<Rightarrow> string" where
  "remove_pid_file name = (if startswith name ''/'' then name else path_join RUN_DIR name @ ''.pid'')"

text \<open>\<open>append_pids\<close> and \<open>save_pid\<close>: \<open>app\<close> is the mode \<open>a\<close>; a file that cannot be written is only logged.\<close>

definition append_pids :: "int \<Rightarrow> (string \<Rightarrow> bool) \<Rightarrow> bool \<Rightarrow> string \<Rightarrow> pid_arg \<Rightarrow> file_map \<Rightarrow> file_map res" where
  "append_pids getpid writable app name pid fs =
     bind_r (arg_pids getpid pid) (\<lambda>actp.
       let f = append_pid_file name; t = py_join [CHR ''\<newline>''] (map str_of_int actp @ [[]]) in
       if writable f then Inr (fs(f \<mapsto> (if app then (case fs f of None \<Rightarrow> [] | Some old \<Rightarrow> old) else []) @ t))
       else Inr fs)"

definition remove_pids :: "int \<Rightarrow> (string \<Rightarrow> bool) \<Rightarrow> string \<Rightarrow> pid_arg \<Rightarrow> file_map \<Rightarrow> file_map res" where
  "remove_pids getpid writable name pid fs =
     bind_r (arg_pids getpid pid) (\<lambda>actp.
       let f = remove_pid_file name in
       case fs f of
         None \<Rightarrow> Inr fs
       | Some c \<Rightarrow>
           let ls = filter (\<lambda>l. l \<notin> set (map str_of_int actp)) (map py_strip (py_split (CHR ''\<newline>'') c)) in
           if writable f then Inr (fs(f \<mapsto> py_join [CHR ''\<newline>''] ls)) else Inr fs)"

definition delete_pid :: "(string \<Rightarrow> bool) \<Rightarrow> string \<Rightarrow> file_map \<Rightarrow> file_map" where
  "delete_pid writable name fs =
     (let f = remove_pid_file name in if fs f \<noteq> None \<and> writable f then fs(f := None) else fs)"

text \<open>The pids a reader of such a file sees (the expression of \<open>PIDService._check\<close>).\<close>

definition pids_of_content :: "string \<Rightarrow> int list" where
  "pids_of_content c =
     map (\<lambda>l. int (dec_val (py_strip l))) (filter (\<lambda>l. py_isdigit (py_strip l)) (py_split (CHR ''\<newline>'') c))"

subsection \<open>Finding other instances of a program\<close>

text \<open>\<open>build_ppid_list\<close>: the loop follows the parents until a process is unknown or has no parent. It
  does not end when the parents form a cycle, hence the option.\<close>

partial_function (option) ppid_loop :: "proc_dict \<Rightarrow> int \<Rightarrow> int list \<Rightarrow> int list option" where
  "ppid_loop pd pid acc =
     (case map_of pd pid of
        None \<Rightarrow> Some acc
      | Some pr \<Rightarrow> if pr_ppid pr = 0 then Some acc else ppid_loop pd (pr_ppid pr) (acc @ [pr_ppid pr]))"

declare ppid_loop.simps [code]

definition build_ppid_list :: "int \<Rightarrow> proc_dict \<Rightarrow> int option \<Rightarrow> int list option" where
  "build_ppid_list getpid pd pid =
     (case pid of
        Some p \<Rightarrow> if p = 0 then ppid_loop pd getpid [] else ppid_loop pd p [p]
      | None \<Rightarrow> ppid_loop pd getpid [])"

fun get_python_cmd :: "string list \<Rightarrow> string option" where
  "get_python_cmd [] = None"
| "get_python_cmd (e # es) =
     (let b = py_basename e in
      if startswith b ''python'' then get_python_cmd es
      else if startswith b ''-'' then get_python_cmd es
      else if endswith b ''.py'' then Some b
      else None)"

definition build_kill_dict :: "int \<Rightarrow> proc_dict \<Rightarrow> string \<Rightarrow> int list \<Rightarrow> (int \<times> string) list option" where
  "build_kill_dict getpid pd name exclude =
     Option.bind (build_ppid_list getpid pd (Some getpid)) (\<lambda>ppl.
       Some (concat (map (\<lambda>(pid, pr).
         case pr_cmdline pr of
           None \<Rightarrow> []
         | Some cl \<Rightarrow>
             if get_python_cmd cl = Some name \<and> pid \<notin> set ppl \<and> pid \<notin> set exclude
             then [(pid, py_join '' '' cl)] else []) pd)))"

text \<open>The signals \<open>kill_running_processes\<close> sends.\<close>

definition kill_running_processes ::
  "int \<Rightarrow> proc_dict \<Rightarrow> string option \<Rightarrow> int list \<Rightarrow> int \<Rightarrow> string list \<Rightarrow> effect list option" where
  "kill_running_processes getpid pd p_name exclude sig ignore_names =
     (let nm = (case p_name of
                  Some n \<Rightarrow> Some n
                | None \<Rightarrow> (case map_of pd getpid of
                             Some pr \<Rightarrow> (case pr_cmdline pr of Some cl \<Rightarrow> get_python_cmd cl | None \<Rightarrow> None)
                           | None \<Rightarrow> None))
      in case nm of
           None \<Rightarrow> Some []
         | Some n \<Rightarrow>
             if n = [] then Some []
             else Option.bind (build_kill_dict getpid pd n exclude) (\<lambda>kd.
                    Some (map (\<lambda>(pid, _). Kill pid sig) (filter (\<lambda>(_, l). l \<notin> set ignore_names) kd))))"

lemma ppid_loop_prefix: "ppid_loop pd pid acc = Some l \<Longrightarrow> \<exists>r. l = acc @ r"
proof (erule ppid_loop.raw_induct [of "\<lambda>_ _ acc l. \<exists>r. l = acc @ r", rotated])
  fix lp pd pid acc l
  assume IH: "\<And>pd pid acc l. lp pd pid acc = Some l \<Longrightarrow> \<exists>r. l = acc @ r"
    and e: "(case map_of pd pid of None \<Rightarrow> Some acc
      | Some pr \<Rightarrow> if pr_ppid pr = 0 then Some acc else lp pd (pr_ppid pr) (acc @ [pr_ppid pr])) = Some l"
  show "\<exists>r. l = acc @ r"
  proof (cases "map_of pd pid")
    case None
    with e show ?thesis by simp
  next
    case (Some pr)
    with e IH [of pd "pr_ppid pr" "acc @ [pr_ppid pr]" l] show ?thesis by (auto split: if_splits)
  qed
qed

text \<open>The ancestors of a process in the table.\<close>

inductive ancestor :: "proc_dict \<Rightarrow> int \<Rightarrow> int \<Rightarrow> bool" for pd where
  anc_parent: "map_of pd p = Some pr \<Longrightarrow> pr_ppid pr \<noteq> 0 \<Longrightarrow> ancestor pd p (pr_ppid pr)"
| anc_step: "map_of pd p = Some pr \<Longrightarrow> pr_ppid pr \<noteq> 0 \<Longrightarrow> ancestor pd (pr_ppid pr) q \<Longrightarrow> ancestor pd p q"

inductive_cases ancestorE: "ancestor pd p q"

lemma ppid_loop_ancestors:
  assumes "ancestor pd p q" and "ppid_loop pd p acc = Some l"
  shows "q \<in> set l"
  using assms
proof (induction arbitrary: acc rule: ancestor.induct)
  case (anc_parent p pr)
  then have "ppid_loop pd (pr_ppid pr) (acc @ [pr_ppid pr]) = Some l" by (simp add: ppid_loop.simps [of pd p])
  from ppid_loop_prefix [OF this] show ?case by auto
next
  case (anc_step p pr q)
  then show ?case by (simp add: ppid_loop.simps [of pd p])
qed

text \<open>C39: killing other instances of a program never signals the calling process, one of its ancestors
  or an excluded pid, and every signal goes to a listed process that runs a script of that name.\<close>

theorem kill_running_processes_safe:
  assumes "kill_running_processes getpid pd (Some n) exclude sig ign = Some effs"
    and "getpid \<noteq> 0" and "Kill p s \<in> set effs"
  shows "s = sig \<and> p \<noteq> getpid \<and> \<not> ancestor pd getpid p \<and> p \<notin> set exclude \<and>
         (\<exists>pr cl. (p, pr) \<in> set pd \<and> pr_cmdline pr = Some cl \<and> get_python_cmd cl = Some n)"
proof -
  from assms(1, 3) obtain kd c where kd: "build_kill_dict getpid pd n exclude = Some kd"
    and e: "(p, c) \<in> set kd" "s = sig"
    by (auto simp: kill_running_processes_def split: if_splits bind_splits)
  from kd assms(2) obtain ppl where ppl: "ppid_loop pd getpid [getpid] = Some ppl"
    and k: "p \<notin> set ppl" "p \<notin> set exclude"
      "\<exists>pr cl. (p, pr) \<in> set pd \<and> pr_cmdline pr = Some cl \<and> get_python_cmd cl = Some n"
    using e(1) by (fastforce simp: build_kill_dict_def build_ppid_list_def split: bind_splits option.splits if_splits)
  from ppid_loop_prefix [OF ppl] k(1) have "p \<noteq> getpid" by auto
  with ppid_loop_ancestors [OF _ ppl] k e(2) show ?thesis by blast
qed

definition demo_procs :: proc_dict where
  "demo_procs =
     [(7, \<lparr>pr_status = Some ''running'', pr_cmdline = Some [''python'', ''/x/a.py''], pr_ppid = 1\<rparr>),
      (9, \<lparr>pr_status = Some ''sleeping'', pr_cmdline = Some [''python'', ''/x/a.py''], pr_ppid = 1\<rparr>),
      (1, \<lparr>pr_status = Some ''sleeping'', pr_cmdline = Some [''init''], pr_ppid = 0\<rparr>)]"

lemma demo_kill: "kill_running_processes 7 demo_procs (Some ''a.py'') [] 9 [] = Some [Kill 9 9]"
  by (simp add: kill_running_processes_def build_kill_dict_def build_ppid_list_def ppid_loop.simps
      demo_procs_def py_basename_def startswith_def endswith_def)

theorem kill_running_processes_safe_witness:
  "(9 :: int) \<noteq> 7 \<and> \<not> ancestor demo_procs 7 9"
  using kill_running_processes_safe [OF demo_kill, of 9 9] by simp

text \<open>The walk ends when the parents do not form a cycle, for instance when a parent always has a
  smaller pid or rank than its child.\<close>

lemma ppid_loop_total:
  assumes "wf {(pr_ppid pr, p) |p pr. map_of pd p = Some pr \<and> pr_ppid pr \<noteq> 0}"
  shows "\<exists>l. ppid_loop pd p acc = Some l"
  using assms
proof (induction p arbitrary: acc rule: wf_induct_rule)
  case (less p)
  show ?case
  proof (cases "map_of pd p")
    case None
    then show ?thesis by (simp add: ppid_loop.simps [of pd p])
  next
    case (Some pr)
    with less [of "pr_ppid pr" "acc @ [pr_ppid pr]"] show ?thesis
      by (cases "pr_ppid pr = 0") (auto simp: ppid_loop.simps [of pd p])
  qed
qed

text \<open>C40: the search for processes to kill terminates with a result whenever the parent relation of the
  process table is well-founded.\<close>

theorem kill_running_processes_total:
  assumes "wf {(pr_ppid pr, p) |p pr. map_of pd p = Some pr \<and> pr_ppid pr \<noteq> 0}"
  shows "\<exists>effs. kill_running_processes getpid pd p_name exclude sig ign = Some effs"
proof -
  have "\<exists>l. build_ppid_list getpid pd (Some getpid) = Some l"
    using ppid_loop_total [OF assms] by (simp add: build_ppid_list_def)
  then have "\<exists>kd. build_kill_dict getpid pd n exclude = Some kd" for n
    by (auto simp: build_kill_dict_def)
  then have "\<exists>effs. Option.bind (build_kill_dict getpid pd n exclude) (\<lambda>kd. Some (f kd)) = Some effs"
    for n and f :: "(int \<times> string) list \<Rightarrow> effect list"
    by (metis bind.bind_lunit)
  then show ?thesis unfolding kill_running_processes_def Let_def by (auto split: option.split)
qed

lemma demo_procs_wf: "wf {(pr_ppid pr, p) |p pr. map_of demo_procs p = Some pr \<and> pr_ppid pr \<noteq> 0}"
  by (rule wf_subset [OF wf_measure [of nat]]) (auto simp: demo_procs_def split: if_splits)

theorem kill_running_processes_total_witness:
  "\<exists>effs. kill_running_processes 7 demo_procs None [] 15 [] = Some effs"
  by (rule kill_running_processes_total [OF demo_procs_wf])

subsection \<open>Pid files are read back\<close>

lemma py_strip_str_of_int [simp]: "0 \<le> p \<Longrightarrow> py_strip (str_of_int p) = str_of_int p"
  by (simp add: str_of_int_nonneg py_strip_digits str_of_nat_digits)

lemma py_strip_Nil [simp]: "py_strip [] = []"
  by (simp add: py_strip_def)

lemma newline_notin_str_of_int: "CHR ''\<newline>'' \<notin> set (str_of_int p)"
  by (auto simp: str_of_int_def str_of_nat_no_char is_digit_def)

lemma pids_of_lines:
  assumes "list_all (\<lambda>p. 0 \<le> p) ps"
  shows "pids_of_content (py_join [CHR ''\<newline>''] (map str_of_int ps @ [[]])) = ps"
proof -
  have "py_split (CHR ''\<newline>'') (py_join [CHR ''\<newline>''] (map str_of_int ps @ [[]])) = map str_of_int ps @ [[]]"
    by (rule py_split_join) (auto simp: newline_notin_str_of_int)
  moreover have "map (\<lambda>l. int (dec_val (py_strip l))) (filter (\<lambda>l. py_isdigit (py_strip l)) (map str_of_int ps)) = ps"
    using assms by (induction ps) (auto simp: str_of_int_nonneg py_strip_digits str_of_nat_digits)
  ultimately show ?thesis by (simp add: pids_of_content_def py_isdigit_def)
qed

lemma str_of_int_eq_nonneg: "0 \<le> p \<Longrightarrow> str_of_int p = str_of_int q \<longleftrightarrow> p = q"
  by (metis py_int_str_of_int sum.inject(2))

text \<open>Pids written to a pid file are the pids a reader of the file finds, and removing some of them
  from the file leaves exactly the others, in their order.\<close>

theorem pid_file_roundtrip:
  assumes nn: "list_all (\<lambda>p. 0 \<le> p) ps" and w: "writable f" and f: "startswith f ''/''"
  shows "\<exists>fs1 fs2 c1 c2. append_pids getpid writable False f (PidList ps) fs = Inr fs1 \<and>
           remove_pids getpid writable f (PidList qs) fs1 = Inr fs2 \<and>
           fs1 f = Some c1 \<and> pids_of_content c1 = ps \<and>
           fs2 f = Some c2 \<and> pids_of_content c2 = filter (\<lambda>p. p \<notin> set qs) ps"
proof -
  let ?c1 = "py_join [CHR ''\<newline>''] (map str_of_int ps @ [[]])"
  let ?qs = "filter (\<lambda>p. p \<notin> set qs) ps"
  have s: "map py_strip (py_split (CHR ''\<newline>'') ?c1) = map str_of_int ps @ [[]]"
  proof -
    have "py_split (CHR ''\<newline>'') ?c1 = map str_of_int ps @ [[]]"
      by (rule py_split_join) (auto simp: newline_notin_str_of_int)
    with nn show ?thesis by (simp add: list_all_iff)
  qed
  have ne: "[] \<notin> str_of_int ` set qs" by (auto simp: str_of_int_def split: if_splits) (metis str_of_nat_nonempty)
  have fl: "filter (\<lambda>l. l \<notin> set (map str_of_int qs)) (map str_of_int ps @ [[]]) = map str_of_int ?qs @ [[]]"
    using nn ne by (induction ps) (auto simp: str_of_int_eq_nonneg image_iff)
  have "list_all (\<lambda>p. 0 \<le> p) ?qs" using nn by (auto simp: list_all_iff)
  note r = pids_of_lines [OF nn] pids_of_lines [OF this]
  let ?c2 = "py_join [CHR ''\<newline>''] (map str_of_int ?qs @ [[]])"
  have "append_pids getpid writable False f (PidList ps) fs = Inr (fs(f \<mapsto> ?c1))"
    using w f by (simp add: append_pids_def append_pid_file_def)
  moreover have "remove_pids getpid writable f (PidList qs) (fs(f \<mapsto> ?c1)) = Inr (fs(f \<mapsto> ?c1, f \<mapsto> ?c2))"
    unfolding remove_pids_def remove_pid_file_def arg_pids.simps bind_r_Inr Let_def
    by (simp only: f w if_True fun_upd_same option.case s fl)
  ultimately show ?thesis using r by (intro exI conjI) (assumption | rule fun_upd_same)+
qed

theorem pid_file_roundtrip_witness:
  "\<exists>fs1 fs2 c1 c2. append_pids 1 (\<lambda>_. True) False ''/x'' (PidList [3, 5]) Map.empty = Inr fs1 \<and>
     remove_pids 1 (\<lambda>_. True) ''/x'' (PidList [3]) fs1 = Inr fs2 \<and>
     fs1 ''/x'' = Some c1 \<and> pids_of_content c1 = [3, 5] \<and>
     fs2 ''/x'' = Some c2 \<and> pids_of_content c2 = filter (\<lambda>p. p \<notin> set [3]) [3, 5]"
  by (rule pid_file_roundtrip) (simp_all add: startswith_def)

text \<open>A name that already has the suffix is handled differently by writers and removers.\<close>

lemma pid_file_names_differ: "append_pid_file ''x.pid'' \<noteq> remove_pid_file ''x.pid''"
  by code_simp

subsection \<open>Memory sizes\<close>

text \<open>The format \<open>{:.2f}\<close> of the quotient of two natural numbers: hundredths, rounded half to even.\<close>

definition fmt_2f :: "nat \<Rightarrow> nat \<Rightarrow> string" where
  "fmt_2f a b =
     (let q = (a * 100) div b; r = (a * 100) mod b;
          n = (if 2 * r > b \<or> 2 * r = b \<and> odd q then q + 1 else q)
      in str_of_nat (n div 100) @ ''.'' @ fmt_0d 2 (int (n mod 100)))"

definition beautify_mem_info :: "bool \<Rightarrow> nat \<Rightarrow> string" where
  "beautify_mem_info short mi =
     (let bs = (if short then ''B'' else ''Bytes'') in
      if mi < 1024 then str_of_nat mi @ '' '' @ bs
      else if mi < 1024 * 1024 then fmt_2f mi 1024 @ '' k'' @ bs
      else if mi < 1024 * 1024 * 1024 then fmt_2f mi (1024 * 1024) @ '' M'' @ bs
      else fmt_2f mi (1024 * 1024 * 1024) @ '' G'' @ bs)"

subsection \<open>Finding programs\<close>

definition find_file :: "(string \<Rightarrow> bool) \<Rightarrow> string list \<Rightarrow> string \<Rightarrow> string option" where
  "find_file isfile s_path file_name =
     find isfile (map (\<lambda>p. path_join p file_name)
       (s_path @ [''/opt/cluster/sbin'', ''/opt/cluster/bin'', ''/bin'', ''/usr/bin'', ''/sbin'', ''/usr/sbin'']))"

end
