(* ===== verification/Service.thy ===== *)
theory Service
  imports Instance_Xml Process_Tools
begin

section \<open>Services (initat/icsw/service/service.py)\<close>

text \<open>
  A service object with its three kinds (\<open>SimpleService\<close>, \<open>PIDService\<close>, \<open>MetaService\<close>): the check that
  rebuilds the \<open>result\<close> element of its instance, the run state derived from it, and the actions. What the
  code asks the system for (files, process table, scripts, interfaces, version store) is a record
  \<open>host\<close>, what it does to the system is the list of effects it returns, in order. The service checks of
  the configuration database, the valid licenses and the answer of a meta-server are arguments.
\<close>

subsection \<open>The host\<close>

record host =
  h_exists :: "string \<Rightarrow> bool"
  h_isfile :: "string \<Rightarrow> bool"
  h_isdir :: "string \<Rightarrow> bool"
  h_content :: "string \<Rightarrow> string option"
  h_ctime :: "string \<Rightarrow> int"
  h_msi :: "string \<Rightarrow> msi_xml option"
  h_now :: py_float
  h_getpid :: int
  h_script_status :: "string \<Rightarrow> int"
  h_mem :: "int \<Rightarrow> int"
  h_inet_addrs :: "string list"
  h_proc_list :: proc_dict
  h_proc_exists :: "int \<Rightarrow> bool"
  h_version_store :: "string option option"
  h_except_text :: string
  h_walk_files :: "string \<Rightarrow> string list"
  h_daemon_path :: string
  h_initat_base :: string

text \<open>The outcome of one \<open>config_tools.server_check\<close>: whether there is an effective device and the info
  string, an interrupt or termination request, or any other exception.\<close>

datatype sc_outcome = ScRes bool string | ScInterrupt | ScError

text \<open>The configuration database: which enums exist and the outcomes of the first and second attempt.\<close>

record config_db =
  cdb_enum :: "string \<Rightarrow> bool"
  cdb_first :: "string \<Rightarrow> sc_outcome"
  cdb_second :: "string \<Rightarrow> sc_outcome"

subsection \<open>Service objects\<close>

datatype service_kind = SimpleService | MetaService | PIDService

record service =
  sv_name :: string
  sv_attrib :: "(string \<times> string) list"
  sv_entry :: instance_el
  sv_kind :: service_kind
  sv_config_check_ok :: bool

definition service_class :: "string \<Rightarrow> service_kind res" where
  "service_class ct =
     (if ct = ''simple'' then Inr SimpleService
      else if ct = ''meta'' then Inr MetaService
      else if ct = ''pid_file'' then Inr PIDService
      else Inl KeyError)"

definition new_service :: "instance_el \<Rightarrow> service res" where
  "new_service entry =
     bind_r (el_attr entry ''check_type'') (\<lambda>ct. bind_r (service_class ct) (\<lambda>k.
     bind_r (el_attr entry ''name'') (\<lambda>n.
       Inr \<lparr>sv_name = n, sv_attrib = el_attrib entry, sv_entry = entry, sv_kind = k, sv_config_check_ok = True\<rparr>)))"

definition sv_attr :: "service \<Rightarrow> string \<Rightarrow> string res" where
  "sv_attr s k = dict_get k (sv_attrib s)"

definition entry_get :: "service \<Rightarrow> string \<Rightarrow> string \<Rightarrow> string" where
  "entry_get s k d = (case map_of (el_attrib (sv_entry s)) k of None \<Rightarrow> d | Some v \<Rightarrow> v)"

definition init_script_name :: "service \<Rightarrow> string res" where
  "init_script_name s = bind_r (sv_attr s ''init_script_name'') (\<lambda>n. Inr (path_join ''/etc/init.d'' n))"

definition COMPAT_DICT :: "(string \<times> string) list" where
  "COMPAT_DICT = [(''rms-server'', ''rms_server''), (''logcheck-server'', ''logcheck'')]"

definition msi_name :: "host \<Rightarrow> service \<Rightarrow> string res" where
  "msi_name h s =
     bind_r (sv_attr s ''name'') (\<lambda>c_name.
       let path = path_join ''/var/lib/meta-server'' c_name in
       if \<not> h_exists h path then
         (case map_of COMPAT_DICT c_name of
            None \<Rightarrow> Inr path
          | Some alt \<Rightarrow>
              let alt_path = path_join ''/var/lib/meta-server'' alt in
              if h_exists h alt_path then Inr alt_path else Inr path)
       else Inr path)"

text \<open>\<open>findtext\<close> with a default: an absent or empty text gives the default, any other is stripped.\<close>

definition text_or :: "string option \<Rightarrow> string \<Rightarrow> string" where
  "text_or t d = (case t of None \<Rightarrow> d | Some v \<Rightarrow> if v = [] then d else py_strip v)"

definition old_binary :: "service \<Rightarrow> string" where
  "old_binary s = text_or (el_old_binary (sv_entry s)) (sv_name s)"

definition prog_title :: "service \<Rightarrow> string" where
  "prog_title s = text_or (el_prog_title (sv_entry s)) (''icsw.'' @ sv_name s)"

definition prog_name :: "service \<Rightarrow> string" where
  "prog_name s = text_or (el_prog_name (sv_entry s)) (sv_name s)"

definition mod_name :: "service \<Rightarrow> string" where
  "mod_name s =
     text_or (el_module_name (sv_entry s))
       (''initat.'' @ map (\<lambda>c. if c = CHR ''-'' then CHR ''_'' else c) (sv_name s) @ ''.main'')"

definition entry_pids :: "service \<Rightarrow> pid_el list" where
  "entry_pids s = (case el_result (sv_entry s) of None \<Rightarrow> [] | Some r \<Rightarrow> cr_pids r)"

definition entry_psi :: "service \<Rightarrow> psi option" where
  "entry_psi s = (case el_result (sv_entry s) of None \<Rightarrow> None | Some r \<Rightarrow> cr_psi r)"

definition run_state :: "service \<Rightarrow> string" where
  "run_state s =
     (let by_state = (\<lambda>p. if psi_state p \<in> {SERVICE_OK, SERVICE_NOT_CONFIGURED} then ''ok'' else ''warn'') in
      if entry_pids s \<noteq> [] then
        (case entry_psi s of None \<Rightarrow> ''error'' | Some p \<Rightarrow> by_state p)
      else
        (case entry_psi s of
           None \<Rightarrow> ''error''
         | Some p \<Rightarrow> if psi_source p = Some ''simple'' then by_state p else ''error''))"

subsection \<open>Building the result\<close>

definition empty_psi :: psi where
  "empty_psi = \<lparr>psi_text = [], psi_state = 0, psi_source = None, psi_info_str = None, psi_num_started = None,
     psi_num_found = None, psi_num_diff = None, psi_start_time = None, psi_diff_info = []\<rparr>"

definition empty_result :: check_result where
  "empty_result = \<lparr>cr_psi = None, cr_pids = [], cr_memory = None, cr_meta = None, cr_configured = None,
     cr_config_info = [], cr_license = None, cr_version_ok = None, cr_version = None\<rparr>"

definition get_proc_info_str :: "nat \<Rightarrow> (int \<times> int) list \<Rightarrow> string" where
  "get_proc_info_str num_procs diff =
     (let under = length (filter (\<lambda>(_, v). v < 0) diff);
          over = length (filter (\<lambda>(_, v). v > 0) diff)
      in py_join '', ''
           ((if under \<noteq> 0 then [get_plural ''process'' (int under) @ '' '' @ (if under = 1 then ''is'' else ''are'') @ '' missing''] else []) @
            (if over \<noteq> 0 then [get_plural ''process'' (int over) @ '' too much''] else []) @
            (if under = 0 \<and> over = 0 then
               [if num_procs = 1 then ''the process is running''
                else (if num_procs > 1 then ''all '' else []) @ get_plural ''process'' (int num_procs) @ '' running'']
             else []) @
            (if diff \<noteq> [] then
               [''[diff: '' @ py_join '', '' (map (\<lambda>(k, v). str_of_int k @ '': '' @ str_of_int v) diff) @ '']'']
             else [])))"

definition any_processes_ok :: "service \<Rightarrow> bool res" where
  "any_processes_ok s = bind_r (sv_attr s ''any-processes-ok'') (\<lambda>t. bind_r (py_int t) (\<lambda>i. Inr (i \<noteq> 0)))"

definition check_processes :: "service \<Rightarrow> int list \<Rightarrow> proc_dict \<Rightarrow> (int \<times> nat \<times> nat) res" where
  "check_processes s pids act =
     bind_r (any_processes_ok s) (\<lambda>any_ok.
       let num_started = length (remdups pids);
           num_found = length (filter (\<lambda>p. map_of act p \<noteq> None) (remdups pids));
           ret = (if any_ok \<and> num_found \<noteq> 0 then SERVICE_OK
                  else if num_started = num_found then SERVICE_OK
                  else SERVICE_NOT_CONFIGURED)
       in Inr (ret, num_started, num_found))"

definition entry_any_ok :: "service \<Rightarrow> bool res" where
  "entry_any_ok s = bind_r (el_attr (sv_entry s) ''any-processes-ok'') (\<lambda>t. bind_r (py_int t) (\<lambda>i. Inr (i \<noteq> 0)))"

definition add_non_running :: "host \<Rightarrow> service \<Rightarrow> bool \<Rightarrow> check_result \<Rightarrow> check_result res" where
  "add_non_running h s check_init_script r =
     bind_r (init_script_name s) (\<lambda>isn.
       Inr (r\<lparr>cr_psi := Some
         (if h_isfile h isn \<or> \<not> check_init_script
          then empty_psi\<lparr>psi_text := ''no processes'', psi_state := SERVICE_DEAD\<rparr>
          else empty_psi\<lparr>psi_text := ''not installed'', psi_state := SERVICE_NOT_INSTALLED\<rparr>)\<rparr>))"

definition add_pids ::
  "host \<Rightarrow> int list \<Rightarrow> int option \<Rightarrow> msi_block option \<Rightarrow> check_result \<Rightarrow> check_result res" where
  "add_pids h act_pids main_pid msi r =
     (if act_pids = [] then Inr r
      else
        let ups = remdups act_pids in
        bind_r (case msi of
                  None \<Rightarrow> Inr []
                | Some b \<Rightarrow> mapM_r (\<lambda>p. bind_r (get_process_name p b) (\<lambda>n. Inr (n, h_mem h p))) ups) (\<lambda>details.
          Inr (r\<lparr>cr_pids := map (\<lambda>p. \<lparr>pe_pid = p, pe_count = length (filter (\<lambda>q. q = p) act_pids),
                                      pe_main = (Some p = main_pid)\<rparr>) ups,
                 cr_memory := Some (sum_list (map (h_mem h) ups), details)\<rparr>)))"

definition run_path :: "string \<Rightarrow> string" where
  "run_path f = (if startswith f ''/'' then f else path_join ''/var/run'' f)"

subsection \<open>The three checks\<close>

definition simple_check :: "host \<Rightarrow> service \<Rightarrow> check_result \<Rightarrow> check_result res" where
  "simple_check h s r =
     bind_r (init_script_name s) (\<lambda>isn.
       let (st, tx) = (if h_isfile h isn then
                         (if h_script_status h isn = 0 then (SERVICE_OK, ''running'') else (SERVICE_DEAD, ''not running''))
                       else (SERVICE_NOT_INSTALLED, ''not installed''));
           r1 = r\<lparr>cr_psi := Some (empty_psi\<lparr>psi_text := tx, psi_source := Some ''simple'', psi_state := st,
                    psi_info_str := Some tx\<rparr>)\<rparr>
       in case map_of (sv_attrib s) ''pid_file_name'' of
            None \<Rightarrow> Inr r1
          | Some pf \<Rightarrow>
              let f = run_path pf in
              if h_isfile h f then
                (case h_content h f of
                   None \<Rightarrow> Inr r1
                 | Some c \<Rightarrow> (case py_int (py_strip c) of
                                Inl _ \<Rightarrow> Inr r1
                              | Inr pid \<Rightarrow> add_pids h [pid] None None r1))
              else Inr r1)"

definition pid_check :: "host \<Rightarrow> service \<Rightarrow> proc_dict \<Rightarrow> check_result \<Rightarrow> check_result res" where
  "pid_check h s act r =
     bind_r (sv_attr s ''pid_file_name'') (\<lambda>pf.
       let f = run_path pf in
       if h_isfile h f then
         (case h_content h f of
            None \<Rightarrow> Inl IOError
          | Some c \<Rightarrow>
              let pids = pids_of_content c in
              bind_r (check_processes s pids act) (\<lambda>(st, num_started, num_found).
              bind_r (entry_any_ok s) (\<lambda>_.
                add_pids h pids None None
                  (r\<lparr>cr_psi := Some (empty_psi\<lparr>psi_source := Some ''pid'',
                       psi_num_started := Some (int num_started), psi_num_found := Some (int num_found),
                       psi_num_diff := Some \<bar>int num_started - int num_found\<bar>,
                       psi_start_time := Some (h_ctime h f), psi_state := st,
                       psi_info_str := Some (get_proc_info_str (length (remdups pids)) [])\<rparr>)\<rparr>))))
       else add_non_running h s True r)"

definition meta_check :: "host \<Rightarrow> service \<Rightarrow> proc_dict \<Rightarrow> check_result \<Rightarrow> check_result res" where
  "meta_check h s act r =
     bind_r (msi_name h s) (\<lambda>ms_name.
       if h_exists h ms_name then
         bind_r (new_msi_block (h_msi h) (h_ctime h ms_name) (h_now h) ms_name) (\<lambda>b0.
         bind_r (entry_any_ok s) (\<lambda>_.
           let b = snd (check_block (h_proc_list h) act b0);
               diff = filter (\<lambda>(_, v). v \<noteq> 0) (msi_bound_dict b);
               diff_procs = sum_list (map (\<lambda>(_, v). \<bar>v\<bar>) diff);
               act_pids = msi_pids_found b;
               n = int (length act_pids)
           in add_pids h act_pids (get_main_pid b) (Some b)
                (r\<lparr>cr_psi := Some (empty_psi\<lparr>psi_source := Some ''meta'', psi_num_started := Some n,
                     psi_num_found := Some n, psi_num_diff := Some diff_procs,
                     psi_start_time := Some (py_trunc (msi_start_time b)),
                     psi_state := (if diff_procs \<noteq> 0 then SERVICE_INCOMPLETE else SERVICE_OK),
                     psi_info_str := Some (get_proc_info_str (length (remdups act_pids)) diff),
                     psi_diff_info := diff\<rparr>)\<rparr>)))
       else add_non_running h s False r)"

definition kind_check :: "host \<Rightarrow> service \<Rightarrow> proc_dict \<Rightarrow> check_result \<Rightarrow> check_result res" where
  "kind_check h s act r =
     (case sv_kind s of
        SimpleService \<Rightarrow> simple_check h s r
      | PIDService \<Rightarrow> pid_check h s act r
      | MetaService \<Rightarrow> meta_check h s act r)"

subsection \<open>The check\<close>

text \<open>The loop over the enums of the entry: the checks with an effective device, the info strings of
  those without, and whether every check could be made.\<close>

fun config_checks ::
  "config_db \<Rightarrow> string list \<Rightarrow> string list \<times> string list \<times> bool \<Rightarrow> (string list \<times> string list \<times> bool) res" where
  "config_checks db [] acc = Inr acc"
| "config_checks db (e # es) (cfg, errs, ok) =
     (if \<not> cdb_enum db e then Inl AttributeError
      else case cdb_first db e of
             ScRes eff info \<Rightarrow>
               config_checks db es (if eff then (cfg @ [info], errs, ok) else (cfg, errs @ [info], ok))
           | ScInterrupt \<Rightarrow> Inl Interrupted
           | ScError \<Rightarrow>
               (case cdb_second db e of
                  ScRes eff info \<Rightarrow>
                    config_checks db es (if eff then (cfg @ [info], errs, ok) else (cfg, errs @ [info], ok))
                | _ \<Rightarrow> config_checks db es (cfg, errs, False)))"

definition ip_match :: "host \<Rightarrow> service \<Rightarrow> bool" where
  "ip_match h s =
     (if el_required_ips (sv_entry s) = [] then True
      else (\<exists>ip \<in> set (el_required_ips (sv_entry s)). ip \<in> set (h_inet_addrs h)))"

text \<open>The license state: the first valid license with the required name decides.\<close>

definition license_of :: "(string \<times> int) list option \<Rightarrow> service \<Rightarrow> int" where
  "license_of lics s =
     (case lics of
        None \<Rightarrow> LIC_STATE_NOT_NEEDED
      | Some vls \<Rightarrow>
          (case el_required_license (sv_entry s) of
             None \<Rightarrow> LIC_STATE_NOT_NEEDED
           | Some rl \<Rightarrow> (case map_of vls (py_strip rl) of None \<Rightarrow> 0 | Some st \<Rightarrow> st)))"

text \<open>Configured state, the parts of the info text and the license state.\<close>

definition config_state ::
  "host \<Rightarrow> service \<Rightarrow> string \<Rightarrow> bool \<Rightarrow> (string \<times> int) list option \<Rightarrow> string list \<Rightarrow> string list \<Rightarrow> int \<times> string list \<times> int" where
  "config_state h s runs_on version_changed lics dev_config dev_errs =
     (let (c, info, lic) =
        (if runs_on = ''server'' then
           let (c, info) =
             (if version_changed then (CONF_STATE_MODELS_CHANGED, [''DB / models changed''])
              else if dev_config \<noteq> [] then (CONF_STATE_RUN, [py_join '', '' dev_config])
              else if el_ignore_missing_db (sv_entry s) then (CONF_STATE_RUN, [''relayer mode''])
              else (CONF_STATE_STOP,
                    [let e = py_join '', '' (sort (remdups dev_errs)) in if e = [] then ''not configured'' else e]))
           in (c, info, license_of lics s)
         else (CONF_STATE_RUN, [runs_on], LIC_STATE_NOT_NEEDED))
      in if ip_match h s then (c, info, lic) else (CONF_STATE_IP_MISMATCH, info @ [''IP mismatch''], lic))"

definition version_attrs :: "host \<Rightarrow> service \<Rightarrow> int \<Rightarrow> check_result \<Rightarrow> check_result" where
  "version_attrs h s act_state r =
     (if entry_get s ''runs_on'' [] \<in> {''client'', ''server''} \<and> act_state \<noteq> SERVICE_NOT_INSTALLED then
        (let err = ''error getting version: '' @ h_except_text h in
         case h_version_store h of
           None \<Rightarrow> r\<lparr>cr_version_ok := Some False, cr_version := Some err\<rparr>
         | Some None \<Rightarrow> r\<lparr>cr_version_ok := Some True, cr_version := Some err\<rparr>
         | Some (Some v) \<Rightarrow> r\<lparr>cr_version_ok := Some True, cr_version := Some v\<rparr>)
      else r)"

text \<open>The end of \<open>check\<close>, after the kind's own check has filled \<open>r1\<close>: the answer of the meta-server, the
  configured state, the license and the version go into the result, which becomes part of the entry.\<close>

definition finish_check ::
  "host \<Rightarrow> service \<Rightarrow> string \<Rightarrow> string \<Rightarrow> (string \<times> int \<times> int) list option \<Rightarrow> bool \<Rightarrow> (string \<times> int) list option \<Rightarrow>
     string list \<times> string list \<times> bool \<Rightarrow> int \<Rightarrow> check_result \<Rightarrow> service" where
  "finish_check h s nm runs_on meta version_changed lics cfg act_state r1 =
     (let r2 = (case meta of None \<Rightarrow> r1 | Some ms \<Rightarrow> r1\<lparr>cr_meta := map_of ms nm\<rparr>);
          st = config_state h s runs_on version_changed lics (fst cfg) (fst (snd cfg));
          r3 = r2\<lparr>cr_configured := Some (fst st), cr_config_info := py_join '', '' (fst (snd st)),
                  cr_license := Some (snd (snd st))\<rparr>
      in s\<lparr>sv_entry := (sv_entry s)\<lparr>el_result := Some (version_attrs h s act_state r3)\<rparr>,
           sv_config_check_ok := snd (snd cfg)\<rparr>)"

definition config_part :: "config_db option \<Rightarrow> service \<Rightarrow> (string list \<times> string list \<times> bool) res" where
  "config_part ct s =
     (case ct of
        None \<Rightarrow> Inr ([], [], sv_config_check_ok s)
      | Some db \<Rightarrow> config_checks db (el_config_enums (sv_entry s)) ([], [], sv_config_check_ok s))"

definition check ::
  "host \<Rightarrow> config_db option \<Rightarrow> (string \<times> int) list option \<Rightarrow> bool \<Rightarrow> (string \<times> int \<times> int) list option \<Rightarrow>
     bool \<Rightarrow> proc_dict \<Rightarrow> service \<Rightarrow> service res" where
  "check h ct lics version_changed meta refresh act s =
     (if el_result (sv_entry s) \<noteq> None \<and> \<not> refresh then Inr s
      else
        bind_r (config_part ct s) (\<lambda>cfg.
        bind_r (kind_check h s act empty_result) (\<lambda>r1.
        bind_r (case cr_psi r1 of None \<Rightarrow> Inl AttributeError | Some p \<Rightarrow> Inr (psi_state p)) (\<lambda>act_state.
        bind_r (sv_attr s ''name'') (\<lambda>nm.
        bind_r (sv_attr s ''runs_on'') (\<lambda>runs_on.
          Inr (finish_check h s nm runs_on meta version_changed lics cfg act_state r1)))))))"

subsection \<open>Actions\<close>

definition startstop :: "service \<Rightarrow> bool res" where
  "startstop s = bind_r (py_int (entry_get s ''startstop'' ''1'')) (\<lambda>i. Inr (i \<noteq> 0))"

definition find_pids_by_name :: "service \<Rightarrow> proc_dict \<Rightarrow> int list" where
  "find_pids_by_name s act =
     (let new_title = prog_title s; old_bins = py_split CHR '','' (py_strip (old_binary s)) in
      map fst (filter (\<lambda>(pid, pr).
        case pr_cmdline pr of
          None \<Rightarrow> False
        | Some cl \<Rightarrow>
            (case concat (map (\<lambda>p. py_split_ws (py_strip p)) cl) of
               [] \<Rightarrow> False
             | c # cs \<Rightarrow>
                 if c = new_title then True
                 else if endswith c ''python-init'' then
                   (\<exists>p \<in> set (c # cs). \<exists>ob \<in> set old_bins. contains_str ob p) \<and>
                   \<not> (\<exists>p \<in> set (c # cs). contains_str ''icsw'' p \<or> contains_str ''check_scripts'' p)
                 else False)) act))"

definition cleanup :: "host \<Rightarrow> proc_dict \<Rightarrow> service \<Rightarrow> effect list res" where
  "cleanup h act s =
     bind_r (startstop s) (\<lambda>ss.
       if \<not> ss then Inr []
       else
         let meta_pids = map pe_pid (entry_pids s);
             proc_pids = filter (\<lambda>p. p \<noteq> h_getpid h) (find_pids_by_name s act);
             all_pids = remdups (meta_pids @ proc_pids)
         in bind_r (msi_name h s) (\<lambda>ms.
              Inr (map (\<lambda>p. Kill p 9) (filter (h_proc_exists h) all_pids) @
                   (if h_exists h ms then [Unlink ms] else []))))"

definition handle_service_rc :: "host \<Rightarrow> string \<Rightarrow> service \<Rightarrow> effect list res" where
  "handle_service_rc h cmd s =
     bind_r (init_script_name s) (\<lambda>isn.
       Inr (if h_exists h isn then [CallCommand (isn @ '' '' @ cmd)] else []))"

text \<open>\<open>_stop\<close> and \<open>_reload\<close> of a \<open>MetaService\<close>: the first main pid, otherwise the first pid, gets the signal.\<close>

definition signal_main :: "int \<Rightarrow> service \<Rightarrow> effect list" where
  "signal_main sig s =
     (case entry_pids s of
        [] \<Rightarrow> []
      | p # _ \<Rightarrow>
          (case filter pe_main (entry_pids s) of
             m # _ \<Rightarrow> [Kill (pe_pid m) sig]
           | [] \<Rightarrow> [Kill (pe_pid p) sig]))"

text \<open>Python's \<open>int(s, 8)\<close>.\<close>

definition py_int8 :: "string \<Rightarrow> int res" where
  "py_int8 s =
     (let t = py_strip s;
          (neg, r) = (case t of c # cs \<Rightarrow> if c = CHR ''-'' then (True, cs) else if c = CHR ''+'' then (False, cs) else (False, t)
                              | [] \<Rightarrow> (False, []));
          d = (if startswith r ''0o'' \<or> startswith r ''0O'' then drop 2 r else r)
      in if d \<noteq> [] \<and> list_all (\<lambda>c. is_digit c \<and> digit_val c < 8) d
         then let v = int (foldl (\<lambda>n c. 8 * n + digit_val c) 0 d) in Inr (if neg then - v else v)
         else Inl ValueError)"

definition access_dir_effects :: "host \<Rightarrow> access_dir \<Rightarrow> effect list res" where
  "access_dir_effects h d =
     (let dir = ad_path d in
      bind_r (if h_isdir h dir then Inr 0 else py_int (ad_create d)) (\<lambda>create.
      bind_r (py_int (ad_recursive d)) (\<lambda>recursive.
        let mk = (\<not> h_isdir h dir \<and> create \<noteq> 0);
            msk = (case ad_mask d of None \<Rightarrow> 0 | Some m \<Rightarrow> (case py_int8 m of Inl _ \<Rightarrow> 0 | Inr v \<Rightarrow> v))
        in Inr ((if mk then [MakeDirs dir] else []) @
                (if h_isdir h dir \<or> mk then
                   (if msk \<noteq> 0 then [Chmod dir msk] else []) @
                   [Chown dir (ad_user d) (ad_group d)] @
                   (if recursive \<noteq> 0
                    then map (\<lambda>f. Chown f (ad_user d) (ad_group d)) (filter (h_isfile h) (h_walk_files h dir))
                    else [])
                 else [])))))"

definition generate_py_arg_list :: "host \<Rightarrow> bool \<Rightarrow> service \<Rightarrow> (string list \<times> effect list) res" where
  "generate_py_arg_list h debug s =
     (let el = sv_entry s;
          arg_dict = map (\<lambda>(k, v). (k, py_strip v)) (rev (el_args el));
          daemon_path = (if debug then h_daemon_path h else h_initat_base h);
          base = [path_join daemon_path ''tools/daemonize.py'', ''--progname'', prog_name s, ''--modname'',
                  entry_get s ''module'' (mod_name s), ''--proctitle'', prog_title s];
          opts = concat (map (\<lambda>k. case map_of arg_dict k of None \<Rightarrow> [] | Some v \<Rightarrow> [''--'' @ k, v])
                   [''user'', ''group'', ''groups''])
      in bind_r (case el_nice_level el of
                   None \<Rightarrow> Inr []
                 | Some n \<Rightarrow> bind_r (py_int (py_strip n)) (\<lambda>i. Inr [''--nice'', str_of_int i])) (\<lambda>nice.
         bind_r (mapM_r (access_dir_effects h) (el_access_dirs el)) (\<lambda>effs.
           Inr (base @ opts @ nice,
                concat effs @
                map (\<lambda>(f, u, g). Chown f u g) (filter (\<lambda>(f, _, _). h_isfile h f) (el_access_files el))))))"

definition meta_start :: "host \<Rightarrow> service \<Rightarrow> effect list res" where
  "meta_start h s = bind_r (generate_py_arg_list h False s) (\<lambda>(args, effs). Inr (effs @ [Spawn (args @ [''-d''])]))"

definition meta_debug :: "host \<Rightarrow> string list \<Rightarrow> service \<Rightarrow> effect list res" where
  "meta_debug h debug_args s =
     bind_r (generate_py_arg_list h True s) (\<lambda>(args, effs).
       let flag = ''--debug-flag'' \<in> set debug_args;
           rest = (if flag then remove1 ''--debug-flag'' debug_args else debug_args);
           args' = args @ [''--debug''] @ (if flag then [''--debug-flag''] else []) @
                   (if rest \<noteq> [] then ''--'' # rest else [])
       in Inr (effs @ [Shell (py_join '' '' args')]))"

definition guarded :: "service \<Rightarrow> effect list res \<Rightarrow> effect list res" where
  "guarded s m = bind_r (startstop s) (\<lambda>ss. if ss then m else Inr [])"

text \<open>\<open>action\<close>: the dispatch over the command names with the subclass methods of each kind.\<close>

definition action :: "host \<Rightarrow> proc_dict \<Rightarrow> string list \<Rightarrow> string \<Rightarrow> service \<Rightarrow> effect list res" where
  "action h act debug_args cmd s =
     (if cmd = ''stop'' then
        guarded s (case sv_kind s of
                     SimpleService \<Rightarrow> handle_service_rc h ''stop'' s
                   | MetaService \<Rightarrow> Inr (signal_main 15 s)
                   | PIDService \<Rightarrow> Inr [])
      else if cmd = ''start'' then
        guarded s (case sv_kind s of
                     SimpleService \<Rightarrow> handle_service_rc h ''start'' s
                   | MetaService \<Rightarrow> meta_start h s
                   | PIDService \<Rightarrow> Inr [])
      else if cmd = ''cleanup'' then cleanup h act s
      else if cmd = ''wait'' then Inr []
      else if cmd = ''debug'' then
        guarded s (case sv_kind s of MetaService \<Rightarrow> meta_debug h debug_args s | _ \<Rightarrow> Inr [])
      else if cmd = ''reload'' then
        bind_r (py_int (entry_get s ''reload'' ''1'')) (\<lambda>_.
          case sv_kind s of MetaService \<Rightarrow> Inr (signal_main 1 s) | _ \<Rightarrow> Inr [])
      else if cmd = ''signal_restart'' then
        guarded s (case sv_kind s of
                     MetaService \<Rightarrow> Inr (if sv_name s = ''meta-server'' then [SignalRestart] else [])
                   | _ \<Rightarrow> Inr [])
      else Inl KeyError)"

subsection \<open>What a check writes\<close>

lemma version_attrs_frame [simp]:
  "cr_psi (version_attrs h s a r) = cr_psi r" "cr_pids (version_attrs h s a r) = cr_pids r"
  "cr_configured (version_attrs h s a r) = cr_configured r" "cr_license (version_attrs h s a r) = cr_license r"
  by (auto simp: version_attrs_def Let_def split: option.splits)

lemma add_pids_frame:
  "add_pids h ps m b r = Inr r' \<Longrightarrow> cr_psi r' = cr_psi r \<and>
     (cr_pids r = [] \<longrightarrow> map pe_pid (cr_pids r') = remdups ps)"
  by (auto simp: add_pids_def Let_def bind_r_eq_Inr comp_def split: if_splits)

lemma finish_check_parts [simp]:
  "entry_psi (finish_check h s nm ro meta vc lics cfg a r) = cr_psi r"
  "entry_pids (finish_check h s nm ro meta vc lics cfg a r) = cr_pids r"
  by (auto simp: finish_check_def Let_def entry_psi_def entry_pids_def split: option.splits)

lemma finish_check_states:
  "el_result (sv_entry (finish_check h s nm ro meta vc lics cfg a r)) = Some r' \<Longrightarrow>
     cr_configured r' = Some (fst (config_state h s ro vc lics (fst cfg) (fst (snd cfg))))"
  "el_result (sv_entry (finish_check h s nm ro meta vc lics cfg a r)) = Some r' \<Longrightarrow>
     cr_license r' = Some (snd (snd (config_state h s ro vc lics (fst cfg) (fst (snd cfg)))))"
  by (auto simp: finish_check_def Let_def)

lemma check_result_parts:
  assumes "check h ct lics vc meta refresh act s = Inr s'" and "refresh \<or> el_result (sv_entry s) = None"
  obtains cfg r1 p runs_on nm where
    "config_part ct s = Inr cfg"
    and "kind_check h s act empty_result = Inr r1" and "cr_psi r1 = Some p" and "sv_attr s ''runs_on'' = Inr runs_on"
    and "s' = finish_check h s nm runs_on meta vc lics cfg (psi_state p) r1"
proof -
  from assms(2) have "\<not> (el_result (sv_entry s) \<noteq> None \<and> \<not> refresh)" by auto
  with assms(1) obtain cfg r1 a nm runs_on where "config_part ct s = Inr cfg" "kind_check h s act empty_result = Inr r1"
      "(case cr_psi r1 of None \<Rightarrow> Inl AttributeError | Some p \<Rightarrow> Inr (psi_state p)) = Inr a"
      "sv_attr s ''runs_on'' = Inr runs_on" "Inr (finish_check h s nm runs_on meta vc lics cfg a r1) = Inr s'"
    unfolding check_def by (simp only: if_False bind_r_eq_Inr) blast
  then show thesis by (cases "cr_psi r1") (auto intro: that)
qed

lemma abs_diff_sum_zero:
  "sum_list (map (\<lambda>(_, v). \<bar>v\<bar>) (filter (\<lambda>(_, v). v \<noteq> 0) d)) = 0 \<longleftrightarrow> (\<forall>(_, v) \<in> set d. v = (0 :: int))"
proof -
  have "sum_list (map (\<lambda>(_, v). \<bar>v\<bar>) (filter (\<lambda>(_, v). v \<noteq> 0) d)) = 0 \<longleftrightarrow>
      (\<forall>x \<in> set (map (\<lambda>(_, v). \<bar>v\<bar>) (filter (\<lambda>(_, v). v \<noteq> 0) d)). x = 0)"
    by (rule sum_list_nonneg_eq_0_iff) auto
  then show ?thesis by auto
qed

text \<open>The pids which a service announces in its block file.\<close>

definition proc_lives :: "host \<Rightarrow> proc_dict \<Rightarrow> int \<Rightarrow> bool" where
  "proc_lives h act p = proc_alive (if act = [] then h_proc_list h else act) p"

definition announced :: "host \<Rightarrow> service \<Rightarrow> int list" where
  "announced h s =
     (case msi_name h s of
        Inl _ \<Rightarrow> []
      | Inr f \<Rightarrow>
          if h_exists h f then
            (case new_msi_block (h_msi h) (h_ctime h f) (h_now h) f of Inl _ \<Rightarrow> [] | Inr b \<Rightarrow> msi_pids b)
          else [])"

lemma meta_check_outcome:
  assumes "meta_check h s act empty_result = Inr r"
  defines "alive \<equiv> proc_lives h act"
  shows "set (map pe_pid (cr_pids r)) = {p \<in> set (announced h s). alive p} \<and>
    (\<exists>p. cr_psi r = Some p \<and> psi_source p \<noteq> Some ''simple'' \<and>
       (cr_pids r \<noteq> [] \<longrightarrow> psi_state p = (if list_all alive (announced h s) then SERVICE_OK else SERVICE_INCOMPLETE)))"
proof -
  from assms(1) obtain f where f: "msi_name h s = Inr f" by (auto simp: meta_check_def bind_r_eq_Inr)
  show ?thesis
  proof (cases "h_exists h f")
    case False
    with assms(1) f show ?thesis
      by (auto simp: meta_check_def announced_def add_non_running_def bind_r_eq_Inr empty_result_def empty_psi_def)
  next
    case True
    with assms(1) f obtain b0 where b0: "new_msi_block (h_msi h) (h_ctime h f) (h_now h) f = Inr b0"
      by (auto simp: meta_check_def bind_r_eq_Inr)
    define b where "b = snd (check_block (h_proc_list h) act b0)"
    define diff where "diff = filter (\<lambda>(_, v). v \<noteq> 0) (msi_bound_dict b)"
    note cb = check_block_iff [of "h_proc_list h" act b0, folded b_def proc_lives_def, folded alive_def]
    have d0: "sum_list (map (\<lambda>(_, v). \<bar>v\<bar>) diff) = 0 \<longleftrightarrow> list_all alive (msi_pids b0)"
      unfolding diff_def abs_diff_sum_zero using cb by (auto simp: list_all_iff)
    from assms(1) f True b0 obtain p0 where ap: "add_pids h (msi_pids_found b) (get_main_pid b) (Some b)
        (empty_result\<lparr>cr_psi := Some p0\<rparr>) = Inr r"
      and p0: "psi_state p0 = (if sum_list (map (\<lambda>(_, v). \<bar>v\<bar>) diff) \<noteq> 0 then SERVICE_INCOMPLETE else SERVICE_OK)"
        "psi_source p0 = Some ''meta''"
      by (auto simp: meta_check_def bind_r_eq_Inr Let_def b_def diff_def)
    from True f b0 have an: "announced h s = msi_pids b0" by (simp add: announced_def)
    from add_pids_frame [OF ap] have ps: "map pe_pid (cr_pids r) = remdups (msi_pids_found b)" "cr_psi r = Some p0"
      by (simp_all add: empty_result_def)
    then have "set (map pe_pid (cr_pids r)) = {p \<in> set (msi_pids b0). alive p}" using cb by simp
    with ps(2) p0 d0 an show ?thesis by auto
  qed
qed

text \<open>After a check, a service backed by a meta-server block is in run state ok exactly if it announces
  processes and all of them live, warn if some but not all live, and error if none lives (no block file
  included).\<close>

theorem meta_run_state:
  assumes "check h ct lics vc meta refresh act s = Inr s'" and "refresh \<or> el_result (sv_entry s) = None"
    and "sv_kind s = MetaService"
  shows "run_state s' =
    (if \<exists>p \<in> set (announced h s). proc_lives h act p
     then if list_all (proc_lives h act) (announced h s) then ''ok'' else ''warn''
     else ''error'')"
proof -
  from assms(1, 2) obtain cfg r1 p runs_on nm where "config_part ct s = Inr cfg"
    and k: "kind_check h s act empty_result = Inr r1" "cr_psi r1 = Some p"
    and "sv_attr s ''runs_on'' = Inr runs_on"
    and s': "s' = finish_check h s nm runs_on meta vc lics cfg (psi_state p) r1"
    by (rule check_result_parts)
  from k(1) assms(3) have m: "meta_check h s act empty_result = Inr r1" by (simp add: kind_check_def)
  note oc = meta_check_outcome [OF m]
  from oc have e: "cr_pids r1 = [] \<longleftrightarrow> \<not> (\<exists>p \<in> set (announced h s). proc_lives h act p)"
    by (cases "cr_pids r1") (simp, force)
  have rs: "run_state s' = (if cr_pids r1 \<noteq> []
      then if psi_state p \<in> {SERVICE_OK, SERVICE_NOT_CONFIGURED} then ''ok'' else ''warn''
      else if psi_source p = Some ''simple'' then if psi_state p \<in> {SERVICE_OK, SERVICE_NOT_CONFIGURED} then ''ok'' else ''warn''
      else ''error'')"
    by (simp add: run_state_def s' k(2))
  show ?thesis unfolding rs using oc k(2) e by auto
qed

lemma config_checks_found:
  "config_checks db es (cfg0, errs0, ok0) = Inr (cfg, errs, ok) \<Longrightarrow> cfg \<noteq> [] \<Longrightarrow>
   cfg0 \<noteq> [] \<or> (\<exists>e \<in> set es. cdb_enum db e \<and>
      (\<exists>i. cdb_first db e = ScRes True i \<or> cdb_first db e = ScError \<and> cdb_second db e = ScRes True i))"
proof (induction es arbitrary: cfg0 errs0 ok0)
  case (Cons e es)
  from Cons(2) have en: "cdb_enum db e" by (auto split: if_splits)
  note IH = Cons(1) [OF _ Cons(3)]
  show ?case
  proof (cases "cdb_first db e")
    case (ScRes eff i)
    with Cons(2) en IH show ?thesis by (cases eff) auto
  next
    case ScInterrupt
    with Cons(2) en show ?thesis by simp
  next
    case ScError
    show ?thesis
    proof (cases "cdb_second db e")
      case (ScRes eff i)
      with ScError Cons(2) en IH show ?thesis by (cases eff) auto
    qed (use ScError Cons(2) en IH in auto)
  qed
qed auto

text \<open>C38: the configured state of a server service is run only if the required addresses match, the
  models have not changed, and either an effective device was found for one of its enums (a failed
  first check is repeated once) or it may run without the database.\<close>

theorem configured_run_only_if:
  assumes "check h ct lics vc meta refresh act s = Inr s'" and "refresh \<or> el_result (sv_entry s) = None"
    and "sv_attr s ''runs_on'' = Inr ''server''" and "el_result (sv_entry s') = Some r"
    and "cr_configured r = Some CONF_STATE_RUN"
  shows "ip_match h s \<and> \<not> vc \<and>
    (el_ignore_missing_db (sv_entry s) \<or>
     (\<exists>db e i. ct = Some db \<and> e \<in> set (el_config_enums (sv_entry s)) \<and> cdb_enum db e \<and>
        (cdb_first db e = ScRes True i \<or> cdb_first db e = ScError \<and> cdb_second db e = ScRes True i)))"
proof -
  from assms(1, 2) obtain cfg r1 p runs_on nm where c: "config_part ct s = Inr cfg"
    and "kind_check h s act empty_result = Inr r1" "cr_psi r1 = Some p"
    and ro: "sv_attr s ''runs_on'' = Inr runs_on"
    and s': "s' = finish_check h s nm runs_on meta vc lics cfg (psi_state p) r1"
    by (rule check_result_parts)
  from ro assms(3) have [simp]: "runs_on = ''server''" by simp
  have st: "fst (config_state h s ''server'' vc lics (fst cfg) (fst (snd cfg))) = CONF_STATE_RUN"
    using finish_check_states(1) [of h s nm runs_on meta vc lics cfg "psi_state p" r1 r] assms(4, 5) s' by simp
  then have "ip_match h s" "\<not> vc" "fst cfg \<noteq> [] \<or> el_ignore_missing_db (sv_entry s)"
    by (auto simp: config_state_def Let_def split: if_splits)
  moreover have "\<exists>db e i. ct = Some db \<and> e \<in> set (el_config_enums (sv_entry s)) \<and> cdb_enum db e \<and>
      (cdb_first db e = ScRes True i \<or> cdb_first db e = ScError \<and> cdb_second db e = ScRes True i)"
    if "fst cfg \<noteq> []"
  proof -
    from that c obtain db where db: "ct = Some db"
      "config_checks db (el_config_enums (sv_entry s)) ([], [], sv_config_check_ok s) = Inr (fst cfg, fst (snd cfg), snd (snd cfg))"
      by (cases ct) (auto simp: config_part_def)
    from config_checks_found [OF this(2) that] db(1) show ?thesis by blast
  qed
  ultimately show ?thesis by blast
qed

text \<open>A host on which the server \<open>a\<close> announces two processes of which one lives.\<close>

definition demo_host :: host where
  "demo_host =
     \<lparr>h_exists = (\<lambda>f. f = ''/var/lib/meta-server/a''), h_isfile = (\<lambda>_. False), h_isdir = (\<lambda>_. False),
      h_content = (\<lambda>_. None), h_ctime = (\<lambda>_. 5),
      h_msi = (\<lambda>_. Some \<lparr>mx_names = [''a''], mx_start_time = None,
                 mx_pids = [(''9'', Some ''main'', None), (''8'', None, None)]\<rparr>),
      h_now = 100, h_getpid = 7, h_script_status = (\<lambda>_. 1), h_mem = (\<lambda>p. p), h_inet_addrs = [],
      h_proc_list = demo_procs, h_proc_exists = (\<lambda>p. p = 9), h_version_store = None, h_except_text = [],
      h_walk_files = (\<lambda>_. []), h_daemon_path = ''/d'', h_initat_base = ''/i''\<rparr>"

definition demo_service :: service where
  "demo_service =
     (let el = normalize_el (demo_el ''a'' [(''check_type'', ''meta'')] [''e''] []) in
      \<lparr>sv_name = ''a'', sv_attrib = el_attrib el, sv_entry = el, sv_kind = MetaService, sv_config_check_ok = True\<rparr>)"

definition demo_db :: config_db where
  "demo_db = \<lparr>cdb_enum = (\<lambda>_. True), cdb_first = (\<lambda>_. ScError), cdb_second = (\<lambda>_. ScRes True ''srv'')\<rparr>"

lemma demo_check: "\<not> isl (check demo_host (Some demo_db) None False None True demo_procs demo_service)"
  by code_simp

theorem meta_run_state_witness:
  "\<exists>s'. check demo_host (Some demo_db) None False None True demo_procs demo_service = Inr s' \<and>
     run_state s' =
    (if \<exists>p \<in> set (announced demo_host demo_service). proc_lives demo_host demo_procs p
     then if list_all (proc_lives demo_host demo_procs) (announced demo_host demo_service) then ''ok'' else ''warn''
     else ''error'')"
  using demo_check meta_run_state [of demo_host "Some demo_db" None False None True demo_procs demo_service]
  by (cases "check demo_host (Some demo_db) None False None True demo_procs demo_service")
    (auto simp: demo_service_def Let_def)

lemma demo_check_configured:
  "map_option cr_configured (case check demo_host (Some demo_db) None False None True demo_procs demo_service of
      Inl _ \<Rightarrow> None | Inr s' \<Rightarrow> el_result (sv_entry s')) = Some (Some CONF_STATE_RUN)"
  by code_simp

theorem configured_run_only_if_witness:
  "ip_match demo_host demo_service \<and> (\<exists>e i. e \<in> set (el_config_enums (sv_entry demo_service)) \<and>
     (cdb_first demo_db e = ScRes True i \<or> cdb_first demo_db e = ScError \<and> cdb_second demo_db e = ScRes True i))"
proof -
  from demo_check_configured obtain s' r where s: "check demo_host (Some demo_db) None False None True demo_procs demo_service = Inr s'"
      "el_result (sv_entry s') = Some r" "cr_configured r = Some CONF_STATE_RUN"
    by (auto split: sum.splits)
  have "sv_attr demo_service ''runs_on'' = Inr ''server''" "\<not> el_ignore_missing_db (sv_entry demo_service)" by code_simp+
  with configured_run_only_if [OF s(1) _ _ s(2, 3)] show ?thesis by auto
qed

subsection \<open>Actions and their safety\<close>

text \<open>Cleaning up a service that may be started and stopped kills exactly the existing processes among
  those it reported and those recognised by their command line, the latter without the calling process,
  and then removes the block file if there is one.\<close>

theorem cleanup_effects:
  assumes "startstop s = Inr True" and "msi_name h s = Inr f"
  shows "\<exists>effs. cleanup h act s = Inr effs \<and>
    (\<forall>p sig. Kill p sig \<in> set effs \<longleftrightarrow> sig = 9 \<and> h_proc_exists h p \<and>
       (p \<in> pe_pid ` set (entry_pids s) \<or> p \<noteq> h_getpid h \<and> p \<in> set (find_pids_by_name s act))) \<and>
    (\<forall>g. Unlink g \<in> set effs \<longleftrightarrow> g = f \<and> h_exists h f) \<and>
    (h_exists h f \<longrightarrow> last effs = Unlink f)"
  using assms by (auto simp: cleanup_def Let_def)

theorem cleanup_effects_witness:
  "\<exists>effs. cleanup demo_host demo_procs demo_service = Inr effs \<and> last effs = Unlink ''/var/lib/meta-server/a''"
proof -
  have "startstop demo_service = Inr True" "msi_name demo_host demo_service = Inr ''/var/lib/meta-server/a''" by code_simp+
  from cleanup_effects [OF this, of demo_procs] show ?thesis by (auto simp: demo_host_def)
qed

text \<open>A service whose startstop attribute is 0 is never touched: no action but a reload has any
  effect, whatever the process table looks like.\<close>

theorem startstop_off_inert:
  assumes "startstop s = Inr False" and "action h act debug_args cmd s = Inr effs" and "cmd \<noteq> ''reload''"
  shows "effs = []"
  using assms by (auto simp: action_def guarded_def cleanup_def split: if_splits)

theorem startstop_off_inert_witness:
  "action demo_host demo_procs [] ''cleanup'' (demo_service\<lparr>sv_entry := demo_el ''a'' [(''startstop'', ''0'')] [] []\<rparr>) = Inr []"
proof -
  let ?s = "demo_service\<lparr>sv_entry := demo_el ''a'' [(''startstop'', ''0'')] [] []\<rparr>"
  have "startstop ?s = Inr False" "\<not> isl (action demo_host demo_procs [] ''cleanup'' ?s)" by code_simp+
  with startstop_off_inert [of ?s demo_host demo_procs "[]" "''cleanup''"] show ?thesis
    by (cases "action demo_host demo_procs [] ''cleanup'' ?s") auto
qed

text \<open>A service with an init script that is not running is reported as partially running, not as
  stopped: its run state is never error.\<close>

theorem simple_run_state_never_error:
  assumes "check h ct lics vc meta refresh act s = Inr s'" and "refresh \<or> el_result (sv_entry s) = None"
    and "sv_kind s = SimpleService"
  shows "run_state s' \<noteq> ''error''"
proof -
  from assms(1, 2) obtain cfg r1 p runs_on nm where "config_part ct s = Inr cfg"
    and k: "kind_check h s act empty_result = Inr r1" "cr_psi r1 = Some p"
    and "sv_attr s ''runs_on'' = Inr runs_on"
    and s': "s' = finish_check h s nm runs_on meta vc lics cfg (psi_state p) r1"
    by (rule check_result_parts)
  from k(1) assms(3) have "simple_check h s empty_result = Inr r1" by (simp add: kind_check_def)
  then obtain q where "cr_psi r1 = Some q" "psi_source q = Some ''simple''"
    by (auto simp: simple_check_def bind_r_eq_Inr Let_def dest!: add_pids_frame
        split: prod.splits if_splits option.splits sum.splits)
  with k(2) show ?thesis by (simp add: run_state_def s' Let_def)
qed

theorem simple_run_state_never_error_witness:
  "\<exists>s'. check demo_host None None False None True [] (demo_service\<lparr>sv_kind := SimpleService\<rparr>) = Inr s' \<and> run_state s' \<noteq> ''error''"
proof -
  let ?s = "demo_service\<lparr>sv_kind := SimpleService\<rparr>"
  have "\<not> isl (check demo_host None None False None True [] ?s)" by code_simp
  with simple_run_state_never_error [of demo_host None None False None True "[]" ?s] show ?thesis
    by (cases "check demo_host None None False None True [] ?s") auto
qed

lemma check_frame:
  assumes "check h ct lics vc meta refresh act s = Inr s'"
  shows "sv_name s' = sv_name s \<and> sv_attrib s' = sv_attrib s \<and> sv_kind s' = sv_kind s"
proof (cases "refresh \<or> el_result (sv_entry s) = None")
  case True
  from assms True obtain cfg r1 p runs_on nm where "config_part ct s = Inr cfg"
    and "kind_check h s act empty_result = Inr r1" "cr_psi r1 = Some p"
    and "sv_attr s ''runs_on'' = Inr runs_on"
    and s': "s' = finish_check h s nm runs_on meta vc lics cfg (psi_state p) r1"
    by (rule check_result_parts)
  then show ?thesis by (simp add: finish_check_def Let_def)
next
  case False
  with assms have "s' = s" by (simp add: check_def)
  then show ?thesis by simp
qed

end
