(* ===== verification/Service_Container.thy ===== *)
theory Service_Container
  imports Service
begin

section \<open>The service container (initat/icsw/service/container.py)\<close>

text \<open>
  The container holds the process table and the valid licenses for a round of checks and the history of
  model versions. It selects services, checks them, decides which actions lead to a target, and renders
  the results as a table. The database functions (versions, licenses) and the answer of a local
  meta-server are arguments.
\<close>

record container =
  sc_proc_dict :: "proc_dict option"
  sc_licenses :: "(string \<times> int) list option"
  sc_history :: "(string \<times> string) list option"
  sc_mismatch :: bool

subsection \<open>Versions\<close>

text \<open>The versions of models and database (None on a client), and the rows (index, name, version) of the
  version table: None when the model class is missing, an empty list also when the query fails.\<close>

record version_env =
  ve_versions :: "(string \<times> string) option"
  ve_rows :: "(int \<times> string \<times> string) list option"

definition confirm_version :: "(int \<times> string \<times> string) list \<Rightarrow> string \<times> string \<Rightarrow> bool \<Rightarrow> bool res" where
  "confirm_version rows highest mismatch =
     (if rows = [] then Inr mismatch
      else
        let idx = Max (fst ` set rows);
            d = rev (map snd (filter (\<lambda>(i, _, _). i = idx) rows))
        in bind_r (dict_get ''models'' d) (\<lambda>m. bind_r (dict_get ''database'' d) (\<lambda>db.
             Inr (if m \<noteq> fst highest \<and> db \<noteq> snd highest then mismatch else False))))"

definition update_version_tuple :: "version_env \<Rightarrow> container \<Rightarrow> container res" where
  "update_version_tuple env c =
     (case ve_versions env of
        None \<Rightarrow>
          (case sc_history c of
             None \<Rightarrow> Inr (c\<lparr>sc_history := Some [(''0'', ''0'')], sc_mismatch := False\<rparr>)
           | Some _ \<Rightarrow> Inr c)
      | Some (model_v, database_v) \<Rightarrow>
          (case sc_history c of
             None \<Rightarrow> Inr (c\<lparr>sc_history := Some [(model_v, database_v)], sc_mismatch := False\<rparr>)
           | Some hist \<Rightarrow>
               let (hist', mm) = (if model_v \<noteq> fst (last hist) then (hist @ [(model_v, database_v)], True)
                                  else (hist, sc_mismatch c))
               in bind_r (case ve_rows env of
                            None \<Rightarrow> Inr mm
                          | Some rows \<Rightarrow> if mm then confirm_version rows (last hist') mm else Inr mm)
                    (\<lambda>mm'. Inr (c\<lparr>sc_history := Some hist', sc_mismatch := mm'\<rparr>))))"

definition new_container :: "version_env \<Rightarrow> container res" where
  "new_container env =
     update_version_tuple env \<lparr>sc_proc_dict = None, sc_licenses = None, sc_history = None, sc_mismatch = False\<rparr>"

subsection \<open>Selecting and checking services\<close>

definition apply_filter :: "string list \<Rightarrow> instance_xml \<Rightarrow> service list res" where
  "apply_filter service_list ix =
     (let els = filter (\<lambda>el. map_of (el_attrib el) ''runs_on'' \<noteq> None) (ix_tree ix) in
      mapM_r new_service
        (if service_list = [] then els
         else filter (\<lambda>el. map_of (el_attrib el) ''name'' \<in> Some ` set service_list) els))"

definition filter_msi_file_name :: "host \<Rightarrow> service list \<Rightarrow> string \<Rightarrow> service list" where
  "filter_msi_file_name h check_list f = filter (\<lambda>s. msi_name h s = Inr f) check_list"

definition update_proc_dict :: "host \<Rightarrow> container \<Rightarrow> container" where
  "update_proc_dict h c = c\<lparr>sc_proc_dict := Some (h_proc_list h)\<rparr>"

text \<open>\<open>update_valid_licenses\<close>: the licenses of the database; None without a database or after an error.\<close>

definition update_valid_licenses :: "(string \<times> int) list option \<Rightarrow> container \<Rightarrow> container" where
  "update_valid_licenses lics c = c\<lparr>sc_licenses := lics\<rparr>"

definition check_service ::
  "host \<Rightarrow> config_db option \<Rightarrow> (string \<times> int) list option \<Rightarrow> bool \<Rightarrow> bool \<Rightarrow> bool \<Rightarrow>
     (string \<times> int \<times> int) list option \<Rightarrow> container \<Rightarrow> service \<Rightarrow> (container \<times> service) res" where
  "check_service h ct lics use_cache refresh version_changed meta c s =
     (let c1 = (if \<not> use_cache \<or> sc_proc_dict c = None \<or> sc_proc_dict c = Some []
                then update_valid_licenses lics (update_proc_dict h c) else c);
          act = (case sc_proc_dict c1 of None \<Rightarrow> [] | Some d \<Rightarrow> d)
      in bind_r (check h ct (sc_licenses c1) version_changed meta refresh act s) (\<lambda>s'. Inr (c1, s')))"

fun check_services ::
  "host \<Rightarrow> config_db option \<Rightarrow> (string \<times> int) list option \<Rightarrow> (string \<times> int \<times> int) list option \<Rightarrow>
     container \<Rightarrow> service list \<Rightarrow> (container \<times> service list) res" where
  "check_services h ct lics meta c [] = Inr (c, [])"
| "check_services h ct lics meta c (s # ss) =
     bind_r (check_service h ct lics True True (sc_mismatch c) meta c s) (\<lambda>(c1, s1).
     bind_r (check_services h ct lics meta c1 ss) (\<lambda>(c2, ss1). Inr (c2, s1 # ss1)))"

text \<open>\<open>check_system\<close>: \<open>names\<close> are the requested services; \<open>meta\<close> is None when no answer is wanted, otherwise
  the answer of the meta-server with its log level (None: no answer).\<close>

definition check_system ::
  "host \<Rightarrow> config_db option \<Rightarrow> (string \<times> int) list option \<Rightarrow> version_env \<Rightarrow>
     (int \<times> (string \<times> int \<times> int) list) option option \<Rightarrow> string list \<Rightarrow> instance_xml \<Rightarrow> container \<Rightarrow>
     (container \<times> service list) res" where
  "check_system h ct lics env meta names ix c =
     bind_r (apply_filter names ix) (\<lambda>cl.
     bind_r (update_version_tuple env (update_valid_licenses lics (update_proc_dict h c))) (\<lambda>c1.
       let mr = (case meta of
                   Some (Some (level, ms)) \<Rightarrow> if level > LOG_LEVEL_WARN then None else Some ms
                 | _ \<Rightarrow> None)
       in check_services h ct lics mr c1 cl))"

subsection \<open>The decision\<close>

definition decide_table :: "(string \<times> (string \<times> string list) list) list" where
  "decide_table =
     [(''error'', [(''start'', [''cleanup'', ''start'']), (''stop'', [''cleanup'']),
                   (''restart'', [''cleanup'', ''start'']), (''debug'', [''cleanup'', ''debug'']), (''reload'', [])]),
      (''warn'', [(''start'', [''stop'', ''wait'', ''cleanup'', ''start'']), (''stop'', [''stop'', ''wait'', ''cleanup'']),
                  (''restart'', [''stop'', ''wait'', ''cleanup'', ''start'']),
                  (''debug'', [''stop'', ''wait'', ''cleanup'', ''debug'']), (''reload'', [''reload''])]),
      (''ok'', [(''start'', []), (''stop'', [''stop'', ''wait'', ''cleanup'']),
                (''restart'', [''signal_restart'', ''stop'', ''wait'', ''cleanup'', ''start'']),
                (''debug'', [''signal_restart'', ''stop'', ''wait'', ''cleanup'', ''debug'']), (''reload'', [''reload''])])]"

definition decide :: "string \<Rightarrow> service \<Rightarrow> string list res" where
  "decide subcom s = bind_r (dict_get (run_state s) decide_table) (dict_get subcom)"

subsection \<open>Invariants of the version history\<close>

definition wf_container :: "container \<Rightarrow> bool" where
  "wf_container c \<longleftrightarrow>
     (case sc_history c of
        None \<Rightarrow> \<not> sc_mismatch c
      | Some hist \<Rightarrow> hist \<noteq> [] \<and> distinct_adj (map fst hist) \<and> (sc_mismatch c \<longrightarrow> 2 \<le> length hist))"

lemma confirm_version_mono: "confirm_version rows hi mm = Inr mm' \<Longrightarrow> mm' \<longrightarrow> mm"
  by (auto simp: confirm_version_def Let_def bind_r_eq_Inr split: if_splits)

text \<open>Updating the version information keeps the history well-formed (never empty, neighbouring model
  versions differ, a mismatch only after a change), only ever extends it, and leaves the current model
  version as its last entry.\<close>

theorem update_version_tuple_history:
  assumes "update_version_tuple env c = Inr c'" and "wf_container c"
  shows "wf_container c' \<and>
    (\<forall>hist. sc_history c = Some hist \<longrightarrow> (\<exists>more. sc_history c' = Some (hist @ more) \<and> length more \<le> 1)) \<and>
    (\<forall>m d. ve_versions env = Some (m, d) \<longrightarrow> (\<exists>hist'. sc_history c' = Some hist' \<and> fst (last hist') = m))"
proof (cases "ve_versions env")
  case None
  with assms show ?thesis
    by (auto simp: update_version_tuple_def wf_container_def split: option.splits)
next
  case (Some v)
  obtain m d where v: "v = (m, d)" by (cases v)
  show ?thesis
  proof (cases "sc_history c")
    case None
    with Some v assms show ?thesis by (auto simp: update_version_tuple_def wf_container_def)
  next
    case (Some hist)
    define hist' where "hist' = (if m \<noteq> fst (last hist) then hist @ [(m, d)] else hist)"
    from assms(2) Some have w: "hist \<noteq> []" "distinct_adj (map fst hist)" "sc_mismatch c \<longrightarrow> 2 \<le> length hist"
      by (auto simp: wf_container_def)
    from assms(1) \<open>ve_versions env = Some v\<close> v Some have c': "sc_history c' = Some hist'"
        and mm: "sc_mismatch c' \<longrightarrow> m \<noteq> fst (last hist) \<or> sc_mismatch c"
      by (auto simp: update_version_tuple_def hist'_def bind_r_eq_Inr dest!: confirm_version_mono
          split: option.splits if_splits)
    have "distinct_adj (map fst hist')" "hist' \<noteq> []" "fst (last hist') = m" "\<exists>more. hist' = hist @ more \<and> length more \<le> 1"
      using w by (auto simp: hist'_def distinct_adj_append_iff last_map)
    moreover have "sc_mismatch c' \<longrightarrow> 2 \<le> length hist'"
      using mm w by (cases hist) (auto simp: hist'_def)
    ultimately show ?thesis using c' Some v \<open>ve_versions env = Some v\<close> by (auto simp: wf_container_def)
  qed
qed

theorem update_version_tuple_history_witness:
  "wf_container \<lparr>sc_proc_dict = None, sc_licenses = None, sc_history = Some [(''1'', ''1''), (''2'', ''1'')], sc_mismatch = True\<rparr>"
  using update_version_tuple_history [of "\<lparr>ve_versions = Some (''2'', ''1''), ve_rows = None\<rparr>"
      "\<lparr>sc_proc_dict = None, sc_licenses = None, sc_history = Some [(''1'', ''1'')], sc_mismatch = False\<rparr>"]
  by (simp add: update_version_tuple_def wf_container_def)

subsection \<open>What the plan contains\<close>

text \<open>The plan for a target is one of the rows of the table, and it is safe: processes are killed by a
  cleanup only after a stop and a wait unless nothing runs, a service is only started or debugged
  directly after a cleanup as the last step, and a completely running service is not touched by a start.\<close>

theorem decide_plan:
  assumes "subcom \<in> {''start'', ''stop'', ''restart'', ''debug'', ''reload''}"
  shows "\<exists>plan. decide subcom s = Inr plan \<and>
    (''cleanup'' \<in> set plan \<and> run_state s \<noteq> ''error'' \<longrightarrow>
       (\<exists>pre post. plan = pre @ [''stop'', ''wait'', ''cleanup''] @ post)) \<and>
    (\<forall>a \<in> {''start'', ''debug''}. a \<in> set plan \<longrightarrow> (\<exists>pre. plan = pre @ [''cleanup'', a])) \<and>
    (subcom = ''start'' \<and> run_state s = ''ok'' \<longrightarrow> plan = []) \<and>
    (subcom = ''stop'' \<longrightarrow> last plan = ''cleanup'')"
proof -
  have "run_state s \<in> {''ok'', ''warn'', ''error''}"
    by (auto simp: run_state_def Let_def split: option.splits)
  then consider "run_state s = ''ok''" | "run_state s = ''warn''" | "run_state s = ''error''" by blast
  then show ?thesis
    by cases (use assms in \<open>auto simp: decide_def decide_table_def Cons_eq_append_conv append_eq_Cons_conv\<close>)
qed

theorem decide_plan_witness: "\<exists>plan. decide ''restart'' demo_service = Inr plan"
  using decide_plan [of "''restart''" demo_service] by auto

subsection \<open>The table of results\<close>

record form_opts =
  fo_failed :: bool
  fo_process :: bool
  fo_started :: bool
  fo_config :: bool
  fo_memory :: bool
  fo_version :: bool
  fo_meta :: bool

record form_cell =
  fc_text :: string
  fc_header :: "string option"
  fc_attr :: "string option"

abbreviation cell :: "string \<Rightarrow> string \<Rightarrow> form_cell" where
  "cell tx hdr \<equiv> \<lparr>fc_text = tx, fc_header = Some hdr, fc_attr = None\<rparr>"

abbreviation attr_cell :: "string \<times> string \<Rightarrow> string \<Rightarrow> form_cell" where
  "attr_cell ta hdr \<equiv> \<lparr>fc_text = fst ta, fc_header = Some hdr, fc_attr = Some (snd ta)\<rparr>"

definition prc_dict :: "(int \<times> string \<times> string) list" where
  "prc_dict =
     [(SERVICE_OK, ''running'', ''ok''), (SERVICE_DEAD, ''error'', ''critical''),
      (SERVICE_INCOMPLETE, ''incomplete'', ''critical''), (SERVICE_NOT_INSTALLED, ''not installed'', ''warning''),
      (SERVICE_NOT_CONFIGURED, ''not configured'', ''warning'')]"

definition crc_dict :: "(int \<times> string \<times> string) list" where
  "crc_dict =
     [(CONF_STATE_RUN, ''run'', ''ok''), (CONF_STATE_STOP, ''stop'', ''critical''),
      (CONF_STATE_IP_MISMATCH, ''ip mismatch'', ''critical'')]"

definition meta_t_dict :: "(int \<times> string \<times> string) list" where
  "meta_t_dict = [(TARGET_STATE_RUNNING, ''run'', ''ok''), (TARGET_STATE_STOPPED, ''stop'', ''critical'')]"

definition meta_i_dict :: "(int \<times> string \<times> string) list" where
  "meta_i_dict = [(0, ''monitor'', ''ok''), (1, ''ignore'', ''warning'')]"

definition lic_dict :: "(int \<times> string \<times> string) list" where
  "lic_dict =
     [(-1, ''-'', []), (0, ''no license'', ''critical''), (120, ''parameter violated'', ''critical''),
      (100, ''valid'', ''ok''), (80, ''in grace'', ''warning''), (40, ''expired'', ''critical''),
      (300, ''wrong fingerprint'', ''critical'')]"

definition process_cells :: "instance_el \<Rightarrow> psi \<Rightarrow> check_result \<Rightarrow> form_cell list res" where
  "process_cells el p r =
     bind_r (case psi_num_started p of
               None \<Rightarrow> Inr \<lparr>fc_text = psi_text p, fc_header = None, fc_attr = None\<rparr>
             | Some _ \<Rightarrow>
                 (case psi_num_diff p of
                    None \<Rightarrow> Inl TypeError
                  | Some d \<Rightarrow>
                      bind_r (el_attr el ''any-processes-ok'') (\<lambda>a. bind_r (py_int a) (\<lambda>any_ok.
                      (case psi_info_str p of
                         None \<Rightarrow> Inl KeyError
                       | Some info \<Rightarrow>
                           Inr \<lparr>fc_text = info, fc_header = Some ''Process info'',
                                fc_attr = Some (if any_ok \<noteq> 0 then [] else if d < 0 then ''critical''
                                                else if d > 0 then ''warning'' else [])\<rparr>))))) (\<lambda>c1.
       let pd = fold (\<lambda>e d. AList.update (pe_pid e) (pe_count e) d) (cr_pids r) [];
           pl = sort (map fst pd);
           tx = (if pd = [] then ''no PIDs''
                 else if list_all (\<lambda>(_, n). n \<le> 1) pd then compress_num_list pl []
                 else py_join '','' (map (\<lambda>k. str_of_int k @
                        (case map_of pd k of
                           Some n \<Rightarrow> if n > 1 then '' ('' @ str_of_nat n @ '')'' else []
                         | None \<Rightarrow> [])) pl))
       in Inr [c1, cell tx ''pids''])"

text \<open>\<open>fmt_time\<close> renders a time stamp; \<open>have_lic\<close> tells whether the license models can be loaded.\<close>

definition form_row ::
  "(int \<Rightarrow> string) \<Rightarrow> bool \<Rightarrow> form_opts \<Rightarrow> instance_el \<Rightarrow> check_result \<Rightarrow> form_cell list option res" where
  "form_row fmt_time have_lic opts el r =
     bind_r (case cr_psi r of None \<Rightarrow> Inl AttributeError | Some p \<Rightarrow> Inr p) (\<lambda>p.
     bind_r (case cr_configured r of None \<Rightarrow> Inl AttributeError | Some c \<Rightarrow> Inr c) (\<lambda>c_state.
     if fo_failed opts \<and> psi_state p = SERVICE_OK then Inr None
     else
       bind_r (el_attr el ''name'') (\<lambda>nm.
       bind_r (el_attr el ''runs_on'') (\<lambda>ro.
       bind_r (if fo_process opts then process_cells el p r else Inr []) (\<lambda>pcs.
       bind_r (case cr_license r of None \<Rightarrow> Inl AttributeError | Some l \<Rightarrow> Inr l) (\<lambda>lic.
       bind_r (if have_lic then bind_r (dict_get lic lic_dict) (\<lambda>ta. Inr (attr_cell ta ''License''))
               else Inr (cell ''---'' ''License'')) (\<lambda>lc.
       bind_r (dict_get (psi_state p) prc_dict) (\<lambda>pc.
       bind_r (dict_get c_state crc_dict) (\<lambda>cc.
       bind_r (if fo_meta opts then
                 (case cr_meta r of
                    Some (t, i) \<Rightarrow> bind_r (dict_get t meta_t_dict) (\<lambda>tt. bind_r (dict_get i meta_i_dict) (\<lambda>ii.
                                     Inr [attr_cell tt ''TargetState'', attr_cell ii ''Ignore'']))
                  | None \<Rightarrow> Inr [attr_cell (''N/A'', ''warning'') ''TargetState'', attr_cell (''N/A'', ''warning'') ''Ignore''])
               else Inr []) (\<lambda>mcs.
         Inr (Some (
           [cell nm ''Name'', cell ro ''runson'',
            cell (case psi_source p of None \<Rightarrow> ''N/A'' | Some src \<Rightarrow> src) ''source''] @ pcs @
           (if fo_started opts then
              [cell (case psi_start_time p of
                       None \<Rightarrow> ''no start info found''
                     | Some t \<Rightarrow> if t \<noteq> 0 then fmt_time t else ''no start info found'') ''started'']
            else []) @
           (if fo_config opts then [cell (cr_config_info r) ''config info''] else []) @
           (if fo_memory opts then
              [cell (case cr_memory r of None \<Rightarrow> [] | Some (m, _) \<Rightarrow> beautify_mem_info False (nat m)) ''Memory'']
            else []) @
           (if fo_version opts then [cell (case cr_version r of None \<Rightarrow> [] | Some v \<Rightarrow> v) ''Version''] else []) @
           [lc, attr_cell pc ''PState'', attr_cell cc ''CState''] @ mcs))))))))))))"

definition rows_by_type :: "instance_xml \<Rightarrow> (instance_el \<times> check_result) list" where
  "rows_by_type ix =
     (let tys = sort (remdups (concat (map (\<lambda>el. case map_of (el_attrib el) ''runs_on'' of None \<Rightarrow> [] | Some t \<Rightarrow> [t]) (ix_tree ix))))
      in concat (map (\<lambda>t. concat (map (\<lambda>el.
           case el_result el of
             None \<Rightarrow> []
           | Some r \<Rightarrow> if map_of (el_attrib el) ''runs_on'' = Some t then [(el, r)] else []) (ix_tree ix))) tys))"

definition instance_to_form_list ::
  "(int \<Rightarrow> string) \<Rightarrow> bool \<Rightarrow> form_opts \<Rightarrow> instance_xml \<Rightarrow> form_cell list list res" where
  "instance_to_form_list fmt_time have_lic opts ix =
     bind_r (mapM_r (\<lambda>(el, r). form_row fmt_time have_lic opts el r) (rows_by_type ix))
       (\<lambda>rows. Inr (concat (map (\<lambda>x. case x of None \<Rightarrow> [] | Some y \<Rightarrow> [y]) rows)))"

lemma mapM_r_Inl: "x \<in> set xs \<Longrightarrow> f x = Inl e \<Longrightarrow> \<exists>e'. mapM_r f xs = Inl e'"
proof (induction xs)
  case (Cons y ys)
  show ?case
  proof (cases "f y")
    case (Inr z)
    with Cons show ?thesis by (cases "x = y") (auto simp: bind_r_def split: sum.splits)
  qed simp
qed simp

lemma rows_by_type_mem:
  "(el, r) \<in> set (rows_by_type ix) \<longleftrightarrow>
     el \<in> set (ix_tree ix) \<and> el_result el = Some r \<and> map_of (el_attrib el) ''runs_on'' \<noteq> None"
  by (auto simp: rows_by_type_def Let_def dest: sym split: option.splits if_splits)

text \<open>The table cannot be printed while the models have changed: the label dictionary of the configured
  states has no entry for that state, so one such service makes the whole listing fail.\<close>

theorem form_list_models_changed:
  assumes "el \<in> set (ix_tree ix)" and "el_result el = Some r" and "map_of (el_attrib el) ''runs_on'' \<noteq> None"
    and "cr_configured r = Some CONF_STATE_MODELS_CHANGED" and "\<not> fo_failed opts"
  shows "\<exists>e. instance_to_form_list fmt_time have_lic opts ix = Inl e"
proof -
  have "\<exists>e. form_row fmt_time have_lic opts el r = Inl e"
  proof (rule ccontr)
    assume "\<nexists>e. form_row fmt_time have_lic opts el r = Inl e"
    then obtain x where "form_row fmt_time have_lic opts el r = Inr x" by (metis sum.exhaust)
    with assms(4, 5) show False
      by (auto simp: form_row_def bind_r_eq_Inr crc_dict_def dict_get_def)
  qed
  then obtain e where e: "(\<lambda>(el, r). form_row fmt_time have_lic opts el r) (el, r) = Inl e" by auto
  have "(el, r) \<in> set (rows_by_type ix)" using assms by (simp add: rows_by_type_mem)
  from mapM_r_Inl [where f = "\<lambda>(el, r). form_row fmt_time have_lic opts el r", OF this e] show ?thesis by (auto simp: instance_to_form_list_def)
qed

definition demo_opts :: form_opts where
  "demo_opts = \<lparr>fo_failed = False, fo_process = True, fo_started = True, fo_config = True, fo_memory = True,
     fo_version = True, fo_meta = True\<rparr>"

theorem form_list_models_changed_witness:
  "\<exists>e. instance_to_form_list (\<lambda>_. []) True demo_opts (empty_xml\<lparr>ix_tree := [demo_el ''a'' [(''runs_on'', ''server'')] [] []
      \<lparr>el_result := Some (empty_result\<lparr>cr_configured := Some 3\<rparr>)\<rparr>]\<rparr>) = Inl e"
  by (rule form_list_models_changed [where el = "demo_el ''a'' [(''runs_on'', ''server'')] [] []
      \<lparr>el_result := Some (empty_result\<lparr>cr_configured := Some 3\<rparr>)\<rparr>" and r = "empty_result\<lparr>cr_configured := Some 3\<rparr>"])
    (simp_all add: demo_opts_def, simp add: demo_el_def)

end
