(* ===== verification/Transition.thy ===== *)
theory Transition
  imports Service_Container
begin

section \<open>Service transitions (initat/icsw/service/transition.py)\<close>

text \<open>
  A transition brings a list of services to a target by working off a list of actions. An action of a
  service that waits stays pending until the wait time is over or all processes of the service are gone.
  What a step observes of the system may change at every look: \<open>hs p k\<close> is the host (with its clock) at the
  k-th look of the p-th run of the inner loop. The events a transition went through are recorded in a
  trace: an action done at a time, or the processes of a waiting service having gone.
\<close>

datatype tevent = Did string nat py_float | Gone nat

record transition =
  tr_target :: string
  tr_debug_args :: "string list"
  tr_list :: "service list"
  tr_step_num :: nat
  tr_actions :: "(string \<times> nat) list"
  tr_wait :: "(string \<times> py_float) list"
  tr_cont :: container
  tr_trace :: "tevent list"
  tr_effects :: "effect list"

definition new_transition :: "string \<Rightarrow> string list \<Rightarrow> instance_xml \<Rightarrow> string list \<Rightarrow> container \<Rightarrow> transition res" where
  "new_transition target service_list ix debug_args c =
     bind_r (apply_filter service_list ix) (\<lambda>l.
       Inr \<lparr>tr_target = target, tr_debug_args = debug_args, tr_list = l, tr_step_num = 0, tr_actions = [],
            tr_wait = [], tr_cont = c, tr_trace = [], tr_effects = []\<rparr>)"

definition wait_time :: "transition \<Rightarrow> service \<Rightarrow> int res" where
  "wait_time tr s =
     (if tr_target tr = ''debug'' then Inr 2 else bind_r (sv_attr s ''wait_time'') py_int)"

text \<open>Performing an action; the debug arguments are changed in place when a service is debugged.\<close>

definition do_action :: "host \<Rightarrow> string \<Rightarrow> nat \<Rightarrow> service \<Rightarrow> transition \<Rightarrow> transition res" where
  "do_action h a i s tr =
     (let now = h_now h; tr1 = tr\<lparr>tr_trace := tr_trace tr @ [Did a i now]\<rparr> in
      if a = ''wait'' then Inr (tr1\<lparr>tr_wait := AList.update (sv_name s) now (tr_wait tr)\<rparr>)
      else
        bind_r (action h (case sc_proc_dict (tr_cont tr) of None \<Rightarrow> [] | Some d \<Rightarrow> d) (tr_debug_args tr) a s) (\<lambda>effs.
          Inr (tr1\<lparr>tr_effects := tr_effects tr @ effs,
                   tr_debug_args := (if a = ''debug'' \<and> sv_kind s = MetaService \<and> startstop s = Inr True
                                     then remove1 ''--debug-flag'' (tr_debug_args tr) else tr_debug_args tr)\<rparr>)))"

fun act_pass :: "(nat \<Rightarrow> host) \<Rightarrow> nat \<Rightarrow> (string \<times> nat) list \<Rightarrow> transition \<Rightarrow> transition res" where
  "act_pass hs k [] tr = Inr tr"
| "act_pass hs k ((a, i) # acts) tr =
     bind_r (list_get (tr_list tr) i) (\<lambda>s.
       case map_of (tr_wait tr) (sv_name s) of
         Some t0 \<Rightarrow>
           bind_r (wait_time tr s) (\<lambda>wt.
             if \<bar>h_now (hs k) - t0\<bar> < of_int wt
             then act_pass hs (k + 1) acts (tr\<lparr>tr_actions := tr_actions tr @ [(a, i)]\<rparr>)
             else bind_r (do_action (hs k) a i s (tr\<lparr>tr_wait := AList.delete (sv_name s) (tr_wait tr)\<rparr>))
                    (act_pass hs (k + 1) acts))
       | None \<Rightarrow> bind_r (do_action (hs k) a i s tr) (act_pass hs (k + 1) acts))"

text \<open>\<open>_check_waiting\<close> over the names that were waiting when it started.\<close>

fun name_index :: "service list \<Rightarrow> string \<Rightarrow> nat res" where
  "name_index [] n = Inl IndexError"
| "name_index (s # ss) n = (if sv_name s = n then Inr 0 else bind_r (name_index ss n) (\<lambda>i. Inr (Suc i)))"

fun wait_pass ::
  "(nat \<Rightarrow> host) \<Rightarrow> config_db option \<Rightarrow> (string \<times> int) list option \<Rightarrow> nat \<Rightarrow> string list \<Rightarrow>
     transition \<Rightarrow> nat \<Rightarrow> (transition \<times> nat) res" where
  "wait_pass hs ct lics k [] tr v = Inr (tr, v)"
| "wait_pass hs ct lics k (n # ns) tr v =
     bind_r (name_index (tr_list tr) n) (\<lambda>i.
     bind_r (check_service (hs k) ct lics True True False None (tr_cont tr) (tr_list tr ! i)) (\<lambda>cs.
       let tr1 = tr\<lparr>tr_cont := fst cs, tr_list := (tr_list tr)[i := snd cs]\<rparr> in
       if entry_pids (snd cs) = []
       then wait_pass hs ct lics (k + 1) ns
              (tr1\<lparr>tr_wait := AList.delete n (tr_wait tr1), tr_trace := tr_trace tr1 @ [Gone i]\<rparr>) (v + 1)
       else wait_pass hs ct lics (k + 1) ns tr1 v))"

subsection \<open>The inner loop terminates\<close>

lemma do_action_frame:
  "do_action h a i s tr = Inr tr' \<Longrightarrow>
   tr_list tr' = tr_list tr \<and> tr_target tr' = tr_target tr \<and> tr_actions tr' = tr_actions tr \<and>
   tr_step_num tr' = tr_step_num tr \<and> tr_trace tr' = tr_trace tr @ [Did a i (h_now h)] \<and>
   tr_wait tr' = (if a = ''wait'' then AList.update (sv_name s) (h_now h) (tr_wait tr) else tr_wait tr)"
  by (auto simp: do_action_def Let_def bind_r_eq_Inr split: if_splits)

lemma length_alist_update: "length (AList.update k v d) \<le> length d + 1"
  by (induction d) auto

lemma length_alist_delete: "length (AList.delete k d) \<le> length d"
  by (simp add: AList.delete_eq)

lemma length_alist_delete_less: "k \<in> fst ` set d \<Longrightarrow> length (AList.delete k d) < length d"
proof -
  assume "k \<in> fst ` set d"
  then obtain x where "x \<in> set d" "\<not> k \<noteq> fst x" by auto
  from length_filter_less [of x d "\<lambda>y. k \<noteq> fst y", OF this]
  show ?thesis by (simp add: AList.delete_eq case_prod_unfold)
qed

lemma act_pass_cases:
  assumes "act_pass hs k ((a, i) # acts) tr = Inr tr'"
  obtains (hold) s t0 wt where "i < length (tr_list tr)" "s = tr_list tr ! i" "map_of (tr_wait tr) (sv_name s) = Some t0"
      "wait_time tr s = Inr wt" "\<bar>h_now (hs k) - t0\<bar> < of_int wt"
      "act_pass hs (k + 1) acts (tr\<lparr>tr_actions := tr_actions tr @ [(a, i)]\<rparr>) = Inr tr'"
  | (run) s tr1 where "i < length (tr_list tr)" "s = tr_list tr ! i"
      "\<forall>t0. map_of (tr_wait tr) (sv_name s) = Some t0 \<longrightarrow>
         (\<exists>wt. wait_time tr s = Inr wt \<and> of_int wt \<le> \<bar>h_now (hs k) - t0\<bar>)"
      "do_action (hs k) a i s (tr\<lparr>tr_wait := AList.delete (sv_name s) (tr_wait tr)\<rparr>) = Inr tr1"
      "act_pass hs (k + 1) acts tr1 = Inr tr'"
proof -
  from assms obtain s where s: "i < length (tr_list tr)" "s = tr_list tr ! i"
    by (auto simp: bind_r_eq_Inr list_get_def split: if_splits)
  show thesis
  proof (cases "map_of (tr_wait tr) (sv_name s)")
    case None
    then have "tr\<lparr>tr_wait := AList.delete (sv_name s) (tr_wait tr)\<rparr> = tr"
      by (simp add: delete_id map_of_eq_None_iff)
    moreover from assms s None obtain tr1 where "do_action (hs k) a i s tr = Inr tr1" "act_pass hs (k + 1) acts tr1 = Inr tr'"
      by (auto simp: bind_r_eq_Inr)
    ultimately show thesis using s None by (intro run [of s tr1]) simp_all
  next
    case (Some t0)
    with assms s obtain wt where wt: "wait_time tr s = Inr wt" by (auto simp: bind_r_eq_Inr)
    show thesis
    proof (cases "\<bar>h_now (hs k) - t0\<bar> < of_int wt")
      case True
      with assms s Some wt show thesis by (intro hold [OF s Some wt True]) simp
    next
      case False
      with assms s Some wt obtain tr1 where
        "do_action (hs k) a i s (tr\<lparr>tr_wait := AList.delete (sv_name s) (tr_wait tr)\<rparr>) = Inr tr1"
        "act_pass hs (k + 1) acts tr1 = Inr tr'"
        by (auto simp: bind_r_eq_Inr)
      with s Some wt False show thesis by (intro run [of s tr1]) simp_all
    qed
  qed
qed

lemma act_pass_measure:
  "act_pass hs k acts tr = Inr tr' \<Longrightarrow>
   2 * length (tr_actions tr') + length (tr_wait tr') \<le>
   2 * (length (tr_actions tr) + length acts) + length (tr_wait tr)"
proof (induction acts arbitrary: k tr)
  case (Cons ai acts)
  obtain a i where ai: "ai = (a, i)" by (cases ai)
  from Cons.prems [unfolded ai] show ?case
  proof (cases rule: act_pass_cases)
    case (hold s t0 wt)
    from Cons.IH [OF hold(6)] show ?thesis by simp
  next
    case (run s tr1)
    have "length (tr_wait tr1) \<le> length (tr_wait tr) + 1"
      using do_action_frame [OF run(4)] length_alist_update [of "sv_name s" "h_now (hs k)" "AList.delete (sv_name s) (tr_wait tr)"]
        length_alist_delete [of "sv_name s" "tr_wait tr"]
      by (cases "a = ''wait''") simp_all
    with Cons.IH [OF run(5)] do_action_frame [OF run(4)] show ?thesis by simp
  qed
qed simp

lemma wait_pass_measure:
  "wait_pass hs ct lics k ns tr v = Inr (tr', v') \<Longrightarrow> distinct ns \<Longrightarrow> set ns \<subseteq> fst ` set (tr_wait tr) \<Longrightarrow>
   tr_actions tr' = tr_actions tr \<and> length (tr_wait tr') + v' \<le> length (tr_wait tr) + v"
proof (induction ns arbitrary: k tr v)
  case (Cons n ns)
  from Cons.prems(1) obtain i cs where r: "name_index (tr_list tr) n = Inr i"
      "check_service (hs k) ct lics True True False None (tr_cont tr) (tr_list tr ! i) = Inr cs"
    by (auto simp: bind_r_eq_Inr)
  let ?tr1 = "tr\<lparr>tr_cont := fst cs, tr_list := (tr_list tr)[i := snd cs]\<rparr>"
  show ?case
  proof (cases "entry_pids (snd cs) = []")
    case True
    let ?tr2 = "?tr1\<lparr>tr_wait := AList.delete n (tr_wait ?tr1), tr_trace := tr_trace ?tr1 @ [Gone i]\<rparr>"
    from Cons.prems(1) r True have "wait_pass hs ct lics (k + 1) ns ?tr2 (v + 1) = Inr (tr', v')" by (simp add: Let_def)
    from Cons.IH [OF this] Cons.prems(2, 3) length_alist_delete_less [of n "tr_wait tr"]
    show ?thesis by (fastforce simp: AList.delete_eq)
  next
    case False
    with Cons.prems(1) r have "wait_pass hs ct lics (k + 1) ns ?tr1 v = Inr (tr', v')" by (simp add: Let_def)
    from Cons.IH [OF this] Cons.prems(2, 3) show ?thesis by simp
  qed
qed simp

text \<open>The inner loop of \<open>step\<close>: work off the actions, look for services whose processes are gone, and go on
  as long as some are. The keys of a dictionary are distinct.\<close>

definition one_pass ::
  "(nat \<Rightarrow> host) \<Rightarrow> config_db option \<Rightarrow> (string \<times> int) list option \<Rightarrow> transition \<Rightarrow> (transition \<times> nat) res" where
  "one_pass hs ct lics tr =
     bind_r (act_pass hs 0 (tr_actions tr) (tr\<lparr>tr_actions := []\<rparr>)) (\<lambda>tr1.
       wait_pass hs ct lics (length (tr_actions tr)) (remdups (map fst (tr_wait tr1))) tr1 0)"

lemma one_pass_measure:
  assumes "one_pass hs ct lics tr = Inr (tr', v)"
  shows "2 * length (tr_actions tr') + length (tr_wait tr') + v \<le> 2 * length (tr_actions tr) + length (tr_wait tr)"
proof -
  from assms obtain tr1 where a: "act_pass hs 0 (tr_actions tr) (tr\<lparr>tr_actions := []\<rparr>) = Inr tr1"
    and w: "wait_pass hs ct lics (length (tr_actions tr)) (remdups (map fst (tr_wait tr1))) tr1 0 = Inr (tr', v)"
    by (auto simp: one_pass_def bind_r_eq_Inr)
  from act_pass_measure [OF a] wait_pass_measure [OF w] show ?thesis by simp
qed

function trans_loop ::
  "(nat \<Rightarrow> nat \<Rightarrow> host) \<Rightarrow> config_db option \<Rightarrow> (string \<times> int) list option \<Rightarrow> nat \<Rightarrow> transition \<Rightarrow> transition res" where
  "trans_loop hs ct lics p tr =
     (case one_pass (hs p) ct lics tr of
        Inl e \<Rightarrow> Inl e
      | Inr (tr', v) \<Rightarrow> if v = 0 then Inr tr' else trans_loop hs ct lics (p + 1) tr')"
  by pat_completeness auto
termination
  by (relation "measure (\<lambda>(hs, ct, lics, p, tr). 2 * length (tr_actions tr) + length (tr_wait tr))")
    (auto dest!: one_pass_measure)

declare trans_loop.simps [simp del]

text \<open>The plan of the first step: every service is checked and the actions for the target are collected.\<close>

fun plan_actions ::
  "host \<Rightarrow> config_db option \<Rightarrow> (string \<times> int) list option \<Rightarrow> string \<Rightarrow> nat \<Rightarrow> service list \<Rightarrow> container \<Rightarrow>
     (container \<times> service list \<times> (string \<times> nat) list) res" where
  "plan_actions h ct lics target i [] c = Inr (c, [], [])"
| "plan_actions h ct lics target i (s # ss) c =
     bind_r (check_service h ct lics True True False None c s) (\<lambda>(c1, s1).
     bind_r (decide target s1) (\<lambda>plan.
     bind_r (plan_actions h ct lics target (i + 1) ss c1) (\<lambda>(c2, ss1, acts).
       Inr (c2, s1 # ss1, map (\<lambda>a. (a, i)) plan @ acts))))"

definition step ::
  "(nat \<Rightarrow> nat \<Rightarrow> host) \<Rightarrow> config_db option \<Rightarrow> (string \<times> int) list option \<Rightarrow> transition \<Rightarrow> transition res" where
  "step hs ct lics tr =
     (let tr1 = tr\<lparr>tr_step_num := tr_step_num tr + 1, tr_cont := update_proc_dict (hs 0 0) (tr_cont tr)\<rparr> in
      if tr_step_num tr1 = 1 then
        bind_r (plan_actions (hs 0 0) ct lics (tr_target tr1) 0 (tr_list tr1) (tr_cont tr1)) (\<lambda>(c, ss, acts).
          trans_loop hs ct lics 0 (tr1\<lparr>tr_cont := c, tr_list := ss, tr_actions := acts, tr_wait := []\<rparr>))
      else trans_loop hs ct lics 0 tr1)"

definition pending :: "transition \<Rightarrow> nat" where
  "pending tr = length (tr_actions tr)"

subsection \<open>Services keep their identity\<close>

lemma check_service_frame:
  "check_service h ct lics uc rf vc meta c s = Inr (c', s') \<Longrightarrow> sv_name s' = sv_name s \<and> sv_attrib s' = sv_attrib s"
  by (auto simp: check_service_def Let_def bind_r_eq_Inr dest!: check_frame)

definition same_services :: "service list \<Rightarrow> service list \<Rightarrow> bool" where
  "same_services ss ss' \<longleftrightarrow> list_all2 (\<lambda>s s'. sv_name s' = sv_name s \<and> sv_attrib s' = sv_attrib s) ss ss'"

lemma same_services_refl [simp]: "same_services ss ss"
  by (simp add: same_services_def list_all2_refl)

lemma same_services_trans: "same_services a b \<Longrightarrow> same_services b c \<Longrightarrow> same_services a c"
  by (simp add: same_services_def list_all2_conv_all_nth)

lemma same_services_update:
  "i < length ss \<Longrightarrow> sv_name s = sv_name (ss ! i) \<Longrightarrow> sv_attrib s = sv_attrib (ss ! i) \<Longrightarrow> same_services ss (ss[i := s])"
  by (auto simp: same_services_def list_all2_conv_all_nth nth_list_update)

lemma same_services_nth:
  "same_services ss ss' \<Longrightarrow> length ss' = length ss \<and> map sv_name ss' = map sv_name ss \<and>
     (i < length ss \<longrightarrow> sv_name (ss' ! i) = sv_name (ss ! i) \<and> sv_attrib (ss' ! i) = sv_attrib (ss ! i))"
  by (auto simp: same_services_def list_all2_conv_all_nth intro: nth_equalityI)

lemma wait_time_same:
  "tr_target tr' = tr_target tr \<Longrightarrow> sv_attrib s' = sv_attrib s \<Longrightarrow> wait_time tr' s' = wait_time tr s"
  by (simp add: wait_time_def sv_attr_def)

lemma act_pass_frame:
  "act_pass hs k acts tr = Inr tr' \<Longrightarrow>
   tr_list tr' = tr_list tr \<and> tr_target tr' = tr_target tr \<and> tr_step_num tr' = tr_step_num tr"
proof (induction acts arbitrary: k tr)
  case (Cons ai acts)
  obtain a i where ai: "ai = (a, i)" by (cases ai)
  from Cons.prems [unfolded ai] show ?case
  proof (cases rule: act_pass_cases)
    case (hold s t0 wt)
    from Cons.IH [OF hold(6)] show ?thesis by simp
  next
    case (run s tr1)
    from Cons.IH [OF run(5)] do_action_frame [OF run(4)] show ?thesis by simp
  qed
qed simp

lemma name_index_nth: "name_index ss n = Inr i \<Longrightarrow> i < length ss \<and> sv_name (ss ! i) = n"
  by (induction ss n arbitrary: i rule: name_index.induct) (auto simp: bind_r_eq_Inr split: if_splits)

subsection \<open>Order of the actions of a service\<close>

definition did_actions :: "tevent list \<Rightarrow> nat \<Rightarrow> string list" where
  "did_actions evs i = concat (map (\<lambda>e. case e of Did a j _ \<Rightarrow> if j = i then [a] else [] | Gone _ \<Rightarrow> []) evs)"

definition pend_actions :: "(string \<times> nat) list \<Rightarrow> nat \<Rightarrow> string list" where
  "pend_actions acts i = map fst (filter (\<lambda>(_, j). j = i) acts)"

lemma did_actions_append [simp]: "did_actions (xs @ ys) i = did_actions xs i @ did_actions ys i"
  by (simp add: did_actions_def)

lemma did_actions_single [simp]:
  "did_actions [Did a j t] i = (if j = i then [a] else [])" "did_actions [Gone j] i = []" "did_actions [] i = []"
  by (simp_all add: did_actions_def)

lemma pend_actions_simps [simp]:
  "pend_actions [] i = []" "pend_actions (xs @ ys) i = pend_actions xs i @ pend_actions ys i"
  "pend_actions ((a, j) # acts) i = (if j = i then a # pend_actions acts i else pend_actions acts i)"
  by (simp_all add: pend_actions_def)

definition blocked :: "py_float \<Rightarrow> transition \<Rightarrow> nat \<Rightarrow> bool" where
  "blocked t tr i \<longleftrightarrow>
     (\<exists>t0 wt. map_of (tr_wait tr) (sv_name (tr_list tr ! i)) = Some t0 \<and>
        wait_time tr (tr_list tr ! i) = Inr wt \<and> \<bar>t - t0\<bar> < of_int wt)"

lemma blocked_do_action:
  assumes "do_action h a j (tr_list tr ! j) (tr\<lparr>tr_wait := AList.delete (sv_name (tr_list tr ! j)) (tr_wait tr)\<rparr>) = Inr tr1"
    and "sv_name (tr_list tr ! i) \<noteq> sv_name (tr_list tr ! j)"
  shows "blocked t tr1 i = blocked t tr i"
  using do_action_frame [OF assms(1)] assms(2)
  by (auto simp: blocked_def wait_time_def update_conv' delete_conv' fun_upd_def)

lemma act_pass_order:
  assumes "act_pass hs k acts tr = Inr tr'" and "distinct (map sv_name (tr_list tr))" and "i < length (tr_list tr)"
    and "\<And>k. h_now (hs k) = t"
  shows "\<exists>ds ps. did_actions (tr_trace tr') i = did_actions (tr_trace tr) i @ ds \<and>
           pend_actions (tr_actions tr') i = pend_actions (tr_actions tr) i @ ps \<and>
           ds @ ps = pend_actions acts i \<and> (blocked t tr i \<longrightarrow> ds = [])"
  using assms(1-3)
proof (induction acts arbitrary: k tr)
  case (Cons aj acts)
  obtain a j where aj: "aj = (a, j)" by (cases aj)
  from Cons.prems(1) [unfolded aj] show ?case
  proof (cases rule: act_pass_cases)
    case (hold s t0 wt)
    let ?tr = "tr\<lparr>tr_actions := tr_actions tr @ [(a, j)]\<rparr>"
    have b: "blocked t ?tr i = blocked t tr i" by (simp add: blocked_def wait_time_def)
    have "blocked t tr j" using hold assms(4) by (auto simp: blocked_def)
    with Cons.IH [OF hold(6)] Cons.prems(2, 3) b show ?thesis
      by (cases "j = i") (fastforce simp: aj)+
  next
    case (run s tr1)
    note f = do_action_frame [OF run(4)]
    from f Cons.prems have IH: "\<exists>ds ps. did_actions (tr_trace tr') i = did_actions (tr_trace tr1) i @ ds \<and>
           pend_actions (tr_actions tr') i = pend_actions (tr_actions tr1) i @ ps \<and>
           ds @ ps = pend_actions acts i \<and> (blocked t tr1 i \<longrightarrow> ds = [])"
      by (intro Cons.IH [OF run(5)]) simp_all
    show ?thesis
    proof (cases "j = i")
      case True
      have "\<not> blocked t tr i" using run(2, 3) assms(4) True by (fastforce simp: blocked_def)
      with IH f True show ?thesis by (auto simp: aj)
    next
      case False
      have "sv_name (tr_list tr ! i) \<noteq> sv_name (tr_list tr ! j)"
        using Cons.prems(2, 3) run(1) False by (metis distinct_conv_nth length_map nth_map)
      from blocked_do_action [OF run(4) [unfolded run(2)] this, of t] IH f False show ?thesis by (auto simp: aj)
    qed
  qed
qed simp

lemma wait_pass_frame:
  "wait_pass hs ct lics k ns tr v = Inr (tr', v') \<Longrightarrow>
   same_services (tr_list tr) (tr_list tr') \<and> tr_target tr' = tr_target tr \<and> tr_actions tr' = tr_actions tr \<and>
   tr_step_num tr' = tr_step_num tr \<and> did_actions (tr_trace tr') i = did_actions (tr_trace tr) i"
proof (induction ns arbitrary: k tr v)
  case (Cons n ns)
  from Cons.prems obtain j cs where r: "name_index (tr_list tr) n = Inr j"
      "check_service (hs k) ct lics True True False None (tr_cont tr) (tr_list tr ! j) = Inr cs"
    by (auto simp: bind_r_eq_Inr)
  let ?tr1 = "tr\<lparr>tr_cont := fst cs, tr_list := (tr_list tr)[j := snd cs]\<rparr>"
  let ?tr2 = "?tr1\<lparr>tr_wait := AList.delete n (tr_wait ?tr1), tr_trace := tr_trace ?tr1 @ [Gone j]\<rparr>"
  have ss: "same_services (tr_list tr) (tr_list ?tr1)"
    using name_index_nth [OF r(1)] check_service_frame [of "hs k" ct lics True True False None "tr_cont tr" "tr_list tr ! j" "fst cs" "snd cs"] r(2)
    by (simp add: same_services_update)
  show ?case
  proof (cases "entry_pids (snd cs) = []")
    case True
    with Cons.prems r have "wait_pass hs ct lics (k + 1) ns ?tr2 (v + 1) = Inr (tr', v')" by (simp add: Let_def)
    from Cons.IH [OF this] ss show ?thesis by (auto intro: same_services_trans)
  next
    case False
    with Cons.prems r have "wait_pass hs ct lics (k + 1) ns ?tr1 v = Inr (tr', v')" by (simp add: Let_def)
    from Cons.IH [OF this] ss show ?thesis by (auto intro: same_services_trans)
  qed
qed simp

text \<open>A clock that stands still during each run of the inner loop.\<close>

definition steady :: "(nat \<Rightarrow> nat \<Rightarrow> host) \<Rightarrow> bool" where
  "steady hs \<longleftrightarrow> (\<forall>p k. h_now (hs p k) = h_now (hs p 0))"

definition course :: "transition \<Rightarrow> nat \<Rightarrow> string list" where
  "course tr i = did_actions (tr_trace tr) i @ pend_actions (tr_actions tr) i"

lemma one_pass_course:
  assumes "one_pass hs ct lics tr = Inr (tr', v)" and "distinct (map sv_name (tr_list tr))" and "i < length (tr_list tr)"
    and "\<And>k. h_now (hs k) = t"
  shows "course tr' i = course tr i \<and> same_services (tr_list tr) (tr_list tr') \<and> tr_target tr' = tr_target tr"
proof -
  from assms(1) obtain tr1 where a: "act_pass hs 0 (tr_actions tr) (tr\<lparr>tr_actions := []\<rparr>) = Inr tr1"
    and w: "wait_pass hs ct lics (length (tr_actions tr)) (remdups (map fst (tr_wait tr1))) tr1 0 = Inr (tr', v)"
    by (auto simp: one_pass_def bind_r_eq_Inr)
  from act_pass_order [OF a _ _ assms(4), of i] assms(2, 3) have "course tr1 i = course tr i"
    by (auto simp: course_def)
  with act_pass_frame [OF a] wait_pass_frame [OF w, of i] show ?thesis by (simp add: course_def)
qed

lemma trans_loop_course:
  "trans_loop hs ct lics p tr = Inr tr' \<Longrightarrow> steady hs \<Longrightarrow> distinct (map sv_name (tr_list tr)) \<Longrightarrow>
   i < length (tr_list tr) \<Longrightarrow>
   course tr' i = course tr i \<and> same_services (tr_list tr) (tr_list tr') \<and> tr_target tr' = tr_target tr"
proof (induction hs ct lics p tr rule: trans_loop.induct)
  case (1 hs ct lics p tr)
  from 1(2) obtain tr1 v where o: "one_pass (hs p) ct lics tr = Inr (tr1, v)"
    by (auto simp: trans_loop.simps [of hs ct lics p tr] split: sum.splits)
  have st: "\<And>k. h_now (hs p k) = h_now (hs p 0)" using 1(3) by (simp add: steady_def)
  note c = one_pass_course [OF o 1(4, 5) st]
  show ?case
  proof (cases "v = 0")
    case True
    with o 1(2) c show ?thesis by (simp add: trans_loop.simps [of hs ct lics p tr])
  next
    case False
    from c same_services_nth have d: "distinct (map sv_name (tr_list tr1))" "i < length (tr_list tr1)"
      using 1(4, 5) by metis+
    from False o 1(2) have "trans_loop hs ct lics (p + 1) tr1 = Inr tr'"
      by (simp add: trans_loop.simps [of hs ct lics p tr])
    from 1(1) [OF o refl False this 1(3) d] c same_services_trans show ?thesis by auto
  qed
qed

lemma plan_actions_course:
  "plan_actions h ct lics target i0 ss c = Inr (c', ss', acts) \<Longrightarrow>
   same_services ss ss' \<and> (\<forall>i < length ss. decide target (ss' ! i) = Inr (pend_actions acts (i0 + i))) \<and>
   (\<forall>j. j < i0 \<longrightarrow> pend_actions acts j = [])"
proof (induction ss arbitrary: i0 c c' ss' acts)
  case (Cons s ss)
  from Cons.prems obtain c1 s1 plan c2 ss1 acts1 where r: "check_service h ct lics True True False None c s = Inr (c1, s1)"
      "decide target s1 = Inr plan" "plan_actions h ct lics target (i0 + 1) ss c1 = Inr (c2, ss1, acts1)"
    and e: "ss' = s1 # ss1" "acts = map (\<lambda>a. (a, i0)) plan @ acts1"
    by (auto simp: bind_r_eq_Inr)
  have own: "pend_actions (map (\<lambda>a. (a, i0)) plan) j = (if j = i0 then plan else [])" for j
    by (induction plan) auto
  note IH = Cons.IH [OF r(3)]
  have "decide target (ss' ! i) = Inr (pend_actions acts (i0 + i))" if "i < length (s # ss)" for i
    using that IH r(2) by (cases i) (auto simp: e own)
  moreover have "same_services (s # ss) ss'"
    using IH check_service_frame [OF r(1)] by (simp add: e same_services_def)
  moreover have "pend_actions acts j = []" if "j < i0" for j using IH that by (simp add: e own)
  ultimately show ?case by blast
qed simp

text \<open>The states a transition goes through, with whatever the steps observe.\<close>

inductive trans_reach :: "transition \<Rightarrow> transition \<Rightarrow> bool" for tr0 where
  reach_new: "trans_reach tr0 tr0"
| reach_step: "trans_reach tr0 tr \<Longrightarrow> step hs ct lics tr = Inr tr' \<Longrightarrow> steady hs \<Longrightarrow> trans_reach tr0 tr'"

inductive_cases trans_reachE: "trans_reach tr0 tr"

definition fresh :: "transition \<Rightarrow> bool" where
  "fresh tr \<longleftrightarrow> tr_step_num tr = 0 \<and> tr_trace tr = [] \<and> distinct (map sv_name (tr_list tr))"

definition plan_rows :: "string \<Rightarrow> string list set" where
  "plan_rows target = {plan. \<exists>rs row. map_of decide_table rs = Some row \<and> map_of row target = Some plan}"

lemma decide_row: "decide target s = Inr plan \<Longrightarrow> plan \<in> plan_rows target"
  by (auto simp: decide_def bind_r_eq_Inr dict_get_def plan_rows_def split: option.splits)

lemma trans_loop_num: "trans_loop hs ct lics p tr = Inr tr' \<Longrightarrow> tr_step_num tr' = tr_step_num tr"
proof (induction hs ct lics p tr rule: trans_loop.induct)
  case (1 hs ct lics p tr)
  from 1(2) obtain tr1 v where o: "one_pass (hs p) ct lics tr = Inr (tr1, v)"
    by (auto simp: trans_loop.simps [of hs ct lics p tr] split: sum.splits)
  then have "tr_step_num tr1 = tr_step_num tr"
    by (auto simp: one_pass_def bind_r_eq_Inr dest!: act_pass_frame wait_pass_frame)
  with o 1(1) [OF o refl] 1(2) show ?case
    by (cases "v = 0") (simp_all add: trans_loop.simps [of hs ct lics p tr])
qed

lemma step_num: "step hs ct lics tr = Inr tr' \<Longrightarrow> tr_step_num tr' = tr_step_num tr + 1"
  by (auto simp: step_def Let_def bind_r_eq_Inr split: if_splits dest!: trans_loop_num)

lemma step_course:
  assumes "step hs ct lics tr = Inr tr'" and "steady hs" and "distinct (map sv_name (tr_list tr))" and "i < length (tr_list tr)"
  shows "same_services (tr_list tr) (tr_list tr') \<and> tr_target tr' = tr_target tr \<and>
    (if tr_step_num tr = 0 then tr_trace tr = [] \<longrightarrow> course tr' i \<in> plan_rows (tr_target tr) else course tr' i = course tr i)"
proof -
  let ?tr1 = "tr\<lparr>tr_step_num := tr_step_num tr + 1, tr_cont := update_proc_dict (hs 0 0) (tr_cont tr)\<rparr>"
  show ?thesis
  proof (cases "tr_step_num tr = 0")
    case False
    with assms(1) have "trans_loop hs ct lics 0 ?tr1 = Inr tr'" by (simp add: step_def)
    from trans_loop_course [OF this assms(2), of i] assms(3, 4) False show ?thesis by (simp add: course_def)
  next
    case True
    with assms(1) obtain c ss acts where
      p: "plan_actions (hs 0 0) ct lics (tr_target tr) 0 (tr_list tr) (tr_cont ?tr1) = Inr (c, ss, acts)"
      and l: "trans_loop hs ct lics 0 (?tr1\<lparr>tr_cont := c, tr_list := ss, tr_actions := acts, tr_wait := []\<rparr>) = Inr tr'"
      by (auto simp: step_def bind_r_eq_Inr)
    note pc = plan_actions_course [OF p]
    with same_services_nth [of "tr_list tr" ss i] assms(3, 4)
    have "distinct (map sv_name ss)" "i < length ss" by auto
    with trans_loop_course [OF l assms(2), of i] pc assms(4) True decide_row
    show ?thesis by (auto simp: course_def intro: same_services_trans)
  qed
qed


definition demo_trans :: transition where
  "demo_trans =
     \<lparr>tr_target = ''restart'', tr_debug_args = [], tr_list = [demo_service], tr_step_num = 0, tr_actions = [],
      tr_wait = [], tr_cont = \<lparr>sc_proc_dict = None, sc_licenses = None, sc_history = None, sc_mismatch = False\<rparr>,
      tr_trace = [], tr_effects = []\<rparr>"

lemma demo_trans_step:
  "(case step (\<lambda>_ _. demo_host) None None demo_trans of
      Inl _ \<Rightarrow> False
    | Inr tr \<Rightarrow> did_actions (tr_trace tr) 0 = [''stop'', ''wait''] \<and> map fst (tr_actions tr) = [''cleanup'', ''start''])"
  by code_simp


subsection \<open>The clock may tick inside the loop\<close>

text \<open>Without that proviso the order is not kept: when the wait time of a service ends between the looks
  at its cleanup and at its start, the start is done first and the cleanup, which kills the processes of
  the service, stays pending for the next step.\<close>

theorem transition_race:
  "\<exists>hs tr tr'. tr_actions tr = [(''cleanup'', 0), (''start'', 0)] \<and> map_of (tr_wait tr) ''a'' = Some 0 \<and>
     (\<forall>k. h_now (hs k) \<le> h_now (hs (Suc k))) \<and>
     act_pass hs 0 (tr_actions tr) (tr\<lparr>tr_actions := []\<rparr>) = Inr tr' \<and>
     did_actions (tr_trace tr') 0 = [''start''] \<and> tr_actions tr' = [(''cleanup'', 0)]"
proof -
  let ?hs = "\<lambda>k :: nat. demo_host\<lparr>h_now := (if k = 0 then 9 else 10)\<rparr>"
  let ?tr = "demo_trans\<lparr>tr_actions := [(''cleanup'', 0), (''start'', 0)], tr_wait := [(''a'', 0)]\<rparr>"
  have "(case act_pass ?hs 0 (tr_actions ?tr) (?tr\<lparr>tr_actions := []\<rparr>) of
      Inl _ \<Rightarrow> False
    | Inr tr' \<Rightarrow> did_actions (tr_trace tr') 0 = [''start''] \<and> tr_actions tr' = [(''cleanup'', 0)])"
    by code_simp
  then obtain tr' where "act_pass ?hs 0 (tr_actions ?tr) (?tr\<lparr>tr_actions := []\<rparr>) = Inr tr'"
      "did_actions (tr_trace tr') 0 = [''start'']" "tr_actions tr' = [(''cleanup'', 0)]"
    by (auto split: sum.splits)
  then show ?thesis by (intro exI [of _ ?hs] exI [of _ ?tr] exI [of _ tr']) auto
qed

subsection \<open>Waiting\<close>

text \<open>Since when a service waits according to the trace, and the rule that the next action of a waiting
  service comes only after its wait time.\<close>

fun waits_since :: "tevent list \<Rightarrow> nat \<Rightarrow> py_float option" where
  "waits_since [] i = None"
| "waits_since (e # evs) i =
     (case e of
        Did a j t \<Rightarrow> if j = i then (if a = ''wait'' then Some t else None) else waits_since evs i
      | Gone j \<Rightarrow> if j = i then None else waits_since evs i)"

text \<open>The events are given latest first.\<close>

fun waits_ok :: "(nat \<Rightarrow> int res) \<Rightarrow> tevent list \<Rightarrow> bool" where
  "waits_ok wt [] \<longleftrightarrow> True"
| "waits_ok wt (e # evs) \<longleftrightarrow>
     (case e of
        Did a i t \<Rightarrow> (case waits_since evs i of
                        None \<Rightarrow> True
                      | Some t0 \<Rightarrow> (\<exists>w. wt i = Inr w \<and> of_int w \<le> \<bar>t - t0\<bar>))
      | Gone i \<Rightarrow> True) \<and> waits_ok wt evs"

definition idx_wait :: "transition \<Rightarrow> nat \<Rightarrow> int res" where
  "idx_wait tr i = bind_r (list_get (tr_list tr) i) (wait_time tr)"

lemma idx_wait_cong:
  "tr_list tr' = tr_list tr \<Longrightarrow> tr_target tr' = tr_target tr \<Longrightarrow> idx_wait tr' = idx_wait tr"
  by (auto simp: idx_wait_def wait_time_def bind_r_def fun_eq_iff split: sum.splits)

definition wait_inv :: "transition \<Rightarrow> bool" where
  "wait_inv tr \<longleftrightarrow> distinct (map sv_name (tr_list tr)) \<and>
     (\<forall>i < length (tr_list tr). map_of (tr_wait tr) (sv_name (tr_list tr ! i)) = waits_since (rev (tr_trace tr)) i) \<and>
     waits_ok (idx_wait tr) (rev (tr_trace tr))"

lemma name_neq: "distinct (map sv_name ss) \<Longrightarrow> i < length ss \<Longrightarrow> j < length ss \<Longrightarrow> i \<noteq> j \<Longrightarrow> sv_name (ss ! i) \<noteq> sv_name (ss ! j)"
  by (metis distinct_conv_nth length_map nth_map)

lemma do_action_wait_inv:
  assumes "do_action h a i s (tr\<lparr>tr_wait := AList.delete (sv_name s) (tr_wait tr)\<rparr>) = Inr tr1"
    and "i < length (tr_list tr)" and "s = tr_list tr ! i"
    and "\<forall>t0. map_of (tr_wait tr) (sv_name s) = Some t0 \<longrightarrow> (\<exists>wt. wait_time tr s = Inr wt \<and> of_int wt \<le> \<bar>h_now h - t0\<bar>)"
    and "wait_inv tr"
  shows "wait_inv tr1"
proof -
  note f = do_action_frame [OF assms(1)]
  have wt: "idx_wait tr1 = idx_wait tr"
    using f by (intro idx_wait_cong) simp_all
  have "map_of (tr_wait tr1) (sv_name (tr_list tr ! j)) = waits_since (rev (tr_trace tr1)) j" if "j < length (tr_list tr)" for j
    using that f assms(2, 3, 5) name_neq [of "tr_list tr" j i]
    by (cases "j = i") (auto simp: wait_inv_def update_conv' delete_conv' fun_upd_def)
  moreover have "waits_ok (idx_wait tr) (rev (tr_trace tr1))"
    using f assms(2-5) by (auto simp: wait_inv_def idx_wait_def split: option.splits)
  ultimately show ?thesis using f wt assms(5) by (simp add: wait_inv_def)
qed

lemma act_pass_wait_inv: "act_pass hs k acts tr = Inr tr' \<Longrightarrow> wait_inv tr \<Longrightarrow> wait_inv tr'"
proof (induction acts arbitrary: k tr)
  case (Cons ai acts)
  obtain a i where ai: "ai = (a, i)" by (cases ai)
  from Cons.prems(1) [unfolded ai] show ?case
  proof (cases rule: act_pass_cases)
    case (hold s t0 wt)
    have "wait_inv (tr\<lparr>tr_actions := tr_actions tr @ [(a, i)]\<rparr>)"
      using Cons.prems(2) idx_wait_cong [of "tr\<lparr>tr_actions := tr_actions tr @ [(a, i)]\<rparr>" tr] by (simp add: wait_inv_def)
    from Cons.IH [OF hold(6) this] show ?thesis .
  next
    case (run s tr1)
    from Cons.IH [OF run(5) do_action_wait_inv [OF run(4, 1, 2, 3) Cons.prems(2)]] show ?thesis .
  qed
qed simp

lemma wait_inv_cong:
  assumes "wait_inv tr" and "same_services (tr_list tr) (tr_list tr')" and "tr_target tr' = tr_target tr"
    and "tr_wait tr' = tr_wait tr" and "tr_trace tr' = tr_trace tr"
  shows "wait_inv tr'"
proof -
  note n = same_services_nth [OF assms(2)]
  have "idx_wait tr' i = idx_wait tr i" for i
    using n [of i] wait_time_same [OF assms(3)] by (auto simp: idx_wait_def list_get_def)
  then have "idx_wait tr' = idx_wait tr" by blast
  with assms n show ?thesis by (auto simp: wait_inv_def)
qed

lemma wait_inv_gone:
  assumes "wait_inv tr" and "i < length (tr_list tr)" and "sv_name (tr_list tr ! i) = n"
  shows "wait_inv (tr\<lparr>tr_wait := AList.delete n (tr_wait tr), tr_trace := tr_trace tr @ [Gone i]\<rparr>)"
proof -
  have "idx_wait (tr\<lparr>tr_wait := w, tr_trace := x\<rparr>) = idx_wait tr" for w x
    by (rule idx_wait_cong) simp_all
  moreover have "map_of (AList.delete n (tr_wait tr)) (sv_name (tr_list tr ! j)) = waits_since (Gone i # rev (tr_trace tr)) j"
    if "j < length (tr_list tr)" for j
    using that assms name_neq [of "tr_list tr" j i]
    by (cases "j = i") (auto simp: wait_inv_def delete_conv' fun_upd_def)
  ultimately show ?thesis using assms(1) by (simp add: wait_inv_def)
qed

lemma wait_pass_wait_inv:
  "wait_pass hs ct lics k ns tr v = Inr (tr', v') \<Longrightarrow> wait_inv tr \<Longrightarrow> wait_inv tr'"
proof (induction ns arbitrary: k tr v)
  case (Cons n ns)
  from Cons.prems(1) obtain j cs where r: "name_index (tr_list tr) n = Inr j"
      "check_service (hs k) ct lics True True False None (tr_cont tr) (tr_list tr ! j) = Inr cs"
    by (auto simp: bind_r_eq_Inr)
  let ?tr1 = "tr\<lparr>tr_cont := fst cs, tr_list := (tr_list tr)[j := snd cs]\<rparr>"
  let ?tr2 = "?tr1\<lparr>tr_wait := AList.delete n (tr_wait ?tr1), tr_trace := tr_trace ?tr1 @ [Gone j]\<rparr>"
  note j = name_index_nth [OF r(1)]
  note c = check_service_frame [of "hs k" ct lics True True False None "tr_cont tr" "tr_list tr ! j" "fst cs" "snd cs"]
  have w1: "wait_inv ?tr1"
    by (rule wait_inv_cong [OF Cons.prems(2)]) (use j c r(2) in \<open>simp_all add: same_services_update\<close>)
  have w2: "wait_inv ?tr2" by (rule wait_inv_gone [OF w1]) (use j c r(2) in auto)
  show ?case
  proof (cases "entry_pids (snd cs) = []")
    case True
    with Cons.prems(1) r have "wait_pass hs ct lics (k + 1) ns ?tr2 (v + 1) = Inr (tr', v')" by (simp add: Let_def)
    from Cons.IH [OF this w2] show ?thesis .
  next
    case False
    with Cons.prems(1) r have "wait_pass hs ct lics (k + 1) ns ?tr1 v = Inr (tr', v')" by (simp add: Let_def)
    from Cons.IH [OF this w1] show ?thesis .
  qed
qed simp

lemma trans_loop_wait_inv: "trans_loop hs ct lics p tr = Inr tr' \<Longrightarrow> wait_inv tr \<Longrightarrow> wait_inv tr'"
proof (induction hs ct lics p tr rule: trans_loop.induct)
  case (1 hs ct lics p tr)
  from 1(2) obtain tr1 v where o: "one_pass (hs p) ct lics tr = Inr (tr1, v)"
    by (auto simp: trans_loop.simps [of hs ct lics p tr] split: sum.splits)
  have "wait_inv (tr\<lparr>tr_actions := []\<rparr>)" by (rule wait_inv_cong [OF 1(3)]) simp_all
  with o have "wait_inv tr1"
    by (auto simp: one_pass_def bind_r_eq_Inr dest!: act_pass_wait_inv wait_pass_wait_inv)
  with o 1(1) [OF o refl] 1(2) show ?case
    by (cases "v = 0") (simp_all add: trans_loop.simps [of hs ct lics p tr])
qed

lemma step_wait_inv:
  assumes "step hs ct lics tr = Inr tr'" and "wait_inv tr" and "tr_step_num tr = 0 \<longrightarrow> tr_trace tr = []"
  shows "wait_inv tr'"
proof -
  let ?tr1 = "tr\<lparr>tr_step_num := tr_step_num tr + 1, tr_cont := update_proc_dict (hs 0 0) (tr_cont tr)\<rparr>"
  show ?thesis
  proof (cases "tr_step_num tr = 0")
    case False
    with assms(1) have "trans_loop hs ct lics 0 ?tr1 = Inr tr'" by (simp add: step_def)
    moreover have "wait_inv ?tr1" by (rule wait_inv_cong [OF assms(2)]) simp_all
    ultimately show ?thesis by (rule trans_loop_wait_inv)
  next
    case True
    with assms(1) obtain c ss acts where
      p: "plan_actions (hs 0 0) ct lics (tr_target tr) 0 (tr_list tr) (tr_cont ?tr1) = Inr (c, ss, acts)"
      and l: "trans_loop hs ct lics 0 (?tr1\<lparr>tr_cont := c, tr_list := ss, tr_actions := acts, tr_wait := []\<rparr>) = Inr tr'"
      by (auto simp: step_def bind_r_eq_Inr)
    from plan_actions_course [OF p] same_services_nth [of "tr_list tr" ss] assms(2)
    have "distinct (map sv_name ss)" by (auto simp: wait_inv_def)
    then have "wait_inv (?tr1\<lparr>tr_cont := c, tr_list := ss, tr_actions := acts, tr_wait := []\<rparr>)"
      using True assms(3) by (simp add: wait_inv_def)
    with l show ?thesis by (rule trans_loop_wait_inv)
  qed
qed

text \<open>The states a transition goes through with a clock that may tick at any time.\<close>

inductive trans_run :: "transition \<Rightarrow> transition \<Rightarrow> bool" for tr0 where
  run_new: "trans_run tr0 tr0"
| run_step: "trans_run tr0 tr \<Longrightarrow> step hs ct lics tr = Inr tr' \<Longrightarrow> trans_run tr0 tr'"

text \<open>Whatever the clock and the processes do, after a wait no further action of the same service is done
  before its wait time has passed, unless a check in between found that all its processes are gone.\<close>

theorem transition_waits:
  assumes "trans_run tr0 tr" and "fresh tr0" and "tr_wait tr0 = []"
  shows "waits_ok (idx_wait tr) (rev (tr_trace tr))"
proof -
  have "wait_inv tr \<and> (tr_step_num tr = 0 \<longrightarrow> tr_trace tr = [])"
    using assms(1)
  proof induction
    case run_new
    from assms(2, 3) show ?case by (simp add: wait_inv_def fresh_def)
  next
    case (run_step tr hs ct lics tr')
    with step_wait_inv [OF run_step(2)] step_num [OF run_step(2)] show ?case by simp
  qed
  then show ?thesis by (simp add: wait_inv_def)
qed

theorem transition_waits_witness:
  "\<exists>tr. step (\<lambda>_ _. demo_host) None None demo_trans = Inr tr \<and> waits_ok (idx_wait tr) (rev (tr_trace tr))"
proof -
  from demo_trans_step obtain tr where s: "step (\<lambda>_ _. demo_host) None None demo_trans = Inr tr"
    by (auto split: sum.splits)
  have "trans_run demo_trans tr" by (rule run_step [OF run_new s])
  then have "waits_ok (idx_wait tr) (rev (tr_trace tr))"
    by (rule transition_waits) (simp_all add: fresh_def demo_trans_def)
  with s show ?thesis by blast
qed

end
