(* ===== verification/Service_State.thy ===== *)
theory Service_State
  imports Service
begin

section \<open>The state machine of the meta-server (initat/meta_server/servicestate.py)\<close>

text \<open>
  \<open>ServiceState\<close> keeps the target and ignore state of every service in an SQLite database with a cache in
  dictionaries, records observed states and actions, and turns check results into transitions. The
  tables are lists of rows in the order of their row ids; a query ordered by \<open>-created\<close> is a stable sort.
  The clock, the files and the runlevel directories it looks at are the record \<open>sys_env\<close> (one reading of
  the clock per call); commands it runs are appended to a list. Every method is a function from the state
  to a result and a new state, or to the exception it raises.
\<close>

subsection \<open>State\<close>

record srv_row =
  sr_idx :: int
  sr_name :: string
  sr_target :: int
  sr_active :: int
  sr_created :: int
  sr_ignore :: int

record state_row =
  st_service :: int
  st_pstate :: int
  st_cstate :: int
  st_license :: int
  st_info :: string
  st_created :: int

record action_row =
  ac_idx :: int
  ac_service :: int
  ac_action :: string
  ac_success :: int
  ac_runtime :: py_float
  ac_finished :: int
  ac_created :: int

record sstate =
  ss_services :: "srv_row list"
  ss_states :: "state_row list"
  ss_actions :: "action_row list"
  ss_service_lut :: "(string \<times> int) list"
  ss_target_dict :: "(string \<times> int) list"
  ss_ignore_dict :: "(string \<times> bool) list"
  ss_state_dict :: "(string \<times> int \<times> int \<times> int) list"
  ss_lock_dict :: "(string \<times> py_float) list"
  ss_throttle_dict :: "(string \<times> py_float) list"
  ss_dep_problems :: "(string \<times> (string \<times> bool) list) list"
  ss_shutdown :: bool
  ss_commands :: "string list"

record sys_env =
  se_now :: py_float
  se_exists :: "string \<Rightarrow> bool"
  se_isfile :: "string \<Rightarrow> bool"
  se_rc_dir :: "string \<Rightarrow> (string \<times> bool) list option"
  se_mon_info_file :: string

definition LOCK_TIMEOUT :: py_float where "LOCK_TIMEOUT = 30"
definition TRANSACTION_WINDOW :: py_float where "TRANSACTION_WINDOW = 300"

type_synonym 'a smon = "sstate \<Rightarrow> ('a \<times> sstate) res"

definition int_now :: "sys_env \<Rightarrow> int" where
  "int_now env = py_trunc (se_now env)"

text \<open>The state after \<open>__init__\<close> on the tables of the database.\<close>

definition init_states :: "srv_row list \<Rightarrow> state_row list \<Rightarrow> action_row list \<Rightarrow> sstate" where
  "init_states srvs sts acts =
     \<lparr>ss_services = srvs, ss_states = sts, ss_actions = acts, ss_service_lut = [], ss_target_dict = [],
      ss_ignore_dict = [], ss_state_dict = [], ss_lock_dict = [], ss_throttle_dict = [], ss_dep_problems = [],
      ss_shutdown = False, ss_commands = []\<rparr>"

definition enable_shutdown_mode :: "sstate \<Rightarrow> sstate" where
  "enable_shutdown_mode s =
     s\<lparr>ss_shutdown := True, ss_target_dict := map (\<lambda>(n, _). (n, TARGET_STATE_STOPPED)) (ss_target_dict s)\<rparr>"

subsection \<open>Synchronisation with the instances\<close>

definition get_default_state :: "sys_env \<Rightarrow> string \<Rightarrow> int" where
  "get_default_state env n =
     (if n = ''package-client'' then
        (if se_exists env ''/etc/packageserver'' \<or> se_exists env ''/etc/packageserver_id''
         then TARGET_STATE_RUNNING else TARGET_STATE_STOPPED)
      else if n = ''md-sync-server'' then
        (if se_exists env (se_mon_info_file env) then TARGET_STATE_RUNNING else TARGET_STATE_STOPPED)
      else if n = ''mongodb-init'' then
        (if se_exists env ''/etc/init.d/mongodb-init'' then TARGET_STATE_RUNNING else TARGET_STATE_STOPPED)
      else TARGET_STATE_RUNNING)"

definition next_idx :: "int list \<Rightarrow> int" where
  "next_idx is = (if is = [] then 1 else Max (set is) + 1)"

definition insert_service :: "sys_env \<Rightarrow> string \<Rightarrow> srv_row list \<Rightarrow> srv_row list" where
  "insert_service env n rows =
     rows @ [\<lparr>sr_idx = next_idx (map sr_idx rows), sr_name = n, sr_target = get_default_state env n,
              sr_active = 1, sr_created = int_now env, sr_ignore = 0\<rparr>]"

text \<open>The dictionaries are read from the table as a whole.\<close>

definition load_dicts :: "sstate \<Rightarrow> sstate" where
  "load_dicts s =
     s\<lparr>ss_service_lut := map (\<lambda>r. (sr_name r, sr_idx r)) (ss_services s),
       ss_target_dict := map (\<lambda>r. (sr_name r, sr_target r)) (ss_services s),
       ss_ignore_dict := map (\<lambda>r. (sr_name r, sr_ignore r \<noteq> 0)) (ss_services s)\<rparr>"

definition startstop_names :: "instance_xml \<Rightarrow> string list" where
  "startstop_names ix =
     concat (map (\<lambda>el. case map_of (el_attrib el) ''name'' of None \<Rightarrow> [] | Some n \<Rightarrow> [n])
       (filter (\<lambda>el. map_of (el_attrib el) ''startstop'' = Some ''1'') (ix_tree ix)))"

text \<open>The sets of names are iterated in the order of their first appearance.\<close>

definition sync_with_instance :: "sys_env \<Rightarrow> instance_xml \<Rightarrow> sstate \<Rightarrow> sstate" where
  "sync_with_instance env ix s =
     (let cur = map sr_name (ss_services s); new = startstop_names ix;
          rows = map (\<lambda>r. if sr_name r \<in> set new then r\<lparr>sr_active := 1\<rparr> else r\<lparr>sr_active := 0\<rparr>) (ss_services s);
          added = filter (\<lambda>n. n \<notin> set cur) (remdups new)
      in load_dicts (s\<lparr>ss_services := fold (insert_service env) added rows\<rparr>))"

subsection \<open>The runlevel\<close>

definition parse_system_state :: "sys_env \<Rightarrow> bool option" where
  "parse_system_state env =
     (case concat (map (\<lambda>d. case se_rc_dir env d of None \<Rightarrow> [] | Some es \<Rightarrow> [es])
             [''/etc/rc3.d/'', ''/etc/init.d/rc3.d'', ''/etc/rc.d/rc3.d'']) of
        [] \<Rightarrow> None
      | es # _ \<Rightarrow> Some (\<exists>(e, lnk) \<in> set es. lnk \<and> startswith e ''S'' \<and> endswith e ''meta-server''))"

definition handle_ls_for_system :: "sys_env \<Rightarrow> bool \<Rightarrow> unit smon" where
  "handle_ls_for_system env enable s =
     (case find_file (se_isfile env) [] ''insserv'' of
        Some b \<Rightarrow> Inr ((), s\<lparr>ss_commands := ss_commands s @
                     [b @ '' '' @ (if enable then [] else ''-r'') @ '' meta-server'']\<rparr>)
      | None \<Rightarrow>
        (case find_file (se_isfile env) [] ''update-rc.d'' of
           Some b \<Rightarrow> Inr ((), s\<lparr>ss_commands := ss_commands s @
                        [b @ '' meta-server '' @ (if enable then ''enable'' else ''disable'')]\<rparr>)
         | None \<Rightarrow>
           (case find_file (se_isfile env) [] ''chkconfig'' of
              Some b \<Rightarrow> Inr ((), s\<lparr>ss_commands := ss_commands s @
                           [b @ '' meta-server '' @ (if enable then ''on'' else ''off'')]\<rparr>)
            | None \<Rightarrow> Inl UnboundLocalError)))"

definition sync_system_states :: "sys_env \<Rightarrow> unit smon" where
  "sync_system_states env s =
     (if ss_shutdown s then Inr ((), s)
      else case parse_system_state env of
             None \<Rightarrow> Inr ((), s)
           | Some sys \<Rightarrow>
               bind_r (dict_get ''meta-server'' (ss_target_dict s)) (\<lambda>t.
                 if (t = 1) \<noteq> sys then handle_ls_for_system env (t = 1) s else Inr ((), s)))"

subsection \<open>Targets and states\<close>

definition update_target_ignore_dict :: "sstate \<Rightarrow> bool \<times> sstate" where
  "update_target_ignore_dict s =
     foldl (\<lambda>(changed, s) r.
         let n = sr_name r; ign = (sr_ignore r \<noteq> 0) in
         case map_of (ss_target_dict s) n of
           None \<Rightarrow> (changed, s)
         | Some t \<Rightarrow>
             if t \<noteq> sr_target r \<or> map_of (ss_ignore_dict s) n \<noteq> Some ign
             then (True, s\<lparr>ss_target_dict := AList.update n (sr_target r) (ss_target_dict s),
                           ss_ignore_dict := AList.update n ign (ss_ignore_dict s)\<rparr>)
             else (changed, s))
       (False, s) (ss_services s)"

definition is_monitored :: "string \<Rightarrow> sstate \<Rightarrow> bool res" where
  "is_monitored n s = bind_r (dict_get n (ss_ignore_dict s)) (\<lambda>i. Inr (\<not> i))"

definition update_state :: "sys_env \<Rightarrow> string \<Rightarrow> int \<Rightarrow> int \<Rightarrow> int \<Rightarrow> string \<Rightarrow> (bool \<times> string) smon" where
  "update_state env n p c l info s =
     bind_r (if map_of (ss_state_dict s) n = Some (p, c, l) then Inr s
             else
               bind_r (dict_get p STATE_DICT) (\<lambda>_. bind_r (dict_get c CONF_STATE_DICT) (\<lambda>_.
               bind_r (dict_get l LIC_STATE_DICT) (\<lambda>_. bind_r (dict_get n (ss_service_lut s)) (\<lambda>idx.
                 Inr (s\<lparr>ss_state_dict := AList.update n (p, c, l) (ss_state_dict s),
                        ss_states := ss_states s @ [\<lparr>st_service = idx, st_pstate = p, st_cstate = c, st_license = l,
                          st_info = info, st_created = int_now env\<rparr>]\<rparr>)))))) (\<lambda>s1.
     bind_r (dict_get n (ss_target_dict s1)) (\<lambda>t. Inr (check_current_state (t, p, c, l), s1)))"

subsection \<open>Stability\<close>

definition recent :: "('r \<Rightarrow> int) \<Rightarrow> nat \<Rightarrow> 'r list \<Rightarrow> 'r list" where
  "recent created n rows = take n (sort_key (\<lambda>r. - created r) rows)"

definition STABLE_INTERVAL :: int where "STABLE_INTERVAL = 60"
definition MIN_STATE_TIME :: int where "MIN_STATE_TIME = 20"

definition row_states :: "state_row \<Rightarrow> int \<times> int \<times> int" where
  "row_states r = (st_pstate r, st_cstate r, st_license r)"

definition has_dep_problem :: "string \<Rightarrow> sstate \<Rightarrow> bool" where
  "has_dep_problem n s = (case map_of (ss_dep_problems s) n of None \<Rightarrow> False | Some d \<Rightarrow> \<exists>(_, v) \<in> set d. v)"

definition check_for_stable_state :: "sys_env \<Rightarrow> string \<Rightarrow> sstate \<Rightarrow> bool res" where
  "check_for_stable_state env n s =
     bind_r (dict_get n (ss_service_lut s)) (\<lambda>idx.
       let now = int_now env;
           acts = recent ac_created 10 (filter (\<lambda>a. ac_service a = idx) (ss_actions s))
       in if acts \<noteq> [] \<and> ac_action (hd acts) = ''start'' \<and> now - ac_created (hd acts) < 5 then Inr False
          else
            case recent st_created 10 (filter (\<lambda>r. st_service r = idx) (ss_states s)) of
              [] \<Rightarrow> Inl IndexError
            | first # recs \<Rightarrow>
                if \<exists>r \<in> set recs. \<bar>now - st_created r\<bar> < STABLE_INTERVAL \<and> row_states r \<noteq> row_states first
                then Inr False
                else
                  bind_r (dict_get n (ss_target_dict s)) (\<lambda>t.
                    let age = \<bar>now - st_created first\<bar>;
                        min_time = (if has_dep_problem n s then 2 else MIN_STATE_TIME)
                    in if \<not> fst (check_current_state (t, row_states first)) \<and> age < min_time then Inr False
                       else if age < MIN_STATE_TIME then Inr False
                       else Inr True))"

subsection \<open>Transitions\<close>

record sst =
  sst_name :: string
  sst_repeat :: nat
  sst_action :: string
  sst_trans_id :: int
  sst_post_disable :: bool

definition new_sst :: "(string \<times> py_float) list \<Rightarrow> string \<Rightarrow> string \<Rightarrow> int \<Rightarrow> sst" where
  "new_sst acts name act trans_id =
     (let starts = takeWhile (\<lambda>(a, _). a = ''start'') acts;
          rep = length starts;
          max_dt = foldl (\<lambda>m (_, t). max m t) 0 starts
      in \<lparr>sst_name = name, sst_repeat = rep, sst_action = act, sst_trans_id = trans_id,
          sst_post_disable = (rep > 2 \<and> max_dt > 30)\<rparr>)"

definition locked :: "sys_env \<Rightarrow> string \<Rightarrow> sstate \<Rightarrow> bool" where
  "locked env n s = (case map_of (ss_lock_dict s) n of None \<Rightarrow> False | Some t \<Rightarrow> t + LOCK_TIMEOUT > se_now env)"

definition generate_transition :: "sys_env \<Rightarrow> string \<Rightarrow> string \<Rightarrow> sst list smon" where
  "generate_transition env n act s =
     (if locked env n s then Inr ([], s)
      else
        bind_r (dict_get n (ss_service_lut s)) (\<lambda>idx.
          let now = se_now env;
              acts = map (\<lambda>a. (ac_action a, now - of_int (ac_created a)))
                (recent ac_created 10 (filter (\<lambda>a. ac_service a = idx \<and> of_int (ac_created a) > now - TRANSACTION_WINDOW)
                   (ss_actions s)));
              tid = next_idx (map ac_idx (ss_actions s))
          in Inr ([new_sst acts n act tid],
                  s\<lparr>ss_actions := ss_actions s @ [\<lparr>ac_idx = tid, ac_service = idx, ac_action = act, ac_success = 0,
                      ac_runtime = 0, ac_finished = 0, ac_created = int_now env\<rparr>],
                    ss_lock_dict := AList.update n now (ss_lock_dict s)\<rparr>)))"

text \<open>\<open>transition_finished\<close> for the transition with the id \<open>t_id\<close> that was created at \<open>init_time\<close>.\<close>

definition transition_finished :: "sys_env \<Rightarrow> int \<Rightarrow> py_float \<Rightarrow> unit smon" where
  "transition_finished env t_id init_time s =
     (let s1 = s\<lparr>ss_actions := map (\<lambda>a. if ac_idx a = t_id
                  then a\<lparr>ac_runtime := \<bar>se_now env - init_time\<bar>, ac_finished := 1\<rparr> else a) (ss_actions s)\<rparr>
      in case concat (map (\<lambda>a. if ac_idx a = t_id
                 then map sr_name (filter (\<lambda>r. sr_idx r = ac_service a) (ss_services s1)) else []) (ss_actions s1)) of
           [] \<Rightarrow> Inl TypeError
         | n # _ \<Rightarrow> Inr ((), s1\<lparr>ss_lock_dict := AList.delete n (ss_lock_dict s1)\<rparr>))"

definition check_for_throttle :: "py_float \<Rightarrow> (string \<times> py_float) list \<Rightarrow> string \<Rightarrow> sstate \<Rightarrow> bool \<times> sstate" where
  "check_for_throttle now t_dict n s =
     (if (case (map_of t_dict n, map_of (ss_throttle_dict s) n) of
            (Some d, Some t) \<Rightarrow> \<bar>now - t\<bar> < d | _ \<Rightarrow> False)
      then (True, s)
      else (False, s\<lparr>ss_throttle_dict := AList.update n now (ss_throttle_dict s)\<rparr>))"

subsection \<open>Dependencies\<close>

fun filter_deps :: "string list \<Rightarrow> sstate \<Rightarrow> string list res" where
  "filter_deps [] s = Inr []"
| "filter_deps (d # ds) s =
     (case map_of (ss_state_dict s) d of
        None \<Rightarrow> filter_deps ds s
      | Some (p, c, l) \<Rightarrow>
          bind_r (dict_get c CONF_STATE_DICT) (\<lambda>cs.
          bind_r (filter_deps ds s) (\<lambda>r. Inr (if cs \<noteq> ''run'' then r else d # r))))"

definition dep_is_ok :: "sstate \<Rightarrow> string \<Rightarrow> bool res" where
  "dep_is_ok s d =
     bind_r (dict_get d (ss_state_dict s)) (\<lambda>(p, c, l). bind_r (dict_get p STATE_DICT) (\<lambda>ps. Inr (ps = ''ok'')))"

definition check_dependencies :: "instance_xml \<Rightarrow> string \<Rightarrow> string \<Rightarrow> bool smon" where
  "check_dependencies ix n act s =
     bind_r (if act = ''start'' then
               bind_r (filter_deps (get_start_dependencies ix n) s) (\<lambda>ds.
               bind_r (mapM_r (dep_is_ok s) ds) (\<lambda>oks. Inr (list_all (\<lambda>b. b) oks)))
             else if act = ''stop'' then
               bind_r (filter_deps (get_stop_dependencies ix n) s) (\<lambda>ds.
               bind_r (mapM_r (dep_is_ok s) ds) (\<lambda>oks. Inr (list_all (\<lambda>b. \<not> b) oks)))
             else Inr True) (\<lambda>ok.
       let d = (case map_of (ss_dep_problems s) n of None \<Rightarrow> [(''start'', False), (''stop'', False)] | Some d \<Rightarrow> d)
       in Inr (ok, s\<lparr>ss_dep_problems := AList.update n (AList.update act (\<not> ok) d) (ss_dep_problems s)\<rparr>))"

definition dependency_problem :: "sstate \<Rightarrow> bool \<times> bool" where
  "dependency_problem s =
     (\<exists>(_, d) \<in> set (ss_dep_problems s). map_of d ''start'' = Some True,
      \<exists>(_, d) \<in> set (ss_dep_problems s). map_of d ''stop'' = Some True)"

subsection \<open>Commands\<close>

definition service_names :: "string \<Rightarrow> string list" where
  "service_names tx = filter (\<lambda>n. py_strip n \<noteq> []) (py_split CHR '','' (py_strip tx))"

text \<open>The common body of the four commands: the selected rows are updated, an action is recorded for each,
  the dictionaries follow, and the runlevel is synchronised.\<close>

definition log_action :: "sys_env \<Rightarrow> string \<Rightarrow> int \<Rightarrow> action_row list \<Rightarrow> action_row list" where
  "log_action env label idx acts =
     acts @ [\<lparr>ac_idx = next_idx (map ac_idx acts), ac_service = idx, ac_action = label, ac_success = 1,
              ac_runtime = 0, ac_finished = 1, ac_created = int_now env\<rparr>]"

definition flag_rows :: "(srv_row \<Rightarrow> bool) \<Rightarrow> string list \<Rightarrow> srv_row list \<Rightarrow> srv_row list" where
  "flag_rows sel names rows = filter (\<lambda>r. sel r \<and> sr_name r \<in> set names) rows"

definition flag_db ::
  "sys_env \<Rightarrow> (srv_row \<Rightarrow> srv_row) \<Rightarrow> string \<Rightarrow> int list \<Rightarrow> sstate \<Rightarrow> sstate" where
  "flag_db env upd label idxs s =
     s\<lparr>ss_services := map (\<lambda>r. if sr_idx r \<in> set idxs then upd r else r) (ss_services s),
       ss_actions := fold (log_action env label) idxs (ss_actions s)\<rparr>"

definition flag_reply :: "string \<Rightarrow> srv_row list \<Rightarrow> string" where
  "flag_reply verb rows =
     (let names = py_join '', '' (map sr_name rows) in
      verb @ '' '' @ get_plural ''service'' (int (length rows)) @ '': '' @ (if names = [] then ''none'' else names))"

definition flag_command ::
  "sys_env \<Rightarrow> (srv_row \<Rightarrow> bool) \<Rightarrow> (srv_row \<Rightarrow> srv_row) \<Rightarrow> string \<Rightarrow> string \<Rightarrow> string \<Rightarrow> (bool \<times> string) smon" where
  "flag_command env sel upd label verb tx s =
     (let rows = flag_rows sel (service_names tx) (ss_services s);
          u = update_target_ignore_dict (flag_db env upd label (map sr_idx rows) s)
      in bind_r (sync_system_states env (snd u)) (\<lambda>(_, s3). Inr ((fst u, flag_reply verb rows), s3)))"

definition enable_command :: "sys_env \<Rightarrow> string \<Rightarrow> (bool \<times> string) smon" where
  "enable_command env =
     flag_command env (\<lambda>r. sr_target r = TARGET_STATE_STOPPED) (\<lambda>r. r\<lparr>sr_target := TARGET_STATE_RUNNING\<rparr>) ''enable'' ''enabled''"

definition disable_command :: "sys_env \<Rightarrow> string \<Rightarrow> (bool \<times> string) smon" where
  "disable_command env =
     flag_command env (\<lambda>r. sr_target r = TARGET_STATE_RUNNING) (\<lambda>r. r\<lparr>sr_target := TARGET_STATE_STOPPED\<rparr>) ''disable'' ''disabled''"

definition monitor_command :: "sys_env \<Rightarrow> string \<Rightarrow> (bool \<times> string) smon" where
  "monitor_command env =
     flag_command env (\<lambda>r. sr_ignore r = 1) (\<lambda>r. r\<lparr>sr_ignore := 0\<rparr>) ''monitor'' ''monitoring''"

definition ignore_command :: "sys_env \<Rightarrow> string \<Rightarrow> (bool \<times> string) smon" where
  "ignore_command env =
     flag_command env (\<lambda>r. sr_ignore r = 0) (\<lambda>r. r\<lparr>sr_ignore := 1\<rparr>) ''ignore'' ''ignoring''"

record overview_row =
  ov_name :: string
  ov_target :: int
  ov_active :: int
  ov_ignore :: int
  ov_states :: "state_row list"
  ov_actions :: "action_row list"

datatype reply = ReplyError string | ReplyOk string | ReplyOverview "overview_row list"

definition overview :: "sys_env \<Rightarrow> string option \<Rightarrow> sstate \<Rightarrow> overview_row list" where
  "overview env services s =
     (let names = (case services of None \<Rightarrow> [] | Some tx \<Rightarrow> service_names tx);
          since = se_now env - 24 * 3600;
          row = (\<lambda>r. \<lparr>ov_name = sr_name r, ov_target = sr_target r, ov_active = sr_active r, ov_ignore = sr_ignore r,
             ov_states = recent st_created 100 (filter (\<lambda>x. st_service x = sr_idx r \<and> of_int (st_created x) > since) (ss_states s)),
             ov_actions = recent ac_created 100 (filter (\<lambda>x. ac_service x = sr_idx r \<and> of_int (ac_created x) > since) (ss_actions s))\<rparr>)
      in map row (filter (\<lambda>r. names = [] \<or> sr_name r \<in> set names) (sort_key sr_name (ss_services s))))"

text \<open>\<open>handle_command\<close>: the text of the command element and of the services element, if any. The result is
  the reply and whether the state machine should be triggered.\<close>

definition handle_command :: "sys_env \<Rightarrow> string \<Rightarrow> string option \<Rightarrow> (bool \<times> reply) smon" where
  "handle_command env cmd services s =
     (let com = drop 5 cmd;
          run = (\<lambda>f. case services of
                       None \<Rightarrow> Inl KeyError
                     | Some tx \<Rightarrow> bind_r (f tx s) (\<lambda>((t, m), s'). Inr ((t, ReplyOk m), s')))
      in if ss_shutdown s then Inr ((False, ReplyError ''server is shutting down''), s)
         else if com = ''overview'' then Inr ((False, ReplyOverview (overview env services s)), s)
         else if com = ''enable'' then run (enable_command env)
         else if com = ''disable'' then run (disable_command env)
         else if com = ''monitor'' then run (monitor_command env)
         else if com = ''ignore'' then run (ignore_command env)
         else Inr ((False, ReplyError (''command '' @ cmd @ '' not defined'')), s))"

subsection \<open>The update\<close>

definition label_check :: "int \<Rightarrow> int \<Rightarrow> int \<Rightarrow> unit res" where
  "label_check p c l =
     bind_r (dict_get p STATE_DICT) (\<lambda>_. bind_r (dict_get c CONF_STATE_DICT) (\<lambda>_.
     bind_r (dict_get l LIC_STATE_DICT) (\<lambda>_. Inr ())))"

definition result_states :: "check_result \<Rightarrow> (int \<times> int \<times> int \<times> string) res" where
  "result_states r =
     (case (cr_psi r, cr_configured r, cr_license r) of
        (Some p, Some c, Some l) \<Rightarrow>
          Inr (psi_state p, c, l, case psi_info_str p of None \<Rightarrow> [] | Some i \<Rightarrow> i)
      | _ \<Rightarrow> Inl AttributeError)"

text \<open>What \<open>update\<close> does with one entry: the action to be taken for it, or none.\<close>

definition judge ::
  "sys_env \<Rightarrow> string list \<Rightarrow> bool \<Rightarrow> (string \<times> py_float) list \<Rightarrow> service \<Rightarrow> (string \<times> string) list smon" where
  "judge env exclude force throttle el s =
     bind_r (bind_r (el_attr (sv_entry el) ''startstop'') py_int) (\<lambda>ss.
       if ss = 0 then Inr ([], s)
       else case el_result (sv_entry el) of
         None \<Rightarrow> Inr ([], s)
       | Some r \<Rightarrow>
           bind_r (is_monitored (sv_name el) s) (\<lambda>mon.
             if \<not> mon then Inr ([], s)
             else
               bind_r (result_states r) (\<lambda>(p, c, l, info).
               bind_r (update_state env (sv_name el) p c l info s) (\<lambda>((ok, act), s1).
                 if ok then Inr ([], s1)
                 else
                   bind_r (if ss_shutdown s1 then Inr True
                           else bind_r (check_for_stable_state env (sv_name el) s1) (\<lambda>stable.
                                bind_r (label_check p c l) (\<lambda>_. Inr (stable \<or> force)))) (\<lambda>gen.
                     if gen \<and> sv_name el \<notin> set exclude then
                       let (thr, s2) = check_for_throttle (se_now env) throttle (sv_name el) s1
                       in Inr (if thr then [] else [(sv_name el, act)], s2)
                     else Inr ([], s1))))))"

fun judge_all ::
  "sys_env \<Rightarrow> string list \<Rightarrow> bool \<Rightarrow> (string \<times> py_float) list \<Rightarrow> service list \<Rightarrow> (string \<times> string) list smon" where
  "judge_all env exclude force throttle [] s = Inr ([], s)"
| "judge_all env exclude force throttle (el # els) s =
     bind_r (judge env exclude force throttle el s) (\<lambda>(a, s1).
     bind_r (judge_all env exclude force throttle els s1) (\<lambda>(as, s2). Inr (a @ as, s2)))"

fun transitions_for :: "sys_env \<Rightarrow> instance_xml \<Rightarrow> (string \<times> string) list \<Rightarrow> sst list smon" where
  "transitions_for env ix [] s = Inr ([], s)"
| "transitions_for env ix ((n, act) # acts) s =
     bind_r (check_dependencies ix n act s) (\<lambda>(ok, s1).
     bind_r (if ok then generate_transition env n act s1 else Inr ([], s1)) (\<lambda>(ts, s2).
     bind_r (transitions_for env ix acts s2) (\<lambda>(ts', s3). Inr (ts @ ts', s3))))"

definition update ::
  "sys_env \<Rightarrow> instance_xml \<Rightarrow> string list \<Rightarrow> bool \<Rightarrow> (string \<times> py_float) list \<Rightarrow> service list \<Rightarrow> sst list smon" where
  "update env ix exclude force throttle res_list s =
     bind_r (judge_all env exclude force throttle res_list s) (\<lambda>(acts, s1).
     bind_r (transitions_for env ix acts s1) (\<lambda>(ts, s2).
     bind_r (sync_system_states env s2) (\<lambda>(_, s3).
       let dis = map sst_name (filter sst_post_disable ts) in
       if dis = [] then Inr (ts, s3)
       else bind_r (disable_command env (py_join '','' dis) s3) (\<lambda>(_, s4). Inr (ts, s4)))))"

subsection \<open>Mails\<close>

definition fmt_2r :: "py_float \<Rightarrow> string" where
  "fmt_2r x = (let (a, b) = quotient_of x in (if a < 0 then ''-'' else []) @ fmt_2f (nat \<bar>a\<bar>) (nat b))"

text \<open>\<open>ctime\<close> and \<open>ordinalize\<close> are library functions.\<close>

definition mail_subject :: "sst list \<Rightarrow> string" where
  "mail_subject ts =
     (if \<exists>t \<in> set ts. sst_repeat t > 0 then ''[REP] '' else []) @
     (if \<exists>t \<in> set ts. sst_post_disable t then ''[DIS] '' else []) @
     ''ICSW Transaction info for '' @ get_plural ''transaction'' (int (length ts)) @ '': '' @
     py_join '', '' (sort (map sst_name ts))"

definition mail_service :: "(int \<Rightarrow> string) \<Rightarrow> sys_env \<Rightarrow> sstate \<Rightarrow> sst \<Rightarrow> string list res" where
  "mail_service ctime env s t =
     (case filter (\<lambda>r. sr_name r = sst_name t) (ss_services s) of
        [] \<Rightarrow> Inl TypeError
      | r # _ \<Rightarrow>
          let since = se_now env - 3600;
              sts = sort_key (\<lambda>x. - st_created x) (filter (\<lambda>x. st_service x = sr_idx r \<and> of_int (st_created x) > since) (ss_states s));
              acs = sort_key (\<lambda>x. - ac_created x) (filter (\<lambda>x. ac_service x = sr_idx r \<and> of_int (ac_created x) > since) (ss_actions s))
          in Inr ([get_plural ''state'' (int (length sts)) @ '' and '' @ get_plural ''action'' (int (length sts)) @
                   '' for service '' @ sst_name t @ '' in the last '' @ get_diff_time_str 3600 @ '':'', []] @
                  map (\<lambda>x. ctime (st_created x) @ '' pstate='' @ str_of_int (st_pstate x) @ '', cstate='' @
                        str_of_int (st_cstate x) @ '', license_state='' @ str_of_int (st_license x) @ '' ['' @ st_info x @ '']'') sts @
                  [[]] @
                  map (\<lambda>x. ctime (ac_created x) @ '' action='' @ ac_action x @ '', runtime='' @ fmt_2r (ac_runtime x) @ '' ['' @
                        str_of_int (ac_success x) @ '' / '' @ str_of_int (ac_finished x) @ '']'') acs))"

definition get_mail_text ::
  "(int \<Rightarrow> string) \<Rightarrow> (nat \<Rightarrow> string) \<Rightarrow> sys_env \<Rightarrow> sst list \<Rightarrow> sstate \<Rightarrow> (string \<times> string list) res" where
  "get_mail_text ctime ordinalize env ts s =
     bind_r (mapM_r (mail_service ctime env s) ts) (\<lambda>parts.
       Inr (mail_subject ts,
            [''Local time: '' @ ctime (int_now env), get_plural ''transaction'' (int (length ts)) @ '' initiated:'', []] @
            map (\<lambda>t. ''   - service '' @ sst_name t @ '', action is '' @ sst_action t @
                  (if sst_repeat t > 0 then '' for the '' @ ordinalize (sst_repeat t + 1) @ '' time'' else []) @
                  (if sst_post_disable t then '' (will be disabled)'' else [])) ts @ [[]] @ concat parts))"

subsection \<open>What the operations leave alone\<close>

text \<open>The part of the state that decides about targets: the service table with its caches.\<close>

definition same_targets :: "sstate \<Rightarrow> sstate \<Rightarrow> bool" where
  "same_targets s s' \<longleftrightarrow> ss_services s' = ss_services s \<and> ss_service_lut s' = ss_service_lut s \<and>
     ss_target_dict s' = ss_target_dict s \<and> ss_ignore_dict s' = ss_ignore_dict s \<and> ss_shutdown s' = ss_shutdown s"

lemma same_targets_refl [simp]: "same_targets s s"
  by (simp add: same_targets_def)

lemma same_targets_trans: "same_targets a b \<Longrightarrow> same_targets b c \<Longrightarrow> same_targets a c"
  by (simp add: same_targets_def)

lemma update_state_frame:
  assumes "update_state env n p c l info s = Inr (r, s')"
  shows "same_targets s s' \<and> ss_actions s' = ss_actions s \<and> ss_lock_dict s' = ss_lock_dict s \<and>
    ss_dep_problems s' = ss_dep_problems s \<and> map_of (ss_state_dict s') n = Some (p, c, l) \<and>
    (\<forall>m. m \<noteq> n \<longrightarrow> map_of (ss_state_dict s') m = map_of (ss_state_dict s) m) \<and>
    (\<exists>t. map_of (ss_target_dict s) n = Some t \<and> r = check_current_state (t, p, c, l))"
  using assms
  by (auto simp: update_state_def bind_r_eq_Inr same_targets_def dict_get_def update_conv' split: if_splits option.splits)

lemma throttle_frame:
  "check_for_throttle now td n s = (thr, s') \<Longrightarrow> same_targets s s' \<and> ss_actions s' = ss_actions s \<and>
     ss_lock_dict s' = ss_lock_dict s \<and> ss_dep_problems s' = ss_dep_problems s \<and> ss_state_dict s' = ss_state_dict s"
  by (auto simp: check_for_throttle_def same_targets_def split: if_splits)

text \<open>Why an action is taken: the entry is monitored, may be started and stopped, is not excluded, and the
  table gives this action for its target and its result; outside a shutdown and without force its state
  is stable.\<close>

definition justified ::
  "sys_env \<Rightarrow> string list \<Rightarrow> bool \<Rightarrow> sstate \<Rightarrow> service \<Rightarrow> string \<Rightarrow> string \<Rightarrow> bool" where
  "justified env exclude force s el n act \<longleftrightarrow>
     sv_name el = n \<and> n \<notin> set exclude \<and> map_of (ss_ignore_dict s) n = Some False \<and>
     (\<exists>ss. el_attr (sv_entry el) ''startstop'' = Inr ss \<and> py_int ss \<noteq> Inr 0) \<and>
     (\<exists>r p c l info t. el_result (sv_entry el) = Some r \<and> result_states r = Inr (p, c, l, info) \<and>
        map_of (ss_target_dict s) n = Some t \<and> check_current_state (t, p, c, l) = (False, act)) \<and>
     (ss_shutdown s \<or> force \<or>
        (\<exists>sm. same_targets s sm \<and> ss_actions sm = ss_actions s \<and> check_for_stable_state env n sm = Inr True))"

lemma judge_frame:
  assumes "judge env exclude force throttle el s = Inr (as, s')"
  shows "same_targets s s' \<and> ss_actions s' = ss_actions s \<and> ss_lock_dict s' = ss_lock_dict s \<and>
    ss_dep_problems s' = ss_dep_problems s \<and> (\<forall>(n, act) \<in> set as. justified env exclude force s el n act)"
proof -
  from assms obtain ss0 ss where ss: "el_attr (sv_entry el) ''startstop'' = Inr ss0" "py_int ss0 = Inr ss"
    by (auto simp: judge_def bind_r_eq_Inr)
  show ?thesis
  proof (cases "ss = 0 \<or> el_result (sv_entry el) = None \<or> is_monitored (sv_name el) s = Inr False")
    case True
    with assms ss have "as = [] \<and> s' = s"
      by (cases "ss = 0"; cases "el_result (sv_entry el)") (auto simp: judge_def)
    then show ?thesis by simp
  next
    case False
    then obtain r where r: "el_result (sv_entry el) = Some r" by auto
    from assms ss r False have mon: "is_monitored (sv_name el) s = Inr True"
      by (auto simp: judge_def bind_r_eq_Inr split: if_splits)
    from assms ss r False mon obtain p c l info ok act s1 where
      rs: "result_states r = Inr (p, c, l, info)" and us: "update_state env (sv_name el) p c l info s = Inr ((ok, act), s1)"
      by (auto simp: judge_def bind_r_eq_Inr)
    note f1 = update_state_frame [OF us]
    show ?thesis
    proof (cases ok)
      case True
      with assms ss r False mon rs us f1 show ?thesis by (auto simp: judge_def)
    next
      case not_ok: False
      with assms ss r False mon rs us obtain gen where
        gen: "(if ss_shutdown s1 then Inr True
               else bind_r (check_for_stable_state env (sv_name el) s1) (\<lambda>stable.
                    bind_r (label_check p c l) (\<lambda>_. Inr (stable \<or> force)))) = Inr gen"
        and res: "(if gen \<and> sv_name el \<notin> set exclude then
                     let (thr, s2) = check_for_throttle (se_now env) throttle (sv_name el) s1
                     in Inr (if thr then [] else [(sv_name el, act)], s2)
                   else Inr ([], s1)) = (Inr (as, s') :: ((string \<times> string) list \<times> sstate) res)"
        by (auto simp: judge_def bind_r_eq_Inr)
      from gen f1 have g: "gen \<longrightarrow> ss_shutdown s \<or> force \<or> check_for_stable_state env (sv_name el) s1 = Inr True"
        by (auto simp: bind_r_eq_Inr same_targets_def split: if_splits)
      from mon have i: "map_of (ss_ignore_dict s) (sv_name el) = Some False"
        by (auto simp: is_monitored_def bind_r_eq_Inr dict_get_def split: option.splits)
      show ?thesis
      proof (cases "gen \<and> sv_name el \<notin> set exclude")
        case True
        obtain thr s2 where t: "check_for_throttle (se_now env) throttle (sv_name el) s1 = (thr, s2)" by (cases "check_for_throttle (se_now env) throttle (sv_name el) s1")
        with res True have e: "as = (if thr then [] else [(sv_name el, act)])" "s' = s2" by auto
        have "justified env exclude force s el (sv_name el) act"
          unfolding justified_def
          using True g i ss False r rs f1 not_ok by (fastforce simp: check_current_state_def)
        with throttle_frame [OF t] f1 e same_targets_trans show ?thesis by auto
      next
        case False
        with res f1 show ?thesis by auto
      qed
    qed
  qed
qed

lemma justified_same:
  "justified env exclude force s' el n act \<Longrightarrow> same_targets s s' \<Longrightarrow> ss_actions s' = ss_actions s \<Longrightarrow>
   justified env exclude force s el n act"
  unfolding justified_def using same_targets_trans by (fastforce simp: same_targets_def)

lemma judge_all_frame:
  "judge_all env exclude force throttle els s = Inr (as, s') \<Longrightarrow>
   same_targets s s' \<and> ss_actions s' = ss_actions s \<and> ss_lock_dict s' = ss_lock_dict s \<and>
   (\<forall>(n, act) \<in> set as. \<exists>el \<in> set els. justified env exclude force s el n act)"
proof (induction els arbitrary: s as)
  case (Cons el els)
  from Cons.prems obtain a s1 as' where j: "judge env exclude force throttle el s = Inr (a, s1)"
    and ja: "judge_all env exclude force throttle els s1 = Inr (as', s')" and as: "as = a @ as'"
    by (auto simp: bind_r_eq_Inr)
  from judge_frame [OF j] Cons.IH [OF ja] justified_same same_targets_trans show ?case
    unfolding as by (fastforce simp: case_prod_unfold)
qed simp

subsection \<open>Dependencies are respected\<close>

text \<open>A start needs every known and configured dependency to be completely running, a stop needs every
  known and configured dependent service not to be.\<close>

definition deps_fulfilled :: "instance_xml \<Rightarrow> (string \<times> int \<times> int \<times> int) list \<Rightarrow> string \<Rightarrow> string \<Rightarrow> bool" where
  "deps_fulfilled ix states n act \<longleftrightarrow>
     (act = ''start'' \<longrightarrow> (\<forall>d \<in> set (get_start_dependencies ix n). \<forall>p l.
        map_of states d = Some (p, CONF_STATE_RUN, l) \<longrightarrow> p = SERVICE_OK)) \<and>
     (act = ''stop'' \<longrightarrow> (\<forall>d \<in> set (get_stop_dependencies ix n). \<forall>p l.
        map_of states d = Some (p, CONF_STATE_RUN, l) \<longrightarrow> p \<noteq> SERVICE_OK))"

lemma conf_label_run: "dict_get c CONF_STATE_DICT = Inr cs \<Longrightarrow> cs = ''run'' \<longleftrightarrow> c = CONF_STATE_RUN"
  by (auto simp: dict_get_def state_dict_eqs split: if_splits option.splits)

lemma state_label_ok: "dict_get p STATE_DICT = Inr ps \<Longrightarrow> ps = ''ok'' \<longleftrightarrow> p = SERVICE_OK"
  by (auto simp: dict_get_def state_dict_eqs split: if_splits option.splits)

lemma filter_deps_set:
  "filter_deps ds s = Inr r \<Longrightarrow> set r = {d \<in> set ds. \<exists>p l. map_of (ss_state_dict s) d = Some (p, CONF_STATE_RUN, l)}"
proof (induction ds arbitrary: r)
  case (Cons d ds)
  show ?case
  proof (cases "map_of (ss_state_dict s) d")
    case None
    with Cons show ?thesis by auto
  next
    case (Some st)
    obtain p c l where st: "st = (p, c, l)" by (cases st)
    from Cons.prems Some st obtain cs r1 where cs: "dict_get c CONF_STATE_DICT = Inr cs"
      and r1: "filter_deps ds s = Inr r1" and r: "r = (if cs \<noteq> ''run'' then r1 else d # r1)"
      by (auto simp: bind_r_eq_Inr)
    from Cons.IH [OF r1] conf_label_run [OF cs] r Some st show ?thesis by auto
  qed
qed simp

lemma mapM_r_Inr_nth: "mapM_r f xs = Inr ys \<Longrightarrow> list_all2 (\<lambda>x y. f x = Inr y) xs ys"
  by (induction xs arbitrary: ys) (auto simp: bind_r_eq_Inr)

lemma dep_is_ok_iff:
  "dep_is_ok s d = Inr b \<Longrightarrow> map_of (ss_state_dict s) d = Some (p, c, l) \<Longrightarrow> b \<longleftrightarrow> p = SERVICE_OK"
  by (auto simp: dep_is_ok_def bind_r_eq_Inr dict_get_def [of d] dest: state_label_ok)

lemma check_dependencies_sound:
  assumes "check_dependencies ix n act s = Inr (ok, s')"
  shows "same_targets s s' \<and> ss_actions s' = ss_actions s \<and> ss_lock_dict s' = ss_lock_dict s \<and>
    ss_state_dict s' = ss_state_dict s \<and> (ok \<longrightarrow> deps_fulfilled ix (ss_state_dict s) n act)"
proof -
  have frame: "same_targets s s' \<and> ss_actions s' = ss_actions s \<and> ss_lock_dict s' = ss_lock_dict s \<and>
    ss_state_dict s' = ss_state_dict s"
    using assms by (auto simp: check_dependencies_def bind_r_eq_Inr Let_def same_targets_def)
  have core: "\<forall>d \<in> set ds. \<forall>p l. map_of (ss_state_dict s) d = Some (p, CONF_STATE_RUN, l) \<longrightarrow> P (p = SERVICE_OK)"
    if "filter_deps ds s = Inr r" "mapM_r (dep_is_ok s) r = Inr oks" "list_all P oks" for ds r oks P
  proof (intro ballI allI impI)
    fix d p l assume d: "d \<in> set ds" "map_of (ss_state_dict s) d = Some (p, CONF_STATE_RUN, l)"
    with filter_deps_set [OF that(1)] have "d \<in> set r" by auto
    then obtain i where "i < length r" "r ! i = d" by (auto simp: in_set_conv_nth)
    with mapM_r_Inr_nth [OF that(2)] have "dep_is_ok s d = Inr (oks ! i)" "oks ! i \<in> set oks"
      by (auto simp: list_all2_conv_all_nth)
    with dep_is_ok_iff [OF _ d(2)] that(3) show "P (p = SERVICE_OK)" by (auto simp: list_all_iff)
  qed
  have "deps_fulfilled ix (ss_state_dict s) n act" if ok: "ok"
  proof -
    have "\<forall>d \<in> set (get_start_dependencies ix n). \<forall>p l. map_of (ss_state_dict s) d = Some (p, CONF_STATE_RUN, l) \<longrightarrow> p = SERVICE_OK"
      if "act = ''start''"
      using assms ok that core [where P = "\<lambda>b. b"] by (fastforce simp: check_dependencies_def bind_r_eq_Inr Let_def)
    moreover have "\<forall>d \<in> set (get_stop_dependencies ix n). \<forall>p l. map_of (ss_state_dict s) d = Some (p, CONF_STATE_RUN, l) \<longrightarrow> p \<noteq> SERVICE_OK"
      if "act = ''stop''"
      using assms ok that core [where P = Not] by (fastforce simp: check_dependencies_def bind_r_eq_Inr Let_def)
    ultimately show ?thesis by (simp add: deps_fulfilled_def)
  qed
  with frame show ?thesis by blast
qed

lemma generate_transition_frame:
  assumes "generate_transition env n act s = Inr (ts, s')"
  shows "same_targets s s' \<and> ss_state_dict s' = ss_state_dict s \<and> ss_dep_problems s' = ss_dep_problems s \<and>
    (if locked env n s then ts = [] \<and> s' = s
     else map_of (ss_lock_dict s') n = Some (se_now env) \<and> (\<exists>t. ts = [t] \<and> sst_name t = n \<and> sst_action t = act)) \<and>
    (\<forall>m. m \<noteq> n \<longrightarrow> map_of (ss_lock_dict s') m = map_of (ss_lock_dict s) m)"
  using assms
  by (auto simp: generate_transition_def bind_r_eq_Inr Let_def same_targets_def new_sst_def update_conv' split: if_splits)

lemma transitions_for_sound:
  "transitions_for env ix acts s = Inr (ts, s') \<Longrightarrow>
   same_targets s s' \<and> ss_state_dict s' = ss_state_dict s \<and>
   (\<forall>t \<in> set ts. (sst_name t, sst_action t) \<in> set acts \<and>
      deps_fulfilled ix (ss_state_dict s) (sst_name t) (sst_action t))"
proof (induction acts arbitrary: s ts)
  case (Cons na acts)
  obtain n act where na: "na = (n, act)" by (cases na)
  from Cons.prems na obtain ok s1 ts1 s2 ts2 where c: "check_dependencies ix n act s = Inr (ok, s1)"
    and g: "(if ok then generate_transition env n act s1 else Inr ([], s1)) = Inr (ts1, s2)"
    and r: "transitions_for env ix acts s2 = Inr (ts2, s')" and ts: "ts = ts1 @ ts2"
    by (auto simp: bind_r_eq_Inr)
  note fc = check_dependencies_sound [OF c]
  have fg: "same_targets s1 s2 \<and> ss_state_dict s2 = ss_state_dict s1 \<and>
      (\<forall>t \<in> set ts1. ok \<and> sst_name t = n \<and> sst_action t = act)"
    using g generate_transition_frame [of env n act s1 ts1 s2] by (auto split: if_splits)
  from fc fg Cons.IH [OF r] same_targets_trans show ?case unfolding na ts by auto
qed simp

subsection \<open>Transitions are justified\<close>

lemma sync_system_states_frame:
  "sync_system_states env s = Inr (u, s') \<Longrightarrow> \<exists>cs. s' = s\<lparr>ss_commands := cs\<rparr>"
proof -
  assume a: "sync_system_states env s = Inr (u, s')"
  have id: "\<exists>cs. s = s\<lparr>ss_commands := cs\<rparr>" by (rule exI [of _ "ss_commands s"]) simp
  show ?thesis
    using a id by (auto simp: sync_system_states_def handle_ls_for_system_def bind_r_eq_Inr split: if_splits option.splits)
qed

lemma same_targets_commands [simp]: "same_targets s (s\<lparr>ss_commands := cs\<rparr>)"
  by (simp add: same_targets_def)

definition utid_step :: "bool \<times> sstate \<Rightarrow> srv_row \<Rightarrow> bool \<times> sstate" where
  "utid_step = (\<lambda>(changed, s) r.
         let n = sr_name r; ign = (sr_ignore r \<noteq> 0) in
         case map_of (ss_target_dict s) n of
           None \<Rightarrow> (changed, s)
         | Some t \<Rightarrow>
             if t \<noteq> sr_target r \<or> map_of (ss_ignore_dict s) n \<noteq> Some ign
             then (True, s\<lparr>ss_target_dict := AList.update n (sr_target r) (ss_target_dict s),
                           ss_ignore_dict := AList.update n ign (ss_ignore_dict s)\<rparr>)
             else (changed, s))"

lemma update_target_ignore_dict_steps: "update_target_ignore_dict s = foldl utid_step (False, s) (ss_services s)"
  by (simp add: update_target_ignore_dict_def utid_step_def)

lemma utid_step_frame:
  "snd (utid_step cs r) = (snd cs)\<lparr>ss_target_dict := ss_target_dict (snd (utid_step cs r)),
     ss_ignore_dict := ss_ignore_dict (snd (utid_step cs r))\<rparr>"
  by (auto simp: utid_step_def Let_def split: prod.splits option.splits)

lemma utid_fold_frame:
  "snd (foldl utid_step cs rows) = (snd cs)\<lparr>ss_target_dict := ss_target_dict (snd (foldl utid_step cs rows)),
     ss_ignore_dict := ss_ignore_dict (snd (foldl utid_step cs rows))\<rparr>"
proof (induction rows arbitrary: cs)
  case (Cons r rows)
  show ?case using Cons.IH [of "utid_step cs r"] by (subst (asm) utid_step_frame) simp
qed simp

lemma update_target_ignore_dict_frame:
  "snd (update_target_ignore_dict s) = s\<lparr>ss_target_dict := ss_target_dict (snd (update_target_ignore_dict s)),
     ss_ignore_dict := ss_ignore_dict (snd (update_target_ignore_dict s))\<rparr>"
  using utid_fold_frame [of "(False, s)" "ss_services s"] by (simp add: update_target_ignore_dict_steps)

lemma flag_command_frame:
  assumes "flag_command env sel upd label verb tx s = Inr (r, s')"
  defines "idxs \<equiv> map sr_idx (flag_rows sel (service_names tx) (ss_services s))"
  defines "u \<equiv> update_target_ignore_dict (flag_db env upd label idxs s)"
  shows "\<exists>cs. s' = (snd u)\<lparr>ss_commands := cs\<rparr>" and "fst r = fst u"
    and "ss_state_dict s' = ss_state_dict s \<and> ss_lock_dict s' = ss_lock_dict s \<and> ss_shutdown s' = ss_shutdown s \<and>
    ss_service_lut s' = ss_service_lut s \<and> ss_dep_problems s' = ss_dep_problems s \<and>
    ss_services s' = map (\<lambda>r. if sr_idx r \<in> set idxs then upd r else r) (ss_services s) \<and>
    ss_target_dict s' = ss_target_dict (snd u) \<and> ss_ignore_dict s' = ss_ignore_dict (snd u)"
proof -
  from assms(1) obtain x where y: "sync_system_states env (snd u) = Inr (x, s')" "fst r = fst u"
    by (auto simp: flag_command_def Let_def bind_r_eq_Inr u_def idxs_def)
  from sync_system_states_frame [OF y(1)] obtain cs where c: "s' = (snd u)\<lparr>ss_commands := cs\<rparr>" ..
  then show "\<exists>cs. s' = (snd u)\<lparr>ss_commands := cs\<rparr>" by blast
  show "fst r = fst u" by (rule y(2))
  have f: "snd u = (flag_db env upd label idxs s)\<lparr>ss_target_dict := ss_target_dict (snd u), ss_ignore_dict := ss_ignore_dict (snd u)\<rparr>"
    unfolding u_def by (rule update_target_ignore_dict_frame)
  show "ss_state_dict s' = ss_state_dict s \<and> ss_lock_dict s' = ss_lock_dict s \<and> ss_shutdown s' = ss_shutdown s \<and>
    ss_service_lut s' = ss_service_lut s \<and> ss_dep_problems s' = ss_dep_problems s \<and>
    ss_services s' = map (\<lambda>r. if sr_idx r \<in> set idxs then upd r else r) (ss_services s) \<and>
    ss_target_dict s' = ss_target_dict (snd u) \<and> ss_ignore_dict s' = ss_ignore_dict (snd u)"
    unfolding c by (subst (1 2 3 4 5 6) f) (simp add: flag_db_def)
qed

lemma update_steps:
  assumes "update env ix exclude force throttle els s = Inr (ts, s')"
  obtains acts s1 s2 cs where "judge_all env exclude force throttle els s = Inr (acts, s1)"
    and "transitions_for env ix acts s1 = Inr (ts, s2)"
    and "filter sst_post_disable ts = [] \<and> s' = s2\<lparr>ss_commands := cs\<rparr> \<or>
         filter sst_post_disable ts \<noteq> [] \<and>
         (\<exists>r. disable_command env (py_join '','' (map sst_name (filter sst_post_disable ts))) (s2\<lparr>ss_commands := cs\<rparr>) = Inr (r, s'))"
proof -
  from assms obtain acts s1 s2 u s3 where j: "judge_all env exclude force throttle els s = Inr (acts, s1)"
    and t: "transitions_for env ix acts s1 = Inr (ts, s2)" and y: "sync_system_states env s2 = Inr (u, s3)"
    and e: "(let dis = map sst_name (filter sst_post_disable ts) in
       if dis = [] then Inr (ts, s3)
       else bind_r (disable_command env (py_join '','' dis) s3) (\<lambda>(_, s4). Inr (ts, s4))) = (Inr (ts, s') :: (sst list \<times> sstate) res)"
    by (auto simp: update_def bind_r_eq_Inr Let_def split: if_splits)
  from sync_system_states_frame [OF y] obtain cs where "s3 = s2\<lparr>ss_commands := cs\<rparr>" ..
  with e j t show thesis by (intro that [of acts s1 s2 cs]) (auto simp: Let_def bind_r_eq_Inr split: if_splits)
qed

lemma update_sound:
  assumes "update env ix exclude force throttle els s = Inr (ts, s')" and "t \<in> set ts"
  shows "(\<exists>el \<in> set els. justified env exclude force s el (sst_name t) (sst_action t)) \<and>
         deps_fulfilled ix (ss_state_dict s') (sst_name t) (sst_action t)"
proof -
  from assms(1) obtain acts s1 s2 cs where j: "judge_all env exclude force throttle els s = Inr (acts, s1)"
    and t: "transitions_for env ix acts s1 = Inr (ts, s2)"
    and e: "filter sst_post_disable ts = [] \<and> s' = s2\<lparr>ss_commands := cs\<rparr> \<or>
         filter sst_post_disable ts \<noteq> [] \<and>
         (\<exists>r. disable_command env (py_join '','' (map sst_name (filter sst_post_disable ts))) (s2\<lparr>ss_commands := cs\<rparr>) = Inr (r, s'))"
    by (rule update_steps)
  from e have "ss_state_dict s' = ss_state_dict s2" by (auto simp: disable_command_def dest: flag_command_frame(3))
  with transitions_for_sound [OF t] judge_all_frame [OF j] assms(2) show ?thesis by fastforce
qed


definition demo_env :: sys_env where
  "demo_env = \<lparr>se_now = 1000, se_exists = (\<lambda>_. False), se_isfile = (\<lambda>_. False), se_rc_dir = (\<lambda>_. None),
     se_mon_info_file = ''/m''\<rparr>"

definition demo_row :: "string \<Rightarrow> int \<Rightarrow> int \<Rightarrow> srv_row" where
  "demo_row n i t = \<lparr>sr_idx = i, sr_name = n, sr_target = t, sr_active = 1, sr_created = 5, sr_ignore = 0\<rparr>"

definition demo_state :: sstate where
  "demo_state = (load_dicts (init_states [demo_row ''a'' 1 TARGET_STATE_RUNNING, demo_row ''b'' 2 TARGET_STATE_STOPPED]
     [\<lparr>st_service = 1, st_pstate = SERVICE_DEAD, st_cstate = CONF_STATE_RUN, st_license = LIC_STATE_NOT_NEEDED,
       st_info = [], st_created = 900\<rparr>] []))\<lparr>ss_state_dict := [(''a'', SERVICE_DEAD, CONF_STATE_RUN, LIC_STATE_NOT_NEEDED)]\<rparr>"

definition demo_checked :: "string \<Rightarrow> int \<Rightarrow> service" where
  "demo_checked n p =
     (let el = (normalize_el (demo_el n [(''check_type'', ''meta'')] [] []))\<lparr>el_result := Some
        \<lparr>cr_psi = Some \<lparr>psi_text = [], psi_state = p, psi_source = None, psi_info_str = None, psi_num_started = None,
                         psi_num_found = None, psi_num_diff = None, psi_start_time = None, psi_diff_info = []\<rparr>,
         cr_pids = [], cr_memory = None, cr_meta = None, cr_configured = Some CONF_STATE_RUN, cr_config_info = [],
         cr_license = Some LIC_STATE_NOT_NEEDED, cr_version_ok = None, cr_version = None\<rparr>\<rparr> in
      \<lparr>sv_name = n, sv_attrib = el_attrib el, sv_entry = el, sv_kind = MetaService, sv_config_check_ok = True\<rparr>)"

lemma demo_update:
  "map (\<lambda>t. (sst_name t, sst_action t)) (fst (projr (update demo_env empty_xml [] False [] [demo_checked ''a'' SERVICE_DEAD] demo_state)))
     = [(''a'', ''start'')]"
  "\<not> isl (update demo_env empty_xml [] False [] [demo_checked ''a'' SERVICE_DEAD] demo_state)"
  by code_simp+


subsection \<open>The caches follow the database\<close>

definition row_targets :: "srv_row list \<Rightarrow> (string \<times> int) list" where
  "row_targets rows = map (\<lambda>r. (sr_name r, sr_target r)) rows"

definition row_ignores :: "srv_row list \<Rightarrow> (string \<times> bool) list" where
  "row_ignores rows = map (\<lambda>r. (sr_name r, sr_ignore r \<noteq> 0)) rows"

definition wf_db :: "sstate \<Rightarrow> bool" where
  "wf_db s \<longleftrightarrow> distinct (map sr_name (ss_services s)) \<and> distinct (map sr_idx (ss_services s)) \<and>
     dom (map_of (ss_target_dict s)) = sr_name ` set (ss_services s) \<and>
     dom (map_of (ss_ignore_dict s)) = sr_name ` set (ss_services s) \<and>
     map_of (ss_service_lut s) = map_of (map (\<lambda>r. (sr_name r, sr_idx r)) (ss_services s))"

definition in_sync :: "sstate \<Rightarrow> bool" where
  "in_sync s \<longleftrightarrow> map_of (ss_target_dict s) = map_of (row_targets (ss_services s)) \<and>
     map_of (ss_ignore_dict s) = map_of (row_ignores (ss_services s))"

lemma dom_map_of_names: "dom (map_of (map (\<lambda>r. (sr_name r, f r)) rows)) = sr_name ` set rows"
  by (simp add: dom_map_of_conv_image_fst image_image)

lemma utid_fold_lookup:
  "distinct (map sr_name rows) \<Longrightarrow> sr_name ` set rows \<subseteq> dom (map_of (ss_target_dict (snd cs))) \<Longrightarrow>
   map_of (ss_target_dict (snd (foldl utid_step cs rows))) =
     map_of (ss_target_dict (snd cs)) ++ map_of (row_targets rows) \<and>
   map_of (ss_ignore_dict (snd (foldl utid_step cs rows))) =
     map_of (ss_ignore_dict (snd cs)) ++ map_of (row_ignores rows)"
proof (induction rows arbitrary: cs)
  case (Cons r rows)
  from Cons.prems(2) obtain t where t: "map_of (ss_target_dict (snd cs)) (sr_name r) = Some t" by auto
  have s1: "map_of (ss_target_dict (snd (utid_step cs r))) = (map_of (ss_target_dict (snd cs)))(sr_name r \<mapsto> sr_target r)"
    "map_of (ss_ignore_dict (snd (utid_step cs r))) = (map_of (ss_ignore_dict (snd cs)))(sr_name r \<mapsto> (sr_ignore r \<noteq> 0))"
    using t by (cases cs; auto simp: utid_step_def Let_def update_conv' fun_upd_idem_iff)+
  have nin: "map_of (row_targets rows) (sr_name r) = None" "map_of (row_ignores rows) (sr_name r) = None"
    using Cons.prems(1) by (auto simp: row_targets_def row_ignores_def map_of_eq_None_iff image_image)

  have "sr_name ` set rows \<subseteq> dom (map_of (ss_target_dict (snd (utid_step cs r))))" using Cons.prems(2) s1 by auto
  with Cons.IH [of "utid_step cs r"] Cons.prems(1)
  have IH: "map_of (ss_target_dict (snd (foldl utid_step cs (r # rows)))) =
      map_of (ss_target_dict (snd (utid_step cs r))) ++ map_of (row_targets rows)"
    "map_of (ss_ignore_dict (snd (foldl utid_step cs (r # rows)))) =
      map_of (ss_ignore_dict (snd (utid_step cs r))) ++ map_of (row_ignores rows)" by simp_all
  have cons: "map_of (row_targets (r # rows)) = (map_of (row_targets rows))(sr_name r \<mapsto> sr_target r)"
    "map_of (row_ignores (r # rows)) = (map_of (row_ignores rows))(sr_name r \<mapsto> (sr_ignore r \<noteq> 0))"
    by (simp_all add: row_targets_def row_ignores_def)
  show ?case unfolding IH s1 cons using nin by (auto simp: map_add_def fun_eq_iff split: option.splits)
qed (simp add: row_targets_def row_ignores_def)

lemma map_add_dom_subset: "dom m \<subseteq> dom g \<Longrightarrow> m ++ g = g"
  by (auto simp: map_add_def fun_eq_iff dom_def subset_iff split: option.splits)

lemma update_target_ignore_dict_sync:
  assumes "distinct (map sr_name (ss_services s))" and "dom (map_of (ss_target_dict s)) = sr_name ` set (ss_services s)"
    and "dom (map_of (ss_ignore_dict s)) = sr_name ` set (ss_services s)"
  shows "in_sync (snd (update_target_ignore_dict s))"
proof -
  let ?s = "snd (update_target_ignore_dict s)"
  have sv: "ss_services ?s = ss_services s"
    using update_target_ignore_dict_frame [of s] by (metis sstate.select_convs(1) sstate.surjective sstate.update_convs(5) sstate.update_convs(6))
  from utid_fold_lookup [of "ss_services s" "(False, s)"] assms
  have "map_of (ss_target_dict ?s) = map_of (ss_target_dict s) ++ map_of (row_targets (ss_services s))"
    "map_of (ss_ignore_dict ?s) = map_of (ss_ignore_dict s) ++ map_of (row_ignores (ss_services s))"
    by (simp_all add: update_target_ignore_dict_steps)
  with assms(2, 3) sv show ?thesis
    by (simp add: in_sync_def map_add_dom_subset row_targets_def row_ignores_def dom_map_of_names)
qed

lemma same_targets_wf: "same_targets s s' \<Longrightarrow> wf_db s' = wf_db s" "same_targets s s' \<Longrightarrow> in_sync s' = in_sync s"
  by (simp_all add: same_targets_def wf_db_def in_sync_def)

lemma same_targets_inv:
  assumes "same_targets s s'" and "wf_db s" and "\<not> ss_shutdown s \<longrightarrow> in_sync s"
  shows "wf_db s' \<and> (\<not> ss_shutdown s' \<longrightarrow> in_sync s')"
proof -
  have "ss_shutdown s' = ss_shutdown s" using assms(1) by (simp add: same_targets_def)
  then show ?thesis unfolding same_targets_wf [OF assms(1)] using assms(2, 3) by (simp only:)
qed

text \<open>An update of rows that keeps their keys.\<close>

definition keeps_key :: "(srv_row \<Rightarrow> srv_row) \<Rightarrow> bool" where
  "keeps_key upd \<longleftrightarrow> (\<forall>r. sr_name (upd r) = sr_name r \<and> sr_idx (upd r) = sr_idx r)"

lemma keeps_key_rows:
  "keeps_key upd \<Longrightarrow> map sr_name (map (\<lambda>r. if P r then upd r else r) rows) = map sr_name rows \<and>
     map sr_idx (map (\<lambda>r. if P r then upd r else r) rows) = map sr_idx rows \<and>
     map (\<lambda>r. (sr_name r, sr_idx r)) (map (\<lambda>r. if P r then upd r else r) rows) = map (\<lambda>r. (sr_name r, sr_idx r)) rows"
  by (auto simp: keeps_key_def)

lemma flag_command_sync:
  assumes "flag_command env sel upd label verb tx s = Inr (r, s')" and "keeps_key upd" and "wf_db s"
  shows "wf_db s' \<and> in_sync s'"
proof -
  define idxs where "idxs = map sr_idx (flag_rows sel (service_names tx) (ss_services s))"
  define s1 where "s1 = flag_db env upd label idxs s"
  note f = flag_command_frame(3) [OF assms(1), folded idxs_def, folded s1_def]
  note k = keeps_key_rows [OF assms(2), of "\<lambda>r. sr_idx r \<in> set idxs" "ss_services s"]
  have s1: "ss_services s1 = ss_services s'" "ss_target_dict s1 = ss_target_dict s" "ss_ignore_dict s1 = ss_ignore_dict s"
    using f by (simp_all add: s1_def flag_db_def)
  have nm: "map sr_name (ss_services s') = map sr_name (ss_services s)" "map sr_idx (ss_services s') = map sr_idx (ss_services s)"
    "map (\<lambda>r. (sr_name r, sr_idx r)) (ss_services s') = map (\<lambda>r. (sr_name r, sr_idx r)) (ss_services s)"
    using f k by simp_all
  then have ns: "sr_name ` set (ss_services s') = sr_name ` set (ss_services s)" by (metis set_map)
  have "in_sync (snd (update_target_ignore_dict s1))"
    using assms(3) nm(1) ns by (intro update_target_ignore_dict_sync) (simp_all add: s1 wf_db_def)
  moreover have "ss_services (snd (update_target_ignore_dict s1)) = ss_services s1"
    by (subst update_target_ignore_dict_frame) simp
  ultimately have y: "in_sync s'" using f s1 by (simp add: in_sync_def)
  then have "dom (map_of (ss_target_dict s')) = sr_name ` set (ss_services s')"
    "dom (map_of (ss_ignore_dict s')) = sr_name ` set (ss_services s')"
    by (simp_all only: in_sync_def row_targets_def row_ignores_def dom_map_of_names)
  moreover have "ss_service_lut s' = ss_service_lut s" using f by blast
  ultimately have "wf_db s'" using assms(3) by (simp add: wf_db_def nm)
  with y show ?thesis by blast
qed

lemmas command_defs = enable_command_def disable_command_def monitor_command_def ignore_command_def

lemma command_keeps_key:
  "keeps_key (\<lambda>r. r\<lparr>sr_target := t\<rparr>)" "keeps_key (\<lambda>r. r\<lparr>sr_ignore := i\<rparr>)"
  by (simp_all add: keeps_key_def)

lemma handle_command_sync:
  assumes "handle_command env cmd services s = Inr (r, s')" and "wf_db s" and "\<not> ss_shutdown s \<longrightarrow> in_sync s"
  shows "wf_db s' \<and> (\<not> ss_shutdown s' \<longrightarrow> in_sync s')"
proof -
  have run: "wf_db s' \<and> in_sync s'"
    if "(case services of None \<Rightarrow> Inl KeyError | Some tx \<Rightarrow>
           bind_r (flag_command env sel upd label verb tx s) (\<lambda>((t, m), s'). Inr ((t, ReplyOk m), s'))) = Inr (r, s')"
      "keeps_key upd" for sel upd label verb
    using that flag_command_sync [OF _ that(2) assms(2)] by (auto simp: bind_r_eq_Inr split: option.splits)
  show ?thesis
  proof (cases "s' = s")
    case False
    with assms(1) have "\<exists>sel upd label verb. keeps_key upd \<and> (case services of None \<Rightarrow> Inl KeyError | Some tx \<Rightarrow>
           bind_r (flag_command env sel upd label verb tx s) (\<lambda>((t, m), s'). Inr ((t, ReplyOk m), s'))) = Inr (r, s')"
      unfolding handle_command_def Let_def command_defs
      by (auto split: if_splits intro: command_keeps_key)
    with run show ?thesis by blast
  qed (use assms in simp)
qed

lemma insert_service_keys:
  assumes "distinct (map sr_name rows)" "distinct (map sr_idx rows)" "n \<notin> sr_name ` set rows"
  shows "distinct (map sr_name (insert_service env n rows)) \<and> distinct (map sr_idx (insert_service env n rows)) \<and>
    sr_name ` set (insert_service env n rows) = insert n (sr_name ` set rows)"
proof -
  have "next_idx (map sr_idx rows) \<notin> sr_idx ` set rows"
  proof (cases "rows = []")
    case False
    then have "x \<le> Max (sr_idx ` set rows)" if "x \<in> sr_idx ` set rows" for x using that by simp
    with False show ?thesis by (fastforce simp: next_idx_def)
  qed simp
  with assms show ?thesis by (auto simp: insert_service_def)
qed

lemma fold_insert_service_keys:
  "distinct (map sr_name rows) \<Longrightarrow> distinct (map sr_idx rows) \<Longrightarrow> distinct ns \<Longrightarrow> set ns \<inter> sr_name ` set rows = {} \<Longrightarrow>
   distinct (map sr_name (fold (insert_service env) ns rows)) \<and> distinct (map sr_idx (fold (insert_service env) ns rows))"
proof (induction ns arbitrary: rows)
  case (Cons n ns)
  from insert_service_keys [of rows n env] Cons.prems have
    "distinct (map sr_name (insert_service env n rows))" "distinct (map sr_idx (insert_service env n rows))"
    "set ns \<inter> sr_name ` set (insert_service env n rows) = {}" by auto
  with Cons.IH [of "insert_service env n rows"] Cons.prems show ?case by simp
qed simp

lemma sync_with_instance_sync:
  assumes "distinct (map sr_name (ss_services s))" "distinct (map sr_idx (ss_services s))"
  shows "wf_db (sync_with_instance env ix s) \<and> in_sync (sync_with_instance env ix s)"
proof -
  define rows where "rows = map (\<lambda>r. if sr_name r \<in> set (startstop_names ix) then r\<lparr>sr_active := 1\<rparr> else r\<lparr>sr_active := 0\<rparr>) (ss_services s)"
  define ns where "ns = filter (\<lambda>n. n \<notin> set (map sr_name (ss_services s))) (remdups (startstop_names ix))"
  have r: "map sr_name rows = map sr_name (ss_services s)" "map sr_idx rows = map sr_idx (ss_services s)"
    by (auto simp: rows_def)
  then have "sr_name ` set rows = sr_name ` set (ss_services s)" by (metis set_map)
  then have "set ns \<inter> sr_name ` set rows = {}" by (auto simp: ns_def)
  moreover have "distinct ns" by (simp add: ns_def)
  ultimately have d: "distinct (map sr_name (fold (insert_service env) ns rows))" "distinct (map sr_idx (fold (insert_service env) ns rows))"
    using fold_insert_service_keys [of rows ns env] assms r by simp_all
  have e: "sync_with_instance env ix s = load_dicts (s\<lparr>ss_services := fold (insert_service env) ns rows\<rparr>)"
    by (simp add: sync_with_instance_def Let_def rows_def ns_def)
  show ?thesis
    unfolding e using d
    by (simp add: load_dicts_def wf_db_def in_sync_def row_targets_def row_ignores_def dom_map_of_names)
qed

lemma update_sync:
  assumes "update env ix exclude force throttle els s = Inr (ts, s')" and "wf_db s" and "\<not> ss_shutdown s \<longrightarrow> in_sync s"
  shows "wf_db s' \<and> (\<not> ss_shutdown s' \<longrightarrow> in_sync s')"
proof -
  from assms(1) obtain acts s1 s2 cs where j: "judge_all env exclude force throttle els s = Inr (acts, s1)"
    and t: "transitions_for env ix acts s1 = Inr (ts, s2)"
    and e: "filter sst_post_disable ts = [] \<and> s' = s2\<lparr>ss_commands := cs\<rparr> \<or>
         filter sst_post_disable ts \<noteq> [] \<and>
         (\<exists>r. disable_command env (py_join '','' (map sst_name (filter sst_post_disable ts))) (s2\<lparr>ss_commands := cs\<rparr>) = Inr (r, s'))"
    by (rule update_steps)
  have st: "same_targets s (s2\<lparr>ss_commands := cs\<rparr>)"
    using judge_all_frame [OF j] transitions_for_sound [OF t] by (simp add: same_targets_def)
  from e show ?thesis
  proof
    assume "filter sst_post_disable ts = [] \<and> s' = s2\<lparr>ss_commands := cs\<rparr>"
    then have "s' = s2\<lparr>ss_commands := cs\<rparr>" by (rule conjunct2)
    then show ?thesis by (rule ssubst) (rule same_targets_inv [OF st assms(2, 3)])
  next
    assume "filter sst_post_disable ts \<noteq> [] \<and>
         (\<exists>r. disable_command env (py_join '','' (map sst_name (filter sst_post_disable ts))) (s2\<lparr>ss_commands := cs\<rparr>) = Inr (r, s'))"
    then obtain r where "disable_command env (py_join '','' (map sst_name (filter sst_post_disable ts))) (s2\<lparr>ss_commands := cs\<rparr>) = Inr (r, s')"
      by blast
    from flag_command_sync [OF this [unfolded disable_command_def] command_keeps_key(1)] same_targets_wf(1) [OF st] assms(2)
    show ?thesis by blast
  qed
qed

text \<open>The steps of the state machine.\<close>

inductive ss_step :: "sstate \<Rightarrow> sstate \<Rightarrow> bool" where
  step_sync: "ss_step s (sync_with_instance env ix s)"
| step_command: "handle_command env cmd services s = Inr (r, s') \<Longrightarrow> ss_step s s'"
| step_update: "update env ix exclude force throttle els s = Inr (ts, s') \<Longrightarrow> ss_step s s'"
| step_finished: "transition_finished env t_id t0 s = Inr (u, s') \<Longrightarrow> ss_step s s'"
| step_shutdown: "ss_step s (enable_shutdown_mode s)"

inductive_cases ss_stepE: "ss_step s s'"

inductive ss_reach :: "sstate \<Rightarrow> bool" where
  reach_init: "distinct (map sr_name srvs) \<Longrightarrow> distinct (map sr_idx srvs) \<Longrightarrow>
     ss_reach (sync_with_instance env ix (init_states srvs sts acts))"
| reach_next: "ss_reach s \<Longrightarrow> ss_step s s' \<Longrightarrow> ss_reach s'"

lemma ss_step_inv:
  assumes "ss_step s s'" and "wf_db s" and "\<not> ss_shutdown s \<longrightarrow> in_sync s"
  shows "wf_db s' \<and> (\<not> ss_shutdown s' \<longrightarrow> in_sync s')"
  using assms(1)
proof cases
  case (step_sync env ix)
  with assms(2) sync_with_instance_sync [of s env ix] show ?thesis by (simp add: wf_db_def)
next
  case (step_command env cmd services r)
  from handle_command_sync [OF this assms(2, 3)] show ?thesis .
next
  case (step_update env ix exclude force throttle els ts)
  from update_sync [OF this assms(2, 3)] show ?thesis .
next
  case (step_finished env t_id t0 u)
  then have "same_targets s s'"
    by (auto simp: transition_finished_def Let_def same_targets_def split: list.splits)
  from same_targets_inv [OF this assms(2, 3)] show ?thesis .
next
  case step_shutdown
  have "dom (map_of (map (\<lambda>(n, _). (n, TARGET_STATE_STOPPED)) (ss_target_dict s))) = dom (map_of (ss_target_dict s))"
    by (force simp: dom_map_of_conv_image_fst image_image case_prod_unfold)
  with step_shutdown assms(2) show ?thesis by (simp add: enable_shutdown_mode_def wf_db_def)
qed

lemma ss_reach_inv:
  assumes "ss_reach s"
  shows "wf_db s \<and> (\<not> ss_shutdown s \<longrightarrow> in_sync s)"
  using assms
proof induction
  case (reach_init srvs env ix sts acts)
  with sync_with_instance_sync [of "init_states srvs sts acts" env ix] show ?case by (simp add: init_states_def)
next
  case (reach_next s s')
  with ss_step_inv show ?case by blast
qed

text \<open>C7: in every state the meta-server reaches, service names and row ids are unique, the caches have exactly
  the services of the table, and outside a shutdown the cached targets and ignore flags are those of the
  database.\<close>

theorem caches_follow_database:
  assumes "ss_reach s"
  shows "wf_db s \<and> (\<not> ss_shutdown s \<longrightarrow> in_sync s)"
  using assms by (rule ss_reach_inv)

theorem caches_follow_database_witness:
  "wf_db (enable_shutdown_mode (sync_with_instance demo_env empty_xml (init_states [demo_row ''a'' 1 TARGET_STATE_RUNNING] [] [])))"
proof -
  have "ss_reach (sync_with_instance demo_env empty_xml (init_states [demo_row ''a'' 1 TARGET_STATE_RUNNING] [] []))"
    by (rule reach_init) simp_all
  from caches_follow_database [OF reach_next [OF this step_shutdown]] show ?thesis by blast
qed

end
