(* ===== verification/Service_State_Laws.thy ===== *)
theory Service_State_Laws
  imports Service_State
begin

section \<open>Locks, commands, shutdown and stability of the state machine\<close>

text \<open>
  What the operations of \<open>Service_State\<close> guarantee: the transition lock admits one transition per service
  and lock period, the commands change exactly the named services, a server that shuts down only stops
  services, and a state counts as stable only when it is old enough and did not change.
\<close>

subsection \<open>The transition lock\<close>

lemma check_dependencies_lock:
  "check_dependencies ix n act s = Inr (ok, s') \<Longrightarrow> ss_lock_dict s' = ss_lock_dict s"
  using check_dependencies_sound by blast

lemma locked_cong: "map_of (ss_lock_dict s') n = map_of (ss_lock_dict s) n \<Longrightarrow> locked env n s' = locked env n s"
  by (simp add: locked_def)

lemma locked_now: "map_of (ss_lock_dict s) n = Some (se_now env) \<Longrightarrow> locked env n s"
  by (simp add: locked_def LOCK_TIMEOUT_def)

lemma transitions_for_locks:
  "transitions_for env ix acts s = Inr (ts, s') \<Longrightarrow>
   distinct (map sst_name ts) \<and>
   (\<forall>t \<in> set ts. \<not> locked env (sst_name t) s \<and> map_of (ss_lock_dict s') (sst_name t) = Some (se_now env)) \<and>
   (\<forall>n. n \<notin> sst_name ` set ts \<longrightarrow> map_of (ss_lock_dict s') n = map_of (ss_lock_dict s) n)"
proof (induction acts arbitrary: s ts)
  case (Cons na acts)
  obtain n act where na: "na = (n, act)" by (cases na)
  from Cons.prems na obtain ok s1 ts1 s2 ts2 where c: "check_dependencies ix n act s = Inr (ok, s1)"
    and g: "(if ok then generate_transition env n act s1 else Inr ([], s1)) = Inr (ts1, s2)"
    and r: "transitions_for env ix acts s2 = Inr (ts2, s')" and ts: "ts = ts1 @ ts2"
    by (auto simp: bind_r_eq_Inr)
  note l1 = check_dependencies_lock [OF c]
  note IH = Cons.IH [OF r]
  show ?case
  proof (cases "ts1 = []")
    case True
    with g generate_transition_frame [of env n act s1 ts1 s2] have "ss_lock_dict s2 = ss_lock_dict s1"
      by (auto split: if_splits)
    with IH l1 True show ?thesis unfolding ts by (simp add: locked_def)
  next
    case False
    with g have ok: ok "generate_transition env n act s1 = Inr (ts1, s2)" by (auto split: if_splits)
    from generate_transition_frame [OF ok(2)] False obtain t where t: "ts1 = [t]" "sst_name t = n" "\<not> locked env n s1"
      "map_of (ss_lock_dict s2) n = Some (se_now env)" "\<forall>m. m \<noteq> n \<longrightarrow> map_of (ss_lock_dict s2) m = map_of (ss_lock_dict s1) m"
      by (auto split: if_splits)
    have nin: "n \<notin> sst_name ` set ts2" using IH locked_now [OF t(4)] by auto
    moreover have "\<forall>t2 \<in> set ts2. \<not> locked env (sst_name t2) s"
    proof
      fix t2 assume "t2 \<in> set ts2"
      with nin have "sst_name t2 \<noteq> n" by auto
      then have "locked env (sst_name t2) s2 = locked env (sst_name t2) s" using t(5) l1 by (intro locked_cong) simp
      with IH \<open>t2 \<in> set ts2\<close> show "\<not> locked env (sst_name t2) s" by blast
    qed
    moreover have "\<not> locked env n s" using t(3) l1 by (simp add: locked_def)
    ultimately show ?thesis unfolding ts using IH t l1 by auto
  qed
qed simp

lemma update_locks:
  assumes "update env ix exclude force throttle els s = Inr (ts, s')"
  shows "distinct (map sst_name ts) \<and>
   (\<forall>t \<in> set ts. \<not> locked env (sst_name t) s \<and> map_of (ss_lock_dict s') (sst_name t) = Some (se_now env)) \<and>
   (\<forall>n. n \<notin> sst_name ` set ts \<longrightarrow> map_of (ss_lock_dict s') n = map_of (ss_lock_dict s) n)"
proof -
  from assms obtain acts s1 s2 cs where j: "judge_all env exclude force throttle els s = Inr (acts, s1)"
    and t: "transitions_for env ix acts s1 = Inr (ts, s2)"
    and e: "filter sst_post_disable ts = [] \<and> s' = s2\<lparr>ss_commands := cs\<rparr> \<or>
         filter sst_post_disable ts \<noteq> [] \<and>
         (\<exists>r. disable_command env (py_join '','' (map sst_name (filter sst_post_disable ts))) (s2\<lparr>ss_commands := cs\<rparr>) = Inr (r, s'))"
    by (rule update_steps)
  from e have "ss_lock_dict s' = ss_lock_dict s2" by (auto simp: disable_command_def dest: flag_command_frame(3))
  moreover have "ss_lock_dict s1 = ss_lock_dict s" using judge_all_frame [OF j] by blast
  ultimately show ?thesis using transitions_for_locks [OF t] by (simp add: locked_def)
qed

lemma handle_command_lock:
  assumes "handle_command env cmd services s = Inr (r, s')"
  shows "ss_lock_dict s' = ss_lock_dict s"
proof -
  have run: "ss_lock_dict s' = ss_lock_dict s"
    if "(case services of None \<Rightarrow> Inl KeyError | Some tx \<Rightarrow>
           bind_r (flag_command env sel upd label verb tx s) (\<lambda>((t, m), s'). Inr ((t, ReplyOk m), s'))) = Inr (r, s')"
    for sel upd label verb
    using that flag_command_frame(3) by (fastforce simp: bind_r_eq_Inr split: option.splits)
  show ?thesis
    using assms run unfolding handle_command_def Let_def command_defs by (auto split: if_splits)
qed

lemma update_lock_grows:
  assumes "update env ix exclude force throttle els s = Inr (ts, s')" and "map_of (ss_lock_dict s) n = Some t"
  shows "\<exists>t'. map_of (ss_lock_dict s') n = Some t' \<and> t \<le> t'"
proof (cases "n \<in> sst_name ` set ts")
  case True
  with update_locks [OF assms(1)] have "map_of (ss_lock_dict s') n = Some (se_now env)" "\<not> locked env n s" by auto
  with assms(2) show ?thesis by (auto simp: locked_def LOCK_TIMEOUT_def)
next
  case False
  with update_locks [OF assms(1)] assms(2) show ?thesis by auto
qed

lemma ss_step_lock:
  assumes "ss_step s s'" and "map_of (ss_lock_dict s) n = Some t" and "map_of (ss_lock_dict s') n \<noteq> None"
  shows "\<exists>t'. map_of (ss_lock_dict s') n = Some t' \<and> t \<le> t'"
  using assms(1)
proof cases
  case (step_update env ix exclude force throttle els ts)
  from update_lock_grows [OF this assms(2)] show ?thesis .
next
  case (step_finished env t_id t0 u)
  then obtain m where "ss_lock_dict s' = AList.delete m (ss_lock_dict s)"
    by (auto simp: transition_finished_def Let_def split: list.splits)
  with assms(2, 3) show ?thesis by (auto simp: delete_conv' split: if_splits)
next
  case (step_sync env ix)
  with assms(2) show ?thesis by (auto simp: sync_with_instance_def load_dicts_def Let_def)
next
  case (step_command env cmd services r)
  from handle_command_lock [OF this] assms(2) show ?thesis by simp
next
  case step_shutdown
  with assms(2) show ?thesis by (auto simp: enable_shutdown_mode_def)
qed

text \<open>Runs in which the lock of a service is never released: its transition does not finish.\<close>

inductive unfinished :: "string \<Rightarrow> sstate \<Rightarrow> sstate \<Rightarrow> bool" for n s where
  unfinished_refl: "unfinished n s s"
| unfinished_step: "unfinished n s s1 \<Longrightarrow> ss_step s1 s2 \<Longrightarrow> map_of (ss_lock_dict s2) n \<noteq> None \<Longrightarrow> unfinished n s s2"

lemma unfinished_lock:
  assumes "unfinished n s s'" and "map_of (ss_lock_dict s) n = Some t"
  shows "\<exists>t'. map_of (ss_lock_dict s') n = Some t' \<and> t \<le> t'"
  using assms
proof induction
  case (unfinished_step s1 s2)
  then obtain t1 where "map_of (ss_lock_dict s1) n = Some t1" "t \<le> t1" by blast
  with ss_step_lock [OF unfinished_step(2) _ unfinished_step(3)] show ?case by force
qed simp


lemma demo_update_twice:
  "map sst_name (fst (projr (update (demo_env\<lparr>se_now := 1030\<rparr>) empty_xml [] False [] [demo_checked ''a'' SERVICE_DEAD]
     (snd (projr (update demo_env empty_xml [] False [] [demo_checked ''a'' SERVICE_DEAD] demo_state)))))) = [''a'']"
  "\<not> isl (update (demo_env\<lparr>se_now := 1030\<rparr>) empty_xml [] False [] [demo_checked ''a'' SERVICE_DEAD]
     (snd (projr (update demo_env empty_xml [] False [] [demo_checked ''a'' SERVICE_DEAD] demo_state))))"
  by code_simp+


subsection \<open>Commands\<close>

lemma utid_fold_changed:
  "distinct (map sr_name rows) \<Longrightarrow> sr_name ` set rows \<subseteq> dom (map_of (ss_target_dict (snd cs))) \<Longrightarrow>
   fst (foldl utid_step cs rows) \<longleftrightarrow> fst cs \<or> (\<exists>r \<in> set rows.
     map_of (ss_target_dict (snd cs)) (sr_name r) \<noteq> Some (sr_target r) \<or>
     map_of (ss_ignore_dict (snd cs)) (sr_name r) \<noteq> Some (sr_ignore r \<noteq> 0))"
proof (induction rows arbitrary: cs)
  case (Cons r rows)
  from Cons.prems(2) obtain t where t: "map_of (ss_target_dict (snd cs)) (sr_name r) = Some t" by auto
  let ?c = "utid_step cs r"
  have step: "fst ?c \<longleftrightarrow> fst cs \<or> t \<noteq> sr_target r \<or> map_of (ss_ignore_dict (snd cs)) (sr_name r) \<noteq> Some (sr_ignore r \<noteq> 0)"
    and other: "\<And>m. m \<noteq> sr_name r \<Longrightarrow> map_of (ss_target_dict (snd ?c)) m = map_of (ss_target_dict (snd cs)) m"
      "\<And>m. m \<noteq> sr_name r \<Longrightarrow> map_of (ss_ignore_dict (snd ?c)) m = map_of (ss_ignore_dict (snd cs)) m"
    using t by (cases cs; auto simp: utid_step_def Let_def update_conv')+
  have ne: "sr_name r' \<noteq> sr_name r" if "r' \<in> set rows" for r'
    using Cons.prems(1) imageI [OF that, of sr_name] by auto
  have "sr_name ` set rows \<subseteq> dom (map_of (ss_target_dict (snd ?c)))"
  proof (rule image_subsetI)
    fix r' assume r': "r' \<in> set rows"
    then have "sr_name r' \<in> dom (map_of (ss_target_dict (snd cs)))" using Cons.prems(2) by auto
    with other(1) [OF ne [OF r']] show "sr_name r' \<in> dom (map_of (ss_target_dict (snd ?c)))" by (simp add: dom_def)
  qed
  moreover have "distinct (map sr_name rows)" using Cons.prems(1) by simp
  ultimately have "fst (foldl utid_step cs (r # rows)) \<longleftrightarrow> fst ?c \<or> (\<exists>r' \<in> set rows.
     map_of (ss_target_dict (snd ?c)) (sr_name r') \<noteq> Some (sr_target r') \<or>
     map_of (ss_ignore_dict (snd ?c)) (sr_name r') \<noteq> Some (sr_ignore r' \<noteq> 0))" using Cons.IH [of ?c] by simp
  then show ?case using step other ne t by simp
qed simp

lemma map_of_rows:
  "distinct (map sr_name rows) \<Longrightarrow> map_of (map (\<lambda>r. (sr_name r, f r)) rows) n = Some v \<longleftrightarrow>
     (\<exists>r \<in> set rows. sr_name r = n \<and> f r = v)"
  by (subst map_of_eq_Some_iff) (auto simp: comp_def)

text \<open>The effect of a command on one row: exactly the selected rows with a given name are changed.\<close>

definition flagged :: "(srv_row \<Rightarrow> bool) \<Rightarrow> (srv_row \<Rightarrow> srv_row) \<Rightarrow> string list \<Rightarrow> srv_row \<Rightarrow> srv_row" where
  "flagged sel upd names r = (if sel r \<and> sr_name r \<in> set names then upd r else r)"

lemma flag_command_rows:
  assumes "flag_command env sel upd label verb tx s = Inr ((trig, msg), s')" and "wf_db s"
  shows "ss_services s' = map (flagged sel upd (service_names tx)) (ss_services s)"
proof -
  let ?rows = "flag_rows sel (service_names tx) (ss_services s)"
  have d: "distinct (map sr_idx (ss_services s))" using assms(2) by (simp add: wf_db_def)
  have "sr_idx r \<in> set (map sr_idx ?rows) \<longleftrightarrow> sel r \<and> sr_name r \<in> set (service_names tx)"
    if "r \<in> set (ss_services s)" for r
    using that d by (auto simp: flag_rows_def distinct_map inj_on_def)
  then show ?thesis
    using flag_command_frame(3) [OF assms(1)] by (auto simp: flagged_def)
qed

lemma flag_command_trigger:
  assumes "flag_command env sel upd label verb tx s = Inr ((trig, msg), s')" and "wf_db s" and "keeps_key upd" and "in_sync s"
    and "\<And>r. sel r \<Longrightarrow> sr_target (upd r) \<noteq> sr_target r \<or> (sr_ignore (upd r) \<noteq> 0) \<noteq> (sr_ignore r \<noteq> 0)"
  shows "trig \<longleftrightarrow> (\<exists>r \<in> set (ss_services s). sel r \<and> sr_name r \<in> set (service_names tx))"
proof -
  define idxs where "idxs = map sr_idx (flag_rows sel (service_names tx) (ss_services s))"
  define s1 where "s1 = flag_db env upd label idxs s"
  have rows: "ss_services s1 = map (flagged sel upd (service_names tx)) (ss_services s)"
    using flag_command_frame(3) [OF assms(1)] flag_command_rows [OF assms(1, 2)] by (simp add: s1_def flag_db_def idxs_def)
  have dicts: "ss_target_dict s1 = ss_target_dict s" "ss_ignore_dict s1 = ss_ignore_dict s"
    by (simp_all add: s1_def flag_db_def)
  have key: "sr_name (flagged sel upd ns r) = sr_name r" for ns r using assms(3) by (simp add: flagged_def keeps_key_def)
  have nm: "map sr_name (ss_services s1) = map sr_name (ss_services s)" by (simp add: rows key)
  have d: "distinct (map sr_name (ss_services s))" using assms(2) by (simp add: wf_db_def)
  have td: "map_of (ss_target_dict s) (sr_name r) = Some (sr_target r)" "map_of (ss_ignore_dict s) (sr_name r) = Some (sr_ignore r \<noteq> 0)"
    if "r \<in> set (ss_services s)" for r
    using that d assms(4) by (auto simp: in_sync_def row_targets_def row_ignores_def map_of_rows)
  have "sr_name ` set (ss_services s1) \<subseteq> dom (map_of (ss_target_dict s1))"
    using td(1) by (auto simp: rows key dicts)
  with utid_fold_changed [of "ss_services s1" "(False, s1)"] nm d
  have "fst (update_target_ignore_dict s1) \<longleftrightarrow> (\<exists>r \<in> set (ss_services s1).
     map_of (ss_target_dict s1) (sr_name r) \<noteq> Some (sr_target r) \<or> map_of (ss_ignore_dict s1) (sr_name r) \<noteq> Some (sr_ignore r \<noteq> 0))"
    by (simp add: update_target_ignore_dict_steps)
  also have "\<dots> \<longleftrightarrow> (\<exists>r \<in> set (ss_services s). sr_target r \<noteq> sr_target (flagged sel upd (service_names tx) r) \<or>
     (sr_ignore r \<noteq> 0) \<noteq> (sr_ignore (flagged sel upd (service_names tx) r) \<noteq> 0))"
    using td by (auto simp: rows dicts key)
  also have "\<dots> \<longleftrightarrow> (\<exists>r \<in> set (ss_services s). sel r \<and> sr_name r \<in> set (service_names tx))"
    using assms(5) by (auto simp: flagged_def)
  finally show ?thesis using flag_command_frame(2) [OF assms(1)] by (simp add: s1_def idxs_def)
qed

lemma map_of_rows_mapped:
  "map_of (map (\<lambda>r. (sr_name r, g (sr_name r) (f r))) rows) n = map_option (g n) (map_of (map (\<lambda>r. (sr_name r, f r)) rows) n)"
  by (induction rows) auto

text \<open>The flag commands as functions on the dictionaries.\<close>

lemma target_command_dicts:
  assumes "flag_command env (\<lambda>r. sr_target r = a) (\<lambda>r. r\<lparr>sr_target := b\<rparr>) label verb tx s = Inr ((trig, msg), s')"
    and "wf_db s" and "in_sync s"
  shows "wf_db s' \<and> in_sync s' \<and>
    map_of (ss_target_dict s') n =
      map_option (\<lambda>t. if t = a \<and> n \<in> set (service_names tx) then b else t) (map_of (ss_target_dict s) n) \<and>
    map_of (ss_ignore_dict s') n = map_of (ss_ignore_dict s) n"
proof -
  note y = flag_command_sync [OF assms(1) command_keeps_key(1) assms(2)]
  note r = flag_command_rows [OF assms(1, 2)]
  define g where "g = (\<lambda>m t. if t = a \<and> m \<in> set (service_names tx) then b else t)"
  have "row_targets (ss_services s') = map (\<lambda>r. (sr_name r, g (sr_name r) (sr_target r))) (ss_services s)"
    by (auto simp: row_targets_def r flagged_def g_def)
  then have t: "map_of (row_targets (ss_services s')) n = map_option (g n) (map_of (row_targets (ss_services s)) n)"
    by (simp only: map_of_rows_mapped row_targets_def)
  have i: "row_ignores (ss_services s') = row_ignores (ss_services s)"
    by (auto simp: row_ignores_def r flagged_def)
  have "map_of (ss_target_dict s') n = map_option (g n) (map_of (ss_target_dict s) n)"
    using y assms(3) t by (simp only: in_sync_def)
  moreover have "map_of (ss_ignore_dict s') n = map_of (ss_ignore_dict s) n"
    using y assms(3) i by (simp only: in_sync_def)
  ultimately show ?thesis using y by (simp add: g_def)
qed

text \<open>Disabling services sets the target of exactly the named running ones to stopped, in the database and
  in the cache, leaves every other target and every ignore flag alone, and asks for a run of the state
  machine exactly if a target changed; enabling them again restores all targets, if none of the named
  services was stopped before.\<close>

theorem disable_command_effects:
  assumes "disable_command env tx s = Inr ((trig, msg), s1)" and "wf_db s" and "in_sync s"
  shows "map_of (ss_target_dict s1) = (\<lambda>n. map_option (\<lambda>t. if t = TARGET_STATE_RUNNING \<and> n \<in> set (service_names tx)
             then TARGET_STATE_STOPPED else t) (map_of (ss_target_dict s) n)) \<and>
         map_of (ss_ignore_dict s1) = map_of (ss_ignore_dict s) \<and> wf_db s1 \<and> in_sync s1 \<and>
         (trig \<longleftrightarrow> (\<exists>n \<in> set (service_names tx). map_of (ss_target_dict s) n = Some TARGET_STATE_RUNNING)) \<and>
         (\<forall>env' r s2. enable_command env' tx s1 = Inr (r, s2) \<and>
            (\<forall>n \<in> set (service_names tx). map_of (ss_target_dict s) n \<noteq> Some TARGET_STATE_STOPPED) \<longrightarrow>
            map_of (ss_target_dict s2) = map_of (ss_target_dict s) \<and> map_of (ss_ignore_dict s2) = map_of (ss_ignore_dict s))"
proof (intro conjI allI impI)
  note d = target_command_dicts [OF assms(1) [unfolded disable_command_def] assms(2, 3)]
  show t: "map_of (ss_target_dict s1) = (\<lambda>n. map_option (\<lambda>t. if t = TARGET_STATE_RUNNING \<and> n \<in> set (service_names tx)
      then TARGET_STATE_STOPPED else t) (map_of (ss_target_dict s) n))"
    and i: "map_of (ss_ignore_dict s1) = map_of (ss_ignore_dict s)" using d by blast+
  from d show w: "wf_db s1" and y: "in_sync s1" by blast+
  have "trig \<longleftrightarrow> (\<exists>r \<in> set (ss_services s). sr_target r = TARGET_STATE_RUNNING \<and> sr_name r \<in> set (service_names tx))"
    by (rule flag_command_trigger [OF assms(1) [unfolded disable_command_def] assms(2) command_keeps_key(1) assms(3)]) simp
  moreover have "map_of (ss_target_dict s) n = Some t \<longleftrightarrow> (\<exists>r \<in> set (ss_services s). sr_name r = n \<and> sr_target r = t)" for n t
    using assms(2, 3) by (simp add: in_sync_def row_targets_def map_of_rows wf_db_def)
  ultimately show "trig \<longleftrightarrow> (\<exists>n \<in> set (service_names tx). map_of (ss_target_dict s) n = Some TARGET_STATE_RUNNING)" by auto
  fix env' r s2
  assume e: "enable_command env' tx s1 = Inr (r, s2) \<and>
    (\<forall>n \<in> set (service_names tx). map_of (ss_target_dict s) n \<noteq> Some TARGET_STATE_STOPPED)"
  obtain trig' msg' where "r = (trig', msg')" by (cases r)
  with e have "enable_command env' tx s1 = Inr ((trig', msg'), s2)" by simp
  note d2 = target_command_dicts [OF this [unfolded enable_command_def] w y]
  then show "map_of (ss_ignore_dict s2) = map_of (ss_ignore_dict s)" unfolding i [symmetric] by blast
  show "map_of (ss_target_dict s2) = map_of (ss_target_dict s)"
  proof
    fix n
    show "map_of (ss_target_dict s2) n = map_of (ss_target_dict s) n"
      using d2 [of n] e by (cases "map_of (ss_target_dict s) n") (auto simp: t)
  qed
qed

lemma demo_state_wf: "wf_db demo_state" "in_sync demo_state"
  by (auto simp: demo_state_def init_states_def load_dicts_def demo_row_def wf_db_def in_sync_def row_targets_def row_ignores_def)

lemma demo_disable: "\<not> isl (disable_command demo_env ''a, x,b'' demo_state)"
  by code_simp

theorem disable_command_effects_witness:
  "\<exists>trig msg s1. disable_command demo_env ''a, x,b'' demo_state = Inr ((trig, msg), s1) \<and> trig \<and>
     map_of (ss_target_dict s1) ''a'' = Some TARGET_STATE_STOPPED"
proof -
  from demo_disable obtain trig msg s1 where d: "disable_command demo_env ''a, x,b'' demo_state = Inr ((trig, msg), s1)"
    by (cases "disable_command demo_env ''a, x,b'' demo_state") auto
  have "''a'' \<in> set (service_names ''a, x,b'')" "map_of (ss_target_dict demo_state) ''a'' = Some TARGET_STATE_RUNNING" by code_simp+
  with disable_command_effects [OF d demo_state_wf] d show ?thesis by auto
qed

subsection \<open>Due transitions are started\<close>

text \<open>An entry is due for an action: it is monitored, may be started and stopped, is neither excluded nor
  throttled, the table gives this action for its target and result, and the update is forced or part of
  a shutdown.\<close>

definition due :: "string list \<Rightarrow> bool \<Rightarrow> (string \<times> py_float) list \<Rightarrow> sstate \<Rightarrow> service \<Rightarrow> string \<Rightarrow> bool" where
  "due exclude force throttle s el act \<longleftrightarrow>
     sv_name el \<notin> set exclude \<and> map_of throttle (sv_name el) = None \<and> map_of (ss_ignore_dict s) (sv_name el) = Some False \<and>
     (\<exists>ss v. el_attr (sv_entry el) ''startstop'' = Inr ss \<and> py_int ss = Inr v \<and> v \<noteq> 0) \<and>
     (\<exists>r p c l info t. el_result (sv_entry el) = Some r \<and> result_states r = Inr (p, c, l, info) \<and>
        map_of (ss_target_dict s) (sv_name el) = Some t \<and> check_current_state (t, p, c, l) = (False, act)) \<and>
     (ss_shutdown s \<or> force)"

lemma due_same: "same_targets s s' \<Longrightarrow> due exclude force throttle s' el act = due exclude force throttle s el act"
  by (simp add: due_def same_targets_def)

lemma judge_due:
  assumes "judge env exclude force throttle el s = Inr (as, s')" and "due exclude force throttle s el act"
  shows "(sv_name el, act) \<in> set as"
proof -
  from assms(2) obtain ss v r p c l info t where d: "el_attr (sv_entry el) ''startstop'' = Inr ss" "py_int ss = Inr v" "v \<noteq> 0"
    "el_result (sv_entry el) = Some r" "result_states r = Inr (p, c, l, info)"
    "map_of (ss_target_dict s) (sv_name el) = Some t" "check_current_state (t, p, c, l) = (False, act)"
    "sv_name el \<notin> set exclude" "map_of throttle (sv_name el) = None" "is_monitored (sv_name el) s = Inr True" "ss_shutdown s \<or> force"
    by (auto simp: due_def is_monitored_def dict_get_def)
  from assms(1) d obtain x s1 where u: "update_state env (sv_name el) p c l info s = Inr (x, s1)"
    by (auto simp: judge_def bind_r_eq_Inr)
  with update_state_frame [OF u] d have x: "x = (False, act)" and sh: "ss_shutdown s1 = ss_shutdown s"
    by (auto simp: same_targets_def)
  have thr: "fst (check_for_throttle (se_now env) throttle (sv_name el) s1) = False"
    using d(9) by (simp add: check_for_throttle_def)
  from assms(1) d u x obtain gen where
    gen: "(if ss_shutdown s1 then Inr True
           else bind_r (check_for_stable_state env (sv_name el) s1) (\<lambda>stable.
                bind_r (label_check p c l) (\<lambda>_. Inr (stable \<or> force)))) = Inr gen"
    and res: "(if gen \<and> sv_name el \<notin> set exclude then
                 let (thr, s2) = check_for_throttle (se_now env) throttle (sv_name el) s1
                 in Inr (if thr then [] else [(sv_name el, act)], s2)
               else Inr ([], s1)) = (Inr (as, s') :: ((string \<times> string) list \<times> sstate) res)"
    by (auto simp: judge_def bind_r_eq_Inr)
  from gen d(11) sh have gen by (auto simp: bind_r_eq_Inr split: if_splits)
  with res thr d(8) show ?thesis by (auto simp: case_prod_unfold Let_def)
qed

lemma judge_all_due:
  "judge_all env exclude force throttle els s = Inr (as, s') \<Longrightarrow> el \<in> set els \<Longrightarrow> due exclude force throttle s el act \<Longrightarrow>
   (sv_name el, act) \<in> set as"
proof (induction els arbitrary: s as)
  case (Cons e els)
  from Cons.prems(1) obtain a s1 as' where j: "judge env exclude force throttle e s = Inr (a, s1)"
    and ja: "judge_all env exclude force throttle els s1 = Inr (as', s')" and as: "as = a @ as'"
    by (auto simp: bind_r_eq_Inr)
  show ?case
  proof (cases "e = el")
    case True
    with judge_due [OF j] Cons.prems(3) as show ?thesis by simp
  next
    case False
    have "same_targets s s1" using judge_frame [OF j] by blast
    from due_same [OF this] False Cons.IH [OF ja] Cons.prems(2, 3) as show ?thesis by simp
  qed
qed simp

lemma check_dependencies_complete:
  assumes "check_dependencies ix n act s = Inr (ok, s')" and "deps_fulfilled ix (ss_state_dict s) n act"
  shows ok
proof -
  have core: "list_all P oks"
    if "filter_deps ds s = Inr r" "mapM_r (dep_is_ok s) r = Inr oks"
      "\<forall>d \<in> set ds. \<forall>p l. map_of (ss_state_dict s) d = Some (p, CONF_STATE_RUN, l) \<longrightarrow> P (p = SERVICE_OK)" for ds r oks P
    unfolding list_all_length
  proof (intro allI impI)
    fix i assume i: "i < length oks"
    from mapM_r_Inr_nth [OF that(2)] i have "dep_is_ok s (r ! i) = Inr (oks ! i)" "r ! i \<in> set r"
      by (auto simp: list_all2_conv_all_nth)
    with filter_deps_set [OF that(1)] obtain p l where "r ! i \<in> set ds"
      "map_of (ss_state_dict s) (r ! i) = Some (p, CONF_STATE_RUN, l)" by auto
    with dep_is_ok_iff [OF \<open>dep_is_ok s (r ! i) = Inr (oks ! i)\<close>] that(3) show "P (oks ! i)" by auto
  qed
  show ?thesis
    using assms core [where P = "\<lambda>b. b"] core [where P = Not]
    by (auto simp: check_dependencies_def deps_fulfilled_def bind_r_eq_Inr Let_def split: if_splits)
qed

lemma transitions_for_due:
  "transitions_for env ix acts s = Inr (ts, s') \<Longrightarrow> (n, act) \<in> set acts \<Longrightarrow> deps_fulfilled ix (ss_state_dict s) n act \<Longrightarrow>
   \<not> locked env n s \<Longrightarrow> n \<in> sst_name ` set ts"
proof (induction acts arbitrary: s ts)
  case (Cons ma acts)
  obtain m a where ma: "ma = (m, a)" by (cases ma)
  from Cons.prems(1) ma obtain ok s1 ts1 s2 ts2 where c: "check_dependencies ix m a s = Inr (ok, s1)"
    and g: "(if ok then generate_transition env m a s1 else Inr ([], s1)) = Inr (ts1, s2)"
    and r: "transitions_for env ix acts s2 = Inr (ts2, s')" and ts: "ts = ts1 @ ts2"
    by (auto simp: bind_r_eq_Inr)
  note f1 = check_dependencies_sound [OF c]
  have f2: "ss_state_dict s2 = ss_state_dict s1" "n \<notin> sst_name ` set ts1 \<Longrightarrow> \<not> locked env n s2"
    "(m, a) = (n, act) \<Longrightarrow> n \<in> sst_name ` set ts1"
    using g generate_transition_frame [of env m a s1 ts1 s2] f1 Cons.prems(3, 4) check_dependencies_complete [OF c]
    by (auto split: if_splits simp: locked_def)
  show ?case
  proof (cases "n \<in> sst_name ` set ts1")
    case False
    then have "(n, act) \<in> set acts" using Cons.prems(2) f2(3) ma by auto
    with Cons.IH [OF r] Cons.prems(3) f1 f2 False ts show ?thesis by auto
  qed (auto simp: ts)
qed simp

lemma update_due:
  assumes "update env ix exclude force throttle els s = Inr (ts, s')" and "el \<in> set els"
    and "due exclude force throttle s el act" and "deps_fulfilled ix (ss_state_dict s') (sv_name el) act"
    and "\<not> locked env (sv_name el) s"
  shows "\<exists>t \<in> set ts. sst_name t = sv_name el"
proof -
  from assms(1) obtain acts s1 s2 cs where j: "judge_all env exclude force throttle els s = Inr (acts, s1)"
    and t: "transitions_for env ix acts s1 = Inr (ts, s2)"
    and e: "filter sst_post_disable ts = [] \<and> s' = s2\<lparr>ss_commands := cs\<rparr> \<or>
         filter sst_post_disable ts \<noteq> [] \<and>
         (\<exists>r. disable_command env (py_join '','' (map sst_name (filter sst_post_disable ts))) (s2\<lparr>ss_commands := cs\<rparr>) = Inr (r, s'))"
    by (rule update_steps)
  from e have "ss_state_dict s' = ss_state_dict s2" by (auto simp: disable_command_def dest: flag_command_frame(3))
  with transitions_for_sound [OF t] assms(4) have "deps_fulfilled ix (ss_state_dict s1) (sv_name el) act" by simp
  moreover have "\<not> locked env (sv_name el) s1" using judge_all_frame [OF j] assms(5) by (simp add: locked_def)
  ultimately show ?thesis using transitions_for_due [OF t judge_all_due [OF j assms(2, 3)]] by auto
qed

text \<open>C2: a forced update, or any update while the server shuts down, starts a transition for every service
  which is due for an action, whose dependencies are fulfilled and which has no running transition.\<close>

theorem update_starts_due:
  assumes "update env ix exclude force throttle els s = Inr (ts, s')" and "el \<in> set els"
    and "due exclude force throttle s el act" and "deps_fulfilled ix (ss_state_dict s') (sv_name el) act"
    and "\<not> locked env (sv_name el) s"
  shows "\<exists>t \<in> set ts. sst_name t = sv_name el"
  using assms by (rule update_due)

theorem update_starts_due_witness:
  "\<exists>ts s'. update demo_env empty_xml [] True [] [demo_checked ''a'' SERVICE_DEAD] demo_state = Inr (ts, s') \<and>
     (\<exists>t \<in> set ts. sst_name t = ''a'')"
proof -
  let ?el = "demo_checked ''a'' SERVICE_DEAD"
  have "\<not> isl (update demo_env empty_xml [] True [] [?el] demo_state)" by code_simp
  then obtain ts s' where u: "update demo_env empty_xml [] True [] [?el] demo_state = Inr (ts, s')"
    by (cases "update demo_env empty_xml [] True [] [?el] demo_state") auto
  have r: "el_result (sv_entry ?el) = Some (the (el_result (sv_entry ?el)))"
    "result_states (the (el_result (sv_entry ?el))) = Inr (SERVICE_DEAD, CONF_STATE_RUN, LIC_STATE_NOT_NEEDED, [])"
    "map_of (ss_target_dict demo_state) ''a'' = Some TARGET_STATE_RUNNING"
    "check_current_state (TARGET_STATE_RUNNING, SERVICE_DEAD, CONF_STATE_RUN, LIC_STATE_NOT_NEEDED) = (False, ''start'')"
    "el_attr (sv_entry ?el) ''startstop'' = Inr ''1''" "py_int ''1'' = Inr 1" "sv_name ?el = ''a''"
    "map_of (ss_ignore_dict demo_state) ''a'' = Some False" "\<not> locked demo_env ''a'' demo_state"
    "get_start_dependencies empty_xml ''a'' = []" "get_stop_dependencies empty_xml ''a'' = []"
    by code_simp+
  have "due [] True [] demo_state ?el ''start''" unfolding due_def using r by auto
  from update_starts_due [OF u _ this] r u show ?thesis by (auto simp: deps_fulfilled_def)
qed

subsection \<open>Shutdown\<close>

lemma stopped_action:
  "check_current_state (TARGET_STATE_STOPPED, p, c, l) = (False, act) \<Longrightarrow> act = ''stop''"
  by (auto simp: check_current_state_def Let_def get_action_find sas_specs_def sas_matches_def sas_vals_def split: if_splits)

lemma map_of_map_const: "map_of (map (\<lambda>(n, _). (n, c)) xs) k = Some v \<Longrightarrow> v = c"
  by (induction xs) (auto split: if_splits)

lemma shutdown_update_action:
  assumes "update env ix exclude force throttle els (enable_shutdown_mode s) = Inr (ts, s')" and "t \<in> set ts"
  shows "sst_action t = ''stop'' \<and> sst_name t \<notin> set exclude"
proof -
  from update_sound [OF assms] obtain el where j: "justified env exclude force (enable_shutdown_mode s) el (sst_name t) (sst_action t)"
    by blast
  then obtain p c l g where "map_of (ss_target_dict (enable_shutdown_mode s)) (sst_name t) = Some g"
    "check_current_state (g, p, c, l) = (False, sst_action t)" unfolding justified_def by blast
  then have "sst_action t = ''stop''"
    using map_of_map_const [of TARGET_STATE_STOPPED "ss_target_dict s"]
    by (auto simp: enable_shutdown_mode_def dest: stopped_action)
  with j show ?thesis by (simp add: justified_def)
qed



text \<open>A change of the service descriptions undoes the shutdown: the targets are read from the database again
  although the server still shuts down, so the next update sees the configured targets.\<close>

theorem shutdown_targets_restored:
  assumes "wf_db s" and "s' = sync_with_instance env ix (enable_shutdown_mode s)"
  shows "ss_shutdown s' \<and> map_of (ss_target_dict s') = map_of (row_targets (ss_services s'))"
proof -
  have "distinct (map sr_name (ss_services (enable_shutdown_mode s)))" "distinct (map sr_idx (ss_services (enable_shutdown_mode s)))"
    using assms(1) by (simp_all add: wf_db_def enable_shutdown_mode_def)
  from sync_with_instance_sync [OF this, of env ix] have "in_sync s'" unfolding assms(2) by blast
  moreover have "ss_shutdown s'" by (simp add: assms(2) sync_with_instance_def load_dicts_def Let_def enable_shutdown_mode_def)
  ultimately show ?thesis by (simp add: in_sync_def)
qed

theorem shutdown_targets_restored_witness:
  "map_of (ss_target_dict (sync_with_instance demo_env empty_xml (enable_shutdown_mode demo_state))) ''a'' = Some TARGET_STATE_RUNNING"
proof -
  have "map_of (row_targets (ss_services (sync_with_instance demo_env empty_xml (enable_shutdown_mode demo_state)))) ''a''
    = Some TARGET_STATE_RUNNING" by code_simp
  with shutdown_targets_restored [OF demo_state_wf(1) refl, of demo_env empty_xml] show ?thesis by simp
qed

subsection \<open>Stability\<close>

lemma filter_takeWhile_sorted:
  assumes "sorted (map k xs)" and "\<And>x y. x \<in> set xs \<Longrightarrow> y \<in> set xs \<Longrightarrow> k x \<le> k y \<Longrightarrow> P y \<Longrightarrow> P x"
  shows "filter P xs = takeWhile P xs"
  using assms
proof (induction xs)
  case (Cons x xs)
  have IH: "filter P xs = takeWhile P xs"
    using Cons.prems(1) by (intro Cons.IH, simp) (rule Cons.prems(2), auto)
  have "\<not> P y" if "\<not> P x" "y \<in> set xs" for y
    using Cons.prems(1) Cons.prems(2) [of x y] that by auto
  then have "filter P xs = []" if "\<not> P x" using that by (auto simp: filter_empty_conv)
  with IH show ?case by auto
qed simp

lemma recent_all:
  assumes "length (filter P rows) \<le> n" and "r \<in> set rows" and "P r"
    and "\<And>x y. x \<in> set rows \<Longrightarrow> y \<in> set rows \<Longrightarrow> created y \<le> created x \<Longrightarrow> P y \<Longrightarrow> P x"
  shows "r \<in> set (recent created n rows)"
proof -
  let ?xs = "sort_key (\<lambda>r. - created r) rows"
  have tw: "filter P ?xs = takeWhile P ?xs"
    using assms(4) by (intro filter_takeWhile_sorted [where k = "\<lambda>r. - created r"]) auto
  have "length (filter P ?xs) = length (filter P rows)"
    by (simp add: filter_sort)
  then have "length (takeWhile P ?xs) \<le> n" using assms(1) tw by simp
  then have "set (take (length (takeWhile P ?xs)) ?xs) \<subseteq> set (take n ?xs)" by (rule set_take_subset_set_take)
  moreover have "takeWhile P ?xs = take (length (takeWhile P ?xs)) ?xs" by (rule takeWhile_eq_take)
  moreover have "r \<in> set (takeWhile P ?xs)" using assms(2, 3) by (simp flip: tw)
  ultimately show ?thesis unfolding recent_def by (metis subsetD)
qed

lemma recent_first:
  assumes "recent created n rows = x # xs"
  shows "x \<in> set rows \<and> (\<forall>r \<in> set rows. created r \<le> created x)"
proof -
  from assms obtain ys where y: "sort_key (\<lambda>r. - created r) rows = x # ys"
    unfolding recent_def by (cases "sort_key (\<lambda>r. - created r) rows"; cases n) auto
  have "sorted (map (\<lambda>r. - created r) (x # ys))" using sorted_sort_key [of "\<lambda>r. - created r" rows] y by simp
  moreover have "set (x # ys) = set rows" by (metis y set_sort)
  ultimately show ?thesis by auto
qed

text \<open>C11: a state counts as stable only if no record of the service is younger than the minimal state time, all
  its records of the stable interval agree (as long as there are no more than the ten that are read),
  and its newest action is not a start of the last five seconds; records from the future are excluded.\<close>

theorem stable_state_sound:
  assumes "check_for_stable_state env n s = Inr True" and "map_of (ss_service_lut s) n = Some idx"
    and "now = int_now env" and "rows = filter (\<lambda>r. st_service r = idx) (ss_states s)"
    and "\<forall>r \<in> set rows. st_created r \<le> now"
  shows "(\<forall>r \<in> set rows. MIN_STATE_TIME \<le> now - st_created r) \<and>
    (length (filter (\<lambda>r. now - st_created r < STABLE_INTERVAL) rows) \<le> 10 \<longrightarrow>
       (\<forall>r1 \<in> set rows. \<forall>r2 \<in> set rows. now - st_created r1 < STABLE_INTERVAL \<and> now - st_created r2 < STABLE_INTERVAL \<longrightarrow>
          row_states r1 = row_states r2)) \<and>
    (\<forall>a \<in> set (ss_actions s). ac_service a = idx \<and> ac_action a = ''start'' \<and>
       (\<forall>b \<in> set (ss_actions s). ac_service b = idx \<and> b \<noteq> a \<longrightarrow> ac_created b < ac_created a) \<longrightarrow> 5 \<le> now - ac_created a)"
proof (intro conjI impI ballI)
  let ?acts = "recent ac_created 10 (filter (\<lambda>a. ac_service a = idx) (ss_actions s))"
  from assms obtain first recs where r: "recent st_created 10 rows = first # recs"
    and same: "\<forall>r \<in> set recs. \<bar>now - st_created r\<bar> < STABLE_INTERVAL \<longrightarrow> row_states r = row_states first"
    and age: "MIN_STATE_TIME \<le> \<bar>now - st_created first\<bar>"
    and act: "\<not> (?acts \<noteq> [] \<and> ac_action (hd ?acts) = ''start'' \<and> now - ac_created (hd ?acts) < 5)"
    by (auto simp: check_for_stable_state_def dict_get_def Let_def bind_r_eq_Inr split: if_splits list.splits)
  note f = recent_first [OF r]
  show "MIN_STATE_TIME \<le> now - st_created x" if "x \<in> set rows" for x
    using f age assms(5) that by fastforce
  have all: "row_states x = row_states first"
    if "length (filter (\<lambda>r. now - st_created r < STABLE_INTERVAL) rows) \<le> 10" "x \<in> set rows" "now - st_created x < STABLE_INTERVAL" for x
  proof -
    have "x \<in> set (recent st_created 10 rows)" by (rule recent_all [OF that]) auto
    with r same that(3) assms(5) \<open>x \<in> set rows\<close> show ?thesis by auto
  qed
  show "row_states r1 = row_states r2"
    if "length (filter (\<lambda>r. now - st_created r < STABLE_INTERVAL) rows) \<le> 10" "r1 \<in> set rows" "r2 \<in> set rows"
      "now - st_created r1 < STABLE_INTERVAL \<and> now - st_created r2 < STABLE_INTERVAL" for r1 r2
    using all [OF that(1)] that(2-4) by metis
  fix a assume a: "a \<in> set (ss_actions s)" "ac_service a = idx \<and> ac_action a = ''start'' \<and>
       (\<forall>b \<in> set (ss_actions s). ac_service b = idx \<and> b \<noteq> a \<longrightarrow> ac_created b < ac_created a)"
  then have "a \<in> set (filter (\<lambda>a. ac_service a = idx) (ss_actions s))" by simp
  then have "sort_key (\<lambda>r. - ac_created r) (filter (\<lambda>a. ac_service a = idx) (ss_actions s)) \<noteq> []"
    by (metis empty_iff set_empty set_sort)
  then obtain x xs where x: "?acts = x # xs"
    by (cases ?acts) (auto simp: recent_def)
  from recent_first [OF x] a have "x = a" by force
  with act x a show "5 \<le> now - ac_created a" by simp
qed

theorem stable_state_sound_witness:
  "check_for_stable_state demo_env ''a'' demo_state = Inr True \<and>
   list_all (\<lambda>r. MIN_STATE_TIME \<le> int_now demo_env - st_created r) (filter (\<lambda>r. st_service r = 1) (ss_states demo_state))"
proof -
  have c: "check_for_stable_state demo_env ''a'' demo_state = Inr True" "map_of (ss_service_lut demo_state) ''a'' = Some 1"
    "\<forall>r \<in> set (filter (\<lambda>r. st_service r = 1) (ss_states demo_state)). st_created r \<le> int_now demo_env"
    by code_simp+
  from stable_state_sound [OF c(1, 2) refl refl c(3)] c(1) show ?thesis unfolding list_all_iff by blast
qed

end
