(* ===== verification/Meta_Server.thy ===== *)
theory Meta_Server
  imports Transition Service_State_Laws
begin

section \<open>The meta-server process (initat/meta_server/server.py)\<close>

text \<open>
  The main process reacts to signals, timers, file events and commands. Its state joins the instances, the
  state machine, the service container and the running transitions. Every handler is a function of what
  it observes of the world and of the server state; an exception ends the handler with its error. Timers
  are the flag whether the transition handler is registered; mails, replies and the memory vector are
  recorded in the state in the order they are sent.
\<close>

record running =
  rt_id :: int
  rt_init_time :: py_float
  rt_trans :: transition

text \<open>A key of the memory dictionary: a service, or one of its processes.\<close>

type_synonym mem_key = "string \<times> string option"

record server =
  ms_states :: sstate
  ms_inst :: instance_xml
  ms_cont :: container
  ms_transitions :: "running list"
  ms_timer :: bool
  ms_next_stop_is_restart :: bool
  ms_exit_process :: bool
  ms_exit_requested :: bool
  ms_loopcount :: nat
  ms_last_update :: py_float
  ms_last_memcheck :: py_float
  ms_meminfo_keys :: "string list"
  ms_meminfo_line :: nat
  ms_mis_dict :: "(mem_key \<times> int \<times> py_float) list"
  ms_vectors :: "(mem_key \<times> int) list list"
  ms_mails :: "(string \<times> string list) list"
  ms_logs :: "string list"

text \<open>What a handler observes: the clock and files of the state machine, the host and the databases for a
  check of all services, the hosts seen by the steps of the i-th transition it works on, and the
  configuration values.\<close>

record world =
  w_env :: sys_env
  w_host :: host
  w_ct :: "config_db option"
  w_lics :: "(string \<times> int) list option"
  w_ver :: version_env
  w_hs :: "nat \<Rightarrow> nat \<Rightarrow> nat \<Rightarrow> host"
  w_min_check_time :: py_float
  w_min_memcheck_time :: py_float
  w_track_memory :: bool
  w_vector_socket :: bool
  w_fqdn :: string
  w_cluster_id :: "string option"
  w_ctime :: "int \<Rightarrow> string"
  w_ordinalize :: "nat \<Rightarrow> string"

subsection \<open>Transitions\<close>

definition enable_transition_timer :: "server \<Rightarrow> server" where
  "enable_transition_timer m = (if \<not> ms_timer m then m\<lparr>ms_timer := True\<rparr> else m)"

definition disable_transition_timer :: "server \<Rightarrow> server" where
  "disable_transition_timer m = (if ms_timer m then m\<lparr>ms_timer := False\<rparr> else m)"

text \<open>A step of one transition on the shared container, and what follows from its result.\<close>

definition trans_step :: "world \<Rightarrow> nat \<Rightarrow> running \<Rightarrow> server \<Rightarrow> (running \<times> server) res" where
  "trans_step w i r m =
     bind_r (step (w_hs w i) (w_ct w) (w_lics w) ((rt_trans r)\<lparr>tr_cont := ms_cont m\<rparr>)) (\<lambda>tr.
       Inr (r\<lparr>rt_trans := tr\<rparr>, m\<lparr>ms_cont := tr_cont tr\<rparr>))"

definition finish_trans :: "world \<Rightarrow> running \<Rightarrow> server \<Rightarrow> server res" where
  "finish_trans w r m =
     bind_r (transition_finished (w_env w) (rt_id r) (rt_init_time r) (ms_states m)) (\<lambda>(_, s). Inr (m\<lparr>ms_states := s\<rparr>))"

fun start_transitions :: "world \<Rightarrow> nat \<Rightarrow> sst list \<Rightarrow> server \<Rightarrow> server res" where
  "start_transitions w i [] m = Inr m"
| "start_transitions w i (t # ts) m =
     bind_r (new_transition (sst_action t) [sst_name t] (ms_inst m) [] (ms_cont m)) (\<lambda>tr.
     bind_r (trans_step w i \<lparr>rt_id = sst_trans_id t, rt_init_time = se_now (w_env w), rt_trans = tr\<rparr> m) (\<lambda>(r, m1).
     bind_r (if pending (rt_trans r) \<noteq> 0 then Inr (m1\<lparr>ms_transitions := ms_transitions m1 @ [r]\<rparr>) else finish_trans w r m1)
       (start_transitions w (i + 1) ts)))"

definition new_transitions :: "world \<Rightarrow> sst list \<Rightarrow> server \<Rightarrow> server res" where
  "new_transitions w ts m =
     bind_r (start_transitions w 0 ts m) (\<lambda>m1.
       Inr (if ms_transitions m1 \<noteq> [] then enable_transition_timer m1 else m1))"

subsection \<open>Memory information\<close>

definition valid_entries :: "service list \<Rightarrow> (string \<times> int \<times> (string \<times> int) list) list" where
  "valid_entries res_list =
     concat (map (\<lambda>e. case el_result (sv_entry e) of
                        Some r \<Rightarrow> (case cr_memory r of Some (tot, det) \<Rightarrow> [(sv_name e, tot, det)] | None \<Rightarrow> [])
                      | None \<Rightarrow> []) res_list)"

definition mem_values :: "(string \<times> int \<times> (string \<times> int) list) list \<Rightarrow> (mem_key \<times> int) list" where
  "mem_values es = concat (map (\<lambda>(n, tot, det). map (\<lambda>(p, v). ((n, Some p), v)) det @ [((n, None), tot)]) es)"

definition index_of :: "string list \<Rightarrow> string \<Rightarrow> nat" where
  "index_of ks k = length (takeWhile (\<lambda>x. x \<noteq> k) ks)"

definition show_meminfo :: "world \<Rightarrow> service list \<Rightarrow> server \<Rightarrow> server" where
  "show_meminfo w res_list m =
     (let es = valid_entries res_list;
          keys = map fst es;
          line = ms_meminfo_line m + 1;
          m1 = (if keys \<noteq> ms_meminfo_keys m \<or> line > 100
                then m\<lparr>ms_meminfo_line := 0, ms_meminfo_keys := keys,
                       ms_logs := ms_logs m @ [''Memory info mapping: '' @
                         py_join '', '' (map (\<lambda>k. str_of_nat (index_of keys k + 1) @ '': '' @ k) keys)]\<rparr>
                else m\<lparr>ms_meminfo_line := line\<rparr>);
          m2 = (if w_vector_socket w then
                  (let mv_valid = se_now (w_env w) + 2 * w_min_memcheck_time w;
                       vals = mem_values es;
                       d = fold (\<lambda>(k, v). AList.update k (v, mv_valid)) vals (ms_mis_dict m1)
                   in m1\<lparr>ms_vectors := ms_vectors m1 @ [vals],
                         ms_mis_dict := filter (\<lambda>(k, _). k \<in> fst ` set vals) d\<rparr>)
                else m1)
      in m2\<lparr>ms_logs := ms_logs m2 @
             [''Memory info: '' @ py_join '' / '' (map (\<lambda>(_, tot, _). beautify_mem_info True (nat tot)) es)]\<rparr>)"

subsection \<open>Checks\<close>

definition send_mail :: "world \<Rightarrow> sst list \<Rightarrow> server \<Rightarrow> server res" where
  "send_mail w ts m =
     bind_r (get_mail_text (w_ctime w) (w_ordinalize w) (w_env w) ts (ms_states m)) (\<lambda>(subject, body).
       Inr (m\<lparr>ms_mails := ms_mails m @
         [(subject @ '' from '' @ w_fqdn w @ '' ('' @
             (case w_cluster_id w of Some c \<Rightarrow> if c = [] then ''N/A'' else c | None \<Rightarrow> ''N/A'') @ '')'', body)]\<rparr>))"

definition THROTTLE :: "(string \<times> py_float) list" where
  "THROTTLE = [(''uwsgi-init'', 5)]"

definition EXCLUDE :: "string list" where
  "EXCLUDE = [''meta-server'']"

text \<open>The check of the services \<open>names\<close> (all if empty) and the update of the state machine.\<close>

definition check_update :: "world \<Rightarrow> string list \<Rightarrow> bool \<Rightarrow> server \<Rightarrow> ((service list \<times> sst list) \<times> server) res" where
  "check_update w names force m =
     bind_r (check_system (w_host w) (w_ct w) (w_lics w) (w_ver w) None names (ms_inst m) (ms_cont m)) (\<lambda>(c, res_list).
     bind_r (update (w_env w) (ms_inst m) EXCLUDE force THROTTLE res_list (ms_states m)) (\<lambda>(ts, s).
       Inr ((res_list, ts), m\<lparr>ms_cont := c, ms_states := s\<rparr>)))"

text \<open>What follows from the update: the transitions are started and mailed, the memory is reported.\<close>

definition handle_update :: "world \<Rightarrow> bool \<Rightarrow> bool \<Rightarrow> service list \<Rightarrow> sst list \<Rightarrow> server \<Rightarrow> server res" where
  "handle_update w force check_mem res_list ts m =
     bind_r (if ts \<noteq> [] then
               bind_r (new_transitions w ts m) (\<lambda>m1.
                 if ms_loopcount m1 > 1 \<and> \<not> force then send_mail w ts m1 else Inr m1)
             else Inr m) (\<lambda>m2.
       Inr (if check_mem \<and> res_list \<noteq> [] then show_meminfo w res_list m2 else m2))"

definition begin_check :: "world \<Rightarrow> bool \<Rightarrow> server \<Rightarrow> server" where
  "begin_check w check_mem m =
     m\<lparr>ms_loopcount := ms_loopcount m + 1,
       ms_last_memcheck := (if check_mem then se_now (w_env w) else ms_last_memcheck m)\<rparr>"

definition main_check_processes :: "world \<Rightarrow> string list \<Rightarrow> bool \<Rightarrow> server \<Rightarrow> server res" where
  "main_check_processes w names force m =
     (let check_mem = (se_now (w_env w) > ms_last_memcheck m + w_min_memcheck_time w \<and> w_track_memory w);
          m1 = begin_check w check_mem m
      in bind_r (check_update w names (ms_loopcount m1 = 1 \<or> force) m1) (\<lambda>((res_list, ts), m2).
           handle_update w force check_mem res_list ts m2))"

definition main_check :: "world \<Rightarrow> server \<Rightarrow> server res" where
  "main_check w m =
     (let now = se_now (w_env w) in
      if \<bar>now - ms_last_update m\<bar> < w_min_check_time w then Inr m
      else main_check_processes w [] False (m\<lparr>ms_last_update := now\<rparr>))"

fun step_transitions :: "world \<Rightarrow> nat \<Rightarrow> running list \<Rightarrow> server \<Rightarrow> (running list \<times> server) res" where
  "step_transitions w i [] m = Inr ([], m)"
| "step_transitions w i (r # rs) m =
     bind_r (trans_step w i r m) (\<lambda>(r', m1).
       if pending (rt_trans r') \<noteq> 0
       then bind_r (step_transitions w (i + 1) rs m1) (\<lambda>(rs', m2). Inr (r' # rs', m2))
       else bind_r (finish_trans w r' m1) (\<lambda>m2. step_transitions w (i + 1) rs m2))"

text \<open>\<open>w2\<close> is what is observed by the check that follows when all transitions are finished.\<close>

definition handle_transition :: "world \<Rightarrow> world \<Rightarrow> server \<Rightarrow> server res" where
  "handle_transition w w2 m =
     bind_r (step_transitions w 0 (ms_transitions m) m) (\<lambda>(rs, m0).
       let m1 = m0\<lparr>ms_transitions := rs\<rparr> in
       if rs \<noteq> [] then Inr m1
       else
         let m2 = disable_transition_timer m1; (start_probs, stop_probs) = dependency_problem (ms_states m2) in
         bind_r (if start_probs \<or> stop_probs then main_check_processes w2 [] True m2 else Inr m2) (\<lambda>m3.
           Inr (if ms_exit_process m3 \<and> \<not> stop_probs then m3\<lparr>ms_exit_requested := True\<rparr> else m3)))"

subsection \<open>Signals, events and commands\<close>

definition main_sigint :: "world \<Rightarrow> server \<Rightarrow> server res" where
  "main_sigint w m =
     (if ms_exit_process m then Inr m
      else
        let m1 = m\<lparr>ms_exit_process := True\<rparr> in
        if \<not> ms_next_stop_is_restart m1 then
          bind_r (check_update w [] False (m1\<lparr>ms_states := enable_shutdown_mode (ms_states m1)\<rparr>)) (\<lambda>((_, ts), m2).
          bind_r (new_transitions w ts m2) (\<lambda>m3.
            Inr (if ms_transitions m3 = [] then m3\<lparr>ms_exit_requested := True\<rparr> else m3)))
        else Inr (m1\<lparr>ms_exit_requested := True\<rparr>))"

definition instance_event :: "world \<Rightarrow> (string list \<Rightarrow> string list) \<Rightarrow> xml_file list \<Rightarrow> server \<Rightarrow> server res" where
  "instance_event w ord files m =
     bind_r (new_instance_xml ord files) (\<lambda>ix.
       Inr (m\<lparr>ms_inst := ix, ms_states := sync_with_instance (w_env w) ix (ms_states m)\<rparr>))"

record inotify_event =
  ie_delete :: bool
  ie_close_write :: bool
  ie_pathname :: string

definition update_or_create_msi_by_file_name :: "world \<Rightarrow> string \<Rightarrow> server \<Rightarrow> server res" where
  "update_or_create_msi_by_file_name w f m =
     bind_r (apply_filter [] (ms_inst m)) (\<lambda>all_services.
       main_check_processes w (map sv_name (filter_msi_file_name (w_host w) all_services f)) False m)"

definition delete_msi_by_file_name :: "world \<Rightarrow> string \<Rightarrow> server \<Rightarrow> server res" where
  "delete_msi_by_file_name w f m = main_check_processes w [] False m"

definition main_inotify_event :: "world \<Rightarrow> inotify_event \<Rightarrow> server \<Rightarrow> server res" where
  "main_inotify_event w e m =
     (if ie_delete e then delete_msi_by_file_name w (ie_pathname e) m
      else if ie_close_write e then update_or_create_msi_by_file_name w (ie_pathname e) m
      else Inr m)"

definition VERSION_REPLY :: "string \<Rightarrow> reply" where
  "VERSION_REPLY v = ReplyOk (''version is '' @ v)"

text \<open>A command with its services; the reply is computed before the state machine is triggered.\<close>

definition recv_command :: "world \<Rightarrow> string \<Rightarrow> string \<Rightarrow> string option \<Rightarrow> server \<Rightarrow> (reply \<times> server) res" where
  "recv_command w version cmd services m =
     bind_r (if startswith cmd ''state'' then
               bind_r (handle_command (w_env w) cmd services (ms_states m)) (\<lambda>((trig, rep), s).
                 Inr (trig, rep, m\<lparr>ms_states := s\<rparr>))
             else if cmd = ''version'' then Inr (False, VERSION_REPLY version, m)
             else if cmd = ''next-stop-is-restart'' then Inr (False, ReplyOk ''ok'', m\<lparr>ms_next_stop_is_restart := True\<rparr>)
             else Inr (False, ReplyError (''unknown command '' @ CHR 0x27 # cmd @ [CHR 0x27]), m)) (\<lambda>(trig, rep, m1).
       if trig then bind_r (main_check_processes w [] True m1) (\<lambda>m2. Inr (rep, m2)) else Inr (rep, m1))"

subsection \<open>Start\<close>

definition S_IRW_ALL :: int where
  "S_IRW_ALL = 438"

definition check_dirs :: "bool \<Rightarrow> int \<Rightarrow> string \<Rightarrow> effect list" where
  "check_dirs is_dir mode main_dir =
     (if is_dir then [] else [MakeDirs main_dir]) @
     (let new_stat = or mode S_IRW_ALL in if mode \<noteq> new_stat then [Chmod main_dir new_stat] else [])"

definition init_server :: "world \<Rightarrow> srv_row list \<Rightarrow> state_row list \<Rightarrow> action_row list \<Rightarrow> instance_xml \<Rightarrow> container \<Rightarrow> server" where
  "init_server w srvs sts acts ix c =
     \<lparr>ms_states = sync_with_instance (w_env w) ix (init_states srvs sts acts), ms_inst = ix, ms_cont = c,
      ms_transitions = [], ms_timer = False, ms_next_stop_is_restart = False, ms_exit_process = False,
      ms_exit_requested = False, ms_loopcount = 0, ms_last_update = se_now (w_env w) - 2 * w_min_check_time w,
      ms_last_memcheck = se_now (w_env w) - 2 * w_min_memcheck_time w, ms_meminfo_keys = [], ms_meminfo_line = 0,
      ms_mis_dict = [], ms_vectors = [], ms_mails = [], ms_logs = []\<rparr>"

subsection \<open>What the parts of the handlers leave alone\<close>

lemma bind_rE:
  assumes "bind_r x f = Inr y"
  obtains a where "x = Inr a" "f a = Inr y"
  using assms by (auto simp: bind_r_eq_Inr)

text \<open>A part of a handler is quiet if it does not touch the flags that control the exit nor the instances, and
  changes the state machine only by its own steps.\<close>

definition quiet :: "server \<Rightarrow> server \<Rightarrow> bool" where
  "quiet m m' \<longleftrightarrow> ms_exit_process m' = ms_exit_process m \<and> ms_exit_requested m' = ms_exit_requested m \<and>
     ms_next_stop_is_restart m' = ms_next_stop_is_restart m \<and> ms_inst m' = ms_inst m \<and>
     ss_shutdown (ms_states m') = ss_shutdown (ms_states m) \<and> (ss_reach (ms_states m) \<longrightarrow> ss_reach (ms_states m'))"

lemma quiet_refl [simp]: "quiet m m"
  by (simp add: quiet_def)

lemma quiet_trans [trans]: "quiet a b \<Longrightarrow> quiet b c \<Longrightarrow> quiet a c"
  by (simp add: quiet_def)

lemma update_shutdown_same:
  assumes "update env ix exclude force throttle els s = Inr (ts, s')"
  shows "ss_shutdown s' = ss_shutdown s"
proof -
  from assms obtain acts s1 s2 cs where j: "judge_all env exclude force throttle els s = Inr (acts, s1)"
    and t: "transitions_for env ix acts s1 = Inr (ts, s2)"
    and e: "filter sst_post_disable ts = [] \<and> s' = s2\<lparr>ss_commands := cs\<rparr> \<or>
         filter sst_post_disable ts \<noteq> [] \<and>
         (\<exists>r. disable_command env (py_join '','' (map sst_name (filter sst_post_disable ts))) (s2\<lparr>ss_commands := cs\<rparr>) = Inr (r, s'))"
    by (rule update_steps)
  from e have "ss_shutdown s' = ss_shutdown s2" by (auto simp: disable_command_def dest: flag_command_frame(3))
  with judge_all_frame [OF j] transitions_for_sound [OF t] show ?thesis by (simp add: same_targets_def)
qed

lemma handle_command_shutdown:
  assumes "handle_command env cmd services s = Inr (r, s')"
  shows "ss_shutdown s' = ss_shutdown s"
proof -
  have run: "ss_shutdown s' = ss_shutdown s"
    if "(case services of None \<Rightarrow> Inl KeyError | Some tx \<Rightarrow>
           bind_r (flag_command env sel upd label verb tx s) (\<lambda>((t, m), s'). Inr ((t, ReplyOk m), s'))) = Inr (r, s')"
    for sel upd label verb
    using that flag_command_frame(3) by (fastforce simp: bind_r_eq_Inr split: option.splits)
  show ?thesis
    using assms run unfolding handle_command_def Let_def command_defs by (auto split: if_splits)
qed

lemma transition_finished_frame:
  "transition_finished env t_id t0 s = Inr (u, s') \<Longrightarrow> ss_shutdown s' = ss_shutdown s \<and> ss_dep_problems s' = ss_dep_problems s"
  by (auto simp: transition_finished_def Let_def split: list.splits)

lemma trans_step_frame:
  "trans_step w i r m = Inr (r', m') \<Longrightarrow>
   quiet m m' \<and> ms_timer m' = ms_timer m \<and> ms_transitions m' = ms_transitions m \<and> ms_states m' = ms_states m \<and> rt_id r' = rt_id r"
  by (auto simp: trans_step_def bind_r_eq_Inr quiet_def)

lemma finish_trans_frame:
  assumes "finish_trans w r m = Inr m'"
  shows "quiet m m' \<and> ms_timer m' = ms_timer m \<and> ms_transitions m' = ms_transitions m \<and>
    ss_dep_problems (ms_states m') = ss_dep_problems (ms_states m)"
proof -
  from assms obtain u s where f: "transition_finished (w_env w) (rt_id r) (rt_init_time r) (ms_states m) = Inr (u, s)"
    and m: "m' = m\<lparr>ms_states := s\<rparr>" by (auto simp: finish_trans_def bind_r_eq_Inr)
  from transition_finished_frame [OF f] reach_next step_finished [OF f] m show ?thesis by (auto simp: quiet_def)
qed

lemma start_transitions_frame:
  "start_transitions w i ts m = Inr m' \<Longrightarrow>
   quiet m m' \<and> ms_timer m' = ms_timer m \<and> (\<exists>new. ms_transitions m' = ms_transitions m @ new)"
proof (induction ts arbitrary: i m)
  case (Cons t ts)
  from Cons.prems obtain tr r m1 m2 where
    s: "trans_step w i \<lparr>rt_id = sst_trans_id t, rt_init_time = se_now (w_env w), rt_trans = tr\<rparr> m = Inr (r, m1)"
    and f: "(if pending (rt_trans r) \<noteq> 0 then Inr (m1\<lparr>ms_transitions := ms_transitions m1 @ [r]\<rparr>) else finish_trans w r m1) = Inr m2"
    and rest: "start_transitions w (i + 1) ts m2 = Inr m'"
    by (auto simp: bind_r_eq_Inr)
  have "quiet m1 m2 \<and> ms_timer m2 = ms_timer m1 \<and> (\<exists>new. ms_transitions m2 = ms_transitions m1 @ new)"
    using f finish_trans_frame [of w r m1 m2] by (auto simp: quiet_def split: if_splits)
  with trans_step_frame [OF s] have "quiet m m2" "ms_timer m2 = ms_timer m" "\<exists>new. ms_transitions m2 = ms_transitions m @ new"
    using quiet_trans by auto
  with Cons.IH [OF rest] show ?case using quiet_trans [of m m2 m'] by force
qed simp

definition timer_ok :: "server \<Rightarrow> bool" where
  "timer_ok m \<longleftrightarrow> (ms_timer m \<longleftrightarrow> ms_transitions m \<noteq> [])"

lemma new_transitions_frame:
  assumes "new_transitions w ts m = Inr m'"
  shows "quiet m m' \<and> (timer_ok m \<longrightarrow> timer_ok m') \<and> (\<exists>new. ms_transitions m' = ms_transitions m @ new)"
proof -
  from assms obtain m1 where s: "start_transitions w 0 ts m = Inr m1"
    and m: "m' = (if ms_transitions m1 \<noteq> [] then enable_transition_timer m1 else m1)"
    by (auto simp: new_transitions_def bind_r_eq_Inr)
  have "quiet m1 m' \<and> ms_transitions m' = ms_transitions m1" by (simp add: m enable_transition_timer_def quiet_def)
  moreover have "timer_ok m \<longrightarrow> timer_ok m'"
    using start_transitions_frame [OF s] by (auto simp: m enable_transition_timer_def timer_ok_def)
  ultimately show ?thesis using start_transitions_frame [OF s] quiet_trans [of m m1 m'] by metis
qed

lemma check_update_frame:
  assumes "check_update w names force m = Inr (x, m')"
  shows "quiet m m' \<and> ms_timer m' = ms_timer m \<and> ms_transitions m' = ms_transitions m"
proof -
  from assms obtain c rl ts s where u: "update (w_env w) (ms_inst m) EXCLUDE force THROTTLE rl (ms_states m) = Inr (ts, s)"
    and m: "m' = m\<lparr>ms_cont := c, ms_states := s\<rparr>" by (auto simp: check_update_def bind_r_eq_Inr)
  from update_shutdown_same [OF u] reach_next step_update [OF u] m show ?thesis by (auto simp: quiet_def)
qed

lemma show_meminfo_frame:
  "quiet m (show_meminfo w rl m)" "ms_timer (show_meminfo w rl m) = ms_timer m"
  "ms_transitions (show_meminfo w rl m) = ms_transitions m"
  by (simp_all add: show_meminfo_def Let_def quiet_def)

lemma send_mail_frame:
  "send_mail w ts m = Inr m' \<Longrightarrow> quiet m m' \<and> ms_timer m' = ms_timer m \<and> ms_transitions m' = ms_transitions m"
  by (auto simp: send_mail_def bind_r_eq_Inr quiet_def)

lemma handle_update_frame:
  assumes "handle_update w force check_mem rl ts m = Inr m'"
  shows "quiet m m' \<and> (timer_ok m \<longrightarrow> timer_ok m')"
proof -
  from assms obtain m2 where
    n: "(if ts \<noteq> [] then bind_r (new_transitions w ts m) (\<lambda>m1.
           if ms_loopcount m1 > 1 \<and> \<not> force then send_mail w ts m1 else Inr m1) else Inr m) = Inr m2"
    and m': "m' = (if check_mem \<and> rl \<noteq> [] then show_meminfo w rl m2 else m2)"
    unfolding handle_update_def bind_r_eq_Inr by blast
  have q2: "quiet m m2 \<and> (timer_ok m \<longrightarrow> timer_ok m2)"
  proof (cases "ts = []")
    case False
    with n obtain m1 where m1: "new_transitions w ts m = Inr m1" "m2 = m1 \<or> send_mail w ts m1 = Inr m2"
      by (auto simp: bind_r_eq_Inr split: if_splits)
    from new_transitions_frame [OF m1(1)] m1(2) send_mail_frame [of w ts m1 m2] quiet_trans [of m m1 m2] show ?thesis
      by (auto simp: timer_ok_def)
  qed (use n in simp)
  moreover have "quiet m2 m' \<and> (timer_ok m2 \<longrightarrow> timer_ok m')" using show_meminfo_frame by (simp add: m' timer_ok_def)
  ultimately show ?thesis using quiet_trans by blast
qed

lemma begin_check_frame: "quiet m (begin_check w cm m)" "timer_ok (begin_check w cm m) = timer_ok m"
  by (simp_all add: begin_check_def quiet_def timer_ok_def)

lemma main_check_processes_frame:
  assumes "main_check_processes w names force m = Inr m'"
  shows "quiet m m' \<and> (timer_ok m \<longrightarrow> timer_ok m')"
proof -
  define cm where "cm = (se_now (w_env w) > ms_last_memcheck m + w_min_memcheck_time w \<and> w_track_memory w)"
  define m1 where "m1 = begin_check w cm m"
  from assms obtain rl ts m2 where
    c: "check_update w names (ms_loopcount m1 = 1 \<or> force) m1 = Inr ((rl, ts), m2)"
    and h: "handle_update w force cm rl ts m2 = Inr m'"
    unfolding main_check_processes_def Let_def cm_def [symmetric] m1_def [symmetric] bind_r_eq_Inr by auto
  have "quiet m m1" "timer_ok m1 = timer_ok m" unfolding m1_def by (rule begin_check_frame)+
  with check_update_frame [OF c] handle_update_frame [OF h] show ?thesis
    using quiet_trans [of m m1 m2] quiet_trans [of m m2 m'] by (auto simp: timer_ok_def)
qed

lemma step_transitions_frame:
  "step_transitions w i rs m = Inr (rs', m') \<Longrightarrow>
   quiet m m' \<and> ms_timer m' = ms_timer m \<and> ms_transitions m' = ms_transitions m \<and>
   ss_dep_problems (ms_states m') = ss_dep_problems (ms_states m)"
proof (induction rs arbitrary: i m rs')
  case (Cons r rs)
  from Cons.prems obtain r1 m1 where s: "trans_step w i r m = Inr (r1, m1)"
    and rest: "(if pending (rt_trans r1) \<noteq> 0
       then bind_r (step_transitions w (i + 1) rs m1) (\<lambda>(rs', m2). Inr (r1 # rs', m2))
       else bind_r (finish_trans w r1 m1) (\<lambda>m2. step_transitions w (i + 1) rs m2)) = Inr (rs', m')"
    by (auto simp: bind_r_eq_Inr)
  obtain m2 rs2 where m2: "m2 = m1 \<or> finish_trans w r1 m1 = Inr m2" and st: "step_transitions w (i + 1) rs m2 = Inr (rs2, m')"
    using rest by (cases "pending (rt_trans r1) \<noteq> 0") (auto simp: bind_r_eq_Inr)
  have "quiet m1 m2 \<and> ms_timer m2 = ms_timer m1 \<and> ms_transitions m2 = ms_transitions m1 \<and>
    ss_dep_problems (ms_states m2) = ss_dep_problems (ms_states m1)"
    using m2 finish_trans_frame [of w r1 m1 m2] by auto
  with trans_step_frame [OF s] Cons.IH [OF st] show ?case using quiet_trans [of m m1 m2] quiet_trans [of m m2 m'] by simp
qed simp

subsection \<open>The steps of the server\<close>

inductive srv_step :: "server \<Rightarrow> server \<Rightarrow> bool" where
  srv_sigint: "main_sigint w m = Inr m' \<Longrightarrow> srv_step m m'"
| srv_check: "main_check w m = Inr m' \<Longrightarrow> srv_step m m'"
| srv_timer: "ms_timer m \<Longrightarrow> handle_transition w w2 m = Inr m' \<Longrightarrow> srv_step m m'"
| srv_instance: "instance_event w ord files m = Inr m' \<Longrightarrow> srv_step m m'"
| srv_inotify: "main_inotify_event w e m = Inr m' \<Longrightarrow> srv_step m m'"
| srv_command: "recv_command w version cmd services m = Inr (rep, m') \<Longrightarrow> srv_step m m'"

inductive srv_reach :: "server \<Rightarrow> bool" where
  srv_init: "distinct (map sr_name srvs) \<Longrightarrow> distinct (map sr_idx srvs) \<Longrightarrow> srv_reach (init_server w srvs sts acts ix c)"
| srv_next: "srv_reach m \<Longrightarrow> srv_step m m' \<Longrightarrow> srv_reach m'"

definition exit_ok :: "server \<Rightarrow> bool" where
  "exit_ok m \<longleftrightarrow> (ms_exit_requested m \<longrightarrow> ms_exit_process m) \<and>
     (ms_exit_process m \<longleftrightarrow> ss_shutdown (ms_states m) \<or> ms_exit_requested m) \<and>
     (ms_exit_process m \<and> \<not> ss_shutdown (ms_states m) \<longrightarrow> ms_next_stop_is_restart m)"

definition srv_inv :: "server \<Rightarrow> bool" where
  "srv_inv m \<longleftrightarrow> timer_ok m \<and> exit_ok m \<and> ss_reach (ms_states m)"

lemma quiet_inv: "quiet m m' \<Longrightarrow> (timer_ok m \<longrightarrow> timer_ok m') \<Longrightarrow> srv_inv m \<Longrightarrow> srv_inv m'"
  by (auto simp: quiet_def srv_inv_def exit_ok_def)

lemma main_check_processes_inv: "main_check_processes w names force m = Inr m' \<Longrightarrow> srv_inv m \<Longrightarrow> srv_inv m'"
  using main_check_processes_frame quiet_inv by blast

lemma main_check_inv: "main_check w m = Inr m' \<Longrightarrow> srv_inv m \<Longrightarrow> srv_inv m'"
  using main_check_processes_inv [of w "[]" False "m\<lparr>ms_last_update := se_now (w_env w)\<rparr>" m']
  by (auto simp: main_check_def Let_def srv_inv_def timer_ok_def exit_ok_def split: if_splits)

lemma main_sigint_inv:
  assumes "main_sigint w m = Inr m'" and "srv_inv m"
  shows "srv_inv m'"
proof (cases "ms_exit_process m \<or> ms_next_stop_is_restart m")
  case True
  with assms show ?thesis
    by (auto simp: main_sigint_def Let_def srv_inv_def timer_ok_def exit_ok_def split: if_splits)
next
  case False
  define m1 where "m1 = m\<lparr>ms_exit_process := True, ms_states := enable_shutdown_mode (ms_states m)\<rparr>"
  from assms(1) False have "bind_r (check_update w [] False m1) (\<lambda>((_, ts), m2). bind_r (new_transitions w ts m2) (\<lambda>m3.
      Inr (if ms_transitions m3 = [] then m3\<lparr>ms_exit_requested := True\<rparr> else m3))) = Inr m'"
    by (simp add: main_sigint_def Let_def m1_def)
  then obtain x where x: "check_update w [] False m1 = Inr x" "(\<lambda>((_, ts), m2). bind_r (new_transitions w ts m2) (\<lambda>m3.
      Inr (if ms_transitions m3 = [] then m3\<lparr>ms_exit_requested := True\<rparr> else m3))) x = Inr m'" by (rule bind_rE)
  obtain rl ts m2 where xe: "x = ((rl, ts), m2)" by (metis surj_pair)
  from x xe have c: "check_update w [] False m1 = Inr ((rl, ts), m2)"
    and b: "bind_r (new_transitions w ts m2) (\<lambda>m3. Inr (if ms_transitions m3 = [] then m3\<lparr>ms_exit_requested := True\<rparr> else m3)) = Inr m'"
    by simp_all
  from b obtain m3 where n: "new_transitions w ts m2 = Inr m3"
    and "Inr (if ms_transitions m3 = [] then m3\<lparr>ms_exit_requested := True\<rparr> else m3) = (Inr m' :: server res)" by (rule bind_rE)
  then have m': "m' = (if ms_transitions m3 = [] then m3\<lparr>ms_exit_requested := True\<rparr> else m3)" by simp
  have "ss_reach (ms_states m1)" using assms(2) reach_next step_shutdown by (auto simp: m1_def srv_inv_def)
  moreover have "timer_ok m1" using assms(2) by (simp add: m1_def srv_inv_def timer_ok_def)
  moreover have "exit_ok m1" using assms(2) by (simp add: m1_def srv_inv_def exit_ok_def enable_shutdown_mode_def)
  ultimately have i1: "srv_inv m1" and "ms_exit_process m1" by (simp_all add: srv_inv_def m1_def)
  have "timer_ok m1 \<longrightarrow> timer_ok m2" using check_update_frame [OF c] by (simp add: timer_ok_def)
  then have "srv_inv m2" using check_update_frame [OF c] i1 by (intro quiet_inv [of m1 m2]) blast+
  then have "srv_inv m3" using new_transitions_frame [OF n] by (intro quiet_inv [of m2 m3]) blast+
  moreover have "ms_exit_process m3" "ss_shutdown (ms_states m3)"
    using check_update_frame [OF c] new_transitions_frame [OF n] by (simp_all add: quiet_def m1_def enable_shutdown_mode_def)
  ultimately show ?thesis by (auto simp: m' srv_inv_def timer_ok_def exit_ok_def)
qed

text \<open>The parts of the transition handler; the dependency problems do not change while transitions finish.\<close>

lemma handle_transition_cases:
  assumes "handle_transition w w2 m = Inr m'"
  obtains (busy) rs m0 where "step_transitions w 0 (ms_transitions m) m = Inr (rs, m0)" "rs \<noteq> []" "m' = m0\<lparr>ms_transitions := rs\<rparr>"
  | (finished) m0 m2 m3 where "step_transitions w 0 (ms_transitions m) m = Inr ([], m0)"
      "m2 = disable_transition_timer (m0\<lparr>ms_transitions := []\<rparr>)"
      "(if fst (dependency_problem (ms_states m)) \<or> snd (dependency_problem (ms_states m))
        then main_check_processes w2 [] True m2 else Inr m2) = Inr m3"
      "m' = (if ms_exit_process m3 \<and> \<not> snd (dependency_problem (ms_states m)) then m3\<lparr>ms_exit_requested := True\<rparr> else m3)"
proof -
  from assms obtain rs m0 where s: "step_transitions w 0 (ms_transitions m) m = Inr (rs, m0)"
    by (auto simp: handle_transition_def bind_r_eq_Inr)
  have d: "dependency_problem (ms_states (disable_transition_timer (m0\<lparr>ms_transitions := []\<rparr>))) = dependency_problem (ms_states m)"
    using step_transitions_frame [OF s] by (simp add: dependency_problem_def disable_transition_timer_def)
  show thesis
  proof (cases "rs = []")
    case True
    let ?m2 = "disable_transition_timer (m0\<lparr>ms_transitions := []\<rparr>)"
    let ?p = "dependency_problem (ms_states m)"
    from assms s d True have "bind_r (if fst ?p \<or> snd ?p then main_check_processes w2 [] True ?m2 else Inr ?m2) (\<lambda>m3.
        Inr (if ms_exit_process m3 \<and> \<not> snd ?p then m3\<lparr>ms_exit_requested := True\<rparr> else m3)) = Inr m'"
      by (simp add: handle_transition_def Let_def case_prod_unfold)
    then obtain m3 where "(if fst ?p \<or> snd ?p then main_check_processes w2 [] True ?m2 else Inr ?m2) = Inr m3"
      "Inr (if ms_exit_process m3 \<and> \<not> snd ?p then m3\<lparr>ms_exit_requested := True\<rparr> else m3) = (Inr m' :: server res)" by (rule bind_rE)
    with s True show thesis by (intro finished [OF _ refl, of m0 m3]) (auto split: if_splits)
  next
    case False
    with assms s show thesis by (intro busy) (auto simp: handle_transition_def Let_def)
  qed
qed

lemma handle_transition_inv:
  assumes "handle_transition w w2 m = Inr m'" and "ms_timer m" and "srv_inv m"
  shows "srv_inv m'"
  using assms(1)
proof (cases rule: handle_transition_cases)
  case (busy rs m0)
  note f = step_transitions_frame [OF busy(1)]
  have "quiet m m'" using f busy(3) by (simp add: quiet_def)
  moreover have "timer_ok m'" using f busy assms(2) by (simp add: timer_ok_def)
  ultimately show ?thesis using assms(3) quiet_inv by blast
next
  case (finished m0 m2 m3)
  note f = step_transitions_frame [OF finished(1)]
  have "quiet m m2" "timer_ok m2" using f by (simp_all add: finished(2) quiet_def timer_ok_def disable_transition_timer_def)
  then have "srv_inv m2" using assms(3) quiet_inv by blast
  then have i3: "srv_inv m3" using finished(3) main_check_processes_inv [of w2 "[]" True m2 m3] by (auto split: if_splits)
  then show ?thesis by (auto simp: finished(4) srv_inv_def timer_ok_def exit_ok_def)
qed

lemma instance_event_inv:
  assumes "instance_event w ord files m = Inr m'" and "srv_inv m"
  shows "srv_inv m'"
proof -
  from assms(1) obtain ix where m: "m' = m\<lparr>ms_inst := ix, ms_states := sync_with_instance (w_env w) ix (ms_states m)\<rparr>"
    by (auto simp: instance_event_def bind_r_eq_Inr)
  have "ss_shutdown (sync_with_instance (w_env w) ix (ms_states m)) = ss_shutdown (ms_states m)"
    by (simp add: sync_with_instance_def load_dicts_def Let_def)
  moreover have "ss_reach (sync_with_instance (w_env w) ix (ms_states m))"
    using assms(2) reach_next step_sync by (auto simp: srv_inv_def)
  ultimately show ?thesis using assms(2) by (auto simp: m srv_inv_def timer_ok_def exit_ok_def)
qed

lemma main_inotify_event_inv: "main_inotify_event w e m = Inr m' \<Longrightarrow> srv_inv m \<Longrightarrow> srv_inv m'"
  by (auto simp: main_inotify_event_def delete_msi_by_file_name_def update_or_create_msi_by_file_name_def bind_r_eq_Inr
      split: if_splits dest: main_check_processes_inv)

lemma recv_command_cases:
  assumes "recv_command w version cmd services m = Inr (rep, m')"
  obtains m1 where "m' = m1 \<or> main_check_processes w [] True m1 = Inr m'"
    "m1 = m \<or> m1 = m\<lparr>ms_next_stop_is_restart := True\<rparr> \<or>
     (\<exists>x s. handle_command (w_env w) cmd services (ms_states m) = Inr (x, s) \<and> m1 = m\<lparr>ms_states := s\<rparr>)"
  using assms by (auto simp: recv_command_def bind_r_eq_Inr split: if_splits)

lemma recv_command_inv:
  assumes "recv_command w version cmd services m = Inr (rep, m')" and "srv_inv m"
  shows "srv_inv m'"
  using assms(1)
proof (cases rule: recv_command_cases)
  case (1 m1)
  have "srv_inv m1"
  proof (cases "\<exists>x s. handle_command (w_env w) cmd services (ms_states m) = Inr (x, s) \<and> m1 = m\<lparr>ms_states := s\<rparr>")
    case True
    then obtain x s where c: "handle_command (w_env w) cmd services (ms_states m) = Inr (x, s)" and m1: "m1 = m\<lparr>ms_states := s\<rparr>" by blast
    from assms(2) handle_command_shutdown [OF c] reach_next step_command [OF c] show ?thesis
      by (auto simp: m1 srv_inv_def timer_ok_def exit_ok_def)
  next
    case False
    with 1 assms(2) show ?thesis by (auto simp: srv_inv_def timer_ok_def exit_ok_def)
  qed
  with 1 main_check_processes_inv show ?thesis by blast
qed

lemma srv_step_inv: "srv_step m m' \<Longrightarrow> srv_inv m \<Longrightarrow> srv_inv m'"
  by (induction rule: srv_step.induct)
    (blast intro: main_sigint_inv main_check_inv handle_transition_inv instance_event_inv main_inotify_event_inv recv_command_inv)+

lemma srv_reach_inv: "srv_reach m \<Longrightarrow> srv_inv m"
proof (induction rule: srv_reach.induct)
  case (srv_init srvs w sts acts ix c)
  then have "ss_reach (sync_with_instance (w_env w) ix (init_states srvs sts acts))" by (rule reach_init)
  then show ?case
    by (simp add: init_server_def srv_inv_def timer_ok_def exit_ok_def sync_with_instance_def load_dicts_def Let_def init_states_def)
qed (rule srv_step_inv)


text \<open>A server with one partially running service is told to stop: it stops the service and waits for it.\<close>

definition demo_world :: world where
  "demo_world =
     \<lparr>w_env = demo_env, w_host = demo_host, w_ct = None, w_lics = None, w_ver = \<lparr>ve_versions = None, ve_rows = None\<rparr>,
      w_hs = (\<lambda>_ _ _. demo_host), w_min_check_time = 10, w_min_memcheck_time = 10, w_track_memory = False,
      w_vector_socket = False, w_fqdn = ''h'', w_cluster_id = None, w_ctime = (\<lambda>_. []), w_ordinalize = (\<lambda>_. [])\<rparr>"

definition demo_ix :: instance_xml where
  "demo_ix = empty_xml\<lparr>ix_tree := [normalize_el (demo_el ''a'' [(''check_type'', ''meta''), (''runs_on'', ''client'')] [] [])]\<rparr>"

definition demo_cont :: container where
  "demo_cont = \<lparr>sc_proc_dict = None, sc_licenses = None, sc_history = None, sc_mismatch = False\<rparr>"

definition demo_server :: server where
  "demo_server = init_server demo_world [demo_row ''a'' 1 TARGET_STATE_RUNNING] [] [] demo_ix demo_cont"

definition demo_stopping :: server where
  "demo_stopping = projr (main_sigint demo_world demo_server)"

lemma demo_sigint_run:
  "(case main_sigint demo_world demo_server of
      Inl _ \<Rightarrow> False
    | Inr m \<Rightarrow> ms_timer m \<and> ms_exit_process m \<and> \<not> ms_exit_requested m \<and>
        map (\<lambda>r. (tr_target (rt_trans r), map fst (tr_actions (rt_trans r)))) (ms_transitions m) = [(''stop'', [''cleanup''])] \<and>
        \<not> isl (handle_transition demo_world demo_world m))"
  by code_simp

lemma demo_sigint:
  "\<not> isl (main_sigint demo_world demo_server)" "ms_timer demo_stopping" "ms_exit_process demo_stopping"
  "\<not> ms_exit_requested demo_stopping" "\<not> isl (handle_transition demo_world demo_world demo_stopping)"
  using demo_sigint_run by (auto simp: demo_stopping_def split: sum.splits)

lemma demo_server_reach: "srv_reach demo_server" "srv_reach demo_stopping"
proof -
  show r: "srv_reach demo_server" unfolding demo_server_def by (rule srv_init) simp_all
  have "main_sigint demo_world demo_server = Inr demo_stopping"
    using demo_sigint(1) by (cases "main_sigint demo_world demo_server") (simp_all add: demo_stopping_def)
  from srv_next [OF r srv_sigint [OF this]] show "srv_reach demo_stopping" .
qed


subsection \<open>Leaving\<close>

text \<open>Runs in which no transition is started.\<close>

inductive idle_run :: "server \<Rightarrow> server \<Rightarrow> bool" for m where
  idle_refl: "idle_run m m"
| idle_step: "idle_run m m1 \<Longrightarrow> srv_step m1 m2 \<Longrightarrow> ms_transitions m2 = [] \<Longrightarrow> idle_run m m2"

definition stuck :: "server \<Rightarrow> bool" where
  "stuck m \<longleftrightarrow> ms_exit_process m \<and> \<not> ms_exit_requested m \<and> ms_transitions m = [] \<and> \<not> ms_timer m"

lemma srv_step_stuck:
  assumes "srv_step m m'" and "stuck m" and "ms_transitions m' = []" and "srv_inv m"
  shows "stuck m'"
proof -
  have t: "timer_ok m'" using srv_step_inv [OF assms(1, 4)] by (simp add: srv_inv_def)
  have mcp: "ms_exit_process m2 = ms_exit_process m1 \<and> ms_exit_requested m2 = ms_exit_requested m1"
    if "main_check_processes w names force m1 = Inr m2" for w names force m1 m2
    using main_check_processes_frame [OF that] by (simp add: quiet_def)
  have "ms_exit_process m' = ms_exit_process m \<and> ms_exit_requested m' = ms_exit_requested m"
    using assms(1)
  proof cases
    case (srv_sigint w)
    with assms(2) show ?thesis by (simp add: main_sigint_def stuck_def)
  next
    case (srv_check w)
    then show ?thesis by (auto simp: main_check_def Let_def split: if_splits dest!: mcp)
  next
    case (srv_timer w w2)
    with assms(2) show ?thesis by (simp add: stuck_def)
  next
    case (srv_instance w ord files)
    then show ?thesis by (auto simp: instance_event_def bind_r_eq_Inr)
  next
    case (srv_inotify w e)
    then show ?thesis
      by (auto simp: main_inotify_event_def delete_msi_by_file_name_def update_or_create_msi_by_file_name_def bind_r_eq_Inr
          split: if_splits dest!: mcp)
  next
    case (srv_command w version cmd services rep)
    then show ?thesis by (cases rule: recv_command_cases) (auto dest!: mcp)
  qed
  with assms(2, 3) t show ?thesis by (simp add: stuck_def timer_ok_def)
qed

lemma idle_run_stuck:
  assumes "idle_run m m'" and "stuck m" and "srv_inv m"
  shows "stuck m' \<and> srv_inv m'"
  using assms
proof induction
  case (idle_step m1 m2)
  with srv_step_stuck [of m1 m2] srv_step_inv [of m1 m2] show ?case by blast
qed simp

lemma handle_transition_exit:
  assumes "handle_transition w w2 m = Inr m'" and "ms_exit_process m" and "\<not> ms_exit_requested m"
  shows "ms_exit_process m' \<and> (ms_exit_requested m' \<longleftrightarrow>
    (\<exists>m0. step_transitions w 0 (ms_transitions m) m = Inr ([], m0)) \<and> \<not> snd (dependency_problem (ms_states m)))"
  using assms(1)
proof (cases rule: handle_transition_cases)
  case (busy rs m0)
  with step_transitions_frame [OF busy(1)] assms(2, 3) show ?thesis by (simp add: quiet_def)
next
  case (finished m0 m2 m3)
  have "quiet m m2" using step_transitions_frame [OF finished(1)] by (simp add: finished(2) quiet_def disable_transition_timer_def)
  moreover have "quiet m2 m3" using finished(3) main_check_processes_frame [of w2 "[]" True m2 m3] by (auto split: if_splits)
  ultimately have "ms_exit_process m3" "\<not> ms_exit_requested m3" using assms(2, 3) by (simp_all add: quiet_def)
  with finished(1, 4) show ?thesis by simp
qed

text \<open>C8: when the last transition of a server that was told to stop finishes, the exit is requested exactly if no
  stop dependency was recorded as unfulfilled; the record is the one from before the check that follows,
  and only a later transition can clear the way: if that check starts none, the server stays up, whatever
  signals, checks, events and commands arrive, as long as no transition is started.\<close>

theorem exit_waits_for_transition:
  assumes "srv_reach m" and "ms_timer m" and "handle_transition w w2 m = Inr m'" and "ms_exit_process m" and "\<not> ms_exit_requested m"
  shows "(ms_exit_requested m' \<longleftrightarrow>
      (\<exists>m0. step_transitions w 0 (ms_transitions m) m = Inr ([], m0)) \<and> \<not> snd (dependency_problem (ms_states m))) \<and>
    (snd (dependency_problem (ms_states m)) \<and> ms_transitions m' = [] \<and> idle_run m' m'' \<longrightarrow> \<not> ms_exit_requested m'')"
proof -
  note e = handle_transition_exit [OF assms(3-5)]
  have i: "srv_inv m'" by (rule handle_transition_inv [OF assms(3, 2) srv_reach_inv [OF assms(1)]])
  have "\<not> ms_exit_requested m''" if "snd (dependency_problem (ms_states m))" "ms_transitions m' = []" "idle_run m' m''"
  proof -
    have "stuck m'" using e i that(1, 2) by (simp add: stuck_def srv_inv_def timer_ok_def)
    from idle_run_stuck [OF that(3) this i] show ?thesis by (simp add: stuck_def)
  qed
  with e show ?thesis by blast
qed

theorem exit_waits_for_transition_witness:
  "\<exists>m'. handle_transition demo_world demo_world demo_stopping = Inr m' \<and>
     (ms_exit_requested m' \<longleftrightarrow>
      (\<exists>m0. step_transitions demo_world 0 (ms_transitions demo_stopping) demo_stopping = Inr ([], m0)) \<and>
      \<not> snd (dependency_problem (ms_states demo_stopping)))"
  using exit_waits_for_transition [OF demo_server_reach(2) demo_sigint(2) _ demo_sigint(3, 4), of demo_world demo_world] demo_sigint(5)
  by (cases "handle_transition demo_world demo_world demo_stopping") auto

subsection \<open>A signal only stops services\<close>

lemma one_pass_frame:
  "one_pass hs ct lics tr = Inr (tr', v) \<Longrightarrow> tr_target tr' = tr_target tr \<and> same_services (tr_list tr) (tr_list tr')"
  by (auto simp: one_pass_def bind_r_eq_Inr dest!: act_pass_frame wait_pass_frame)

lemma trans_loop_frame:
  "trans_loop hs ct lics p tr = Inr tr' \<Longrightarrow> tr_target tr' = tr_target tr \<and> same_services (tr_list tr) (tr_list tr')"
proof (induction hs ct lics p tr rule: trans_loop.induct)
  case (1 hs ct lics p tr)
  from 1(2) obtain tr1 v where o: "one_pass (hs p) ct lics tr = Inr (tr1, v)"
    and r: "(if v = 0 then Inr tr1 else trans_loop hs ct lics (p + 1) tr1) = Inr tr'"
    by (auto simp: trans_loop.simps [of hs ct lics p tr] split: sum.splits)
  from one_pass_frame [OF o] 1(1) [OF o refl] r same_services_trans show ?case by (auto split: if_splits)
qed

lemma step_frame:
  assumes "step hs ct lics tr = Inr tr'"
  shows "tr_target tr' = tr_target tr \<and> same_services (tr_list tr) (tr_list tr')"
proof (cases "tr_step_num tr = 0")
  case True
  with assms obtain c ss acts where p: "plan_actions (hs 0 0) ct lics (tr_target tr) 0 (tr_list tr) (update_proc_dict (hs 0 0) (tr_cont tr)) = Inr (c, ss, acts)"
    and l: "trans_loop hs ct lics 0 (tr\<lparr>tr_step_num := Suc 0, tr_cont := c, tr_list := ss, tr_actions := acts, tr_wait := []\<rparr>) = Inr tr'"
    by (auto simp: step_def Let_def bind_r_eq_Inr)
  from plan_actions_course [OF p] trans_loop_frame [OF l] same_services_trans show ?thesis by auto
next
  case False
  with assms show ?thesis by (auto simp: step_def Let_def dest!: trans_loop_frame)
qed

lemma apply_filter_names:
  assumes "apply_filter [n] ix = Inr ss" and "s \<in> set ss"
  shows "sv_name s = n"
proof -
  let ?els = "filter (\<lambda>el. map_of (el_attrib el) ''name'' = Some n) (filter (\<lambda>el. map_of (el_attrib el) ''runs_on'' \<noteq> None) (ix_tree ix))"
  from assms(1) have "mapM_r new_service ?els = Inr ss" by (simp add: apply_filter_def Let_def)
  then have l: "list_all2 (\<lambda>x y. new_service x = Inr y) ?els ss" by (rule mapM_r_Inr_nth)
  from assms(2) obtain i where i: "i < length ss" "ss ! i = s" by (auto simp: in_set_conv_nth)
  then have "?els ! i \<in> set ?els" using list_all2_lengthD [OF l] by (intro nth_mem) (simp only:)
  moreover have "new_service (?els ! i) = Inr s" using list_all2_nthD2 [OF l i(1)] i(2) by (simp only:)
  ultimately obtain el where "el \<in> set ?els" "new_service el = Inr s" by (rule that)
  then show ?thesis by (auto simp: new_service_def el_attr_def bind_r_eq_Inr split: option.splits)
qed

lemma start_transitions_new:
  "start_transitions w i ts m = Inr m' \<Longrightarrow> (\<And>t. t \<in> set ts \<Longrightarrow> P (sst_name t) (sst_action t)) \<Longrightarrow>
   \<exists>new. ms_transitions m' = ms_transitions m @ new \<and>
     (\<forall>r \<in> set new. \<forall>s \<in> set (tr_list (rt_trans r)). P (sv_name s) (tr_target (rt_trans r))) \<and>
     (\<forall>r \<in> set new. tr_target (rt_trans r) \<in> sst_action ` set ts)"
proof (induction ts arbitrary: i m)
  case (Cons t ts)
  from Cons.prems(1) obtain tr r m1 m2 where
    n: "new_transition (sst_action t) [sst_name t] (ms_inst m) [] (ms_cont m) = Inr tr"
    and s: "trans_step w i \<lparr>rt_id = sst_trans_id t, rt_init_time = se_now (w_env w), rt_trans = tr\<rparr> m = Inr (r, m1)"
    and f: "(if pending (rt_trans r) \<noteq> 0 then Inr (m1\<lparr>ms_transitions := ms_transitions m1 @ [r]\<rparr>) else finish_trans w r m1) = Inr m2"
    and rest: "start_transitions w (i + 1) ts m2 = Inr m'"
    by (auto simp: bind_r_eq_Inr)
  from s obtain tr1 where st: "step (w_hs w i) (w_ct w) (w_lics w) (tr\<lparr>tr_cont := ms_cont m\<rparr>) = Inr tr1" "rt_trans r = tr1"
    by (auto simp: trans_step_def bind_r_eq_Inr)
  from n have tr: "tr_target tr = sst_action t" "apply_filter [sst_name t] (ms_inst m) = Inr (tr_list tr)"
    by (auto simp: new_transition_def bind_r_eq_Inr)
  have target: "tr_target (rt_trans r) = sst_action t" using step_frame [OF st(1)] st(2) tr by simp
  have names: "sv_name x = sst_name t" if "x \<in> set (tr_list (rt_trans r))" for x
  proof -
    from that obtain k where k: "k < length (tr_list tr1)" "x = tr_list tr1 ! k" using st(2) by (auto simp: in_set_conv_nth)
    with step_frame [OF st(1)] have "k < length (tr_list tr)" "sv_name x = sv_name (tr_list tr ! k)"
      by (auto simp: same_services_def list_all2_conv_all_nth)
    with apply_filter_names [OF tr(2)] show ?thesis by simp
  qed
  have m2: "\<exists>new. ms_transitions m2 = ms_transitions m @ new \<and> set new \<subseteq> {r}"
    using trans_step_frame [OF s] f finish_trans_frame [of w r m1 m2] by (auto split: if_splits)
  from Cons.IH [OF rest] Cons.prems(2) obtain new where new: "ms_transitions m' = ms_transitions m2 @ new"
    "\<forall>r \<in> set new. \<forall>s \<in> set (tr_list (rt_trans r)). P (sv_name s) (tr_target (rt_trans r))"
    "\<forall>r \<in> set new. tr_target (rt_trans r) \<in> sst_action ` set ts" by auto
  from m2 obtain new0 where new0: "ms_transitions m2 = ms_transitions m @ new0" "set new0 \<subseteq> {r}" by blast
  have "P (sst_name t) (sst_action t)" using Cons.prems(2) by simp
  with new new0 target names show ?case by (intro exI [of _ "new0 @ new"]) auto
qed simp



end
