(* ===== verification/Timers.thy ===== *)
theory Timers
  imports Prelude
begin

section \<open>Timers of the process framework (TimerBase of initat/tools/threading_tools.py)\<close>

text \<open>
  A process keeps a list of timer objects. The objects are changed in place while lists of them are
  rebuilt, so the model has a heap of entries and lists of their ids: \<open>tb_list\<close> is \<open>__timer_list\<close>. A callback
  may register, unregister and change timers; what it does is the list of these calls, each with the
  clock it reads. Registering appends to the list object that \<open>_handle_timer\<close> is iterating over,
  unregistering replaces the attribute by a new list and leaves the iteration on the old object.
\<close>

record timer_entry =
  te_step :: py_float
  te_next :: py_float
  te_cb :: string
  te_oneshot :: bool
  te_data :: "string option"

record timers =
  tb_heap :: "(nat \<times> timer_entry) list"
  tb_list :: "nat list"
  tb_next_timeout :: "py_float option"
  tb_loop_timer :: py_float
  tb_next_id :: nat

datatype timer_op =
    Register py_float string py_float bool "py_float option" bool "string option"
  | Unregister string
  | Change py_float string py_float bool

definition new_timer_base :: "py_float \<Rightarrow> nat \<Rightarrow> timers" where
  "new_timer_base loop_timer next_id =
     \<lparr>tb_heap = [], tb_list = [], tb_next_timeout = None, tb_loop_timer = loop_timer, tb_next_id = next_id\<rparr>"

definition te_of :: "timers \<Rightarrow> nat \<Rightarrow> timer_entry res" where
  "te_of tb i = dict_get i (tb_heap tb)"

text \<open>The minimum of the wake-up times; \<open>min\<close> of an empty list raises.\<close>

definition min_next :: "timers \<Rightarrow> py_float res" where
  "min_next tb = bind_r (mapM_r (te_of tb) (tb_list tb)) (\<lambda>es. if es = [] then Inl ValueError else Inr (Min (te_next ` set es)))"

definition register_timer ::
  "py_float \<Rightarrow> string \<Rightarrow> py_float \<Rightarrow> bool \<Rightarrow> py_float option \<Rightarrow> bool \<Rightarrow> string option \<Rightarrow> timers \<Rightarrow> timers res" where
  "register_timer now cb timeout instant first oneshot data tb =
     (let s_time = (if instant then now else now + (case first of Some f \<Rightarrow> f | None \<Rightarrow> timeout));
          e = \<lparr>te_step = timeout, te_next = s_time, te_cb = cb, te_oneshot = oneshot, te_data = data\<rparr>;
          i = tb_next_id tb;
          tb1 = tb\<lparr>tb_heap := AList.update i e (tb_heap tb), tb_list := tb_list tb @ [i], tb_next_id := i + 1\<rparr>
      in bind_r (min_next tb1) (\<lambda>n.
           Inr (tb1\<lparr>tb_next_timeout := Some n, tb_loop_timer := (if tb_loop_timer tb = 0 then 500 else tb_loop_timer tb)\<rparr>)))"

definition has_cb :: "timers \<Rightarrow> string \<Rightarrow> nat \<Rightarrow> bool" where
  "has_cb tb cb i = (case map_of (tb_heap tb) i of Some e \<Rightarrow> te_cb e = cb | None \<Rightarrow> False)"

definition unregister_timer :: "string \<Rightarrow> timers \<Rightarrow> timers" where
  "unregister_timer cb tb = tb\<lparr>tb_list := filter (\<lambda>i. \<not> has_cb tb cb i) (tb_list tb)\<rparr>"

definition change_entry :: "py_float \<Rightarrow> py_float \<Rightarrow> bool \<Rightarrow> nat \<Rightarrow> timers \<Rightarrow> timers" where
  "change_entry now timeout instant i tb =
     (case map_of (tb_heap tb) i of
        None \<Rightarrow> tb
      | Some e \<Rightarrow>
          let st = timeout / 1000 in
          tb\<lparr>tb_heap := AList.update i (e\<lparr>te_step := st, te_next := (if instant then now else now + st)\<rparr>) (tb_heap tb),
             tb_loop_timer := min (tb_loop_timer tb) (st * 1000)\<rparr>)"

definition change_timer :: "py_float \<Rightarrow> string \<Rightarrow> py_float \<Rightarrow> bool \<Rightarrow> timers \<Rightarrow> timers res" where
  "change_timer now cb timeout instant tb =
     (let tb1 = fold (change_entry now timeout instant) (filter (has_cb tb cb) (tb_list tb)) tb
      in bind_r (min_next tb1) (\<lambda>n. Inr (tb1\<lparr>tb_next_timeout := Some n\<rparr>)))"

subsection \<open>Handling the timers\<close>

text \<open>The state of the iteration: what is left of the list object, whether it still is the attribute, and the
  timers.\<close>

type_synonym iteration = "nat list \<times> bool \<times> timers"

fun apply_op :: "timer_op \<Rightarrow> iteration \<Rightarrow> iteration res" where
  "apply_op (Register now cb timeout instant first oneshot data) (rest, same, tb) =
     bind_r (register_timer now cb timeout instant first oneshot data tb) (\<lambda>tb'.
       Inr (if same then rest @ [tb_next_id tb] else rest, same, tb'))"
| "apply_op (Unregister cb) (rest, same, tb) = Inr (rest, False, unregister_timer cb tb)"
| "apply_op (Change now cb timeout instant) (rest, same, tb) =
     bind_r (change_timer now cb timeout instant tb) (\<lambda>tb'. Inr (rest, same, tb'))"

fun apply_ops :: "timer_op list \<Rightarrow> iteration \<Rightarrow> iteration res" where
  "apply_ops [] it = Inr it"
| "apply_ops (op1 # ops) it = bind_r (apply_op op1 it) (apply_ops ops)"

text \<open>\<open>while not timer_ok: increase_timer\<close>; it does not end when the step is not positive.\<close>

partial_function (option) bump :: "py_float \<Rightarrow> py_float \<Rightarrow> py_float \<Rightarrow> py_float option" where
  "bump st nxt cur = (if nxt \<ge> cur then Some nxt else bump st (nxt + st) cur)"

definition set_next :: "nat \<Rightarrow> py_float \<Rightarrow> timers \<Rightarrow> timers" where
  "set_next i nxt tb =
     (case map_of (tb_heap tb) i of None \<Rightarrow> tb
      | Some e \<Rightarrow> tb\<lparr>tb_heap := AList.update i (e\<lparr>te_next := nxt\<rparr>) (tb_heap tb)\<rparr>)"

text \<open>A due timer is called: its time is increased, then the callback runs. The result is what is appended to
  the new list.\<close>

definition call_timer ::
  "(timer_entry \<Rightarrow> timer_op list) \<Rightarrow> py_float \<Rightarrow> nat \<Rightarrow> timer_entry \<Rightarrow> iteration \<Rightarrow> (nat list \<times> iteration) res option" where
  "call_timer cbs cur i e it =
     (case it of (rest, same, tb) \<Rightarrow>
        let prev_ids = tb_list tb in
        case apply_ops (cbs e) (rest, same, set_next i (te_next e + te_step e) tb) of
          Inl x \<Rightarrow> Some (Inl x)
        | Inr (rest1, same1, tb1) \<Rightarrow>
            if te_oneshot e then Some (Inr ([], rest1, same1, tb1))
            else
              (case te_of tb1 i of
                 Inl x \<Rightarrow> Some (Inl x)
               | Inr e1 \<Rightarrow>
                   (case bump (te_step e1) (te_next e1) cur of
                      None \<Rightarrow> None
                    | Some nxt \<Rightarrow>
                        let tb2 = set_next i nxt tb1 in
                        Some (Inr (if i \<in> set (tb_list tb2) then [i]
                                   else filter (\<lambda>j. j \<notin> set prev_ids) (tb_list tb2), rest1, same1, tb2)))))"

text \<open>One round of the iteration: the end of the loop, or the new list and the iteration so far.\<close>

fun loop_round ::
  "(timer_entry \<Rightarrow> timer_op list) \<Rightarrow> py_float \<Rightarrow> nat list \<Rightarrow> iteration \<Rightarrow>
     ((nat list \<times> timers) res + (nat list \<times> iteration)) option" where
  "loop_round cbs cur new_tl ([], same, tb) = Some (Inl (Inr (new_tl, tb)))"
| "loop_round cbs cur new_tl (i # rest, same, tb) =
     (case te_of tb i of
        Inl x \<Rightarrow> Some (Inl (Inl x))
      | Inr e \<Rightarrow>
          if te_next e - cur \<le> 0 then
            (case call_timer cbs cur i e (rest, same, tb) of
               None \<Rightarrow> None
             | Some (Inl x) \<Rightarrow> Some (Inl (Inl x))
             | Some (Inr (add, it')) \<Rightarrow> Some (Inr (new_tl @ add, it')))
          else Some (Inr (new_tl @ [i], rest, same, tb)))"

partial_function (option) handle_loop ::
  "(timer_entry \<Rightarrow> timer_op list) \<Rightarrow> py_float \<Rightarrow> nat list \<Rightarrow> iteration \<Rightarrow> (nat list \<times> timers) res option" where
  "handle_loop cbs cur new_tl it =
     Option.bind (loop_round cbs cur new_tl it) (\<lambda>r.
       case r of Inl x \<Rightarrow> Some x | Inr n \<Rightarrow> handle_loop cbs cur (fst n) (snd n))"

definition handle_timer :: "(timer_entry \<Rightarrow> timer_op list) \<Rightarrow> py_float \<Rightarrow> timers \<Rightarrow> timers res option" where
  "handle_timer cbs cur tb =
     (case handle_loop cbs cur [] (tb_list tb, True, tb) of
        None \<Rightarrow> None
      | Some (Inl x) \<Rightarrow> Some (Inl x)
      | Some (Inr (new_tl, tb1)) \<Rightarrow>
          let tb2 = tb1\<lparr>tb_list := new_tl\<rparr> in
          Some (if new_tl \<noteq> [] then bind_r (min_next tb2) (\<lambda>n. Inr (tb2\<lparr>tb_next_timeout := Some n\<rparr>))
                else Inr (tb2\<lparr>tb_next_timeout := None\<rparr>)))"

declare handle_loop.simps [code] bump.simps [code]

subsection \<open>The wake-up times stay on their grid\<close>

lemma bump_at: "cur \<le> nxt \<Longrightarrow> bump st nxt cur = Some nxt"
  by (subst bump.simps) simp

lemma bump_go: "nxt < cur \<Longrightarrow> bump st nxt cur = bump st (nxt + st) cur"
  by (subst bump.simps) simp

lemma bump_steps:
  assumes "\<forall>j < k. nxt + of_nat j * st < cur" and "cur \<le> nxt + of_nat k * st"
  shows "bump st nxt cur = Some (nxt + of_nat k * st)"
  using assms
proof (induction k arbitrary: nxt)
  case 0
  then show ?case by (simp add: bump_at)
next
  case (Suc k)
  from Suc.prems(1) have "nxt < cur" by (metis add.right_neutral mult_zero_left of_nat_0 zero_less_Suc)
  moreover have "bump st (nxt + st) cur = Some ((nxt + st) + of_nat k * st)"
  proof (rule Suc.IH)
    show "\<forall>j < k. (nxt + st) + of_nat j * st < cur"
    proof (intro allI impI)
      fix j assume "j < k"
      then have "nxt + of_nat (Suc j) * st < cur" using Suc.prems(1) by blast
      then show "(nxt + st) + of_nat j * st < cur" by (simp add: algebra_simps)
    qed
    show "cur \<le> (nxt + st) + of_nat k * st" using Suc.prems(2) by (simp add: algebra_simps)
  qed
  ultimately show ?case by (simp add: bump_go algebra_simps)
qed

text \<open>The number of steps needed.\<close>

definition bumps :: "py_float \<Rightarrow> py_float \<Rightarrow> py_float \<Rightarrow> nat" where
  "bumps st nxt cur = nat \<lceil>(cur - nxt) / st\<rceil>"

lemma bump_closed:
  assumes "0 < st"
  shows "bump st nxt cur = Some (nxt + of_nat (bumps st nxt cur) * st)"
proof (rule bump_steps)
  let ?q = "(cur - nxt) / st"
  show "\<forall>j < bumps st nxt cur. nxt + of_nat j * st < cur"
  proof (intro allI impI)
    fix j assume "j < bumps st nxt cur"
    then have "int j < \<lceil>?q\<rceil>" by (simp add: bumps_def zless_nat_conj)
    then have "of_nat j < ?q" by (simp add: less_ceiling_iff)
    with assms show "nxt + of_nat j * st < cur" by (simp add: field_simps)
  qed
  have "?q \<le> of_nat (bumps st nxt cur)" unfolding bumps_def by linarith
  with assms show "cur \<le> nxt + of_nat (bumps st nxt cur) * st" by (simp add: field_simps)
qed

subsection \<open>Callbacks that leave the timers alone\<close>

definition wf_timers :: "timers \<Rightarrow> bool" where
  "wf_timers tb \<longleftrightarrow> distinct (tb_list tb) \<and> (\<forall>i \<in> set (tb_list tb). i < tb_next_id tb \<and>
     (\<exists>e. map_of (tb_heap tb) i = Some e \<and> (te_oneshot e \<or> 0 < te_step e)))"

definition fired :: "py_float \<Rightarrow> timer_entry \<Rightarrow> timer_entry" where
  "fired cur e = (let n = te_next e + te_step e in
     e\<lparr>te_next := (if te_oneshot e then n else n + of_nat (bumps (te_step e) n cur) * te_step e)\<rparr>)"

definition is_due :: "py_float \<Rightarrow> timers \<Rightarrow> nat \<Rightarrow> bool" where
  "is_due cur tb i = (case map_of (tb_heap tb) i of Some e \<Rightarrow> te_next e \<le> cur | None \<Rightarrow> False)"

definition is_oneshot :: "timers \<Rightarrow> nat \<Rightarrow> bool" where
  "is_oneshot tb i = (case map_of (tb_heap tb) i of Some e \<Rightarrow> te_oneshot e | None \<Rightarrow> False)"

lemma handle_loop_Nil: "handle_loop cbs cur new_tl ([], same, tb) = Some (Inr (new_tl, tb))"
  by (subst handle_loop.simps) simp

lemma handle_loop_idle:
  "map_of (tb_heap tb) i = Some e \<Longrightarrow> cur < te_next e \<Longrightarrow>
   handle_loop cbs cur new_tl (i # rest, same, tb) = handle_loop cbs cur (new_tl @ [i]) (rest, same, tb)"
  by (subst handle_loop.simps) (simp add: te_of_def)

lemma handle_loop_due:
  "map_of (tb_heap tb) i = Some e \<Longrightarrow> te_next e \<le> cur \<Longrightarrow> call_timer cbs cur i e (rest, same, tb) = Some (Inr (add, it')) \<Longrightarrow>
   handle_loop cbs cur new_tl (i # rest, same, tb) = handle_loop cbs cur (new_tl @ add) it'"
  by (subst handle_loop.simps) (simp add: te_of_def)

lemma call_timer_quiet:
  assumes "map_of (tb_heap tb) i = Some e" and "te_oneshot e \<or> 0 < te_step e" and "i \<in> set (tb_list tb)" and "cbs e = []"
  shows "\<exists>tb'. call_timer cbs cur i e (rest, same, tb) = Some (Inr (if te_oneshot e then [] else [i], rest, same, tb')) \<and>
     map_of (tb_heap tb') = (map_of (tb_heap tb))(i \<mapsto> fired cur e) \<and> tb_list tb' = tb_list tb \<and> tb_next_id tb' = tb_next_id tb"
  using assms
  by (cases "te_oneshot e")
    (auto simp: call_timer_def Let_def set_next_def te_of_def dict_get_def update_conv' bump_closed fired_def fun_eq_iff)

lemma handle_loop_quiet:
  "distinct rest \<Longrightarrow> set rest \<subseteq> set (tb_list tb) \<Longrightarrow> \<forall>i \<in> set rest. \<exists>e. map_of (tb_heap tb) i = Some e \<and> (te_oneshot e \<or> 0 < te_step e) \<Longrightarrow>
   \<exists>tb'. handle_loop (\<lambda>_. []) cur new_tl (rest, True, tb) =
       Some (Inr (new_tl @ filter (\<lambda>i. \<not> (is_due cur tb i \<and> is_oneshot tb i)) rest, tb')) \<and>
     tb_list tb' = tb_list tb \<and>
     (\<forall>j. map_of (tb_heap tb') j =
        (if j \<in> set rest \<and> is_due cur tb j then map_option (fired cur) (map_of (tb_heap tb) j) else map_of (tb_heap tb) j))"
proof (induction rest arbitrary: new_tl tb)
  case Nil
  then show ?case by (simp add: handle_loop_Nil)
next
  case (Cons i rest)
  from Cons.prems(3) obtain e where e: "map_of (tb_heap tb) i = Some e" "te_oneshot e \<or> 0 < te_step e" by auto
  show ?case
  proof (cases "te_next e \<le> cur")
    case True
    from Cons.prems(2) call_timer_quiet [OF e, of "\<lambda>_. []" cur rest True]
    obtain tb1 where c: "call_timer (\<lambda>_. []) cur i e (rest, True, tb) = Some (Inr (if te_oneshot e then [] else [i], rest, True, tb1))"
      "map_of (tb_heap tb1) = (map_of (tb_heap tb))(i \<mapsto> fired cur e)" "tb_list tb1 = tb_list tb" by auto
    have other: "map_of (tb_heap tb1) j = map_of (tb_heap tb) j" if "j \<in> set rest" for j using Cons.prems(1) that c(2) by auto
    then have ent: "\<forall>j \<in> set rest. \<exists>e. map_of (tb_heap tb1) j = Some e \<and> (te_oneshot e \<or> 0 < te_step e)"
      using Cons.prems(3) by auto
    have same: "is_due cur tb1 j = is_due cur tb j" "is_oneshot tb1 j = is_oneshot tb j" if "j \<in> set rest" for j
      using other [OF that] by (simp_all add: is_due_def is_oneshot_def)
    then have f: "filter (\<lambda>j. \<not> (is_due cur tb1 j \<and> is_oneshot tb1 j)) rest = filter (\<lambda>j. \<not> (is_due cur tb j \<and> is_oneshot tb j)) rest"
      by (intro filter_cong) simp_all
    from Cons.IH [OF _ _ ent, of "new_tl @ (if te_oneshot e then [] else [i])"] Cons.prems(1, 2) c(3)
    obtain tb2 where t2: "handle_loop (\<lambda>_. []) cur (new_tl @ (if te_oneshot e then [] else [i])) (rest, True, tb1) =
       Some (Inr ((new_tl @ (if te_oneshot e then [] else [i])) @ filter (\<lambda>j. \<not> (is_due cur tb1 j \<and> is_oneshot tb1 j)) rest, tb2))"
      "tb_list tb2 = tb_list tb1" "\<forall>j. map_of (tb_heap tb2) j = (if j \<in> set rest \<and> is_due cur tb1 j then map_option (fired cur) (map_of (tb_heap tb1) j)
          else map_of (tb_heap tb1) j)" by auto
    have "is_due cur tb i" "is_oneshot tb i = te_oneshot e" using True e by (simp_all add: is_due_def is_oneshot_def)
    with handle_loop_due [OF e(1) True c(1)] t2(1) f
    have "handle_loop (\<lambda>_. []) cur new_tl (i # rest, True, tb) =
       Some (Inr (new_tl @ filter (\<lambda>i. \<not> (is_due cur tb i \<and> is_oneshot tb i)) (i # rest), tb2))" by simp
    moreover have "map_of (tb_heap tb2) j = (if j \<in> set (i # rest) \<and> is_due cur tb j then map_option (fired cur) (map_of (tb_heap tb) j)
        else map_of (tb_heap tb) j)" for j
      using t2(3) [rule_format, of j] c(2) e(1) same(1) [of j] Cons.prems(1) \<open>is_due cur tb i\<close> by auto
    ultimately show ?thesis using t2(2) c(3) by auto
  next
    case False
    then have nd: "\<not> is_due cur tb i" using e by (simp add: is_due_def)
    from Cons.IH [of tb "new_tl @ [i]"] Cons.prems obtain tb2 where
      "handle_loop (\<lambda>_. []) cur (new_tl @ [i]) (rest, True, tb) =
         Some (Inr ((new_tl @ [i]) @ filter (\<lambda>i. \<not> (is_due cur tb i \<and> is_oneshot tb i)) rest, tb2))"
      "tb_list tb2 = tb_list tb" "\<forall>j. map_of (tb_heap tb2) j =
        (if j \<in> set rest \<and> is_due cur tb j then map_option (fired cur) (map_of (tb_heap tb) j) else map_of (tb_heap tb) j)" by auto
    with handle_loop_idle [OF e(1), of cur] False nd show ?thesis by auto
  qed
qed

lemma mapM_r_total: "\<forall>x \<in> set xs. f x = Inr (g x) \<Longrightarrow> mapM_r f xs = Inr (map g xs)"
  by (induction xs) auto

lemma min_next_Inr:
  assumes "tb_list tb \<noteq> []" and "\<forall>i \<in> set (tb_list tb). map_of (tb_heap tb) i \<noteq> None"
  shows "min_next tb = Inr (Min ((\<lambda>i. te_next (the (map_of (tb_heap tb) i))) ` set (tb_list tb)))"
proof -
  have "mapM_r (te_of tb) (tb_list tb) = Inr (map (\<lambda>i. the (map_of (tb_heap tb) i)) (tb_list tb))"
    using assms(2) by (intro mapM_r_total) (auto simp: te_of_def dict_get_def)
  with assms(1) show ?thesis by (simp add: min_next_def image_image)
qed

lemma fired_next:
  assumes "te_oneshot e \<or> 0 < te_step e" and "te_next e \<le> cur" and "\<not> te_oneshot e"
  shows "\<exists>k > 0. te_next (fired cur e) = te_next e + of_nat k * te_step e \<and> cur \<le> te_next (fired cur e) \<and>
    (\<forall>j. 0 < j \<and> cur \<le> te_next e + of_nat j * te_step e \<longrightarrow> k \<le> j)"
proof -
  let ?n = "te_next e + te_step e"
  let ?b = "bumps (te_step e) ?n cur"
  from assms have st: "0 < te_step e" by blast
  have eq: "te_next (fired cur e) = te_next e + of_nat (Suc ?b) * te_step e"
    using assms(3) by (simp add: fired_def Let_def algebra_simps)
  have "(cur - ?n) / te_step e \<le> of_nat ?b" unfolding bumps_def by linarith
  with st have ge: "cur \<le> te_next (fired cur e)" unfolding eq by (simp add: field_simps)
  have "Suc ?b \<le> j" if "0 < j" "cur \<le> te_next e + of_nat j * te_step e" for j
  proof -
    from that obtain i where i: "j = Suc i" by (cases j) auto
    with that(2) st have "(cur - ?n) / te_step e \<le> of_nat i" by (simp add: field_simps)
    then show ?thesis unfolding i bumps_def by (simp add: ceiling_le_iff nat_le_iff)
  qed
  with eq ge show ?thesis by (intro exI [of _ "Suc ?b"]) simp
qed

text \<open>With callbacks that do not touch the timers one round returns, keeps exactly the timers that are not
  due or periodic, in their order, moves every due periodic timer by the least positive number of its steps
  that brings it to the current time or later, leaves the others alone, and wakes up next at the earliest
  remaining time.\<close>

theorem handle_timer_round:
  assumes "wf_timers tb"
  shows "\<exists>tb'. handle_timer (\<lambda>_. []) cur tb = Some (Inr tb') \<and>
    tb_list tb' = filter (\<lambda>i. \<not> (is_due cur tb i \<and> is_oneshot tb i)) (tb_list tb) \<and>
    tb_next_timeout tb' = (if tb_list tb' = [] then None
       else Some (Min ((\<lambda>i. te_next (the (map_of (tb_heap tb') i))) ` set (tb_list tb')))) \<and>
    (\<forall>i \<in> set (tb_list tb'). \<exists>e e'. map_of (tb_heap tb) i = Some e \<and> map_of (tb_heap tb') i = Some e' \<and>
       (if te_next e \<le> cur then e' = e\<lparr>te_next := te_next e'\<rparr> \<and>
          (\<exists>k > 0. te_next e' = te_next e + of_nat k * te_step e \<and> cur \<le> te_next e' \<and>
             (\<forall>j. 0 < j \<and> cur \<le> te_next e + of_nat j * te_step e \<longrightarrow> k \<le> j))
        else e' = e))"
proof -
  let ?keep = "filter (\<lambda>i. \<not> (is_due cur tb i \<and> is_oneshot tb i)) (tb_list tb)"
  from assms obtain tb1 where l: "handle_loop (\<lambda>_. []) cur [] (tb_list tb, True, tb) = Some (Inr (?keep, tb1))"
    "\<forall>j. map_of (tb_heap tb1) j = (if j \<in> set (tb_list tb) \<and> is_due cur tb j
        then map_option (fired cur) (map_of (tb_heap tb) j) else map_of (tb_heap tb) j)"
    using handle_loop_quiet [of "tb_list tb" tb cur "[]"] by (auto simp: wf_timers_def)
  define tb2 where "tb2 = tb1\<lparr>tb_list := ?keep\<rparr>"
  have ent: "\<exists>e e'. map_of (tb_heap tb) i = Some e \<and> map_of (tb_heap tb2) i = Some e' \<and>
       (if te_next e \<le> cur then e' = e\<lparr>te_next := te_next e'\<rparr> \<and>
          (\<exists>k > 0. te_next e' = te_next e + of_nat k * te_step e \<and> cur \<le> te_next e' \<and>
             (\<forall>j. 0 < j \<and> cur \<le> te_next e + of_nat j * te_step e \<longrightarrow> k \<le> j))
        else e' = e)" if i: "i \<in> set ?keep" for i
  proof -
    from i assms obtain e where e: "map_of (tb_heap tb) i = Some e" "te_oneshot e \<or> 0 < te_step e" "i \<in> set (tb_list tb)"
      by (auto simp: wf_timers_def)
    show ?thesis
    proof (cases "te_next e \<le> cur")
      case True
      then have "\<not> te_oneshot e" using i e by (auto simp: is_due_def is_oneshot_def)
      have "map_of (tb_heap tb2) i = Some (fired cur e)" using l(2) e True by (simp add: tb2_def is_due_def)
      moreover have "fired cur e = e\<lparr>te_next := te_next (fired cur e)\<rparr>" by (simp add: fired_def Let_def)
      ultimately show ?thesis using True fired_next [OF e(2) True \<open>\<not> te_oneshot e\<close>] e(1) by auto
    next
      case False
      with l(2) e show ?thesis by (simp add: tb2_def is_due_def)
    qed
  qed
  have "min_next tb2 = Inr (Min ((\<lambda>i. te_next (the (map_of (tb_heap tb2) i))) ` set ?keep))" if "?keep \<noteq> []"
    using min_next_Inr [of tb2] that ent by (fastforce simp: tb2_def)
  then have h: "handle_timer (\<lambda>_. []) cur tb = Some (Inr (tb2\<lparr>tb_next_timeout := (if ?keep = [] then None
       else Some (Min ((\<lambda>i. te_next (the (map_of (tb_heap tb2) i))) ` set ?keep)))\<rparr>))"
    by (simp add: handle_timer_def l(1) Let_def tb2_def)
  show ?thesis
    unfolding h by (rule exI, intro conjI, rule refl) (use ent in \<open>simp_all add: tb2_def\<close>)
qed

definition demo_timer :: "py_float \<Rightarrow> string \<Rightarrow> timer_entry" where
  "demo_timer n cb = \<lparr>te_step = 5, te_next = n, te_cb = cb, te_oneshot = False, te_data = None\<rparr>"

definition demo_timers :: timers where
  "demo_timers = \<lparr>tb_heap = [(0, demo_timer 10 ''a''), (1, demo_timer 90 ''b'')], tb_list = [0, 1], tb_next_timeout = Some 10,
     tb_loop_timer = 500, tb_next_id = 2\<rparr>"

lemma demo_timer_cb: "te_cb (demo_timer n cb) = cb"
  by (simp add: demo_timer_def)

lemma demo_timers_wf: "wf_timers demo_timers"
  by (simp add: wf_timers_def demo_timers_def demo_timer_def)

theorem handle_timer_round_witness:
  "\<exists>tb'. handle_timer (\<lambda>_. []) 22 demo_timers = Some (Inr tb') \<and> tb_list tb' = [0, 1]"
  using handle_timer_round [OF demo_timers_wf, of 22] by (auto simp: demo_timers_def is_due_def is_oneshot_def demo_timer_def)

subsection \<open>Callbacks that change the timers\<close>

text \<open>A timer that is unregistered by the callback of another timer of the same round is not removed: the
  iteration goes on over the old list, and a timer that is not due is taken over from there.\<close>

theorem unregister_lost:
  assumes "tb_list tb = [a, b]" and "map_of (tb_heap tb) a = Some ea" and "map_of (tb_heap tb) b = Some eb" and "a \<noteq> b"
    and "te_next ea \<le> cur" and "cur < te_next eb" and "\<not> te_oneshot ea" and "0 < te_step ea" and "te_cb ea \<noteq> te_cb eb"
  shows "\<exists>tb'. handle_timer (\<lambda>e. if te_cb e = te_cb ea then [Unregister (te_cb eb)] else []) cur tb = Some (Inr tb') \<and>
    tb_list (unregister_timer (te_cb eb) tb) = [a] \<and> tb_list tb' = [a, b]"
proof -
  let ?cbs = "\<lambda>e. if te_cb e = te_cb ea then [Unregister (te_cb eb)] else []"
  have u: "tb_list (unregister_timer (te_cb eb) tb) = [a]" using assms by (simp add: unregister_timer_def has_cb_def)
  obtain tb1 where c: "call_timer ?cbs cur a ea ([b], True, tb) = Some (Inr ([a], [b], False, tb1))"
    "map_of (tb_heap tb1) = (map_of (tb_heap tb))(a \<mapsto> fired cur ea)"
    using assms by (auto simp: call_timer_def Let_def set_next_def te_of_def dict_get_def update_conv' bump_closed
        fired_def fun_eq_iff unregister_timer_def has_cb_def)
  have "handle_loop ?cbs cur [] ([a, b], True, tb) = handle_loop ?cbs cur [a] ([b], False, tb1)"
    using handle_loop_due [OF assms(2, 5) c(1)] by simp
  also have "\<dots> = Some (Inr ([a, b], tb1))"
    using handle_loop_idle [of tb1 b eb cur ?cbs "[a]" "[]" False] c(2) assms by (simp add: handle_loop_Nil)
  finally have l: "handle_loop ?cbs cur [] ([a, b], True, tb) = Some (Inr ([a, b], tb1))" .
  have "min_next (tb1\<lparr>tb_list := [a, b]\<rparr>) = Inr (Min ((\<lambda>i. te_next (the (map_of (tb_heap tb1) i))) ` set [a, b]))"
    using min_next_Inr [of "tb1\<lparr>tb_list := [a, b]\<rparr>"] c(2) assms by simp
  with l assms(1) u show ?thesis by (simp add: handle_timer_def Let_def)
qed

theorem unregister_lost_witness:
  "\<exists>tb'. handle_timer (\<lambda>e. if te_cb e = ''a'' then [Unregister ''b''] else []) 12 demo_timers = Some (Inr tb') \<and> tb_list tb' = [0, 1]"
  using unregister_lost [of demo_timers 0 1 "demo_timer 10 ''a''" "demo_timer 90 ''b''" 12, unfolded demo_timer_cb]
  by (auto simp: demo_timers_def demo_timer_def)

lemma handle_loop_skip:
  "\<forall>i \<in> set xs. \<exists>e. map_of (tb_heap tb) i = Some e \<and> cur < te_next e \<Longrightarrow>
   handle_loop cbs cur new_tl (xs @ ys, same, tb) = handle_loop cbs cur (new_tl @ xs) (ys, same, tb)"
proof (induction xs arbitrary: new_tl)
  case (Cons x xs)
  then obtain e where "map_of (tb_heap tb) x = Some e" "cur < te_next e" by auto
  with Cons handle_loop_idle [of tb x e cur cbs new_tl "xs @ ys" same] show ?case by simp
qed simp

lemma timer_restart_call:
  assumes "wf_timers tb" and "tb_list tb = pre @ a # post" and "map_of (tb_heap tb) a = Some ea"
    and "te_next ea \<le> cur" and "\<not> te_oneshot ea"
    and "\<forall>i \<in> set (pre @ post). \<exists>e. map_of (tb_heap tb) i = Some e \<and> cur < te_next e \<and> te_cb e \<noteq> te_cb ea"
    and "cbs = (\<lambda>e. if te_cb e = te_cb ea then [Unregister (te_cb ea), Register now (te_cb ea) timeout True None False None] else [])"
  shows "\<exists>tb4. call_timer cbs cur a ea (post, True, tb) = Some (Inr ([tb_next_id tb], post, False, tb4)) \<and>
    map_of (tb_heap tb4) (tb_next_id tb) =
      Some \<lparr>te_step = timeout, te_next = now, te_cb = te_cb ea, te_oneshot = False, te_data = None\<rparr> \<and>
    (\<forall>i \<in> set (pre @ post). map_of (tb_heap tb4) i = map_of (tb_heap tb) i)"
proof -
  let ?n = "tb_next_id tb"
  let ?new = "\<lparr>te_step = timeout, te_next = now, te_cb = te_cb ea, te_oneshot = False, te_data = None\<rparr>"
  define tb0 where "tb0 = set_next a (te_next ea + te_step ea) tb"
  have heap0: "map_of (tb_heap tb0) = (map_of (tb_heap tb))(a \<mapsto> ea\<lparr>te_next := te_next ea + te_step ea\<rparr>)" "tb_list tb0 = tb_list tb"
    "tb_next_id tb0 = ?n" using assms(3) by (simp_all add: tb0_def set_next_def update_conv')
  from assms(1, 2, 3, 5) have ids: "a < ?n" "\<forall>i \<in> set (pre @ post). i < ?n \<and> i \<noteq> a" "0 < te_step ea"
    by (auto simp: wf_timers_def)
  define tb1 where "tb1 = unregister_timer (te_cb ea) tb0"
  have keep: "filter (\<lambda>i. \<not> has_cb tb0 (te_cb ea) i) xs = xs" if "set xs \<subseteq> set (pre @ post)" for xs
    using that assms(6) heap0(1) ids(2) by (intro filter_True) (fastforce simp: has_cb_def)
  have "has_cb tb0 (te_cb ea) a" using heap0(1) by (simp add: has_cb_def)
  then have list1: "tb_list tb1 = pre @ post" using assms(2) heap0(2) keep [of pre] keep [of post] by (simp add: tb1_def unregister_timer_def)
  have heap1: "tb_heap tb1 = tb_heap tb0" "tb_next_id tb1 = ?n" using heap0 by (simp_all add: tb1_def unregister_timer_def)
  define tb2 where "tb2 = tb1\<lparr>tb_heap := AList.update ?n ?new (tb_heap tb1), tb_list := pre @ post @ [?n], tb_next_id := ?n + 1\<rparr>"
  have "map_of (tb_heap tb2) i \<noteq> None" if "i \<in> set (tb_list tb2)" for i
    using that assms(6) heap0(1) heap1 by (fastforce simp: tb2_def update_conv')
  then have "min_next tb2 = Inr (Min ((\<lambda>i. te_next (the (map_of (tb_heap tb2) i))) ` set (tb_list tb2)))"
    by (intro min_next_Inr) (simp_all add: tb2_def)
  then obtain tb3 where r: "register_timer now (te_cb ea) timeout True None False None tb1 = Inr tb3"
    "tb_list tb3 = pre @ post @ [?n]" "tb_heap tb3 = tb_heap tb2"
    using heap1(2) list1 by (simp add: register_timer_def Let_def tb2_def)
  have heap3: "map_of (tb_heap tb3) = (map_of (tb_heap tb0))(?n \<mapsto> ?new)" using r(3) heap1 by (simp add: tb2_def update_conv')
  obtain nxt where b: "bump (te_step ea) (te_next ea + te_step ea) cur = Some nxt" using bump_closed [OF ids(3)] by blast
  have e3: "te_of tb3 a = Inr (ea\<lparr>te_next := te_next ea + te_step ea\<rparr>)" using heap3 heap0(1) ids(1) by (simp add: te_of_def)
  define tb4 where "tb4 = set_next a nxt tb3"
  have l4: "tb_list tb4 = pre @ post @ [?n]" and h4: "\<And>j. j \<noteq> a \<Longrightarrow> map_of (tb_heap tb4) j = map_of (tb_heap tb3) j"
    using r(2) by (auto simp: tb4_def set_next_def update_conv' split: option.splits)
  have "filter (\<lambda>j. j \<notin> set (tb_list tb)) (tb_list tb4) = [?n]"
    using assms(2) l4 ids by (auto simp: filter_empty_conv)
  then have c: "call_timer cbs cur a ea (post, True, tb) = Some (Inr ([?n], post, False, tb4))"
    using assms(5, 7) r(1) e3 b l4 ids heap1(2)
    by (auto simp: call_timer_def Let_def tb0_def [symmetric] tb1_def [symmetric] tb4_def [symmetric])
  have rest: "\<forall>i \<in> set (pre @ post). map_of (tb_heap tb4) i = map_of (tb_heap tb) i"
    using h4 heap3 heap0(1) ids by auto
  have "map_of (tb_heap tb4) ?n = Some ?new" using h4 [of ?n] heap3 ids(1) by simp
  with c rest show ?thesis by blast
qed

text \<open>A timer whose callback unregisters it and registers the same callback again is replaced by the new one
  in its place and nothing else changes; this is how the meta-server restarts its transition timer from
  within that timer.\<close>

theorem timer_restart:
  assumes "wf_timers tb" and "tb_list tb = pre @ a # post" and "map_of (tb_heap tb) a = Some ea"
    and "te_next ea \<le> cur" and "\<not> te_oneshot ea"
    and "\<forall>i \<in> set (pre @ post). \<exists>e. map_of (tb_heap tb) i = Some e \<and> cur < te_next e \<and> te_cb e \<noteq> te_cb ea"
    and "cbs = (\<lambda>e. if te_cb e = te_cb ea then [Unregister (te_cb ea), Register now (te_cb ea) timeout True None False None] else [])"
  shows "\<exists>tb'. handle_timer cbs cur tb = Some (Inr tb') \<and> tb_list tb' = pre @ tb_next_id tb # post \<and>
    map_of (tb_heap tb') (tb_next_id tb) =
      Some \<lparr>te_step = timeout, te_next = now, te_cb = te_cb ea, te_oneshot = False, te_data = None\<rparr> \<and>
    (\<forall>i \<in> set (pre @ post). map_of (tb_heap tb') i = map_of (tb_heap tb) i)"
proof -
  let ?n = "tb_next_id tb"
  from timer_restart_call [OF assms] obtain tb4 where
    c: "call_timer cbs cur a ea (post, True, tb) = Some (Inr ([?n], post, False, tb4))"
    and new4: "map_of (tb_heap tb4) ?n = Some \<lparr>te_step = timeout, te_next = now, te_cb = te_cb ea, te_oneshot = False, te_data = None\<rparr>"
    and rest: "\<forall>i \<in> set (pre @ post). map_of (tb_heap tb4) i = map_of (tb_heap tb) i" by blast
  have p: "handle_loop cbs cur [] (pre @ a # post, True, tb) = handle_loop cbs cur pre (a # post, True, tb)"
    using handle_loop_skip [of pre tb cur cbs "[]" "a # post" True] assms(6) by auto
  have q: "handle_loop cbs cur (pre @ [?n]) (post, False, tb4) = Some (Inr (pre @ ?n # post, tb4))"
    using handle_loop_skip [of post tb4 cur cbs "pre @ [?n]" "[]" False] assms(6) rest by (auto simp: handle_loop_Nil)
  have "handle_loop cbs cur [] (tb_list tb, True, tb) = Some (Inr (pre @ ?n # post, tb4))"
    unfolding assms(2) p handle_loop_due [OF assms(3, 4) c] by (rule q)
  moreover have "min_next (tb4\<lparr>tb_list := pre @ ?n # post\<rparr>) =
      Inr (Min ((\<lambda>i. te_next (the (map_of (tb_heap tb4) i))) ` set (pre @ ?n # post)))"
    using min_next_Inr [of "tb4\<lparr>tb_list := pre @ ?n # post\<rparr>"] rest new4 assms(6) by fastforce
  ultimately show ?thesis using rest new4 by (simp add: handle_timer_def Let_def)
qed

theorem timer_restart_witness:
  "\<exists>tb'. handle_timer (\<lambda>e. if te_cb e = ''a'' then [Unregister ''a'', Register 13 ''a'' 5 True None False None] else []) 12 demo_timers
       = Some (Inr tb') \<and> tb_list tb' = [2, 1]"
  using timer_restart [OF demo_timers_wf, of "[]" 0 "[1]" "demo_timer 10 ''a''" 12 _ 13 5, unfolded demo_timer_cb]
  by (auto simp: demo_timers_def demo_timer_def)

end
