(* ===== verification/Server_Timers.thy ===== *)
theory Server_Timers
  imports Meta_Server Timers
begin

section \<open>The transition timer and its flag\<close>

text \<open>
  The meta-server remembers in a flag whether its transition timer is registered and guards the calls of
  the timer list with it. The interface it relies on is a locale: registering adds one timer with the
  callback, unregistering removes all of them. It is interpreted on the timer list of the process
  framework, and the flag of \<open>Meta_Server\<close> refines it.
\<close>

locale timer_service =
  fixes add_timer :: "'t \<Rightarrow> 't res" and remove_timer :: "'t \<Rightarrow> 't" and num_timers :: "'t \<Rightarrow> nat" and timers_ok :: "'t \<Rightarrow> bool"
  assumes add_ok: "timers_ok t \<Longrightarrow> \<exists>t'. add_timer t = Inr t' \<and> timers_ok t' \<and> num_timers t' = Suc (num_timers t)"
    and remove_ok: "timers_ok t \<Longrightarrow> timers_ok (remove_timer t) \<and> num_timers (remove_timer t) = 0"
begin

text \<open>What a client with a flag may rely on: guarded calls never fail and keep one timer per set flag.\<close>

lemma guarded_add:
  assumes "timers_ok t" and "num_timers t = (if flag then 1 else 0)"
  shows "\<exists>t'. (if \<not> flag then add_timer t else Inr t) = Inr t' \<and> timers_ok t' \<and> num_timers t' = 1"
  using assms add_ok [of t] by auto

lemma guarded_remove:
  assumes "timers_ok t" and "num_timers t = (if flag then 1 else 0)"
  shows "timers_ok (if flag then remove_timer t else t) \<and> num_timers (if flag then remove_timer t else t) = 0"
  using assms remove_ok [of t] by auto

end

definition TRANSITION_CB :: string where
  "TRANSITION_CB = ''_handle_transition''"

definition add_transition_timer :: "py_float \<Rightarrow> timers \<Rightarrow> timers res" where
  "add_transition_timer now = register_timer now TRANSITION_CB 5 True None False None"

definition count_cb :: "string \<Rightarrow> timers \<Rightarrow> nat" where
  "count_cb cb tb = length (filter (has_cb tb cb) (tb_list tb))"

lemma register_timer_ok:
  assumes "wf_timers tb" and "0 < timeout"
  shows "\<exists>tb'. register_timer now cb timeout instant first oneshot data tb = Inr tb' \<and> wf_timers tb' \<and>
    (\<forall>cb'. count_cb cb' tb' = (if cb' = cb then Suc (count_cb cb' tb) else count_cb cb' tb))"
proof -
  let ?i = "tb_next_id tb"
  let ?e = "\<lparr>te_step = timeout, te_next = (if instant then now else now + (case first of Some f \<Rightarrow> f | None \<Rightarrow> timeout)),
     te_cb = cb, te_oneshot = oneshot, te_data = data\<rparr>"
  let ?tb1 = "tb\<lparr>tb_heap := AList.update ?i ?e (tb_heap tb), tb_list := tb_list tb @ [?i], tb_next_id := ?i + 1\<rparr>"
  have old: "\<forall>j \<in> set (tb_list tb). j < ?i \<and> (\<exists>e. map_of (tb_heap tb) j = Some e \<and> (te_oneshot e \<or> 0 < te_step e))"
    using assms(1) by (simp add: wf_timers_def)
  have "map_of (tb_heap ?tb1) j \<noteq> None" if "j \<in> set (tb_list ?tb1)" for j using that old by (auto simp: update_conv')
  from min_next_Inr [of ?tb1] this obtain n where n: "min_next ?tb1 = Inr n" by auto
  define tb' where "tb' = ?tb1\<lparr>tb_next_timeout := Some n, tb_loop_timer := (if tb_loop_timer tb = 0 then 500 else tb_loop_timer tb)\<rparr>"
  have "register_timer now cb timeout instant first oneshot data tb = Inr tb'" using n by (simp add: register_timer_def Let_def tb'_def)
  moreover have "wf_timers tb'" using assms old by (auto simp: wf_timers_def tb'_def update_conv')
  moreover have "count_cb cb' tb' = (if cb' = cb then Suc (count_cb cb' tb) else count_cb cb' tb)" for cb'
  proof -
    have "filter (has_cb tb' cb') (tb_list tb) = filter (has_cb tb cb') (tb_list tb)"
      using old by (intro filter_cong) (auto simp: has_cb_def tb'_def update_conv')
    then show ?thesis by (simp add: count_cb_def tb'_def) (simp add: has_cb_def update_conv' tb'_def)
  qed
  ultimately show ?thesis by blast
qed

lemma unregister_timer_ok:
  "wf_timers tb \<Longrightarrow> wf_timers (unregister_timer cb tb) \<and>
     (\<forall>cb'. count_cb cb' (unregister_timer cb tb) = (if cb' = cb then 0 else count_cb cb' tb))"
proof -
  assume w: "wf_timers tb"
  have "filter (has_cb tb cb') (filter (\<lambda>i. \<not> has_cb tb cb i) (tb_list tb)) = filter (has_cb tb cb') (tb_list tb)" if "cb' \<noteq> cb" for cb'
    using that by (auto simp: has_cb_def intro!: filter_cong split: option.splits)
  moreover have "has_cb (unregister_timer cb tb) = has_cb tb" by (simp add: unregister_timer_def has_cb_def fun_eq_iff)
  ultimately show ?thesis using w by (auto simp: wf_timers_def count_cb_def) (auto simp: unregister_timer_def filter_empty_conv)
qed

interpretation trans_timer: timer_service "add_transition_timer now" "unregister_timer TRANSITION_CB" "count_cb TRANSITION_CB" wf_timers
  for now
proof
  fix t assume w: "wf_timers t"
  from register_timer_ok [OF w, of 5 now TRANSITION_CB True None False None]
  show "\<exists>t'. add_transition_timer now t = Inr t' \<and> wf_timers t' \<and> count_cb TRANSITION_CB t' = Suc (count_cb TRANSITION_CB t)"
    by (auto simp: add_transition_timer_def)
  from unregister_timer_ok [OF w, of TRANSITION_CB]
  show "wf_timers (unregister_timer TRANSITION_CB t) \<and> count_cb TRANSITION_CB (unregister_timer TRANSITION_CB t) = 0" by simp
qed

subsection \<open>The flag refines the list\<close>

text \<open>\<open>_enable_transition_timer\<close> and \<open>_disable_transition_timer\<close> on the server and the timer list.\<close>

definition enable_timer :: "py_float \<Rightarrow> server \<times> timers \<Rightarrow> (server \<times> timers) res" where
  "enable_timer now st =
     bind_r (if \<not> ms_timer (fst st) then add_transition_timer now (snd st) else Inr (snd st)) (\<lambda>tb.
       Inr (enable_transition_timer (fst st), tb))"

definition disable_timer :: "server \<times> timers \<Rightarrow> server \<times> timers" where
  "disable_timer st =
     (disable_transition_timer (fst st), if ms_timer (fst st) then unregister_timer TRANSITION_CB (snd st) else snd st)"

fun timer_calls :: "(py_float option) list \<Rightarrow> server \<times> timers \<Rightarrow> (server \<times> timers) res" where
  "timer_calls [] st = Inr st"
| "timer_calls (Some now # cs) st = bind_r (enable_timer now st) (timer_calls cs)"
| "timer_calls (None # cs) st = timer_calls cs (disable_timer st)"

definition timer_rel :: "server \<Rightarrow> timers \<Rightarrow> bool" where
  "timer_rel m tb \<longleftrightarrow> wf_timers tb \<and> count_cb TRANSITION_CB tb = (if ms_timer m then 1 else 0)"

lemma enable_timer_rel:
  assumes "timer_rel m tb"
  shows "\<exists>tb'. enable_timer now (m, tb) = Inr (enable_transition_timer m, tb') \<and> timer_rel (enable_transition_timer m) tb'"
proof -
  from assms trans_timer.guarded_add [of tb "ms_timer m" now]
  obtain tb' where "(if \<not> ms_timer m then add_transition_timer now tb else Inr tb) = Inr tb'" "wf_timers tb'" "count_cb TRANSITION_CB tb' = 1"
    by (auto simp: timer_rel_def)
  then show ?thesis by (auto simp: enable_timer_def timer_rel_def enable_transition_timer_def)
qed

lemma disable_timer_rel:
  assumes "timer_rel m tb"
  shows "\<exists>tb'. disable_timer (m, tb) = (disable_transition_timer m, tb') \<and> timer_rel (disable_transition_timer m) tb'"
  using assms trans_timer.guarded_remove [of tb "ms_timer m"]
  by (auto simp: disable_timer_def timer_rel_def disable_transition_timer_def)

text \<open>C4: however often the meta-server enables and disables its transition timer, the calls never fail and the
  timer list has exactly one timer with the transition handler while the flag is set and none otherwise.\<close>

theorem timer_flag_refines:
  assumes "timer_rel m tb"
  shows "\<exists>m' tb'. timer_calls cs (m, tb) = Inr (m', tb') \<and> timer_rel m' tb' \<and>
    (ms_timer m' \<longleftrightarrow> (if cs = [] then ms_timer m else last cs \<noteq> None))"
  using assms
proof (induction cs arbitrary: m tb)
  case (Cons c cs)
  show ?case
  proof (cases c)
    case None
    from disable_timer_rel [OF Cons.prems] obtain tb1 where d: "disable_timer (m, tb) = (disable_transition_timer m, tb1)"
      "timer_rel (disable_transition_timer m) tb1" by blast
    from Cons.IH [OF d(2)] d(1) None show ?thesis by (auto simp: disable_transition_timer_def)
  next
    case (Some now)
    from enable_timer_rel [OF Cons.prems] obtain tb1 where d: "enable_timer now (m, tb) = Inr (enable_transition_timer m, tb1)"
      "timer_rel (enable_transition_timer m) tb1" by blast
    from Cons.IH [OF d(2)] d(1) Some show ?thesis by (auto simp: enable_transition_timer_def)
  qed
qed simp

theorem timer_flag_refines_witness:
  "\<exists>m' tb'. timer_calls [Some 3, Some 4, None, Some 5] (demo_server, new_timer_base 0 0) = Inr (m', tb') \<and> ms_timer m'"
proof -
  have "timer_rel demo_server (new_timer_base 0 0)"
    by (simp add: timer_rel_def new_timer_base_def wf_timers_def count_cb_def demo_server_def init_server_def)
  from timer_flag_refines [OF this, of "[Some 3, Some 4, None, Some 5]"] show ?thesis by auto
qed

end
