(* ===== verification/Mon_Limits.thy ===== *)
theory Mon_Limits
  imports Logging_Tools
begin

section \<open>Limits of monitored values (initat/host_monitoring/limits.py)\<close>

text \<open>
  A check compares a value with a warning and a critical limit. A limit is given as anything \<open>float\<close> may
  accept; the model takes the outcome of that conversion to a finite number (None when \<open>float\<close> or the
  following \<open>int\<close> raises, which both are caught). Both the number and its integer part are kept.
\<close>

definition mon_STATE_CRITICAL :: int where "mon_STATE_CRITICAL = 2"
definition mon_STATE_WARNING :: int where "mon_STATE_WARNING = 1"
definition mon_STATE_OK :: int where "mon_STATE_OK = 0"
definition mon_STATE_UNKNOWN :: int where "mon_STATE_UNKNOWN = -1"
definition mon_STATE_DEPENDENT :: int where "mon_STATE_DEPENDENT = -2"

lemmas mon_states = mon_STATE_CRITICAL_def mon_STATE_WARNING_def mon_STATE_OK_def mon_STATE_UNKNOWN_def mon_STATE_DEPENDENT_def

definition get_state_str :: "int \<Rightarrow> string" where
  "get_state_str st =
     (case map_of [(mon_STATE_CRITICAL, ''Critical''), (mon_STATE_WARNING, ''Warning''), (mon_STATE_OK, ''OK''),
                   (mon_STATE_UNKNOWN, ''Unknown''), (mon_STATE_DEPENDENT, ''Dependent'')] st of
        Some s \<Rightarrow> s | None \<Rightarrow> ''state '' @ str_of_int st @ '' not known'')"

definition nag_state_to_log_level :: "int \<Rightarrow> int" where
  "nag_state_to_log_level st =
     (case map_of [(mon_STATE_CRITICAL, LOG_LEVEL_CRITICAL), (mon_STATE_WARNING, LOG_LEVEL_WARN), (mon_STATE_OK, LOG_LEVEL_OK),
                   (mon_STATE_UNKNOWN, LOG_LEVEL_ERROR), (mon_STATE_DEPENDENT, LOG_LEVEL_WARN)] st of
        Some l \<Rightarrow> l | None \<Rightarrow> LOG_LEVEL_ERROR)"

definition at_least :: "'a::linorder option \<Rightarrow> 'a \<Rightarrow> bool" where
  "at_least bd v = (case bd of None \<Rightarrow> False | Some l \<Rightarrow> v \<ge> l)"

definition at_most :: "'a::linorder option \<Rightarrow> 'a \<Rightarrow> bool" where
  "at_most bd v = (case bd of None \<Rightarrow> False | Some l \<Rightarrow> v \<le> l)"

definition check_ceiling :: "py_float \<Rightarrow> py_float option \<Rightarrow> py_float option \<Rightarrow> int" where
  "check_ceiling v warn crit =
     (if at_least crit v then mon_STATE_CRITICAL else if at_least warn v then mon_STATE_WARNING else mon_STATE_OK)"

definition check_floor :: "py_float \<Rightarrow> py_float option \<Rightarrow> py_float option \<Rightarrow> int" where
  "check_floor v warn crit =
     (if at_most crit v then mon_STATE_CRITICAL else if at_most warn v then mon_STATE_WARNING else mon_STATE_OK)"

subsection \<open>Ranges\<close>

record range_parameter =
  rp_name :: string
  rp_lower :: "int option"
  rp_upper :: "int option"

definition new_range :: "string \<Rightarrow> range_parameter" where
  "new_range n = \<lparr>rp_name = n, rp_lower = Some 0, rp_upper = Some 0\<rparr>"

definition set_lower_boundary :: "py_float option \<Rightarrow> range_parameter \<Rightarrow> range_parameter" where
  "set_lower_boundary v r = r\<lparr>rp_lower := map_option py_trunc v\<rparr>"

definition set_upper_boundary :: "py_float option \<Rightarrow> range_parameter \<Rightarrow> range_parameter" where
  "set_upper_boundary v r = r\<lparr>rp_upper := map_option py_trunc v\<rparr>"

definition truthy :: "int option \<Rightarrow> bool" where
  "truthy v = (case v of None \<Rightarrow> False | Some i \<Rightarrow> i \<noteq> 0)"

definition has_boundaries_set :: "range_parameter \<Rightarrow> bool" where
  "has_boundaries_set r = (truthy (rp_upper r) \<or> truthy (rp_lower r))"

definition in_boundaries :: "py_float \<Rightarrow> range_parameter \<Rightarrow> bool" where
  "in_boundaries v r =
     (if has_boundaries_set r then
        \<not> (truthy (rp_lower r) \<and> v < of_int (the (rp_lower r))) \<and> \<not> (truthy (rp_upper r) \<and> v > of_int (the (rp_upper r)))
      else True)"

subsection \<open>The limits class\<close>

record limits =
  li_warn :: "int option"
  li_warn_f :: "py_float option"
  li_crit :: "int option"
  li_crit_f :: "py_float option"
  li_flags :: "string list"
  li_vars :: "(string \<times> string) list"

definition set_warn_val :: "py_float option \<Rightarrow> limits \<Rightarrow> int \<times> limits" where
  "set_warn_val v l =
     (case v of
        Some f \<Rightarrow> (1, l\<lparr>li_warn_f := Some f, li_warn := Some (py_trunc f)\<rparr>)
      | None \<Rightarrow> (0, l\<lparr>li_warn_f := None, li_warn := None\<rparr>))"

definition set_crit_val :: "py_float option \<Rightarrow> limits \<Rightarrow> int \<times> limits" where
  "set_crit_val v l =
     (case v of
        Some f \<Rightarrow> (1, l\<lparr>li_crit_f := Some f, li_crit := Some (py_trunc f)\<rparr>)
      | None \<Rightarrow> (0, l\<lparr>li_crit_f := None, li_crit := None\<rparr>))"

definition set_add_flags :: "string list \<Rightarrow> limits \<Rightarrow> int \<times> limits" where
  "set_add_flags fs l = (1, l\<lparr>li_flags := li_flags l @ fs\<rparr>)"

definition set_add_var :: "string \<Rightarrow> string \<Rightarrow> limits \<Rightarrow> int \<times> limits" where
  "set_add_var n v l = (1, l\<lparr>li_vars := AList.update n v (li_vars l)\<rparr>)"

definition get_add_var :: "string \<Rightarrow> string \<Rightarrow> limits \<Rightarrow> string" where
  "get_add_var n d l = (case map_of (li_vars l) n of Some v \<Rightarrow> v | None \<Rightarrow> d)"

definition has_add_var :: "string \<Rightarrow> limits \<Rightarrow> bool" where
  "has_add_var n l = (n \<in> fst ` set (li_vars l))"

definition get_add_flag :: "string \<Rightarrow> limits \<Rightarrow> bool" where
  "get_add_flag f l = (f \<in> set (li_flags l))"

text \<open>The constructor; an outer None is an argument that is not given.\<close>

definition new_limits :: "py_float option option \<Rightarrow> py_float option option \<Rightarrow> string list option \<Rightarrow> limits" where
  "new_limits warn crit flags =
     (let l0 = \<lparr>li_warn = None, li_warn_f = None, li_crit = None, li_crit_f = None, li_flags = [], li_vars = []\<rparr>;
          l1 = (case warn of None \<Rightarrow> l0 | Some v \<Rightarrow> snd (set_warn_val v l0));
          l2 = (case crit of None \<Rightarrow> l1 | Some v \<Rightarrow> snd (set_crit_val v l1))
      in case flags of None \<Rightarrow> l2 | Some fs \<Rightarrow> snd (set_add_flags fs l2))"

definition get_string :: "limits \<Rightarrow> string" where
  "get_string l =
     (let out_f = (if truthy (li_warn l) then [''warn='' @ str_of_int (the (li_warn l))] else []) @
                  (if truthy (li_crit l) then [''crit='' @ str_of_int (the (li_crit l))] else []) @ li_flags l;
          tx = py_join '','' out_f
      in if out_f \<noteq> [] \<and> tx \<noteq> [] then tx else ''-'')"

datatype py_value = PFloat py_float | PInt int | POther

definition limits_check_ceiling :: "limits \<Rightarrow> py_value \<Rightarrow> int \<times> string" where
  "limits_check_ceiling l v =
     (case v of
        PFloat x \<Rightarrow> if at_least (li_crit_f l) x then (mon_STATE_CRITICAL, ''Critical'')
                    else if at_least (li_warn_f l) x then (mon_STATE_WARNING, ''Warning'') else (mon_STATE_OK, ''OK'')
      | PInt i \<Rightarrow> if at_least (li_crit l) i then (mon_STATE_CRITICAL, ''Critical'')
                  else if at_least (li_warn l) i then (mon_STATE_WARNING, ''Warning'') else (mon_STATE_OK, ''OK'')
      | POther \<Rightarrow> (mon_STATE_CRITICAL, ''TypeError''))"

definition limits_check_floor :: "limits \<Rightarrow> py_value \<Rightarrow> int \<times> string" where
  "limits_check_floor l v =
     (case v of
        PFloat x \<Rightarrow> if at_most (li_crit_f l) x then (mon_STATE_CRITICAL, ''Critical'')
                    else if at_most (li_warn_f l) x then (mon_STATE_WARNING, ''Warning'') else (mon_STATE_OK, ''OK'')
      | PInt i \<Rightarrow> if at_most (li_crit l) i then (mon_STATE_CRITICAL, ''Critical'')
                  else if at_most (li_warn l) i then (mon_STATE_WARNING, ''Warning'') else (mon_STATE_OK, ''OK'')
      | POther \<Rightarrow> (mon_STATE_CRITICAL, ''TypeError''))"

subsection \<open>Laws\<close>

lemma py_trunc_uminus: "py_trunc (- x) = - py_trunc x"
  by (auto simp: py_trunc_def)

fun neg_value :: "py_value \<Rightarrow> py_value" where
  "neg_value (PFloat x) = PFloat (- x)"
| "neg_value (PInt i) = PInt (- i)"
| "neg_value POther = POther"

lemma at_most_neg: "at_most bd v = at_least (map_option uminus bd) (- (v :: 'a::linordered_idom))"
  by (cases bd) (auto simp: at_most_def at_least_def)

text \<open>The order of the severities.\<close>

fun value_le :: "py_value \<Rightarrow> py_value \<Rightarrow> bool" where
  "value_le (PFloat x) (PFloat y) = (x \<le> y)"
| "value_le (PInt i) (PInt j) = (i \<le> j)"
| "value_le _ _ = False"

lemma at_least_mono: "at_least bd v \<Longrightarrow> v \<le> w \<Longrightarrow> at_least bd w"
  by (cases bd) (auto simp: at_least_def)

text \<open>The limits of an object agree with the plain functions on floating point values, a larger value never
  has a smaller severity for upper limits, and lower limits are upper limits with all signs changed, for
  floating point and integer values alike.\<close>

theorem limits_laws:
  fixes w c fs
  defines "l \<equiv> new_limits (Some w) (Some c) fs"
  shows "fst (limits_check_ceiling l (PFloat x)) = check_ceiling x w c \<and>
    fst (limits_check_floor l (PFloat x)) = check_floor x w c \<and>
    (value_le v v' \<longrightarrow> fst (limits_check_ceiling l v) \<le> fst (limits_check_ceiling l v')) \<and>
    limits_check_floor l v = limits_check_ceiling (new_limits (Some (map_option uminus w)) (Some (map_option uminus c)) fs) (neg_value v)"
proof -
  have fields: "li_warn_f (new_limits (Some w) (Some c) fs) = w" "li_crit_f (new_limits (Some w) (Some c) fs) = c"
    "li_warn (new_limits (Some w) (Some c) fs) = map_option py_trunc w" "li_crit (new_limits (Some w) (Some c) fs) = map_option py_trunc c" for w c
    by (auto simp: new_limits_def Let_def set_warn_val_def set_crit_val_def set_add_flags_def split: option.splits)
  have neg: "map_option py_trunc (map_option uminus u) = map_option uminus (map_option py_trunc u)" for u
    by (cases u) (simp_all add: py_trunc_uminus)
  have "fst (limits_check_ceiling l (PFloat x)) = check_ceiling x w c \<and> fst (limits_check_floor l (PFloat x)) = check_floor x w c"
    by (simp add: l_def limits_check_ceiling_def limits_check_floor_def check_ceiling_def check_floor_def fields)
  moreover have "value_le v v' \<longrightarrow> fst (limits_check_ceiling l v) \<le> fst (limits_check_ceiling l v')"
    by (cases v; cases v') (auto simp: limits_check_ceiling_def mon_states dest: at_least_mono)
  moreover have "limits_check_floor l v = limits_check_ceiling (new_limits (Some (map_option uminus w)) (Some (map_option uminus c)) fs) (neg_value v)"
    by (cases v) (simp_all add: l_def limits_check_floor_def limits_check_ceiling_def fields neg at_most_neg)
  ultimately show ?thesis by blast
qed

theorem limits_laws_witness:
  "fst (limits_check_ceiling (new_limits (Some (Some 3)) (Some (Some 7)) None) (PInt 4)) \<le>
   fst (limits_check_ceiling (new_limits (Some (Some 3)) (Some (Some 7)) None) (PInt 9))"
proof -
  have "value_le (PInt 4) (PInt 9)" by simp
  with limits_laws [of "Some 3" "Some 7" None 0 "PInt 4" "PInt 9"] show ?thesis by blast
qed

text \<open>Integer values are compared with the integer part of a limit: for a positive limit that is not a whole
  number, the integer just below it already counts as critical, while the same value as a floating point
  number is below the limit.\<close>

theorem limits_truncated:
  assumes "0 < c" and "of_int (py_trunc c) \<noteq> c"
  shows "limits_check_ceiling (new_limits None (Some (Some c)) None) (PInt (py_trunc c)) = (mon_STATE_CRITICAL, ''Critical'') \<and>
    limits_check_ceiling (new_limits None (Some (Some c)) None) (PFloat (of_int (py_trunc c))) = (mon_STATE_OK, ''OK'')"
proof -
  have "of_int (py_trunc c) < c" using py_trunc_bounds(2) [of c] assms by linarith
  then show ?thesis
    by (simp add: limits_check_ceiling_def new_limits_def Let_def set_crit_val_def at_least_def)
qed

theorem limits_truncated_witness:
  "limits_check_ceiling (new_limits None (Some (Some (57 / 10))) None) (PInt 5) = (mon_STATE_CRITICAL, ''Critical'')"
proof -
  have t: "py_trunc (57 / 10) = 5" by code_simp
  with limits_truncated [of "57 / 10"] show ?thesis by simp
qed

text \<open>A value is in the boundaries exactly if it violates none that is set; a boundary of zero, the default,
  is not a boundary.\<close>

theorem in_boundaries_iff:
  "in_boundaries v r \<longleftrightarrow> (\<forall>b. rp_lower r = Some b \<and> b \<noteq> 0 \<longrightarrow> of_int b \<le> v) \<and> (\<forall>b. rp_upper r = Some b \<and> b \<noteq> 0 \<longrightarrow> v \<le> of_int b)"
  by (cases "rp_lower r"; cases "rp_upper r") (auto simp: in_boundaries_def has_boundaries_set_def truthy_def)

theorem in_boundaries_iff_witness:
  "in_boundaries 3 (set_upper_boundary (Some 5) (new_range ''x''))"
  using in_boundaries_iff [of 3 "set_upper_boundary (Some 5) (new_range ''x'')"]
  by (simp add: set_upper_boundary_def new_range_def) (simp add: py_trunc_def)

end
