(* ===== verification/Threshold.thy ===== *)
theory Threshold
  imports Logging_Tools
begin

section \<open>Sensor thresholds (initat/collectd/sensor_threshold.py)\<close>

text \<open>
  A threshold follows the values of one sensor. It triggers when a value leaves the range between its lower
  and its upper value, and triggers again on the same side only after the value has left the range on the
  other side. The row of the database is a record; what a trigger does (action entries, background jobs,
  mails) is recorded as events. The text of the mail is rendered from the data of the event and not part
  of the model. An exception ends the processing of a value; the threshold it leaves behind is not part of
  the result.
\<close>

datatype side = Upper | Lower

record th_row =
  tr_idx :: int
  tr_dev_idx :: int
  tr_full_key :: string
  tr_se_type :: string
  tr_struct_key :: string
  tr_rra_idx :: nat
  tr_lower_value :: py_float
  tr_upper_value :: py_float
  tr_sensor_action :: "side \<Rightarrow> int option"
  tr_mail :: "side \<Rightarrow> bool"
  tr_enabled :: "side \<Rightarrow> bool"
  tr_notify_users :: "(string \<times> string) list"
  tr_device_selection :: "string list option"

text \<open>The device and the lookup key are taken from the row when the threshold is created and kept from then on.\<close>

record threshold =
  th_dev_idx :: int
  th_lookup_key :: string
  th_row :: th_row
  th_cycle :: nat
  th_values :: "(py_float \<times> py_float) list"
  th_upper_triggered :: bool
  th_lower_triggered :: bool

datatype th_event =
    ActionEntry int side int py_float bool
  | BgJob int side "string list" int
  | SendMail int side "string list" "(py_float \<times> py_float) list" bool

definition max_diff_time :: py_float where "max_diff_time = 1200"
definition values_to_store :: nat where "values_to_store = 20"

definition reset_flags :: "threshold \<Rightarrow> threshold" where
  "reset_flags th = th\<lparr>th_upper_triggered := False, th_lower_triggered := False\<rparr>"

definition lookup_key_of :: "th_row \<Rightarrow> string" where
  "lookup_key_of r = (if tr_se_type r = ''mvl'' then tr_struct_key r @ ''.'' @ str_of_nat (tr_rra_idx r) else tr_full_key r)"

definition new_threshold :: "th_row \<Rightarrow> threshold" where
  "new_threshold r =
     reset_flags \<lparr>th_dev_idx = tr_dev_idx r, th_lookup_key = lookup_key_of r, th_row = r, th_cycle = 0, th_values = [], th_upper_triggered = True, th_lower_triggered = True\<rparr>"

definition th_update :: "th_row \<Rightarrow> threshold \<Rightarrow> threshold" where
  "th_update r th =
     (if tr_lower_value (th_row th) \<noteq> tr_lower_value r \<or> tr_upper_value (th_row th) \<noteq> tr_upper_value r
      then reset_flags (th\<lparr>th_row := r\<rparr>) else th\<lparr>th_row := r\<rparr>)"

definition set_triggered :: "side \<Rightarrow> bool \<Rightarrow> threshold \<Rightarrow> threshold" where
  "set_triggered what v th =
     (case what of Upper \<Rightarrow> th\<lparr>th_upper_triggered := v\<rparr> | Lower \<Rightarrow> th\<lparr>th_lower_triggered := v\<rparr>)"

definition side_value :: "side \<Rightarrow> th_row \<Rightarrow> py_float" where
  "side_value what r = (case what of Upper \<Rightarrow> tr_upper_value r | Lower \<Rightarrow> tr_lower_value r)"

text \<open>\<open>trigger\<close>: the primary key of the action is needed for the background job.\<close>

definition th_trigger :: "side \<Rightarrow> bool \<Rightarrow> threshold \<Rightarrow> (threshold \<times> th_event list) res" where
  "th_trigger what triggered th =
     (let th1 = set_triggered what True th;
          r = th_row th;
          go = (tr_enabled r what \<or> triggered);
          act = tr_sensor_action r what;
          ev1 = (case act of Some a \<Rightarrow> if go then [ActionEntry (tr_idx r) what a (side_value what r) triggered] else [] | None \<Rightarrow> []);
          to_users = filter (\<lambda>(_, email). email \<noteq> []) (tr_notify_users r)
      in if tr_mail r what \<and> go then
           bind_r (case tr_device_selection r of
                     Some devs \<Rightarrow> (case act of None \<Rightarrow> Inl AttributeError | Some a \<Rightarrow> Inr [BgJob (tr_idx r) what devs a])
                   | None \<Rightarrow> Inr []) (\<lambda>ev2.
             Inr (th1, ev1 @ ev2 @
                  (if to_users \<noteq> [] then [SendMail (tr_idx r) what (map snd to_users) (rev (th_values th)) triggered] else [])))
         else Inr (th1, ev1))"

definition last_n :: "nat \<Rightarrow> 'a list \<Rightarrow> 'a list" where
  "last_n n xs = drop (length xs - n) xs"

text \<open>Storing the value; a gap that is too long discards the previous values and the flags.\<close>

definition store_value :: "py_float \<Rightarrow> py_float \<Rightarrow> threshold \<Rightarrow> threshold" where
  "store_value now v th =
     (let th1 = th\<lparr>th_cycle := th_cycle th + 1\<rparr> in
      if th_values th = [] then th1\<lparr>th_values := [(now, v)]\<rparr>
      else if \<bar>fst (last (th_values th)) - now\<bar> > max_diff_time
           then (reset_flags th1)\<lparr>th_values := [(now, v)]\<rparr>
           else th1\<lparr>th_values := th_values th @ [(now, v)]\<rparr>)"

definition clear_opposite :: "py_float \<Rightarrow> threshold \<Rightarrow> threshold" where
  "clear_opposite v th =
     (if v < tr_lower_value (th_row th) then set_triggered Upper False th
      else if v > tr_upper_value (th_row th) then set_triggered Lower False th else th)"

definition crossing :: "py_float \<Rightarrow> threshold \<Rightarrow> side option" where
  "crossing v th =
     (if length (th_values th) > 1 then
        (let prev = snd (th_values th ! (length (th_values th) - 2)); r = th_row th in
         if prev \<le> tr_upper_value r \<and> v > tr_upper_value r \<and> \<not> th_upper_triggered th then Some Upper
         else if prev \<ge> tr_lower_value r \<and> v < tr_lower_value r \<and> \<not> th_lower_triggered th then Some Lower
         else None)
      else None)"

definition feed :: "py_float \<Rightarrow> py_float \<Rightarrow> threshold \<Rightarrow> (threshold \<times> th_event list) res" where
  "feed now v th =
     (let th1 = clear_opposite v (store_value now v th) in
      bind_r (case crossing v th1 of None \<Rightarrow> Inr (th1, []) | Some s \<Rightarrow> th_trigger s False th1) (\<lambda>(th2, evs).
        Inr (th2\<lparr>th_values := last_n values_to_store (th_values th2)\<rparr>, evs)))"

fun feeds :: "(py_float \<times> py_float) list \<Rightarrow> threshold \<Rightarrow> (threshold \<times> th_event list) res" where
  "feeds [] th = Inr (th, [])"
| "feeds ((now, v) # xs) th =
     bind_r (feed now v th) (\<lambda>(th1, e1). bind_r (feeds xs th1) (\<lambda>(th2, e2). Inr (th2, e1 @ e2)))"

subsection \<open>The container\<close>

text \<open>The device dictionary has the thresholds of \<open>th_dict\<close> themselves; here it has their indices. Where two have the
  same device and key the last one in the order of the dictionary is found.\<close>

record th_container =
  tc_enabled :: bool
  tc_th_dict :: "(int \<times> threshold) list"
  tc_dev_dict :: "((int \<times> string) \<times> int) list"

definition build_dev_dict :: "(int \<times> threshold) list \<Rightarrow> ((int \<times> string) \<times> int) list" where
  "build_dev_dict d =
     fold (\<lambda>(i, th). AList.update (th_dev_idx th, th_lookup_key th) i) d []"

definition sync_row :: "th_row \<Rightarrow> (int \<times> threshold) list \<Rightarrow> (int \<times> threshold) list" where
  "sync_row r d =
     (case map_of d (tr_idx r) of
        Some th \<Rightarrow> AList.update (tr_idx r) (th_update r th) d
      | None \<Rightarrow> AList.update (tr_idx r) (new_threshold r) d)"

definition sync_enabled :: "th_row list \<Rightarrow> th_container \<Rightarrow> th_container" where
  "sync_enabled rows tc =
     (let remove_pks = filter (\<lambda>i. i \<notin> tr_idx ` set rows) (map fst (tc_th_dict tc));
          d = fold AList.delete remove_pks (fold sync_row rows (tc_th_dict tc))
      in tc\<lparr>tc_th_dict := d, tc_dev_dict := build_dev_dict d\<rparr>)"

definition sync_disabled :: "th_container \<Rightarrow> th_container" where
  "sync_disabled tc = tc\<lparr>tc_dev_dict := []\<rparr>"

definition th_sync :: "th_row list \<Rightarrow> th_container \<Rightarrow> th_container" where
  "th_sync rows tc = (if tc_enabled tc then sync_enabled rows tc else sync_disabled tc)"

definition new_th_container :: "bool \<Rightarrow> th_row list \<Rightarrow> th_container" where
  "new_th_container enabled rows = th_sync rows \<lparr>tc_enabled = enabled, tc_th_dict = [], tc_dev_dict = []\<rparr>"

definition device_has_thresholds :: "int \<Rightarrow> th_container \<Rightarrow> bool" where
  "device_has_thresholds dev tc = (dev \<in> (fst \<circ> fst) ` set (tc_dev_dict tc))"

definition feed_val :: "py_float \<Rightarrow> int \<Rightarrow> string \<Rightarrow> py_float \<Rightarrow> th_container \<Rightarrow> (th_container \<times> th_event list) res" where
  "feed_val now dev key v tc =
     (case map_of (tc_dev_dict tc) (dev, key) of
        None \<Rightarrow> Inr (tc, [])
      | Some i \<Rightarrow>
          bind_r (dict_get i (tc_th_dict tc)) (\<lambda>th.
          bind_r (feed now v th) (\<lambda>(th', evs). Inr (tc\<lparr>tc_th_dict := AList.update i th' (tc_th_dict tc)\<rparr>, evs))))"

fun feed_vals :: "py_float \<Rightarrow> int \<Rightarrow> string \<Rightarrow> nat \<Rightarrow> string list \<Rightarrow> th_container \<Rightarrow> (th_container \<times> th_event list) res" where
  "feed_vals now dev name i [] tc = Inr (tc, [])"
| "feed_vals now dev name i (x # xs) tc =
     bind_r (py_float_of x) (\<lambda>v.
     bind_r (feed_val now dev (name @ ''.'' @ str_of_nat i) v tc) (\<lambda>(tc1, e1).
     bind_r (feed_vals now dev name (i + 1) xs tc1) (\<lambda>(tc2, e2). Inr (tc2, e1 @ e2))))"

text \<open>A value of a machine vector list is a text of numbers separated by colons.\<close>

datatype fed_value = Single py_float | Multi string

definition tc_feed :: "py_float \<Rightarrow> int \<Rightarrow> string \<Rightarrow> fed_value \<Rightarrow> th_container \<Rightarrow> (th_container \<times> th_event list) res" where
  "tc_feed now dev name v tc =
     (case v of Single x \<Rightarrow> feed_val now dev name x tc | Multi tx \<Rightarrow> feed_vals now dev name 0 (py_split CHR '':'' tx) tc)"

text \<open>The side of a request is an attribute of the command; an unknown one has no field in the row.\<close>

definition side_of :: "string \<Rightarrow> side res" where
  "side_of what = (if what = ''upper'' then Inr Upper else if what = ''lower'' then Inr Lower else Inl AttributeError)"

fun trigger_all :: "(int \<times> string) list \<Rightarrow> th_container \<Rightarrow> (th_container \<times> th_event list) res" where
  "trigger_all [] tc = Inr (tc, [])"
| "trigger_all ((i, what) # xs) tc =
     bind_r (dict_get i (tc_th_dict tc)) (\<lambda>th.
     bind_r (side_of what) (\<lambda>s.
     bind_r (th_trigger s True th) (\<lambda>(th', e1).
     bind_r (trigger_all xs (tc\<lparr>tc_th_dict := AList.update i th' (tc_th_dict tc)\<rparr>)) (\<lambda>(tc', e2). Inr (tc', e1 @ e2)))))"

definition tc_trigger :: "(int \<times> string) list \<Rightarrow> th_container \<Rightarrow> (string \<times> th_container \<times> th_event list) res" where
  "tc_trigger reqs tc =
     (let found = filter (\<lambda>(i, _). i \<in> fst ` set (tc_th_dict tc)) reqs;
          not_found = length reqs - length found;
          msg = ''triggered '' @ get_plural ''sensor threshold'' (int (length found)) @
                (if not_found \<noteq> 0 then '', '' @ str_of_nat not_found @ '' not found'' else [])
      in bind_r (trigger_all found tc) (\<lambda>(tc', evs). Inr (msg, tc', evs)))"

subsection \<open>Hysteresis\<close>

fun event_side :: "th_event \<Rightarrow> side" where
  "event_side (ActionEntry _ s _ _ _) = s"
| "event_side (BgJob _ s _ _) = s"
| "event_side (SendMail _ s _ _ _) = s"

definition is_triggered :: "side \<Rightarrow> threshold \<Rightarrow> bool" where
  "is_triggered s th = (case s of Upper \<Rightarrow> th_upper_triggered th | Lower \<Rightarrow> th_lower_triggered th)"

definition in_time :: "py_float \<Rightarrow> threshold \<Rightarrow> bool" where
  "in_time now th \<longleftrightarrow> th_values th \<noteq> [] \<and> \<bar>fst (last (th_values th)) - now\<bar> \<le> max_diff_time"

text \<open>A value beyond the other side: it releases the trigger.\<close>

definition beyond_other :: "side \<Rightarrow> th_row \<Rightarrow> py_float \<Rightarrow> bool" where
  "beyond_other s r v = (case s of Upper \<Rightarrow> v < tr_lower_value r | Lower \<Rightarrow> v > tr_upper_value r)"

definition beyond :: "side \<Rightarrow> th_row \<Rightarrow> py_float \<Rightarrow> bool" where
  "beyond s r v = (case s of Upper \<Rightarrow> v > tr_upper_value r | Lower \<Rightarrow> v < tr_lower_value r)"

lemma last_last_n:
  assumes "xs \<noteq> []" and "0 < n"
  shows "last (last_n n xs) = last xs \<and> last_n n xs \<noteq> [] \<and> length (last_n n xs) \<le> n"
proof -
  have "length xs - n < length xs" using assms by (simp add: diff_less)
  then show ?thesis by (auto simp: last_n_def)
qed

lemma th_trigger_frame:
  assumes "th_trigger s b th = Inr (th', evs)"
  shows "th_row th' = th_row th \<and> th_values th' = th_values th \<and> th_cycle th' = th_cycle th \<and> is_triggered s th' \<and>
    (\<forall>s'. s' \<noteq> s \<longrightarrow> is_triggered s' th' = is_triggered s' th) \<and> (\<forall>e \<in> set evs. event_side e = s)"
  using assms
  by (cases s) (auto simp: th_trigger_def Let_def bind_r_eq_Inr set_triggered_def is_triggered_def split: if_splits option.splits side.splits)

lemma crossing_step:
  assumes "(case crossing v th1 of None \<Rightarrow> Inr (th1, []) | Some s \<Rightarrow> th_trigger s False th1) = Inr (th2, evs)"
  shows "th_row th2 = th_row th1 \<and> th_values th2 = th_values th1 \<and>
    (\<forall>u. is_triggered u th2 \<longleftrightarrow> is_triggered u th1 \<or> crossing v th1 = Some u) \<and> (\<forall>e \<in> set evs. crossing v th1 = Some (event_side e))"
proof (cases "crossing v th1")
  case None
  with assms show ?thesis by simp
next
  case (Some s)
  with assms have t: "th_trigger s False th1 = Inr (th2, evs)" by simp
  have "is_triggered u th2 \<longleftrightarrow> is_triggered u th1 \<or> s = u" for u
    using th_trigger_frame [OF t] by (cases "u = s") auto
  with th_trigger_frame [OF t] Some show ?thesis by simp
qed

lemma feed_steps:
  assumes "feed now v th = Inr (th', evs)"
  obtains th1 th2 where "th1 = clear_opposite v (store_value now v th)"
    "(case crossing v th1 of None \<Rightarrow> Inr (th1, []) | Some s \<Rightarrow> th_trigger s False th1) = Inr (th2, evs)"
    "th' = th2\<lparr>th_values := last_n values_to_store (th_values th2)\<rparr>"
  using assms by (auto simp: feed_def Let_def bind_r_eq_Inr)

lemma store_value_frame:
  "th_row (store_value now v th) = th_row th \<and> th_values (store_value now v th) \<noteq> [] \<and>
   last (th_values (store_value now v th)) = (now, v) \<and>
   (in_time now th \<longrightarrow> is_triggered s (store_value now v th) = is_triggered s th)"
  by (cases s) (auto simp: store_value_def Let_def reset_flags_def in_time_def is_triggered_def)

lemma clear_opposite_frame:
  "th_row (clear_opposite v th) = th_row th \<and> th_values (clear_opposite v th) = th_values th \<and>
   is_triggered Upper (clear_opposite v th) = (is_triggered Upper th \<and> \<not> v < tr_lower_value (th_row th)) \<and>
   is_triggered Lower (clear_opposite v th) =
     (is_triggered Lower th \<and> (v < tr_lower_value (th_row th) \<or> \<not> v > tr_upper_value (th_row th)))"
  by (auto simp: clear_opposite_def set_triggered_def is_triggered_def)

lemma feed_row: "feed now v th = Inr (th', evs) \<Longrightarrow> th_row th' = th_row th \<and> last (th_values th') = (now, v) \<and>
   th_values th' \<noteq> [] \<and> length (th_values th') \<le> values_to_store"
proof -
  assume a: "feed now v th = Inr (th', evs)"
  then obtain th1 th2 where th1: "th1 = clear_opposite v (store_value now v th)"
    and t: "(case crossing v th1 of None \<Rightarrow> Inr (th1, []) | Some s \<Rightarrow> th_trigger s False th1) = Inr (th2, evs)"
    and th': "th' = th2\<lparr>th_values := last_n values_to_store (th_values th2)\<rparr>" by (rule feed_steps)
  have "th_row th2 = th_row th1 \<and> th_values th2 = th_values th1" using crossing_step [OF t] by blast
  moreover have "th_row th1 = th_row th" "th_values th1 \<noteq> []" "last (th_values th1) = (now, v)"
    using store_value_frame [of now v th Upper] clear_opposite_frame [of v] th1 by simp_all
  ultimately show ?thesis using last_last_n [of "th_values th1" values_to_store] th' by (simp add: values_to_store_def)
qed

lemma crossing_Some:
  assumes "crossing v th = Some s"
  shows "beyond s (th_row th) v \<and> \<not> is_triggered s th"
  using assms by (auto simp: crossing_def Let_def beyond_def is_triggered_def split: if_splits)

lemma feed_hold:
  assumes "feed now v th = Inr (th', evs)" and "is_triggered s th" and "in_time now th" and "\<not> beyond_other s (th_row th) v"
  shows "is_triggered s th' \<and> s \<notin> event_side ` set evs"
proof -
  from assms(1) obtain th1 th2 where th1: "th1 = clear_opposite v (store_value now v th)"
    and t: "(case crossing v th1 of None \<Rightarrow> Inr (th1, []) | Some s \<Rightarrow> th_trigger s False th1) = Inr (th2, evs)"
    and th': "th' = th2\<lparr>th_values := last_n values_to_store (th_values th2)\<rparr>" by (rule feed_steps)
  have "is_triggered s th1"
    using store_value_frame [of now v th s] clear_opposite_frame [of v "store_value now v th"] assms(2-4) th1
    by (cases s) (auto simp: beyond_other_def)
  moreover have "is_triggered s th2 \<and> s \<notin> event_side ` set evs" if "is_triggered s th1"
    using crossing_step [OF t] crossing_Some [of v th1] that by auto
  moreover have "is_triggered s th' = is_triggered s th2" by (simp add: th' is_triggered_def split: side.split)
  ultimately show ?thesis by blast
qed

fun chained :: "py_float \<Rightarrow> (py_float \<times> py_float) list \<Rightarrow> bool" where
  "chained t0 [] = True"
| "chained t0 ((t, v) # xs) = (\<bar>t0 - t\<bar> \<le> max_diff_time \<and> chained t xs)"

text \<open>C36: a threshold that has triggered on one side does not trigger on that side again while the values come in
  time and none of them is beyond the other side, however often they cross the limit.\<close>

theorem threshold_hysteresis:
  assumes "feeds xs th = Inr (th', evs)" and "is_triggered s th" and "th_values th \<noteq> []" and "chained (fst (last (th_values th))) xs"
    and "\<forall>(t, v) \<in> set xs. \<not> beyond_other s (th_row th) v"
  shows "is_triggered s th' \<and> s \<notin> event_side ` set evs"
  using assms
proof (induction xs arbitrary: th evs)
  case (Cons x xs)
  obtain now v where x: "x = (now, v)" by (cases x)
  from Cons.prems(1) x obtain th1 e1 e2 where f: "feed now v th = Inr (th1, e1)" and r: "feeds xs th1 = Inr (th', e2)" and e: "evs = e1 @ e2"
    by (auto simp: bind_r_eq_Inr)
  note fr = feed_row [OF f]
  have "in_time now th" using Cons.prems(3, 4) x by (simp add: in_time_def)
  with feed_hold [OF f Cons.prems(2)] Cons.prems(5) x have h: "is_triggered s th1 \<and> s \<notin> event_side ` set e1" by auto
  have "is_triggered s th' \<and> s \<notin> event_side ` set e2"
    using Cons.IH [OF r] h fr Cons.prems(4, 5) x by auto
  with h e show ?case by auto
qed simp

definition demo_threshold :: "py_float \<Rightarrow> py_float \<Rightarrow> threshold" where
  "demo_threshold lo up =
     new_threshold \<lparr>tr_idx = 1, tr_dev_idx = 7, tr_full_key = ''k'', tr_se_type = ''mve'', tr_struct_key = ''k'', tr_rra_idx = 0, tr_lower_value = lo, tr_upper_value = up,
       tr_sensor_action = (\<lambda>_. Some 3), tr_mail = (\<lambda>_. True), tr_enabled = (\<lambda>_. True), tr_notify_users = [(''u'', ''u@h'')],
       tr_device_selection = None\<rparr>"

definition demo_fired :: threshold where
  "demo_fired = fst (projr (feeds [(0, 3), (10, 9)] (demo_threshold 2 5)))"

theorem threshold_hysteresis_witness:
  "\<exists>th' evs. feeds [(20, 4), (30, 9)] demo_fired = Inr (th', evs) \<and> Upper \<notin> event_side ` set evs"
proof -
  have d: "\<not> isl (feeds [(20, 4), (30, 9)] demo_fired)" "is_triggered Upper demo_fired" "th_values demo_fired \<noteq> []"
    "chained (fst (last (th_values demo_fired))) [(20, 4), (30, 9)]" "tr_lower_value (th_row demo_fired) = 2" by code_simp+
  then obtain th' evs where f: "feeds [(20, 4), (30, 9)] demo_fired = Inr (th', evs)"
    by (cases "feeds [(20, 4), (30, 9)] demo_fired") auto
  from threshold_hysteresis [OF f d(2-4)] d(5) f show ?thesis by (auto simp: beyond_other_def)
qed

lemma store_value_prev:
  assumes "in_time now th"
  shows "th_values (store_value now v th) = th_values th @ [(now, v)]"
  using assms by (auto simp: store_value_def Let_def in_time_def)

text \<open>A value that comes in time sets the trigger of a side exactly if that side was not triggered, the value
  is beyond the limit and the value before was not; the value then is the newest of at most twenty, and
  every event is of a side that was triggered by it.\<close>

theorem threshold_fires_iff:
  assumes "feed now v th = Inr (th', evs)" and "in_time now th" and "tr_lower_value (th_row th) \<le> tr_upper_value (th_row th)"
  shows "(is_triggered s th' \<and> \<not> is_triggered s th \<longleftrightarrow>
            beyond s (th_row th) v \<and> \<not> beyond s (th_row th) (snd (last (th_values th))) \<and> \<not> is_triggered s th) \<and>
    last (th_values th') = (now, v) \<and> length (th_values th') \<le> values_to_store \<and>
    (\<forall>e \<in> set evs. is_triggered (event_side e) th' \<and> \<not> is_triggered (event_side e) th)"
proof -
  from assms(1) obtain th1 th2 where th1: "th1 = clear_opposite v (store_value now v th)"
    and t: "(case crossing v th1 of None \<Rightarrow> Inr (th1, []) | Some s \<Rightarrow> th_trigger s False th1) = Inr (th2, evs)"
    and th': "th' = th2\<lparr>th_values := last_n values_to_store (th_values th2)\<rparr>" by (rule feed_steps)
  have tr': "is_triggered u th' = is_triggered u th2" for u by (simp add: th' is_triggered_def split: side.split)
  have row: "th_row th1 = th_row th" "th_values th1 = th_values th @ [(now, v)]"
    using store_value_frame [of now v th Upper] clear_opposite_frame [of v "store_value now v th"] store_value_prev [OF assms(2)] th1 by simp_all
  have tr1: "is_triggered u th1 = (is_triggered u th \<and> \<not> beyond_other u (th_row th) v)" for u
    using store_value_frame [of now v th u] clear_opposite_frame [of v "store_value now v th"] assms(2, 3) th1
    by (cases u) (auto simp: beyond_other_def)
  have ne: "th_values th \<noteq> []" using assms(2) by (simp add: in_time_def)
  let ?prev = "snd (last (th_values th))"
  have cr: "crossing v th1 = (if \<not> beyond Upper (th_row th) ?prev \<and> beyond Upper (th_row th) v \<and> \<not> is_triggered Upper th1 then Some Upper
      else if \<not> beyond Lower (th_row th) ?prev \<and> beyond Lower (th_row th) v \<and> \<not> is_triggered Lower th1 then Some Lower else None)"
    using ne by (auto simp: crossing_def Let_def row beyond_def is_triggered_def nth_append last_conv_nth not_less not_le)
  have tr2: "is_triggered u th2 \<longleftrightarrow> is_triggered u th1 \<or> crossing v th1 = Some u" for u
    using crossing_step [OF t] by blast
  have excl: "\<not> (beyond Upper (th_row th) v \<and> beyond Lower (th_row th) v)" using assms(3) by (auto simp: beyond_def)
  have keep: "beyond u (th_row th) v \<Longrightarrow> \<not> beyond_other u (th_row th) v" for u
    using assms(3) by (cases u) (auto simp: beyond_def beyond_other_def)
  have iff: "crossing v th1 = Some u \<longleftrightarrow> beyond u (th_row th) v \<and> \<not> beyond u (th_row th) ?prev \<and> \<not> is_triggered u th" for u
    using excl keep [of u] tr1 [of Upper] tr1 [of Lower] keep by (cases u) (auto simp: cr)
  have "is_triggered s th' \<and> \<not> is_triggered s th \<longleftrightarrow> beyond s (th_row th) v \<and> \<not> beyond s (th_row th) ?prev \<and> \<not> is_triggered s th"
    using tr' tr2 tr1 iff by auto
  moreover have "\<forall>e \<in> set evs. is_triggered (event_side e) th' \<and> \<not> is_triggered (event_side e) th"
    using crossing_step [OF t] iff tr' tr2 by blast
  ultimately show ?thesis using feed_row [OF assms(1)] by blast
qed

theorem threshold_fires_iff_witness:
  "\<exists>th' evs. feed 40 1 demo_fired = Inr (th', evs) \<and> is_triggered Lower th'"
proof -
  have d: "\<not> isl (feed 40 1 demo_fired)" "in_time 40 demo_fired" "tr_lower_value (th_row demo_fired) \<le> tr_upper_value (th_row demo_fired)"
    "beyond Lower (th_row demo_fired) 1" "\<not> beyond Lower (th_row demo_fired) (snd (last (th_values demo_fired)))" "\<not> is_triggered Lower demo_fired"
    by code_simp+
  then obtain th' evs where f: "feed 40 1 demo_fired = Inr (th', evs)" by (cases "feed 40 1 demo_fired") auto
  from threshold_fires_iff [OF f d(2, 3), of Lower] d f show ?thesis by blast
qed

subsection \<open>Synchronisation with the database\<close>

lemma sync_rows_lookup:
  "distinct (map tr_idx rows) \<Longrightarrow> map_of (fold sync_row rows d) i =
     (case map_of (map (\<lambda>r. (tr_idx r, r)) rows) i of
        None \<Rightarrow> map_of d i
      | Some r \<Rightarrow> Some (case map_of d i of None \<Rightarrow> new_threshold r | Some th \<Rightarrow> th_update r th))"
proof (induction rows arbitrary: d)
  case (Cons r rows)
  have one: "map_of (sync_row r d) j = (if j = tr_idx r then Some (case map_of d j of None \<Rightarrow> new_threshold r | Some th \<Rightarrow> th_update r th)
      else map_of d j)" for j
    by (auto simp: sync_row_def update_conv' split: option.splits)
  from Cons.prems have "map_of (map (\<lambda>r. (tr_idx r, r)) rows) (tr_idx r) = None" by (auto simp: map_of_eq_None_iff image_image)
  with Cons.IH [of "sync_row r d"] Cons.prems one show ?case by (auto split: option.splits)
qed simp

lemma fold_delete_lookup: "map_of (fold AList.delete ks d) i = (if i \<in> set ks then None else map_of d i)"
  by (induction ks arbitrary: d) (auto simp: delete_conv')

lemma sync_rows_distinct: "distinct (map fst d) \<Longrightarrow> distinct (map fst (fold sync_row rows d))"
proof (induction rows arbitrary: d)
  case (Cons r rows)
  have "distinct (map fst (sync_row r d))" using Cons.prems by (auto simp: sync_row_def distinct_update split: option.splits)
  with Cons.IH show ?case by simp
qed simp

lemma fold_delete_distinct: "distinct (map fst d) \<Longrightarrow> distinct (map fst (fold AList.delete ks d))"
  by (induction ks arbitrary: d) (auto simp: distinct_delete)

lemma build_dev_dict_fold:
  "map_of (fold (\<lambda>(i, th). AList.update (th_dev_idx th, th_lookup_key th) i) d acc) k =
     (case map_of (rev (map (\<lambda>(i, th). ((th_dev_idx th, th_lookup_key th), i)) d)) k of
        Some i \<Rightarrow> Some i | None \<Rightarrow> map_of acc k)"
proof (induction d arbitrary: acc)
  case (Cons x d)
  obtain i th where x: "x = (i, th)" by (cases x)
  show ?case unfolding x by (auto simp: Cons.IH update_conv' map_add_def split: option.splits)
qed simp

lemma build_dev_dict_sound:
  "map_of (build_dev_dict d) (dev, key) = Some i \<Longrightarrow>
     \<exists>th. (i, th) \<in> set d \<and> th_dev_idx th = dev \<and> th_lookup_key th = key"
  unfolding build_dev_dict_def build_dev_dict_fold by (auto split: option.splits dest!: map_of_SomeD)

lemma build_dev_dict_complete:
  "(i, th) \<in> set d \<Longrightarrow> map_of (build_dev_dict d) (th_dev_idx th, th_lookup_key th) \<noteq> None"
  unfolding build_dev_dict_def build_dev_dict_fold by (force simp: map_of_eq_None_iff split: option.splits)

text \<open>After a synchronisation there is a threshold for exactly the rows of the database; one that existed keeps
  its values and, unless a limit changed, its trigger flags; and the device dictionary leads to a threshold
  of that device and key whenever there is one, and only then.\<close>

theorem th_sync_exact:
  assumes "tc_enabled tc" and "distinct (map tr_idx rows)" and "distinct (map fst (tc_th_dict tc))" and "tc' = th_sync rows tc"
  shows "map_of (tc_th_dict tc') i = map_option (\<lambda>r. case map_of (tc_th_dict tc) i of None \<Rightarrow> new_threshold r | Some th \<Rightarrow> th_update r th)
      (map_of (map (\<lambda>r. (tr_idx r, r)) rows) i) \<and>
    (map_of (tc_dev_dict tc') (dev, key) = Some j \<longrightarrow>
      (\<exists>th. map_of (tc_th_dict tc') j = Some th \<and> th_dev_idx th = dev \<and> th_lookup_key th = key)) \<and>
    (map_of (tc_th_dict tc') j = Some th0 \<longrightarrow>
      map_of (tc_dev_dict tc') (th_dev_idx th0, th_lookup_key th0) \<noteq> None)"
proof -
  let ?rm = "filter (\<lambda>i. i \<notin> tr_idx ` set rows) (map fst (tc_th_dict tc))"
  define d where "d = fold AList.delete ?rm (fold sync_row rows (tc_th_dict tc))"
  have tc': "tc_th_dict tc' = d" "tc_dev_dict tc' = build_dev_dict d"
    using assms(1, 4) by (simp_all add: th_sync_def sync_enabled_def Let_def d_def)
  have dist: "distinct (map fst d)" unfolding d_def by (intro fold_delete_distinct sync_rows_distinct assms(3))
  have "map_of d i = map_option (\<lambda>r. case map_of (tc_th_dict tc) i of None \<Rightarrow> new_threshold r | Some th \<Rightarrow> th_update r th)
      (map_of (map (\<lambda>r. (tr_idx r, r)) rows) i)"
  proof (cases "map_of (map (\<lambda>r. (tr_idx r, r)) rows) i")
    case None
    then have "i \<notin> tr_idx ` set rows" by (auto simp: map_of_eq_None_iff image_image)
    moreover have "map_of (tc_th_dict tc) i = None" if "i \<notin> fst ` set (tc_th_dict tc)"
      using that by (simp add: map_of_eq_None_iff)
    ultimately show ?thesis using None
      by (cases "i \<in> fst ` set (tc_th_dict tc)") (simp_all add: d_def fold_delete_lookup sync_rows_lookup [OF assms(2)])
  next
    case (Some r)
    then have "i \<in> tr_idx ` set rows" by (auto dest!: map_of_SomeD)
    with Some show ?thesis by (simp add: d_def fold_delete_lookup sync_rows_lookup [OF assms(2)])
  qed
  moreover have "\<exists>th. map_of d j = Some th \<and> th_dev_idx th = dev \<and> th_lookup_key th = key"
    if "map_of (build_dev_dict d) (dev, key) = Some j"
    using build_dev_dict_sound [OF that] dist by (auto simp: map_of_eq_Some_iff)
  moreover have "map_of (build_dev_dict d) (th_dev_idx th0, th_lookup_key th0) \<noteq> None" if "map_of d j = Some th0"
    using build_dev_dict_complete [OF map_of_SomeD [OF that]] .
  ultimately show ?thesis unfolding tc' by blast
qed

theorem th_sync_exact_witness:
  "map_of (tc_th_dict (th_sync [th_row demo_fired] \<lparr>tc_enabled = True, tc_th_dict = [(1, demo_fired), (2, demo_fired)], tc_dev_dict = []\<rparr>)) 1
     = Some (th_update (th_row demo_fired) demo_fired)"
proof -
  have "tr_idx (th_row demo_fired) = 1" by code_simp
  with th_sync_exact [of "\<lparr>tc_enabled = True, tc_th_dict = [(1, demo_fired), (2, demo_fired)], tc_dev_dict = []\<rparr>" "[th_row demo_fired]" _ 1, OF _ _ _ refl]
  show ?thesis by simp
qed

text \<open>A threshold with a device selection and mail, but without an action, raises when it triggers: the mail
  needs the primary key of the action.\<close>

theorem trigger_without_action:
  assumes "tr_sensor_action (th_row th) s = None" and "tr_mail (th_row th) s" and "tr_enabled (th_row th) s \<or> b"
    and "tr_device_selection (th_row th) = Some devs"
  shows "th_trigger s b th = Inl AttributeError"
  using assms by (simp add: th_trigger_def Let_def)

theorem trigger_without_action_witness:
  "th_trigger Upper True (demo_fired\<lparr>th_row := (th_row demo_fired)\<lparr>tr_sensor_action := (\<lambda>_. None), tr_device_selection := Some []\<rparr>\<rparr>)
     = Inl AttributeError"
proof -
  have "tr_mail (th_row demo_fired) Upper" by code_simp
  then show ?thesis by (intro trigger_without_action) simp_all
qed

end
