(* ===== verification/Conf_Var.thy ===== *)
theory Conf_Var
  imports Prelude
begin

section \<open>Configuration variables (initat/tools/configfile.py)\<close>

text \<open>
  A variable has a type, a default, a value and a source. Values are dynamically typed: byte strings and
  unicode strings are told apart because the type checks do. A variable is shared between processes as a
  JSON document; \<open>json_rt\<close> is what \<open>json.loads\<close> reads back from what \<open>json.dumps\<close> writes. The printing of
  values, the decoding of byte strings and the packing of blobs (bz2 and base64) are the fields of \<open>py_env\<close>.
  The keys of a dictionary are texts.
\<close>

datatype py_val =
    VNone
  | VInt int
  | VFloat py_float
  | VBool bool
  | VStr string
  | VUni string
  | VList "py_val list"
  | VTuple "py_val list"
  | VDict "(string \<times> py_val) list"
  | VTime py_float
  | VDelta py_float

record py_env =
  pe_repr :: "py_val \<Rightarrow> string"
  pe_decode :: "string \<Rightarrow> string res"
  pe_pack :: "string \<Rightarrow> string"
  pe_unpack :: "string \<Rightarrow> string res"

fun py_true :: "py_val \<Rightarrow> bool" where
  "py_true VNone = False"
| "py_true (VInt i) = (i \<noteq> 0)"
| "py_true (VFloat x) = (x \<noteq> 0)"
| "py_true (VBool b) = b"
| "py_true (VStr s) = (s \<noteq> [])"
| "py_true (VUni s) = (s \<noteq> [])"
| "py_true (VList xs) = (xs \<noteq> [])"
| "py_true (VTuple xs) = (xs \<noteq> [])"
| "py_true (VDict xs) = (xs \<noteq> [])"
| "py_true (VTime x) = True"
| "py_true (VDelta x) = (x \<noteq> 0)"

text \<open>Equality of values, as sets use it: numbers by value, texts by their characters.\<close>

fun num_of :: "py_val \<Rightarrow> py_float option" where
  "num_of (VInt i) = Some (of_int i)"
| "num_of (VFloat x) = Some x"
| "num_of (VBool b) = Some (if b then 1 else 0)"
| "num_of _ = None"

fun text_of :: "py_val \<Rightarrow> string option" where
  "text_of (VStr s) = Some s"
| "text_of (VUni s) = Some s"
| "text_of _ = None"

fun py_eq :: "py_val \<Rightarrow> py_val \<Rightarrow> bool" where
  "py_eq (VTuple xs) (VTuple ys) = list_all2 py_eq xs ys"
| "py_eq v w =
     (case (num_of v, num_of w) of
        (Some x, Some y) \<Rightarrow> x = y
      | _ \<Rightarrow> (case (text_of v, text_of w) of (Some s, Some t) \<Rightarrow> s = t | _ \<Rightarrow> v = w))"

declare py_eq.simps [simp del]

fun hashable :: "py_val \<Rightarrow> bool" where
  "hashable (VList xs) = False"
| "hashable (VDict xs) = False"
| "hashable (VTuple xs) = list_all hashable xs"
| "hashable _ = True"

text \<open>The elements of a set made from a value.\<close>

fun items_of :: "py_val \<Rightarrow> py_val list res" where
  "items_of (VList xs) = Inr xs"
| "items_of (VTuple xs) = Inr xs"
| "items_of (VStr s) = Inr (map (\<lambda>c. VStr [c]) s)"
| "items_of (VUni s) = Inr (map (\<lambda>c. VUni [c]) s)"
| "items_of (VDict d) = Inr (map (\<lambda>(k, _). VUni k) d)"
| "items_of _ = Inl TypeError"

definition set_of :: "py_val \<Rightarrow> py_val list res" where
  "set_of v = bind_r (items_of v) (\<lambda>xs. if list_all hashable xs then Inr xs else Inl TypeError)"

definition is_ascii :: "string \<Rightarrow> bool" where
  "is_ascii s = list_all (\<lambda>c. of_char c < (128 :: nat)) s"

subsection \<open>The types\<close>

datatype c_type = IntC | FloatC | StrC | BlobC | BoolC | ArrayC | DictC | DatetimeC | TimedeltaC

definition c_types :: "(string \<times> c_type) list" where
  "c_types = [(''Timedelta'', TimedeltaC), (''Datetime'', DatetimeC), (''Dict'', DictC), (''Array'', ArrayC), (''Bool'', BoolC),
     (''Blob'', BlobC), (''String'', StrC), (''Float'', FloatC), (''Integer'', IntC)]"

fun descr :: "c_type \<Rightarrow> string" where
  "descr IntC = ''Integer''"
| "descr FloatC = ''Float''"
| "descr StrC = ''String''"
| "descr BlobC = ''Blob''"
| "descr BoolC = ''Bool''"
| "descr ArrayC = ''Array''"
| "descr DictC = ''Dict''"
| "descr DatetimeC = ''Datetime''"
| "descr TimedeltaC = ''Timedelta''"

fun short_type :: "c_type \<Rightarrow> string" where
  "short_type IntC = ''i''"
| "short_type FloatC = ''f''"
| "short_type StrC = ''s''"
| "short_type BlobC = ''B''"
| "short_type BoolC = ''b''"
| "short_type ArrayC = ''a''"
| "short_type DictC = ''d''"
| "short_type DatetimeC = ''ddt''"
| "short_type TimedeltaC = ''dtd''"

fun check_type :: "c_type \<Rightarrow> py_val \<Rightarrow> bool" where
  "check_type IntC v = (case v of VInt _ \<Rightarrow> True | _ \<Rightarrow> False)"
| "check_type FloatC v = (case v of VFloat _ \<Rightarrow> True | _ \<Rightarrow> False)"
| "check_type StrC v = (case v of VStr _ \<Rightarrow> True | VUni _ \<Rightarrow> True | _ \<Rightarrow> False)"
| "check_type BlobC v = (case v of VStr _ \<Rightarrow> True | _ \<Rightarrow> False)"
| "check_type BoolC v = (case v of VBool _ \<Rightarrow> True | _ \<Rightarrow> False)"
| "check_type ArrayC v = (case v of VList _ \<Rightarrow> True | VStr _ \<Rightarrow> True | _ \<Rightarrow> False)"
| "check_type DictC v = (case v of VDict _ \<Rightarrow> True | _ \<Rightarrow> False)"
| "check_type DatetimeC v = (case v of VTime _ \<Rightarrow> True | _ \<Rightarrow> False)"
| "check_type TimedeltaC v = (case v of VDelta _ \<Rightarrow> True | _ \<Rightarrow> False)"

text \<open>The conversions \<open>int\<close>, \<open>float\<close> and \<open>str\<close>.\<close>

fun to_int :: "py_val \<Rightarrow> py_val res" where
  "to_int (VInt i) = Inr (VInt i)"
| "to_int (VFloat x) = Inr (VInt (py_trunc x))"
| "to_int (VBool b) = Inr (VInt (if b then 1 else 0))"
| "to_int (VStr s) = bind_r (py_int s) (\<lambda>i. Inr (VInt i))"
| "to_int (VUni s) = bind_r (py_int s) (\<lambda>i. Inr (VInt i))"
| "to_int _ = Inl TypeError"

fun to_float :: "py_val \<Rightarrow> py_val res" where
  "to_float (VInt i) = Inr (VFloat (of_int i))"
| "to_float (VFloat x) = Inr (VFloat x)"
| "to_float (VBool b) = Inr (VFloat (if b then 1 else 0))"
| "to_float (VStr s) = bind_r (py_float_of s) (\<lambda>x. Inr (VFloat x))"
| "to_float (VUni s) = bind_r (py_float_of s) (\<lambda>x. Inr (VFloat x))"
| "to_float _ = Inl TypeError"

fun to_str :: "py_env \<Rightarrow> py_val \<Rightarrow> py_val res" where
  "to_str env (VStr s) = Inr (VStr s)"
| "to_str env (VUni s) = (if is_ascii s then Inr (VStr s) else Inl ValueError)"
| "to_str env v = Inr (VStr (pe_repr env v))"

fun to_bool :: "py_val \<Rightarrow> py_val" where
  "to_bool (VStr s) = VBool (s \<noteq> [] \<and> hd s \<in> {CHR ''t'', CHR ''T''})"
| "to_bool (VUni s) = VBool (s \<noteq> [] \<and> hd s \<in> {CHR ''t'', CHR ''T''})"
| "to_bool v = VBool (py_true v)"

definition str_to_val :: "py_env \<Rightarrow> c_type \<Rightarrow> py_val \<Rightarrow> py_val res" where
  "str_to_val env t v =
     (case t of
        IntC \<Rightarrow> to_int v
      | FloatC \<Rightarrow> to_float v
      | StrC \<Rightarrow> to_str env v
      | BlobC \<Rightarrow> to_str env v
      | BoolC \<Rightarrow> Inr (to_bool v)
      | _ \<Rightarrow> Inr v)"

subsection \<open>Variables\<close>

record c_var =
  cv_type :: c_type
  cv_default :: py_val
  cv_value :: py_val
  cv_info :: py_val
  cv_source :: py_val
  cv_fixed :: py_val
  cv_global :: py_val
  cv_help :: py_val
  cv_short :: py_val
  cv_choices :: py_val
  cv_nargs :: py_val
  cv_database_set :: bool
  cv_database :: py_val
  cv_only_commandline :: py_val

definition kw_get :: "(string \<times> py_val) list \<Rightarrow> string \<Rightarrow> py_val \<Rightarrow> py_val" where
  "kw_get kw k d = (case map_of kw k of Some v \<Rightarrow> v | None \<Rightarrow> d)"

definition new_c_var :: "c_type \<Rightarrow> py_val \<Rightarrow> (string \<times> py_val) list \<Rightarrow> c_var res" where
  "new_c_var t def_val kw =
     (if \<not> check_type t def_val then Inl TypeError
      else Inr \<lparr>cv_type = t, cv_default = def_val, cv_value = def_val, cv_info = kw_get kw ''info'' (VUni []),
                cv_source = kw_get kw ''source'' (VUni ''default''), cv_fixed = kw_get kw ''fixed'' (VBool False),
                cv_global = kw_get kw ''is_global'' (VBool True), cv_help = kw_get kw ''help_string'' VNone,
                cv_short = kw_get kw ''short_options'' VNone, cv_choices = kw_get kw ''choices'' VNone,
                cv_nargs = kw_get kw ''nargs'' VNone, cv_database_set = (''database'' \<in> fst ` set kw),
                cv_database = kw_get kw ''database'' (VBool False),
                cv_only_commandline = kw_get kw ''only_commandline'' (VBool False)\<rparr>)"

text \<open>\<open>set_value\<close>: the value is converted; it is taken over when it has no element outside the choices. The set
  of its elements is built also when there are no choices.\<close>

fun value_items :: "py_val \<Rightarrow> py_val list" where
  "value_items (VList xs) = xs"
| "value_items (VTuple xs) = xs"
| "value_items v = [v]"

definition take_value :: "py_val \<Rightarrow> py_val \<Rightarrow> c_var \<Rightarrow> c_var" where
  "take_value v src c =
     (let c1 = c\<lparr>cv_value := v\<rparr> in
      if py_true src \<and> (\<not> py_eq src (VUni ''default'') \<or> py_eq (cv_source c) (VUni ''default''))
      then c1\<lparr>cv_source := src\<rparr> else c1)"

definition set_value :: "py_env \<Rightarrow> py_val \<Rightarrow> py_val \<Rightarrow> c_var \<Rightarrow> c_var res" where
  "set_value env v src c =
     bind_r (str_to_val env (cv_type c) v) (\<lambda>r.
       if \<not> list_all hashable (value_items r) then Inl TypeError
       else if py_true (cv_choices c) then
         bind_r (set_of (cv_choices c)) (\<lambda>cs.
           Inr (if list_ex (\<lambda>x. \<not> list_ex (py_eq x) cs) (value_items r) then c else take_value r src c))
       else Inr (take_value r src c))"

definition pretty_print :: "c_var \<Rightarrow> py_val" where
  "pretty_print c =
     (case cv_type c of
        BlobC \<Rightarrow> (case cv_value c of VStr s \<Rightarrow> VUni (''blob with len '' @ str_of_nat (length s)) | _ \<Rightarrow> VUni ''blob with len 0'')
      | BoolC \<Rightarrow> VUni (if py_true (cv_value c) then ''True'' else ''False'')
      | _ \<Rightarrow> cv_value c)"

definition is_commandline_option :: "c_var \<Rightarrow> bool" where
  "is_commandline_option c = py_true (cv_help c)"

subsection \<open>Sharing a variable\<close>

lemma mapM_r_cong [fundef_cong]:
  "xs = ys \<Longrightarrow> (\<And>x. x \<in> set ys \<Longrightarrow> f x = g x) \<Longrightarrow> mapM_r f xs = mapM_r g ys"
  by (induction ys arbitrary: xs) auto

text \<open>What is read back from a JSON document: texts become unicode, tuples become lists; times are refused.\<close>

fun json_rt :: "py_env \<Rightarrow> py_val \<Rightarrow> py_val res" where
  "json_rt env (VStr s) = bind_r (pe_decode env s) (\<lambda>u. Inr (VUni u))"
| "json_rt env (VList xs) = bind_r (mapM_r (json_rt env) xs) (\<lambda>ys. Inr (VList ys))"
| "json_rt env (VTuple xs) = bind_r (mapM_r (json_rt env) xs) (\<lambda>ys. Inr (VList ys))"
| "json_rt env (VDict d) = bind_r (mapM_r (\<lambda>(k, v). bind_r (json_rt env v) (\<lambda>w. Inr (k, w))) d) (\<lambda>e. Inr (VDict e))"
| "json_rt env (VTime t) = Inl TypeError"
| "json_rt env (VDelta t) = Inl TypeError"
| "json_rt env v = Inr v"

text \<open>\<open>base64.b64encode(bz2.compress(v))\<close> takes a byte string or a unicode string that can be encoded.\<close>

fun pack_blob :: "py_env \<Rightarrow> py_val \<Rightarrow> py_val res" where
  "pack_blob env (VStr s) = Inr (VUni (pe_pack env s))"
| "pack_blob env (VUni s) = (if is_ascii s then Inr (VUni (pe_pack env s)) else Inl ValueError)"
| "pack_blob env v = Inl TypeError"

fun unpack_blob :: "py_env \<Rightarrow> py_val \<Rightarrow> py_val res" where
  "unpack_blob env (VUni s) = bind_r (pe_unpack env s) (\<lambda>b. Inr (VStr b))"
| "unpack_blob env v = Inl TypeError"

definition kwargs_of :: "c_var \<Rightarrow> (string \<times> py_val) list" where
  "kwargs_of c =
     [(''info'', cv_info c), (''source'', cv_source c), (''fixed'', cv_fixed c), (''is_global'', cv_global c),
      (''help_string'', cv_help c), (''short_options'', cv_short c), (''choices'', cv_choices c), (''nargs'', cv_nargs c),
      (''database'', cv_database c), (''only_commandline'', cv_only_commandline c)]"

definition serialize :: "py_env \<Rightarrow> c_var \<Rightarrow> py_val res" where
  "serialize env c =
     bind_r (if cv_type c = BlobC then pack_blob env (cv_value c) else Inr (cv_value c)) (\<lambda>v.
     bind_r (if cv_type c = BlobC then pack_blob env (cv_default c) else Inr (cv_default c)) (\<lambda>d.
       json_rt env (VDict [(''descr'', VUni (descr (cv_type c))), (''default_value'', d), (''value'', v),
                           (''kwargs'', VDict (kwargs_of c))])))"

fun dict_of :: "py_val \<Rightarrow> (string \<times> py_val) list res" where
  "dict_of (VDict d) = Inr d"
| "dict_of _ = Inl TypeError"

text \<open>The body of the loop of \<open>_read_full_dict\<close>.\<close>

definition deserialize :: "py_env \<Rightarrow> py_val \<Rightarrow> c_var res" where
  "deserialize env js =
     bind_r (dict_of js) (\<lambda>j.
     bind_r (dict_get ''descr'' j) (\<lambda>ds.
     bind_r (dict_get ''default_value'' j) (\<lambda>d0.
     bind_r (if ds = VUni ''Blob'' then unpack_blob env d0 else Inr d0) (\<lambda>d.
     bind_r (case text_of ds of None \<Rightarrow> Inl KeyError | Some n \<Rightarrow> dict_get n c_types) (\<lambda>t.
     bind_r (bind_r (dict_get ''kwargs'' j) dict_of) (\<lambda>kw.
     bind_r (new_c_var t d kw) (\<lambda>obj.
     bind_r (dict_get ''value'' j) (\<lambda>v0.
     bind_r (if ds = VUni ''Blob'' then unpack_blob env v0 else Inr v0) (\<lambda>v.
       Inr (obj\<lparr>cv_value := v\<rparr>))))))))))"

lemma mapM_r_snd:
  "mapM_r (\<lambda>(k, v). bind_r (f v) (\<lambda>w. Inr (k, w))) d = Inr e \<Longrightarrow> map fst e = map fst d"
  by (induction d arbitrary: e) (auto simp: bind_r_eq_Inr)

lemma mapM_r_idem:
  "mapM_r f xs = Inr ys \<Longrightarrow> (\<And>x y. x \<in> set xs \<Longrightarrow> f x = Inr y \<Longrightarrow> f y = Inr y) \<Longrightarrow> mapM_r f ys = Inr ys"
proof (induction xs arbitrary: ys)
  case (Cons a xs)
  from Cons.prems(1) obtain y zs where "f a = Inr y" "mapM_r f xs = Inr zs" "ys = y # zs" by (auto simp: bind_r_eq_Inr)
  moreover from this have "f y = Inr y" "mapM_r f zs = Inr zs" using Cons.IH Cons.prems(2) by (meson list.set_intros)+
  ultimately show ?case by simp
qed simp

lemma json_rt_idem: "json_rt env v = Inr w \<Longrightarrow> json_rt env w = Inr w"
proof (induction v arbitrary: w)
  case (VList xs)
  then obtain ys where "mapM_r (json_rt env) xs = Inr ys" "w = VList ys" by (auto simp: bind_r_eq_Inr)
  moreover from this(1) have "mapM_r (json_rt env) ys = Inr ys" by (rule mapM_r_idem) (use VList.IH in blast)
  ultimately show ?case by simp
next
  case (VTuple xs)
  then obtain ys where "mapM_r (json_rt env) xs = Inr ys" "w = VList ys" by (auto simp: bind_r_eq_Inr)
  moreover from this(1) have "mapM_r (json_rt env) ys = Inr ys" by (rule mapM_r_idem) (use VTuple.IH in blast)
  ultimately show ?case by simp
next
  case (VDict d)
  let ?f = "\<lambda>(k, v). bind_r (json_rt env v) (\<lambda>w. Inr (k, w))"
  from VDict.prems obtain e where "mapM_r ?f d = Inr e" "w = VDict e" by (auto simp: bind_r_eq_Inr)
  moreover from this(1) have "mapM_r ?f e = Inr e"
    by (rule mapM_r_idem) (use VDict.IH in \<open>auto simp: bind_r_eq_Inr\<close>)
  ultimately show ?case by simp
qed (auto simp: bind_r_eq_Inr)

lemma serialize_eq:
  "serialize env c = Inr j \<longleftrightarrow>
     (\<exists>v d v' d' kw. (if cv_type c = BlobC then pack_blob env (cv_value c) else Inr (cv_value c)) = Inr v \<and>
       (if cv_type c = BlobC then pack_blob env (cv_default c) else Inr (cv_default c)) = Inr d \<and>
       json_rt env v = Inr v' \<and> json_rt env d = Inr d' \<and> json_rt env (VDict (kwargs_of c)) = Inr (VDict kw) \<and>
       j = VDict [(''descr'', VUni (descr (cv_type c))), (''default_value'', d'), (''value'', v'), (''kwargs'', VDict kw)])"
  unfolding serialize_def by (auto simp: bind_r_eq_Inr)

lemma kwargs_roundtrip:
  assumes "json_rt env (VDict (kwargs_of c)) = Inr (VDict kw)" and "new_c_var t d kw = Inr obj"
  shows "kwargs_of (obj\<lparr>cv_value := v\<rparr>) = kw \<and> cv_database_set obj"
proof -
  from assms(1) obtain i s f g h sh ch n db oc where
    kw: "kw = [(''info'', i), (''source'', s), (''fixed'', f), (''is_global'', g), (''help_string'', h), (''short_options'', sh),
          (''choices'', ch), (''nargs'', n), (''database'', db), (''only_commandline'', oc)]"
    by (auto simp: kwargs_of_def bind_r_eq_Inr)
  from assms(2) show ?thesis by (auto simp: new_c_var_def kw kw_get_def kwargs_of_def split: if_splits)
qed

text \<open>The variables whose JSON document can be read back: all but arrays whose default is a text, which comes
  back as unicode and is refused by the type check of the constructor.\<close>

definition readable :: "c_var \<Rightarrow> bool" where
  "readable c \<longleftrightarrow> check_type (cv_type c) (cv_default c) \<and> \<not> (cv_type c = ArrayC \<and> (\<exists>s. cv_default c = VStr s))"

definition pack_ok :: "py_env \<Rightarrow> bool" where
  "pack_ok env \<longleftrightarrow> (\<forall>s. pe_unpack env (pe_pack env s) = Inr s)"

lemma descr_c_types: "dict_get (descr t) c_types = Inr t" and descr_Blob: "descr t = ''Blob'' \<longleftrightarrow> t = BlobC"
  by (cases t; simp add: c_types_def dict_get_def)+

lemma json_type:
  assumes "check_type t d" and "json_rt env d = Inr d'" and "t \<noteq> BlobC"
  shows "check_type t d' \<longleftrightarrow> \<not> (t = ArrayC \<and> (\<exists>s. d = VStr s))"
  using assms by (cases t; cases d) (auto simp: bind_r_eq_Inr)

lemma pack_unpack:
  assumes "pack_ok env" and "pack_blob env v = Inr p"
  shows "json_rt env p = Inr p \<and> (\<exists>s. unpack_blob env p = Inr (VStr s) \<and> pack_blob env (VStr s) = Inr p)"
  using assms by (cases v) (auto simp: pack_ok_def split: if_splits)

lemma serialize_readable:
  assumes "pack_ok env" and "serialize env c = Inr j" and "readable c"
  obtains c' where "deserialize env j = Inr c'" "serialize env c' = Inr j" "cv_type c' = cv_type c" "readable c'" "cv_database_set c'"
proof -
  from assms(2) obtain v d v' d' kw where
    v: "(if cv_type c = BlobC then pack_blob env (cv_value c) else Inr (cv_value c)) = Inr v" and
    d: "(if cv_type c = BlobC then pack_blob env (cv_default c) else Inr (cv_default c)) = Inr d" and
    rt: "json_rt env v = Inr v'" "json_rt env d = Inr d'" and k: "json_rt env (VDict (kwargs_of c)) = Inr (VDict kw)" and
    j: "j = VDict [(''descr'', VUni (descr (cv_type c))), (''default_value'', d'), (''value'', v'), (''kwargs'', VDict kw)]"
    unfolding serialize_eq by blast
  let ?un = "\<lambda>x. if cv_type c = BlobC then unpack_blob env x else Inr x"
  have rest: "json_rt env (VDict kw) = Inr (VDict kw)" using json_rt_idem [OF k] .
  have "\<exists>w e. ?un v' = Inr w \<and> ?un d' = Inr e \<and> check_type (cv_type c) e \<and> \<not> (cv_type c = ArrayC \<and> (\<exists>s. e = VStr s)) \<and>
     (if cv_type c = BlobC then pack_blob env w else Inr w) = Inr v' \<and>
     (if cv_type c = BlobC then pack_blob env e else Inr e) = Inr d' \<and> json_rt env v' = Inr v' \<and> json_rt env d' = Inr d'"
  proof (cases "cv_type c = BlobC")
    case True
    with pack_unpack [OF assms(1), of "cv_value c" v] pack_unpack [OF assms(1), of "cv_default c" d] v d rt show ?thesis by auto
  next
    case False
    with v d have "v = cv_value c" "d = cv_default c" by simp_all
    with False rt json_type [of "cv_type c" d env d'] assms(3) show ?thesis
      by (auto simp: readable_def json_rt_idem) (cases "cv_default c"; simp add: bind_r_eq_Inr; blast)+
  qed
  then obtain w e where we: "?un v' = Inr w" "?un d' = Inr e" "check_type (cv_type c) e" "\<not> (cv_type c = ArrayC \<and> (\<exists>s. e = VStr s))"
    "(if cv_type c = BlobC then pack_blob env w else Inr w) = Inr v'" "(if cv_type c = BlobC then pack_blob env e else Inr e) = Inr d'"
    "json_rt env v' = Inr v'" "json_rt env d' = Inr d'" by blast
  from we(3) obtain obj where obj: "new_c_var (cv_type c) e kw = Inr obj" "cv_type obj = cv_type c" "cv_default obj = e"
    by (auto simp: new_c_var_def)
  note kr = kwargs_roundtrip [OF k obj(1)]
  have "deserialize env j = Inr (obj\<lparr>cv_value := w\<rparr>)"
    using we obj(1) by (simp add: deserialize_def j dict_get_def [of "''descr''"] dict_get_def [of "''kwargs''"] dict_get_def [of "''value''"]
        dict_get_def [of "''default_value''"] descr_c_types descr_Blob split del: if_split)
  moreover have "serialize env (obj\<lparr>cv_value := w\<rparr>) = Inr j"
    unfolding serialize_eq using we obj kr rest by (auto simp: j)
  ultimately show ?thesis using that [of "obj\<lparr>cv_value := w\<rparr>"] obj we kr by (auto simp: readable_def)
qed

lemma serialize_unreadable:
  assumes "serialize env c = Inr j" and "cv_type c = ArrayC" and "cv_default c = VStr s"
  shows "deserialize env j = Inl TypeError"
proof -
  from assms obtain v' u kw where "j = VDict [(''descr'', VUni (descr ArrayC)), (''default_value'', VUni u), (''value'', v'), (''kwargs'', VDict kw)]"
    unfolding serialize_eq by (auto simp: bind_r_eq_Inr)
  moreover have "dict_get ''Array'' c_types = Inr ArrayC" using descr_c_types [of ArrayC] by simp
  ultimately show ?thesis by (simp add: deserialize_def dict_get_def [of "''descr''"] dict_get_def [of "''kwargs''"]
        dict_get_def [of "''value''"] dict_get_def [of "''default_value''"] new_c_var_def)
qed

text \<open>C14: a shared variable is read back, with the same type and as a variable that has the same JSON document again,
  exactly if it is not an array whose default is a byte string; such a variable is refused with a type error.\<close>

theorem serialize_roundtrip:
  assumes "pack_ok env" and "check_type (cv_type c) (cv_default c)" and "serialize env c = Inr j"
  shows "if cv_type c = ArrayC \<and> (\<exists>s. cv_default c = VStr s) then deserialize env j = Inl TypeError
     else \<exists>c'. deserialize env j = Inr c' \<and> cv_type c' = cv_type c \<and> serialize env c' = Inr j"
proof (cases "readable c")
  case True
  from serialize_readable [OF assms(1, 3) True] True show ?thesis by (metis readable_def)
next
  case False
  with assms(2) serialize_unreadable [OF assms(3)] show ?thesis by (auto simp: readable_def)
qed

definition demo_py_env :: py_env where
  "demo_py_env = \<lparr>pe_repr = (\<lambda>_. ''?''), pe_decode = Inr, pe_pack = (\<lambda>s. CHR ''z'' # s), pe_unpack = (\<lambda>s. Inr (tl s))\<rparr>"

definition demo_blob :: c_var where
  "demo_blob = projr (new_c_var BlobC (VStr ''abc'') [])"

theorem serialize_roundtrip_witness:
  "\<exists>j c'. serialize demo_py_env demo_blob = Inr j \<and> deserialize demo_py_env j = Inr c' \<and> serialize demo_py_env c' = Inr j"
proof -
  have p: "pack_ok demo_py_env" by (simp add: pack_ok_def demo_py_env_def)
  have t: "check_type (cv_type demo_blob) (cv_default demo_blob)" "cv_type demo_blob = BlobC" by code_simp+
  have "\<not> isl (serialize demo_py_env demo_blob)" by code_simp
  then obtain j where j: "serialize demo_py_env demo_blob = Inr j" by (cases "serialize demo_py_env demo_blob") auto
  from serialize_roundtrip [OF p t(1) j] t(2) j show ?thesis by auto
qed

subsection \<open>Setting a variable\<close>

text \<open>A caller that catches the errors of \<open>set_value\<close>, and goes on with the variable as it was.\<close>

definition try_set :: "py_env \<Rightarrow> py_val \<times> py_val \<Rightarrow> c_var \<Rightarrow> c_var" where
  "try_set env vs c = (case set_value env (fst vs) (snd vs) c of Inl _ \<Rightarrow> c | Inr c' \<Rightarrow> c')"

definition scalar :: "c_type \<Rightarrow> bool" where
  "scalar t \<longleftrightarrow> t \<in> {IntC, FloatC, StrC, BlobC, BoolC}"

lemma str_to_val_type:
  assumes "scalar t" and "str_to_val env t v = Inr r"
  shows "check_type t r \<and> value_items r = [r]"
  using assms by (cases t; cases v) (auto simp: scalar_def str_to_val_def bind_r_eq_Inr split: if_splits)

lemma set_value_cases:
  assumes "set_value env v src c = Inr c'"
  obtains "c' = c"
  | r where "str_to_val env (cv_type c) v = Inr r" "c' = take_value r src c"
      "py_true (cv_choices c) \<longrightarrow> (\<exists>cs. set_of (cv_choices c) = Inr cs \<and> (\<forall>x \<in> set (value_items r). list_ex (py_eq x) cs))"
  using assms by (auto simp: set_value_def bind_r_eq_Inr list_ex_iff split: if_splits)

lemma take_value_frame [simp]:
  "cv_type (take_value r src c) = cv_type c" "cv_default (take_value r src c) = cv_default c" "cv_choices (take_value r src c) = cv_choices c"
  "cv_value (take_value r src c) = r"
  by (simp_all add: take_value_def Let_def)

lemma take_value_source:
  "\<not> py_eq (cv_source c) (VUni ''default'') \<Longrightarrow> \<not> py_eq (cv_source (take_value r src c)) (VUni ''default'')"
  by (auto simp: take_value_def Let_def)

text \<open>What holds for a variable of a scalar type from one setting to the next.\<close>

definition var_ok :: "c_var \<Rightarrow> c_var \<Rightarrow> bool" where
  "var_ok c c' \<longleftrightarrow> cv_type c' = cv_type c \<and> cv_default c' = cv_default c \<and> cv_choices c' = cv_choices c \<and>
     check_type (cv_type c) (cv_value c') \<and>
     (py_true (cv_choices c) \<longrightarrow> cv_value c' = cv_value c \<or> (\<exists>cs. set_of (cv_choices c) = Inr cs \<and> list_ex (py_eq (cv_value c')) cs)) \<and>
     (\<not> py_eq (cv_source c) (VUni ''default'') \<longrightarrow> \<not> py_eq (cv_source c') (VUni ''default''))"

lemma try_set_ok:
  assumes "scalar (cv_type c)" and "var_ok c c1"
  shows "var_ok c (try_set env vs c1)"
proof (cases "set_value env (fst vs) (snd vs) c1")
  case (Inr c2)
  then show ?thesis
  proof (cases rule: set_value_cases)
    case 1
    with Inr assms show ?thesis by (simp add: try_set_def)
  next
    case (2 r)
    have t: "cv_type c1 = cv_type c" "cv_choices c1 = cv_choices c" using assms(2) by (simp_all add: var_ok_def)
    note s = str_to_val_type [OF assms(1), of env "fst vs" r]
    have "check_type (cv_type c) r" "value_items r = [r]" using 2(1) s t by simp_all
    with 2 Inr assms(2) t take_value_source [of c1 r "snd vs"] show ?thesis by (simp add: try_set_def var_ok_def)
  qed
qed (use assms in \<open>simp add: try_set_def\<close>)

text \<open>C13: whatever a program writes to a variable of a scalar type, the value keeps the type of the variable, it is
  the old one or one of the choices if there are any, and a source once known is never replaced by
  the default one.\<close>

theorem conf_var_typed:
  assumes "scalar (cv_type c)" and "check_type (cv_type c) (cv_value c)" and "c' = fold (try_set env) vss c"
  shows "cv_type c' = cv_type c \<and> check_type (cv_type c') (cv_value c') \<and>
    (py_true (cv_choices c) \<longrightarrow> cv_value c' = cv_value c \<or> (\<exists>cs. set_of (cv_choices c) = Inr cs \<and> list_ex (py_eq (cv_value c')) cs)) \<and>
    (\<not> py_eq (cv_source c) (VUni ''default'') \<longrightarrow> \<not> py_eq (cv_source c') (VUni ''default''))"
proof -
  have "var_ok c (fold (try_set env) vss c1)" if "var_ok c c1" for c1
    using that by (induction vss arbitrary: c1) (auto intro: try_set_ok [OF assms(1)])
  moreover have "var_ok c c" using assms(2) by (simp add: var_ok_def)
  ultimately have "var_ok c c'" using assms(3) by blast
  then show ?thesis by (simp add: var_ok_def)
qed

definition demo_int :: c_var where
  "demo_int = projr (new_c_var IntC (VInt 3) [(''choices'', VList [VInt 3, VInt 5])])"

theorem conf_var_typed_witness:
  "check_type IntC (cv_value (fold (try_set demo_py_env) [(VUni ''7'', VNone), (VUni ''5'', VUni ''file''), (VUni ''x'', VNone)] demo_int))"
proof -
  have "scalar (cv_type demo_int)" "check_type (cv_type demo_int) (cv_value demo_int)" "cv_type demo_int = IntC"
    by (code_simp, code_simp, code_simp)
  with conf_var_typed [of demo_int _ demo_py_env "[(VUni ''7'', VNone), (VUni ''5'', VUni ''file''), (VUni ''x'', VNone)]", OF _ _ refl]
  show ?thesis by metis
qed

text \<open>A dictionary variable can never be set: the set of its value is built although there are no choices, and a
  dictionary can not be an element of a set.\<close>

theorem dict_var_unsettable:
  assumes "cv_type c = DictC" and "check_type DictC v"
  shows "set_value env v src c = Inl TypeError"
  using assms by (cases v) (simp_all add: set_value_def str_to_val_def)

theorem dict_var_unsettable_witness:
  "set_value demo_py_env (VDict []) VNone (projr (new_c_var DictC (VDict []) [])) = Inl TypeError"
proof (rule dict_var_unsettable)
  show "cv_type (projr (new_c_var DictC (VDict []) [])) = DictC" by code_simp
qed simp

end
