(* ===== verification/Config_Cache.thy ===== *)
theory Config_Cache
  imports Conf_Var
begin

section \<open>The shared configuration dictionary (MemCacheBasedDict of initat/tools/configfile.py)\<close>

text \<open>
  The processes of a daemon share their configuration through memcached: every process has a copy of the
  dictionary and a version tag, every change writes the changed variable, the list of the keys and a new
  tag, and every access first compares the tags and reads everything again when they differ. The memcache
  client is a parameter (\<open>ce_get\<close>, \<open>ce_set\<close>, \<open>ce_delete\<close>); the tags are the values of a counter under \<open>ce_uuid\<close>.
  An operation takes the copy and the store and returns a result or an error, and both; an error leaves
  what was changed before. Operations do not overlap, but those of several processes may follow each
  other in any order.
\<close>

record 'm conf_env =
  ce_py :: py_env
  ce_get :: "'m \<Rightarrow> string \<Rightarrow> py_val option"
  ce_set :: "string \<Rightarrow> py_val \<Rightarrow> 'm \<Rightarrow> 'm"
  ce_delete :: "string \<Rightarrow> 'm \<Rightarrow> 'm"
  ce_uuid :: "nat \<Rightarrow> string"

record mdict =
  md_spm :: bool
  md_enabled :: bool
  md_prefix :: string
  md_dict :: "(string \<times> c_var) list"
  md_keys :: "string list"
  md_version :: py_val
  md_update_mode :: bool

record 'm mc_world =
  wo_mc :: 'm
  wo_uuid :: nat

type_synonym 'm cstate = "mdict \<times> 'm mc_world"

definition bind_s :: "('s \<Rightarrow> 'a res \<times> 's) \<Rightarrow> ('a \<Rightarrow> 's \<Rightarrow> 'b res \<times> 's) \<Rightarrow> 's \<Rightarrow> 'b res \<times> 's" where
  "bind_s m f s = (case m s of (Inl e, s') \<Rightarrow> (Inl e, s') | (Inr x, s') \<Rightarrow> f x s')"

definition ret :: "'a \<Rightarrow> 's \<Rightarrow> 'a res \<times> 's" where
  "ret x s = (Inr x, s)"

definition throw :: "py_error \<Rightarrow> 's \<Rightarrow> 'a res \<times> 's" where
  "throw e s = (Inl e, s)"

lemma bind_s_Inr [simp]: "m s = (Inr x, s') \<Longrightarrow> bind_s m f s = f x s'"
  by (simp add: bind_s_def)

lemma bind_s_Inl [simp]: "m s = (Inl e, s') \<Longrightarrow> bind_s m f s = (Inl e, s')"
  by (simp add: bind_s_def)

subsection \<open>Access to memcached\<close>

definition mc_active :: "mdict \<Rightarrow> bool" where
  "mc_active md \<longleftrightarrow> \<not> md_spm md \<and> md_enabled md"

definition mc_key :: "string \<Rightarrow> string \<Rightarrow> string" where
  "mc_key prefix key = prefix @ ''_'' @ key"

definition mc_get :: "'m conf_env \<Rightarrow> string \<Rightarrow> 'm cstate \<Rightarrow> py_val" where
  "mc_get env key s =
     (case ce_get env (wo_mc (snd s)) (mc_key (md_prefix (fst s)) key) of None \<Rightarrow> VNone | Some v \<Rightarrow> v)"

definition mc_set :: "'m conf_env \<Rightarrow> string \<Rightarrow> py_val \<Rightarrow> 'm cstate \<Rightarrow> 'm cstate" where
  "mc_set env key v s =
     (fst s, (snd s)\<lparr>wo_mc := ce_set env (mc_key (md_prefix (fst s)) key) v (wo_mc (snd s))\<rparr>)"

definition var_key :: "string \<Rightarrow> string" where
  "var_key key = ''k_'' @ key"

definition change_version :: "'m conf_env \<Rightarrow> 'm cstate \<Rightarrow> 'm cstate" where
  "change_version env s =
     (let v = VStr (ce_uuid env (wo_uuid (snd s)))
      in mc_set env ''version'' v ((fst s)\<lparr>md_version := v\<rparr>, (snd s)\<lparr>wo_uuid := wo_uuid (snd s) + 1\<rparr>))"

definition store_keys :: "'m conf_env \<Rightarrow> 'm cstate \<Rightarrow> unit res \<times> 'm cstate" where
  "store_keys env s = ret () (change_version env (mc_set env ''keys'' (VList (map VUni (md_keys (fst s)))) s))"

definition update_key :: "'m conf_env \<Rightarrow> string \<Rightarrow> 'm cstate \<Rightarrow> unit res \<times> 'm cstate" where
  "update_key env key s =
     (case bind_r (dict_get key (md_dict (fst s))) (serialize (ce_py env)) of
        Inl e \<Rightarrow> throw e s
      | Inr j \<Rightarrow> ret () (mc_set env (var_key key) j s))"

fun update_keys :: "'m conf_env \<Rightarrow> string list \<Rightarrow> 'm cstate \<Rightarrow> unit res \<times> 'm cstate" where
  "update_keys env [] s = ret () s"
| "update_keys env (k # ks) s = bind_s (update_key env k) (\<lambda>_. update_keys env ks) s"

definition store_full_dict :: "'m conf_env \<Rightarrow> 'm cstate \<Rightarrow> unit res \<times> 'm cstate" where
  "store_full_dict env s =
     (if mc_active (fst s) then bind_s (update_keys env (md_keys (fst s))) (\<lambda>_. store_keys env) s else ret () s)"

definition key_modified :: "'m conf_env \<Rightarrow> string \<Rightarrow> 'm cstate \<Rightarrow> unit res \<times> 'm cstate" where
  "key_modified env key s =
     (if mc_active (fst s) then bind_s (update_key env key) (\<lambda>_. store_keys env) s else ret () s)"

definition dummy_init :: "'m conf_env \<Rightarrow> 'm cstate \<Rightarrow> unit res \<times> 'm cstate" where
  "dummy_init env s = store_full_dict env ((fst s)\<lparr>md_keys := [], md_dict := []\<rparr>, snd s)"

text \<open>Reading everything; any error on the way starts with an empty dictionary, which is stored.\<close>

fun keys_of :: "py_val \<Rightarrow> string list res" where
  "keys_of (VList xs) = mapM_r (\<lambda>v. case text_of v of Some s \<Rightarrow> Inr s | None \<Rightarrow> Inl TypeError) xs"
| "keys_of _ = Inl TypeError"

definition read_var :: "'m conf_env \<Rightarrow> 'm cstate \<Rightarrow> string \<Rightarrow> (string \<times> c_var) res" where
  "read_var env s key = bind_r (deserialize (ce_py env) (mc_get env (var_key key) s)) (\<lambda>c. Inr (key, c))"

definition read_full_dict :: "'m conf_env \<Rightarrow> 'm cstate \<Rightarrow> unit res \<times> 'm cstate" where
  "read_full_dict env s =
     (let md = (fst s)\<lparr>md_version := mc_get env ''version'' s\<rparr> in
      case bind_r (keys_of (mc_get env ''keys'' s)) (\<lambda>ks. bind_r (mapM_r (read_var env s) ks) (\<lambda>d. Inr (ks, d))) of
        Inr (ks, d) \<Rightarrow> ret () (md\<lparr>md_keys := ks, md_dict := fold (\<lambda>(k, c). AList.update k c) d []\<rparr>, snd s)
      | Inl _ \<Rightarrow> dummy_init env (md, snd s))"

definition check_mc :: "'m conf_env \<Rightarrow> 'm cstate \<Rightarrow> unit res \<times> 'm cstate" where
  "check_mc env s =
     (if mc_active (fst s) then
        (let v = mc_get env ''version'' s in
         if \<not> py_true (md_version (fst s)) then
           (if v = VNone then store_full_dict env s else read_full_dict env s)
         else if md_version (fst s) \<noteq> v then read_full_dict env s else ret () s)
      else ret () s)"

subsection \<open>The public functions\<close>

definition new_mdict :: "'m conf_env \<Rightarrow> bool \<Rightarrow> bool \<Rightarrow> string \<Rightarrow> 'm mc_world \<Rightarrow> unit res \<times> 'm cstate" where
  "new_mdict env spm enabled prefix w =
     check_mc env (\<lparr>md_spm = spm, md_enabled = enabled, md_prefix = prefix, md_dict = [], md_keys = [], md_version = VNone,
                    md_update_mode = False\<rparr>, w)"

definition mc_enable :: "'m conf_env \<Rightarrow> 'm cstate \<Rightarrow> unit res \<times> 'm cstate" where
  "mc_enable env s =
     (if \<not> md_enabled (fst s) then store_full_dict env ((fst s)\<lparr>md_enabled := True\<rparr>, snd s) else ret () s)"

definition set_update_mode :: "'m conf_env \<Rightarrow> bool \<Rightarrow> 'm cstate \<Rightarrow> unit res \<times> 'm cstate" where
  "set_update_mode env mode s =
     (let s1 = ((fst s)\<lparr>md_update_mode := mode\<rparr>, snd s) in if \<not> mode then store_full_dict env s1 else ret () s1)"

definition dict_keys :: "'m conf_env \<Rightarrow> 'm cstate \<Rightarrow> string list res \<times> 'm cstate" where
  "dict_keys env = bind_s (check_mc env) (\<lambda>_ s. ret (md_keys (fst s)) s)"

definition dict_contains :: "'m conf_env \<Rightarrow> string \<Rightarrow> 'm cstate \<Rightarrow> bool res \<times> 'm cstate" where
  "dict_contains env key = bind_s (check_mc env) (\<lambda>_ s. ret (key \<in> set (md_keys (fst s))) s)"

text \<open>The local part of an assignment.\<close>

definition put_local :: "string \<Rightarrow> c_var \<Rightarrow> 'm cstate \<Rightarrow> 'm cstate" where
  "put_local key c s =
     ((fst s)\<lparr>md_keys := (if key \<in> set (md_keys (fst s)) then md_keys (fst s) else md_keys (fst s) @ [key]),
              md_dict := AList.update key c (md_dict (fst s))\<rparr>, snd s)"

definition dict_setitem :: "'m conf_env \<Rightarrow> string \<Rightarrow> c_var \<Rightarrow> 'm cstate \<Rightarrow> unit res \<times> 'm cstate" where
  "dict_setitem env key c =
     bind_s (check_mc env) (\<lambda>_ s.
       let s1 = put_local key c s in if \<not> md_update_mode (fst s1) then key_modified env key s1 else ret () s1)"

definition dict_getitem :: "'m conf_env \<Rightarrow> string \<Rightarrow> 'm cstate \<Rightarrow> c_var res \<times> 'm cstate" where
  "dict_getitem env key = bind_s (check_mc env) (\<lambda>_ s. (dict_get key (md_dict (fst s)), s))"

text \<open>Deleting: the entry is removed from memcached under the bare key, not under the one it was stored with.\<close>

definition dict_delitem :: "'m conf_env \<Rightarrow> string \<Rightarrow> 'm cstate \<Rightarrow> unit res \<times> 'm cstate" where
  "dict_delitem env key =
     bind_s (check_mc env) (\<lambda>_ s.
       if key \<notin> set (md_keys (fst s)) then throw ValueError s
       else
         (let s1 = ((fst s)\<lparr>md_keys := remove1 key (md_keys (fst s))\<rparr>, snd s) in
          if key \<notin> fst ` set (md_dict (fst s)) then throw KeyError s1
          else
            (let s2 = ((fst s1)\<lparr>md_dict := AList.delete key (md_dict (fst s1))\<rparr>, snd s1) in
             if mc_active (fst s2) then
               store_keys env (fst s2, (snd s2)\<lparr>wo_mc := ce_delete env (mc_key (md_prefix (fst s2)) key) (wo_mc (snd s2))\<rparr>)
             else ret () s2)))"

subsection \<open>What the store and the copies hold\<close>

text \<open>What the code relies on: memcached keeps what is written, tags are never used twice, blobs can be unpacked.\<close>

definition env_ok :: "'m conf_env \<Rightarrow> bool" where
  "env_ok env \<longleftrightarrow> pack_ok (ce_py env) \<and>
     (\<forall>m k v k'. ce_get env (ce_set env k v m) k' = (if k' = k then Some v else ce_get env m k')) \<and>
     (\<forall>m k k'. ce_get env (ce_delete env k m) k' = (if k' = k then None else ce_get env m k')) \<and>
     inj (ce_uuid env) \<and> (\<forall>n. ce_uuid env n \<noteq> [])"

definition raw :: "'m conf_env \<Rightarrow> string \<Rightarrow> 'm mc_world \<Rightarrow> string \<Rightarrow> py_val option" where
  "raw env pre w key = ce_get env (wo_mc w) (mc_key pre key)"

text \<open>A variable and its JSON document.\<close>

definition doc_of :: "'m conf_env \<Rightarrow> c_var \<Rightarrow> py_val \<Rightarrow> bool" where
  "doc_of env c j \<longleftrightarrow> serialize (ce_py env) c = Inr j \<and> readable c"

text \<open>The store holds the dictionary \<open>A\<close> of documents; a copy holds it when its variables have these documents.\<close>

definition stores :: "'m conf_env \<Rightarrow> string \<Rightarrow> 'm mc_world \<Rightarrow> (string \<times> py_val) list \<Rightarrow> bool" where
  "stores env pre w A \<longleftrightarrow>
     (\<exists>n < wo_uuid w. raw env pre w ''version'' = Some (VStr (ce_uuid env n))) \<and>
     raw env pre w ''keys'' = Some (VList (map (\<lambda>x. VUni (fst x)) A)) \<and> distinct (map fst A) \<and>
     (\<forall>k j. map_of A k = Some j \<longrightarrow> raw env pre w (var_key k) = Some j \<and> (\<exists>c. doc_of env c j))"

definition holds :: "'m conf_env \<Rightarrow> (string \<times> py_val) list \<Rightarrow> mdict \<Rightarrow> bool" where
  "holds env A md \<longleftrightarrow> md_keys md = map fst A \<and> (\<forall>k. rel_option (doc_of env) (map_of (md_dict md) k) (map_of A k))"

definition proc_ok :: "'m conf_env \<Rightarrow> string \<Rightarrow> 'm mc_world \<Rightarrow> (string \<times> py_val) list \<Rightarrow> mdict \<Rightarrow> bool" where
  "proc_ok env pre w A md \<longleftrightarrow> mc_active md \<and> md_prefix md = pre \<and> \<not> md_update_mode md \<and>
     (\<exists>n < wo_uuid w. md_version md = VStr (ce_uuid env n)) \<and>
     (raw env pre w ''version'' = Some (md_version md) \<longrightarrow> holds env A md)"

text \<open>A copy that is up to date.\<close>

definition in_sync :: "'m conf_env \<Rightarrow> string \<Rightarrow> (string \<times> py_val) list \<Rightarrow> 'm cstate \<Rightarrow> bool" where
  "in_sync env pre A s \<longleftrightarrow> env_ok env \<and> stores env pre (snd s) A \<and> mc_active (fst s) \<and> md_prefix (fst s) = pre \<and>
     raw env pre (snd s) ''version'' = Some (md_version (fst s)) \<and> holds env A (fst s)"

lemma mc_key_inj [simp]: "mc_key pre a = mc_key pre b \<longleftrightarrow> a = b"
  by (simp add: mc_key_def)

lemma mc_get_raw: "mc_get env key s = (case raw env (md_prefix (fst s)) (snd s) key of None \<Rightarrow> VNone | Some v \<Rightarrow> v)"
  by (simp add: mc_get_def raw_def)

lemma raw_mc_set:
  "env_ok env \<Longrightarrow> raw env (md_prefix (fst s)) (snd (mc_set env key v s)) k = (if k = key then Some v else raw env (md_prefix (fst s)) (snd s) k)"
  by (simp add: raw_def mc_set_def env_ok_def)

lemma map_of_fold_pairs:
  "distinct (map fst d) \<Longrightarrow> map_of (fold (\<lambda>(k, c). AList.update k c) d acc) k = (case map_of d k of Some c \<Rightarrow> Some c | None \<Rightarrow> map_of acc k)"
proof (induction d arbitrary: acc)
  case (Cons x d)
  obtain a b where "x = (a, b)" by (cases x)
  moreover have "map_of d a = None" if "x = (a, b)" using Cons.prems that by (simp add: map_of_eq_None_iff)
  ultimately show ?case using Cons by (auto simp: update_conv' split: option.splits)
qed simp

lemma map_of_map_fst: "map_of (map (\<lambda>(k, j). (k, g j)) A) k = map_option g (map_of A k)"
  by (induction A) auto

lemma doc_read:
  assumes "env_ok env" and "doc_of env c j"
  shows "\<exists>c'. deserialize (ce_py env) j = Inr c' \<and> doc_of env c' j"
proof -
  have "pack_ok (ce_py env)" using assms(1) by (simp add: env_ok_def)
  with serialize_readable [of "ce_py env" c j] assms(2) show ?thesis unfolding doc_of_def by metis
qed

lemma read_vars_ok:
  assumes "env_ok env" and "stores env (md_prefix (fst s)) (snd s) A"
  obtains d where "mapM_r (read_var env s) (map fst A) = Inr d" "map fst d = map fst A"
    "\<forall>k. rel_option (doc_of env) (map_of d k) (map_of A k)"
proof -
  define g where "g j = projr (deserialize (ce_py env) j)" for j
  have g: "deserialize (ce_py env) j = Inr (g j) \<and> doc_of env (g j) j" if "\<exists>c. doc_of env c j" for j
    using doc_read [OF assms(1)] that unfolding g_def by fastforce
  have A: "map_of A k = Some j \<Longrightarrow> raw env (md_prefix (fst s)) (snd s) (var_key k) = Some j \<and> (\<exists>c. doc_of env c j)" for k j
    using assms(2) by (simp add: stores_def)
  have dist: "distinct (map fst A)" using assms(2) by (simp add: stores_def)
  have "read_var env s k = Inr (k, g (the (map_of A k)))" if "k \<in> set (map fst A)" for k
  proof -
    from that obtain j where "map_of A k = Some j" by (metis image_set map_of_eq_None_iff not_None_eq)
    with A [OF this] g show ?thesis by (auto simp: read_var_def mc_get_raw)
  qed
  then have "mapM_r (read_var env s) (map fst A) = Inr (map (\<lambda>k. (k, g (the (map_of A k)))) (map fst A))" by (rule mapM_r_all_Inr)
  also have "map (\<lambda>k. (k, g (the (map_of A k)))) (map fst A) = map (\<lambda>(k, j). (k, g j)) A"
    using dist by (auto simp: map_of_is_SomeI)
  finally have m: "mapM_r (read_var env s) (map fst A) = Inr (map (\<lambda>(k, j). (k, g j)) A)" .
  have "rel_option (doc_of env) (map_of (map (\<lambda>(k, j). (k, g j)) A) k) (map_of A k)" for k
    using A [of k] g by (cases "map_of A k") (auto simp: map_of_map_fst)
  moreover have "map fst (map (\<lambda>(k, j). (k, g j)) A) = map fst A" by (simp add: case_prod_unfold)
  ultimately show ?thesis using m that by blast
qed

lemma keys_of_texts: "keys_of (VList (map (\<lambda>x. VUni (fst x)) A)) = Inr (map fst A)"
  by (induction A) simp_all

lemma read_full_dict_ok:
  assumes "env_ok env" and "stores env (md_prefix (fst s)) (snd s) A" and "mc_active (fst s)"
  obtains md where "read_full_dict env s = (Inr (), (md, snd s))" "in_sync env (md_prefix (fst s)) A (md, snd s)"
    "md_update_mode md = md_update_mode (fst s)"
proof -
  from assms(2) obtain n where st: "raw env (md_prefix (fst s)) (snd s) ''version'' = Some (VStr (ce_uuid env n))"
    "raw env (md_prefix (fst s)) (snd s) ''keys'' = Some (VList (map (\<lambda>x. VUni (fst x)) A))" "distinct (map fst A)"
    by (auto simp: stores_def)
  from read_vars_ok [OF assms(1, 2)] obtain d where d: "mapM_r (read_var env s) (map fst A) = Inr d" "map fst d = map fst A"
    "\<forall>k. rel_option (doc_of env) (map_of d k) (map_of A k)" .
  let ?md = "(fst s)\<lparr>md_version := VStr (ce_uuid env n), md_keys := map fst A, md_dict := fold (\<lambda>(k, c). AList.update k c) d []\<rparr>"
  have "read_full_dict env s = (Inr (), (?md, snd s))"
    using st d(1) by (simp add: read_full_dict_def mc_get_raw keys_of_texts ret_def Let_def del: keys_of.simps)
  moreover have "map_of (fold (\<lambda>(k, c). AList.update k c) d []) k = map_of d k" for k
    using d(2) st(3) by (simp add: map_of_fold_pairs split: option.splits)
  then have "holds env A ?md" using d(3) by (simp add: holds_def)
  ultimately show ?thesis using that [of ?md] assms st by (simp add: in_sync_def mc_active_def)
qed

lemma version_true: "env_ok env \<Longrightarrow> py_true (VStr (ce_uuid env n))"
  by (simp add: env_ok_def)

text \<open>An access brings the copy up to date and leaves the store alone.\<close>

lemma check_mc_ok:
  assumes "env_ok env" and "stores env pre (snd s) A" and "proc_ok env pre (snd s) A (fst s)"
  obtains md where "check_mc env s = (Inr (), (md, snd s))" "in_sync env pre A (md, snd s)" "\<not> md_update_mode md"
proof (cases "raw env pre (snd s) ''version'' = Some (md_version (fst s))")
  case True
  with assms have "check_mc env s = (Inr (), s)"
    using version_true [OF assms(1)] by (auto simp: check_mc_def proc_ok_def mc_get_raw ret_def)
  moreover from True assms have "in_sync env pre A s" by (simp add: in_sync_def proc_ok_def)
  ultimately show ?thesis using that [of "fst s"] assms(3) by (simp add: proc_ok_def)
next
  case False
  from assms(3) have p: "mc_active (fst s)" "md_prefix (fst s) = pre" "\<not> md_update_mode (fst s)" "py_true (md_version (fst s))"
    using version_true [OF assms(1)] by (auto simp: proc_ok_def)
  from assms(2) obtain v where v: "raw env pre (snd s) ''version'' = Some v" by (auto simp: stores_def)
  with False p have "check_mc env s = read_full_dict env s" by (auto simp: check_mc_def mc_get_raw)
  with read_full_dict_ok [OF assms(1) _ p(1), of A] assms(2) p that show ?thesis by metis
qed

lemma check_mc_in_sync:
  assumes "in_sync env pre A s"
  shows "check_mc env s = (Inr (), s)"
proof -
  from assms obtain n where "md_version (fst s) = VStr (ce_uuid env n)" by (auto simp: in_sync_def stores_def)
  with assms version_true [of env n] show ?thesis by (auto simp: check_mc_def in_sync_def mc_get_raw ret_def)
qed

subsection \<open>Writing\<close>

lemma var_key_simps [simp]:
  "var_key k \<noteq> ''version''" "var_key k \<noteq> ''keys''" "''version'' \<noteq> var_key k" "''keys'' \<noteq> var_key k" "var_key k = var_key k' \<longleftrightarrow> k = k'"
  by (simp_all add: var_key_def)

text \<open>The store has got a tag that was never used before.\<close>

definition newer :: "'m conf_env \<Rightarrow> string \<Rightarrow> 'm mc_world \<Rightarrow> 'm mc_world \<Rightarrow> bool" where
  "newer env pre w w' \<longleftrightarrow> (\<exists>n \<ge> wo_uuid w. n < wo_uuid w' \<and> raw env pre w' ''version'' = Some (VStr (ce_uuid env n)))"

lemma newer_proc_ok:
  assumes "env_ok env" and "proc_ok env pre w A md" and "newer env pre w w'"
  shows "proc_ok env pre w' A' md"
proof -
  from assms(2) obtain m where m: "m < wo_uuid w" "md_version md = VStr (ce_uuid env m)" by (auto simp: proc_ok_def)
  from assms(3) obtain n where n: "wo_uuid w \<le> n" "n < wo_uuid w'" "raw env pre w' ''version'' = Some (VStr (ce_uuid env n))"
    by (auto simp: newer_def)
  have "ce_uuid env m \<noteq> ce_uuid env n" using m(1) n(1) assms(1) by (auto simp: env_ok_def dest: injD)
  moreover have "m < wo_uuid w'" using m(1) n(1, 2) by simp
  ultimately show ?thesis using assms(2) m(2) n(3) by (auto simp: proc_ok_def)
qed

lemma in_sync_proc_ok:
  assumes "in_sync env pre A s" and "\<not> md_update_mode (fst s)"
  shows "proc_ok env pre (snd s) A (fst s)"
  using assms by (auto simp: in_sync_def proc_ok_def stores_def)

lemma store_keys_ok:
  assumes "env_ok env" and "mc_active (fst s)" and "md_prefix (fst s) = pre" and "holds env A (fst s)" and "distinct (map fst A)"
    and "\<forall>k j. map_of A k = Some j \<longrightarrow> raw env pre (snd s) (var_key k) = Some j"
  obtains s' where "store_keys env s = (Inr (), s')" "in_sync env pre A s'" "newer env pre (snd s) (snd s')"
    "md_update_mode (fst s') = md_update_mode (fst s)"
proof -
  define s1 where "s1 = mc_set env ''keys'' (VList (map VUni (md_keys (fst s)))) s"
  define v where "v = VStr (ce_uuid env (wo_uuid (snd s)))"
  define s' where "s' = change_version env s1"
  have f1: "fst s1 = fst s" "wo_uuid (snd s1) = wo_uuid (snd s)" by (simp_all add: s1_def mc_set_def)
  have f2: "fst s' = (fst s)\<lparr>md_version := v\<rparr>" "wo_uuid (snd s') = Suc (wo_uuid (snd s))"
    by (simp_all add: s'_def change_version_def Let_def mc_set_def f1 v_def)
  have r1: "raw env pre (snd s1) k = (if k = ''keys'' then Some (VList (map VUni (md_keys (fst s)))) else raw env pre (snd s) k)" for k
    using raw_mc_set [OF assms(1), of s "''keys''"] assms(3) by (simp add: s1_def)
  have r2: "raw env pre (snd s') k = (if k = ''version'' then Some v else raw env pre (snd s1) k)" for k
    using raw_mc_set [OF assms(1), of "((fst s1)\<lparr>md_version := v\<rparr>, (snd s1)\<lparr>wo_uuid := wo_uuid (snd s1) + 1\<rparr>)" "''version''" v k] assms(3)
    by (simp add: s'_def change_version_def Let_def f1 v_def raw_def)
  have docs: "\<exists>c. doc_of env c j" if "map_of A k = Some j" for k j
    using assms(4) that unfolding holds_def by (metis option_rel_Some2)
  have keys: "map VUni (md_keys (fst s)) = map (\<lambda>x. VUni (fst x)) A" using assms(4) by (simp add: holds_def)
  have "stores env pre (snd s') A" unfolding stores_def
    using assms(5, 6) docs keys f2(2) by (auto simp: r2 r1 v_def)
  then have "in_sync env pre A s'" using assms(1-4) f2(1) by (simp add: in_sync_def r2 mc_active_def holds_def)
  moreover have "newer env pre (snd s) (snd s')" unfolding newer_def using f2(2) by (auto simp: r2 v_def)
  ultimately show ?thesis using that [of s'] f2(1) by (simp add: store_keys_def ret_def s'_def s1_def)
qed

lemma update_key_ok:
  assumes "map_of (md_dict (fst s)) k = Some c" and "serialize (ce_py env) c = Inr j"
  shows "update_key env k s = (Inr (), mc_set env (var_key k) j s)"
  using assms by (simp add: update_key_def ret_def)

text \<open>Writing some of the variables of a copy.\<close>

lemma update_keys_ok:
  assumes "env_ok env" and "holds env A (fst s)" and "set ks \<subseteq> fst ` set A"
  obtains w' where "update_keys env ks s = (Inr (), (fst s, w'))" "wo_uuid w' = wo_uuid (snd s)"
    "\<forall>k j. k \<in> set ks \<and> map_of A k = Some j \<longrightarrow> raw env (md_prefix (fst s)) w' (var_key k) = Some j"
    "\<forall>x. (\<forall>k \<in> set ks. x \<noteq> var_key k) \<longrightarrow> raw env (md_prefix (fst s)) w' x = raw env (md_prefix (fst s)) (snd s) x"
proof -
  have "\<exists>w'. update_keys env ks s = (Inr (), (fst s, w')) \<and> wo_uuid w' = wo_uuid (snd s) \<and>
    (\<forall>k j. k \<in> set ks \<and> map_of A k = Some j \<longrightarrow> raw env (md_prefix (fst s)) w' (var_key k) = Some j) \<and>
    (\<forall>x. (\<forall>k \<in> set ks. x \<noteq> var_key k) \<longrightarrow> raw env (md_prefix (fst s)) w' x = raw env (md_prefix (fst s)) (snd s) x)"
    using assms(2, 3)
  proof (induction ks arbitrary: s)
    case (Cons k ks)
    from Cons.prems(2) obtain j where j: "map_of A k = Some j" by (metis list.set_intros(1) map_of_eq_None_iff not_None_eq subsetD)
    have "rel_option (doc_of env) (map_of (md_dict (fst s)) k) (Some j)" using Cons.prems(1) by (simp add: holds_def flip: j)
    then obtain c where c: "map_of (md_dict (fst s)) k = Some c" "serialize (ce_py env) c = Inr j"
      by (auto simp: option_rel_Some2 doc_of_def)
    let ?s = "mc_set env (var_key k) j s"
    have fs: "fst ?s = fst s" "wo_uuid (snd ?s) = wo_uuid (snd s)" by (simp_all add: mc_set_def)
    have r: "raw env (md_prefix (fst s)) (snd ?s) x = (if x = var_key k then Some j else raw env (md_prefix (fst s)) (snd s) x)" for x
      by (rule raw_mc_set [OF assms(1)])
    have "holds env A (fst ?s)" "set ks \<subseteq> fst ` set A" using Cons.prems fs(1) by simp_all
    note ih = Cons.IH [OF this, unfolded fs]
    from ih obtain w' where w': "update_keys env ks ?s = (Inr (), (fst s, w'))" "wo_uuid w' = wo_uuid (snd s)"
      "\<forall>k j. k \<in> set ks \<and> map_of A k = Some j \<longrightarrow> raw env (md_prefix (fst s)) w' (var_key k) = Some j"
      "\<forall>x. (\<forall>k \<in> set ks. x \<noteq> var_key k) \<longrightarrow> raw env (md_prefix (fst s)) w' x = raw env (md_prefix (fst s)) (snd ?s) x" by (elim exE conjE) blast
    have "raw env (md_prefix (fst s)) w' (var_key k) = Some j"
    proof (cases "k \<in> set ks")
      case False
      then have "\<forall>k' \<in> set ks. var_key k \<noteq> var_key k'" by auto
      with w'(4) r [of "var_key k"] show ?thesis by simp
    qed (use w'(3) j in simp)
    moreover have "update_keys env (k # ks) s = (Inr (), (fst s, w'))" using w'(1) by (simp add: bind_s_def update_key_ok [OF c])
    moreover have "raw env (md_prefix (fst s)) w' x = raw env (md_prefix (fst s)) (snd s) x" if "\<forall>k' \<in> set (k # ks). x \<noteq> var_key k'" for x
      using that w'(4) r [of x] by simp
    ultimately show ?case using w'(2, 3) j by (intro exI [of _ w'] conjI) (simp, simp, force, blast)
  next
    case Nil
    show ?case by (rule exI [of _ "snd s"]) (simp add: ret_def)
  qed
  then show ?thesis using that by (elim exE conjE) assumption
qed

lemma store_full_dict_ok:
  assumes "env_ok env" and "mc_active (fst s)" and "md_prefix (fst s) = pre" and "holds env A (fst s)" and "distinct (map fst A)"
  obtains s' where "store_full_dict env s = (Inr (), s')" "in_sync env pre A s'" "newer env pre (snd s) (snd s')"
    "md_update_mode (fst s') = md_update_mode (fst s)"
proof -
  have keys: "set (md_keys (fst s)) = fst ` set A" using assms(4) by (simp add: holds_def)
  from update_keys_ok [OF assms(1, 4) equalityD1 [OF keys]] obtain w' where
    w': "update_keys env (md_keys (fst s)) s = (Inr (), (fst s, w'))" "wo_uuid w' = wo_uuid (snd s)"
    "\<forall>k j. k \<in> set (md_keys (fst s)) \<and> map_of A k = Some j \<longrightarrow> raw env (md_prefix (fst s)) w' (var_key k) = Some j"
    "\<forall>x. (\<forall>k \<in> set (md_keys (fst s)). x \<noteq> var_key k) \<longrightarrow> raw env (md_prefix (fst s)) w' x = raw env (md_prefix (fst s)) (snd s) x" .
  have r: "\<forall>k j. map_of A k = Some j \<longrightarrow> raw env pre (snd (fst s, w')) (var_key k) = Some j"
  proof (intro allI impI)
    fix k j assume a: "map_of A k = Some j"
    then have "k \<in> set (md_keys (fst s))" unfolding keys by (force dest: map_of_SomeD)
    with w'(3) a assms(3) show "raw env pre (snd (fst s, w')) (var_key k) = Some j" by simp
  qed
  have "mc_active (fst (fst s, w'))" "md_prefix (fst (fst s, w')) = pre" "holds env A (fst (fst s, w'))" using assms by simp_all
  from store_keys_ok [OF assms(1) this assms(5) r] obtain s' where
    s': "store_keys env (fst s, w') = (Inr (), s')" "in_sync env pre A s'" "newer env pre (snd (fst s, w')) (snd s')"
      "md_update_mode (fst s') = md_update_mode (fst (fst s, w'))" .
  have "store_full_dict env s = (Inr (), s')" using w'(1) s'(1) assms(2) by (simp add: store_full_dict_def bind_s_def)
  moreover have "newer env pre (snd s) (snd s')" using s'(3) w'(2) by (simp add: newer_def)
  ultimately show ?thesis using that [of s'] s'(2, 4) by simp
qed

lemma put_local_holds:
  assumes "holds env A (fst s)" and "doc_of env c j"
  shows "holds env (AList.update k j A) (fst (put_local k c s))"
  using assms by (auto simp: holds_def put_local_def AList.update_keys update_conv')

lemma key_modified_ok:
  assumes "in_sync env pre A s" and "doc_of env c j"
  obtains s' where "key_modified env k (put_local k c s) = (Inr (), s')" "in_sync env pre (AList.update k j A) s'"
    "newer env pre (snd s) (snd s')" "md_update_mode (fst s') = md_update_mode (fst s)"
proof -
  let ?s1 = "put_local k c s"
  let ?s2 = "mc_set env (var_key k) j ?s1"
  let ?A = "AList.update k j A"
  have s: "env_ok env" "mc_active (fst s)" "md_prefix (fst s) = pre" "holds env A (fst s)" "stores env pre (snd s) A"
    using assms(1) by (simp_all add: in_sync_def)
  have f1: "mc_active (fst ?s1)" "md_prefix (fst ?s1) = pre" "snd ?s1 = snd s" "md_update_mode (fst ?s1) = md_update_mode (fst s)"
    using s by (simp_all add: put_local_def mc_active_def)
  have f2: "fst ?s2 = fst ?s1" "wo_uuid (snd ?s2) = wo_uuid (snd s)" using f1 by (simp_all add: mc_set_def)
  have "map_of (md_dict (fst ?s1)) k = Some c" by (simp add: put_local_def update_conv')
  then have u: "update_key env k ?s1 = (Inr (), ?s2)" using assms(2) by (auto intro: update_key_ok simp: doc_of_def)
  have h: "holds env ?A (fst ?s2)" using put_local_holds [OF s(4) assms(2)] f2 by simp
  have d: "distinct (map fst ?A)" using s(5) by (simp add: stores_def distinct_update)
  have r: "\<forall>x i. map_of ?A x = Some i \<longrightarrow> raw env pre (snd ?s2) (var_key x) = Some i"
    using raw_mc_set [OF s(1), of ?s1] s(5) f1 by (auto simp: update_conv' stores_def)
  have "mc_active (fst ?s2)" "md_prefix (fst ?s2) = pre" using f1 f2 by simp_all
  from store_keys_ok [OF s(1) this h d r] obtain s' where
    s': "store_keys env ?s2 = (Inr (), s')" "in_sync env pre ?A s'" "newer env pre (snd ?s2) (snd s')" "md_update_mode (fst s') = md_update_mode (fst ?s2)" .
  have "key_modified env k ?s1 = (Inr (), s')" using f1(1) u s'(1) by (simp add: key_modified_def bind_s_def)
  moreover have "newer env pre (snd s) (snd s')" using s'(3) f2(2) by (simp add: newer_def)
  ultimately show ?thesis using that [of s'] s'(2, 4) f1 f2 by simp
qed

lemma holds_delete:
  assumes "holds env A md" and "distinct (map fst A)"
  shows "holds env (AList.delete k A) (md\<lparr>md_keys := remove1 k (md_keys md), md_dict := AList.delete k (md_dict md)\<rparr>)"
proof -
  have "map fst (AList.delete k A) = remove1 k (map fst A)"
    using assms(2) by (simp add: delete_keys distinct_remove1_removeAll)
  with assms(1) show ?thesis by (auto simp: holds_def delete_conv')
qed

text \<open>The key of a deleted variable must not be the key of the stored value of another one.\<close>

definition free_key :: "string \<Rightarrow> (string \<times> py_val) list \<Rightarrow> bool" where
  "free_key k A \<longleftrightarrow> (\<forall>k' \<in> fst ` set A. k \<noteq> var_key k')"

lemma delete_stored_ok:
  assumes "in_sync env pre A s" and "free_key k A"
  obtains s' where "store_keys env ((fst s)\<lparr>md_keys := remove1 k (md_keys (fst s)), md_dict := AList.delete k (md_dict (fst s))\<rparr>,
      (snd s)\<lparr>wo_mc := ce_delete env (mc_key (md_prefix (fst s)) k) (wo_mc (snd s))\<rparr>) = (Inr (), s')"
    "in_sync env pre (AList.delete k A) s'" "newer env pre (snd s) (snd s')" "md_update_mode (fst s') = md_update_mode (fst s)"
proof -
  let ?md = "(fst s)\<lparr>md_keys := remove1 k (md_keys (fst s)), md_dict := AList.delete k (md_dict (fst s))\<rparr>"
  let ?w = "(snd s)\<lparr>wo_mc := ce_delete env (mc_key (md_prefix (fst s)) k) (wo_mc (snd s))\<rparr>"
  have s: "env_ok env" "mc_active (fst s)" "md_prefix (fst s) = pre" "holds env A (fst s)" "stores env pre (snd s) A"
    using assms(1) by (simp_all add: in_sync_def)
  have dA: "distinct (map fst A)" using s(5) by (simp add: stores_def)
  then have d: "distinct (map fst (AList.delete k A))" by (rule distinct_delete)
  have rw: "raw env pre ?w x = (if x = k then None else raw env pre (snd s) x)" for x
    using s(1, 3) by (simp add: raw_def env_ok_def)
  have "raw env pre ?w (var_key x) = Some j" if "map_of (AList.delete k A) x = Some j" for x j
  proof -
    from that have "map_of A x = Some j" by (simp add: delete_conv' split: if_splits)
    moreover from this have "k \<noteq> var_key x" using assms(2) by (auto simp: free_key_def dest!: map_of_SomeD)
    ultimately show ?thesis using s(5) by (auto simp: rw stores_def)
  qed
  then have "\<forall>x j. map_of (AList.delete k A) x = Some j \<longrightarrow> raw env pre (snd (?md, ?w)) (var_key x) = Some j" by simp
  note r = this
  have "mc_active (fst (?md, ?w))" "md_prefix (fst (?md, ?w)) = pre" "holds env (AList.delete k A) (fst (?md, ?w))"
    using holds_delete [OF s(4) dA, of k] s(2, 3) by (simp_all add: mc_active_def)
  from store_keys_ok [OF s(1) this d r] obtain s' where "store_keys env (?md, ?w) = (Inr (), s')" "in_sync env pre (AList.delete k A) s'"
    "newer env pre (snd (?md, ?w)) (snd s')" "md_update_mode (fst s') = md_update_mode (fst (?md, ?w))" .
  with that [of s'] show ?thesis by (simp add: newer_def)
qed

end
