(* ===== verification/Configuration.thy ===== *)
theory Configuration
  imports Config_Cache
begin

section \<open>The configuration object (Configuration of initat/tools/configfile.py)\<close>

text \<open>
  The object a daemon works with. Every accessor first asks whether the key is in the shared dictionary and
  raises a key error if not. The operations of several processes on one configuration are shown to be
  those of a single dictionary of JSON documents.
\<close>

definition if_has ::
  "(string \<Rightarrow> 's \<Rightarrow> bool res \<times> 's) \<Rightarrow> (string \<Rightarrow> 's \<Rightarrow> c_var res \<times> 's) \<Rightarrow> string \<Rightarrow> (c_var \<Rightarrow> 's \<Rightarrow> 'a res \<times> 's) \<Rightarrow> 's \<Rightarrow> 'a res \<times> 's" where
  "if_has has get key f = bind_s (has key) (\<lambda>b. if b then bind_s (get key) f else throw KeyError)"

definition conf_var :: "'m conf_env \<Rightarrow> string \<Rightarrow> (c_var \<Rightarrow> 'a) \<Rightarrow> 'm cstate \<Rightarrow> 'a res \<times> 'm cstate" where
  "conf_var env key f = if_has (dict_contains env) (dict_getitem env) key (\<lambda>c. ret (f c))"

definition conf_getitem :: "'m conf_env \<Rightarrow> string \<Rightarrow> 'm cstate \<Rightarrow> py_val res \<times> 'm cstate" where
  "conf_getitem env key = conf_var env key cv_value"

definition conf_pretty_print :: "'m conf_env \<Rightarrow> string \<Rightarrow> 'm cstate \<Rightarrow> py_val res \<times> 'm cstate" where
  "conf_pretty_print env key = conf_var env key pretty_print"

definition get_source :: "'m conf_env \<Rightarrow> string \<Rightarrow> 'm cstate \<Rightarrow> py_val res \<times> 'm cstate" where
  "get_source env key = conf_var env key cv_source"

definition conf_fixed :: "'m conf_env \<Rightarrow> string \<Rightarrow> 'm cstate \<Rightarrow> py_val res \<times> 'm cstate" where
  "conf_fixed env key = conf_var env key cv_fixed"

definition is_global :: "'m conf_env \<Rightarrow> string \<Rightarrow> 'm cstate \<Rightarrow> py_val res \<times> 'm cstate" where
  "is_global env key = conf_var env key cv_global"

definition database :: "'m conf_env \<Rightarrow> string \<Rightarrow> 'm cstate \<Rightarrow> py_val res \<times> 'm cstate" where
  "database env key = conf_var env key cv_database"

definition get_type :: "'m conf_env \<Rightarrow> string \<Rightarrow> 'm cstate \<Rightarrow> string res \<times> 'm cstate" where
  "get_type env key = conf_var env key (\<lambda>c. short_type (cv_type c))"

definition conf_get :: "'m conf_env \<Rightarrow> string \<Rightarrow> py_val \<Rightarrow> 'm cstate \<Rightarrow> py_val res \<times> 'm cstate" where
  "conf_get env key def_v =
     bind_s (dict_contains env key) (\<lambda>b. if b then bind_s (dict_getitem env key) (\<lambda>c. ret (cv_value c)) else ret def_v)"

text \<open>The setter of the global flag changes the object of this process only.\<close>

definition set_global :: "'m conf_env \<Rightarrow> string \<Rightarrow> py_val \<Rightarrow> 'm cstate \<Rightarrow> unit res \<times> 'm cstate" where
  "set_global env key v =
     if_has (dict_contains env) (dict_getitem env) key (\<lambda>c s. ret () (put_local key (c\<lparr>cv_global := v\<rparr>) s))"

text \<open>\<open>__setitem__\<close>: a pair is a value and its source.\<close>

fun value_source :: "py_val \<Rightarrow> (py_val \<times> py_val) res" where
  "value_source (VTuple [v, src]) = Inr (v, src)"
| "value_source (VTuple xs) = Inl ValueError"
| "value_source v = Inr (v, VNone)"

definition assign :: "'m conf_env \<Rightarrow> py_val \<Rightarrow> c_var \<Rightarrow> c_var res" where
  "assign env v c = bind_r (value_source v) (\<lambda>(x, src). set_value (ce_py env) x src c)"

definition conf_setitem :: "'m conf_env \<Rightarrow> string \<Rightarrow> py_val \<Rightarrow> 'm cstate \<Rightarrow> unit res \<times> 'm cstate" where
  "conf_setitem env key v =
     if_has (dict_contains env) (dict_getitem env) key (\<lambda>c s.
       case assign env v c of Inl e \<Rightarrow> throw e s | Inr c' \<Rightarrow> key_modified env key (put_local key c' s))"

definition conf_delitem :: "'m conf_env \<Rightarrow> string \<Rightarrow> 'm cstate \<Rightarrow> unit res \<times> 'm cstate" where
  "conf_delitem env key =
     bind_s (dict_contains env key) (\<lambda>b. if b then dict_delitem env key else throw KeyError)"

fun del_all :: "'m conf_env \<Rightarrow> string list \<Rightarrow> 'm cstate \<Rightarrow> unit res \<times> 'm cstate" where
  "del_all env [] s = ret () s"
| "del_all env (k # ks) s = bind_s (conf_delitem env k) (\<lambda>_. del_all env ks) s"

definition conf_delete :: "'m conf_env \<Rightarrow> 'm cstate \<Rightarrow> unit res \<times> 'm cstate" where
  "conf_delete env = bind_s (dict_keys env) (del_all env)"

text \<open>Adding entries works on the local copy, which is stored as a whole at the end. The database flag given
  with the call replaces that of a variable for which it was not set.\<close>

definition override :: "py_val option \<Rightarrow> c_var \<Rightarrow> c_var" where
  "override db c = (case db of Some v \<Rightarrow> if \<not> cv_database_set c then c\<lparr>cv_database := v\<rparr> else c | None \<Rightarrow> c)"

fun add_entries :: "'m conf_env \<Rightarrow> py_val option \<Rightarrow> (string \<times> c_var) list \<Rightarrow> 'm cstate \<Rightarrow> unit res \<times> 'm cstate" where
  "add_entries env db [] s = ret () s"
| "add_entries env db ((k, c) # es) s =
     bind_s (dict_contains env k) (\<lambda>_. bind_s (dict_setitem env k (override db c)) (\<lambda>_. add_entries env db es)) s"

definition add_config_entries :: "'m conf_env \<Rightarrow> py_val option \<Rightarrow> (string \<times> c_var) list \<Rightarrow> 'm cstate \<Rightarrow> unit res \<times> 'm cstate" where
  "add_config_entries env db es =
     bind_s (set_update_mode env True) (\<lambda>_. bind_s (add_entries env db es) (\<lambda>_. set_update_mode env False))"

subsection \<open>The contract of the dictionary\<close>

text \<open>
  What the configuration relies on. \<open>rel\<close> relates a state of one process and the store to the shared dictionary
  of documents, \<open>cur\<close> says in addition that the copy of the process is up to date.
\<close>

locale shared_dict =
  fixes rel :: "(string \<times> py_val) list \<Rightarrow> 's \<Rightarrow> bool"
    and cur :: "(string \<times> py_val) list \<Rightarrow> 's \<Rightarrow> bool"
    and doc :: "c_var \<Rightarrow> py_val \<Rightarrow> bool"
    and has :: "string \<Rightarrow> 's \<Rightarrow> bool res \<times> 's"
    and get :: "string \<Rightarrow> 's \<Rightarrow> c_var res \<times> 's"
    and put :: "string \<Rightarrow> c_var \<Rightarrow> 's \<Rightarrow> unit res \<times> 's"
  assumes cur_rel: "cur A s \<Longrightarrow> rel A s"
    and has_law: "rel A s \<Longrightarrow> \<exists>s'. has k s = (Inr (k \<in> fst ` set A), s') \<and> cur A s'"
    and get_law: "cur A s \<Longrightarrow> map_of A k = Some j \<Longrightarrow> \<exists>c. get k s = (Inr c, s) \<and> doc c j"
    and put_law: "cur A s \<Longrightarrow> doc c j \<Longrightarrow> \<exists>s'. put k c s = (Inr (), s') \<and> cur (AList.update k j A) s'"
begin

lemma if_has_miss:
  assumes "rel A s" and "map_of A k = None"
  shows "\<exists>s'. if_has has get k f s = (Inl KeyError, s') \<and> rel A s'"
proof -
  from has_law [OF assms(1)] obtain s' where "has k s = (Inr (k \<in> fst ` set A), s')" "cur A s'" by blast
  with assms(2) cur_rel show ?thesis by (auto simp: if_has_def bind_s_def throw_def map_of_eq_None_iff)
qed

lemma if_has_hit:
  assumes "rel A s" and "map_of A k = Some j"
  shows "\<exists>c s'. if_has has get k f s = f c s' \<and> doc c j \<and> cur A s'"
proof -
  from has_law [OF assms(1)] obtain s' where h: "has k s = (Inr (k \<in> fst ` set A), s')" "cur A s'" by blast
  from get_law [OF h(2) assms(2)] obtain c where "get k s' = (Inr c, s')" "doc c j" by blast
  moreover have "k \<in> fst ` set A" using assms(2) by (force dest: map_of_SomeD)
  ultimately show ?thesis using h by (auto simp: if_has_def bind_s_def)
qed

text \<open>Reading a property of a variable.\<close>

lemma if_has_read:
  assumes "rel A s"
  shows "\<exists>s'. rel A s' \<and> (case map_of A k of
      None \<Rightarrow> if_has has get k (\<lambda>c. ret (f c)) s = (Inl KeyError, s')
    | Some j \<Rightarrow> \<exists>c. doc c j \<and> if_has has get k (\<lambda>c. ret (f c)) s = (Inr (f c), s'))"
proof (cases "map_of A k")
  case None
  from if_has_miss [OF assms None] None show ?thesis by auto
next
  case (Some j)
  from if_has_hit [OF assms Some, of "\<lambda>c. ret (f c)"] cur_rel Some show ?thesis by (auto simp: ret_def)
qed

text \<open>Changing a variable.\<close>

lemma if_has_write:
  assumes "rel A s" and "map_of A k = Some j" and "\<And>c. doc c j \<Longrightarrow> (\<exists>e. g c = Inl e) \<or> (\<exists>c' j'. g c = Inr c' \<and> doc c' j')"
  shows "\<exists>c s' A'. doc c j \<and> rel A' s' \<and>
    (case g c of
       Inl e \<Rightarrow> A' = A \<and> if_has has get k (\<lambda>c s. case g c of Inl e \<Rightarrow> throw e s | Inr c' \<Rightarrow> put k c' s) s = (Inl e, s')
     | Inr c' \<Rightarrow> \<exists>j'. doc c' j' \<and> A' = AList.update k j' A \<and>
         if_has has get k (\<lambda>c s. case g c of Inl e \<Rightarrow> throw e s | Inr c' \<Rightarrow> put k c' s) s = (Inr (), s'))"
proof -
  let ?f = "\<lambda>c s. case g c of Inl e \<Rightarrow> throw e s | Inr c' \<Rightarrow> put k c' s"
  from if_has_hit [OF assms(1, 2), of ?f] obtain c s1 where c: "if_has has get k ?f s = ?f c s1" "doc c j" "cur A s1" by blast
  show ?thesis
  proof (cases "g c")
    case (Inl e)
    with c cur_rel show ?thesis by (intro exI [of _ c] exI [of _ s1] exI [of _ A]) (simp add: throw_def)
  next
    case (Inr c')
    with assms(3) [OF c(2)] obtain j' where j': "doc c' j'" by auto
    from put_law [OF c(3) this, of k] obtain s' where "put k c' s1 = (Inr (), s')" "cur (AList.update k j' A) s'" by blast
    with c j' Inr cur_rel show ?thesis
      by (intro exI [of _ c] exI [of _ s'] exI [of _ "AList.update k j' A"]) auto
  qed
qed

end

subsection \<open>The dictionary keeps the contract\<close>

text \<open>One process and the store, seen together with the copies of the other processes.\<close>

definition shares :: "'m conf_env \<Rightarrow> string \<Rightarrow> mdict list \<Rightarrow> (string \<times> py_val) list \<Rightarrow> 'm cstate \<Rightarrow> bool" where
  "shares env pre others A s \<longleftrightarrow> env_ok env \<and> stores env pre (snd s) A \<and> proc_ok env pre (snd s) A (fst s) \<and>
     list_all (proc_ok env pre (snd s) A) others"

definition up_to_date :: "'m conf_env \<Rightarrow> string \<Rightarrow> mdict list \<Rightarrow> (string \<times> py_val) list \<Rightarrow> 'm cstate \<Rightarrow> bool" where
  "up_to_date env pre others A s \<longleftrightarrow> in_sync env pre A s \<and> \<not> md_update_mode (fst s) \<and> list_all (proc_ok env pre (snd s) A) others"

lemma up_to_date_shares: "up_to_date env pre others A s \<Longrightarrow> shares env pre others A s"
  using in_sync_proc_ok [of env pre A s] by (auto simp: up_to_date_def shares_def in_sync_def)

lemma newer_up_to_date:
  assumes "shares env pre others A s" and "in_sync env pre A' s'" and "newer env pre (snd s) (snd s')" and "\<not> md_update_mode (fst s')"
  shows "up_to_date env pre others A' s'"
  using assms newer_proc_ok [of env pre "snd s" A _ "snd s'" A'] by (auto simp: up_to_date_def shares_def list_all_iff)

lemma check_mc_shares:
  assumes "shares env pre others A s"
  obtains s' where "check_mc env s = (Inr (), s')" "up_to_date env pre others A s'" "snd s' = snd s"
proof -
  have "env_ok env" "stores env pre (snd s) A" "proc_ok env pre (snd s) A (fst s)" using assms by (simp_all add: shares_def)
  from check_mc_ok [OF this] obtain md where "check_mc env s = (Inr (), (md, snd s))" "in_sync env pre A (md, snd s)" "\<not> md_update_mode md" .
  with that [of "(md, snd s)"] assms show ?thesis by (simp add: up_to_date_def shares_def)
qed

lemma in_sync_keys: "in_sync env pre A s \<Longrightarrow> set (md_keys (fst s)) = fst ` set A"
  by (simp add: in_sync_def holds_def)

lemma in_sync_var:
  assumes "in_sync env pre A s" and "map_of A k = Some j"
  obtains c where "map_of (md_dict (fst s)) k = Some c" "doc_of env c j"
proof -
  have "rel_option (doc_of env) (map_of (md_dict (fst s)) k) (Some j)" using assms by (simp add: in_sync_def holds_def flip: assms(2))
  with that show ?thesis by (auto simp: option_rel_Some2)
qed

lemma put_ok:
  assumes "up_to_date env pre others A s" and "doc_of env c j"
  shows "\<exists>s'. key_modified env k (put_local k c s) = (Inr (), s') \<and> up_to_date env pre others (AList.update k j A) s'"
proof -
  have "in_sync env pre A s" using assms(1) by (simp add: up_to_date_def)
  from key_modified_ok [OF this assms(2)] obtain s' where s': "key_modified env k (put_local k c s) = (Inr (), s')"
    "in_sync env pre (AList.update k j A) s'" "newer env pre (snd s) (snd s')" "md_update_mode (fst s') = md_update_mode (fst s)" .
  with newer_up_to_date [OF up_to_date_shares [OF assms(1)] s'(2, 3)] assms(1) show ?thesis by (auto simp: up_to_date_def)
qed

interpretation sd: shared_dict "shares env pre others" "up_to_date env pre others" "doc_of env" "dict_contains env" "dict_getitem env"
  "\<lambda>k c s. key_modified env k (put_local k c s)" for env pre others
proof unfold_locales
  fix A s k
  assume "shares env pre others A s"
  from check_mc_shares [OF this] obtain s' where s': "check_mc env s = (Inr (), s')" "up_to_date env pre others A s'" .
  then have "dict_contains env k s = (Inr (k \<in> fst ` set A), s')"
    using in_sync_keys [of env pre A s'] by (simp add: dict_contains_def bind_s_def ret_def up_to_date_def)
  with s'(2) show "\<exists>s'. dict_contains env k s = (Inr (k \<in> fst ` set A), s') \<and> up_to_date env pre others A s'" by blast
next
  fix A s k j
  assume a: "up_to_date env pre others A s" "map_of A k = Some j"
  then have i: "in_sync env pre A s" by (simp add: up_to_date_def)
  from in_sync_var [OF i a(2)] obtain c where "map_of (md_dict (fst s)) k = Some c" "doc_of env c j" .
  then show "\<exists>c. dict_getitem env k s = (Inr c, s) \<and> doc_of env c j"
    using check_mc_in_sync [OF i] by (simp add: dict_getitem_def bind_s_def)
qed (rule up_to_date_shares, assumption, rule put_ok)

subsection \<open>The operations on one process\<close>

lemma conf_var_read:
  assumes "shares env pre others A s"
  shows "\<exists>s'. shares env pre others A s' \<and> (case map_of A k of
      None \<Rightarrow> conf_var env k f s = (Inl KeyError, s')
    | Some j \<Rightarrow> \<exists>c. doc_of env c j \<and> conf_var env k f s = (Inr (f c), s'))"
  unfolding conf_var_def by (rule sd.if_has_read [OF assms])

lemma conf_delitem_ok:
  assumes "shares env pre others A s" and "free_key k A"
  shows "\<exists>s'. conf_delitem env k s = (if k \<in> fst ` set A then Inr () else Inl KeyError, s') \<and> shares env pre others (AList.delete k A) s'"
proof -
  from sd.has_law [OF assms(1)] obtain s1 where h: "dict_contains env k s = (Inr (k \<in> fst ` set A), s1)" "up_to_date env pre others A s1" by blast
  then have i: "in_sync env pre A s1" by (simp add: up_to_date_def)
  show ?thesis
  proof (cases "k \<in> fst ` set A")
    case False
    then have "AList.delete k A = A" by (metis delete_id image_iff imageI)
    with False h up_to_date_shares [OF h(2)] show ?thesis by (auto simp: conf_delitem_def bind_s_def throw_def)
  next
    case True
    then obtain j where "map_of A k = Some j" by (metis map_of_eq_None_iff not_None_eq)
    from in_sync_var [OF i this] obtain c where "map_of (md_dict (fst s1)) k = Some c" .
    then have d: "k \<in> fst ` set (md_dict (fst s1))" by (force dest: map_of_SomeD)
    from delete_stored_ok [OF i assms(2)] obtain s' where s': "store_keys env ((fst s1)\<lparr>md_keys := remove1 k (md_keys (fst s1)), md_dict := AList.delete k (md_dict (fst s1))\<rparr>,
      (snd s1)\<lparr>wo_mc := ce_delete env (mc_key (md_prefix (fst s1)) k) (wo_mc (snd s1))\<rparr>) = (Inr (), s')"
      "in_sync env pre (AList.delete k A) s'" "newer env pre (snd s1) (snd s')" "md_update_mode (fst s') = md_update_mode (fst s1)" .
    have act: "mc_active (fst s1)" using i by (simp add: in_sync_def)
    have "conf_delitem env k s = (Inr (), s')"
      using h True d act s'(1) check_mc_in_sync [OF i] in_sync_keys [OF i]
      by (simp add: conf_delitem_def dict_delitem_def bind_s_def Let_def mc_active_def)
    moreover have "up_to_date env pre others (AList.delete k A) s'"
      using newer_up_to_date [OF up_to_date_shares [OF h(2)] s'(2, 3)] s'(4) h(2) by (simp add: up_to_date_def)
    ultimately show ?thesis using True by (auto intro: up_to_date_shares)
  qed
qed

lemma conf_setitem_ok:
  assumes "shares env pre others A s" and "map_of A k = Some j"
    and "\<And>c. doc_of env c j \<Longrightarrow> (\<exists>e. assign env v c = Inl e) \<or> (\<exists>c' j'. assign env v c = Inr c' \<and> doc_of env c' j')"
  shows "\<exists>c s' A'. doc_of env c j \<and> shares env pre others A' s' \<and>
    (case assign env v c of
       Inl e \<Rightarrow> A' = A \<and> conf_setitem env k v s = (Inl e, s')
     | Inr c' \<Rightarrow> \<exists>j'. doc_of env c' j' \<and> A' = AList.update k j' A \<and> conf_setitem env k v s = (Inr (), s'))"
  unfolding conf_setitem_def by (rule sd.if_has_write [OF assms])

lemma dict_keys_ok:
  assumes "shares env pre others A s"
  shows "\<exists>s'. dict_keys env s = (Inr (map fst A), s') \<and> shares env pre others A s'"
proof -
  from check_mc_shares [OF assms] obtain s' where s': "check_mc env s = (Inr (), s')" "up_to_date env pre others A s'" .
  then have "md_keys (fst s') = map fst A" by (simp add: up_to_date_def in_sync_def holds_def)
  then have "dict_keys env s = (Inr (map fst A), s')" using s'(1) by (simp add: dict_keys_def bind_s_def ret_def)
  with up_to_date_shares [OF s'(2)] show ?thesis by blast
qed

text \<open>While entries are added the tag of the copy is that of the store, so that nothing is read again.\<close>

definition adding :: "'m conf_env \<Rightarrow> (string \<times> py_val) list \<Rightarrow> 'm cstate \<Rightarrow> bool" where
  "adding env A s \<longleftrightarrow> mc_active (fst s) \<and> md_update_mode (fst s) \<and> py_true (md_version (fst s)) \<and>
     raw env (md_prefix (fst s)) (snd s) ''version'' = Some (md_version (fst s)) \<and> holds env A (fst s) \<and> distinct (map fst A)"

lemma check_mc_adding: "adding env A s \<Longrightarrow> check_mc env s = (Inr (), s)"
  by (auto simp: adding_def check_mc_def mc_get_raw ret_def)

lemma dict_setitem_adding:
  assumes "adding env A s" and "doc_of env c j"
  shows "dict_setitem env k c s = (Inr (), put_local k c s) \<and> adding env (AList.update k j A) (put_local k c s)"
proof -
  have "adding env (AList.update k j A) (put_local k c s)"
    using assms put_local_holds [of env A s c j k] by (simp add: adding_def put_local_def mc_active_def distinct_update)
  moreover have "dict_setitem env k c s = (Inr (), put_local k c s)"
    using check_mc_adding [OF assms(1)] assms(1) by (simp add: dict_setitem_def bind_s_def ret_def adding_def Let_def put_local_def)
  ultimately show ?thesis by blast
qed

definition docs_of :: "'m conf_env \<Rightarrow> py_val option \<Rightarrow> (string \<times> c_var) list \<Rightarrow> (string \<times> py_val) list \<Rightarrow> bool" where
  "docs_of env db es js \<longleftrightarrow> list_all2 (\<lambda>(k, c) (k', j). k = k' \<and> doc_of env (override db c) j) es js"

lemma add_entries_adding:
  assumes "adding env A s" and "docs_of env db es js"
  shows "\<exists>md. add_entries env db es s = (Inr (), (md, snd s)) \<and> md_prefix md = md_prefix (fst s) \<and>
    adding env (fold (\<lambda>(k, j). AList.update k j) js A) (md, snd s)"
  using assms(2, 1) unfolding docs_of_def
proof (induction arbitrary: A s rule: list_all2_induct)
  case Nil
  then show ?case by (intro exI [of _ "fst s"]) (simp add: ret_def)
next
  case (Cons e es x js)
  obtain k c where e: "e = (k, c)" by (cases e)
  with Cons.hyps(1) obtain j where j: "x = (k, j)" "doc_of env (override db c) j" by auto
  note set = dict_setitem_adding [OF Cons.prems j(2), of k]
  from Cons.IH [OF conjunct2 [OF set]] obtain md where md: "add_entries env db es (put_local k (override db c) s) = (Inr (), (md, snd s))"
    "md_prefix md = md_prefix (fst s)" "adding env (fold (\<lambda>(k, j). AList.update k j) js (AList.update k j A)) (md, snd s)"
    by (auto simp: put_local_def)
  have "dict_contains env k s = (Inr (k \<in> set (md_keys (fst s))), s)"
    using check_mc_adding [OF Cons.prems] by (simp add: dict_contains_def bind_s_def ret_def)
  then have "add_entries env db (e # es) s = (Inr (), (md, snd s))"
    using set md(1) by (simp add: e bind_s_def)
  with md j(1) show ?case by auto
qed

text \<open>The first look at the dictionary brings a stale copy up to date, also while entries are added.\<close>

lemma check_mc_update_mode:
  assumes "shares env pre others A s"
  obtains md where "check_mc env ((fst s)\<lparr>md_update_mode := True\<rparr>, snd s) = (Inr (), (md, snd s))" "adding env A (md, snd s)" "md_prefix md = pre"
proof -
  let ?s1 = "((fst s)\<lparr>md_update_mode := True\<rparr>, snd s)"
  have s: "env_ok env" "stores env pre (snd s) A" "proc_ok env pre (snd s) A (fst s)" using assms by (simp_all add: shares_def)
  from s(3) obtain n where p: "mc_active (fst s)" "md_prefix (fst s) = pre" "md_version (fst s) = VStr (ce_uuid env n)"
    by (auto simp: proc_ok_def)
  show ?thesis
  proof (cases "raw env pre (snd s) ''version'' = Some (md_version (fst s))")
    case True
    then have "holds env A (fst s)" using s(3) by (simp add: proc_ok_def)
    then have "adding env A ?s1" using True p s(2) version_true [OF s(1), of n]
      by (simp add: adding_def mc_active_def holds_def stores_def)
    with check_mc_adding [OF this] that p(2) show ?thesis by simp
  next
    case False
    have "stores env (md_prefix (fst ?s1)) (snd ?s1) A" "mc_active (fst ?s1)" using s(2) p by (simp_all add: mc_active_def)
    from read_full_dict_ok [OF s(1) this] obtain md where md: "read_full_dict env ?s1 = (Inr (), (md, snd ?s1))"
      "in_sync env (md_prefix (fst ?s1)) A (md, snd ?s1)" "md_update_mode md = md_update_mode (fst ?s1)" .
    from s(2) obtain v where v: "raw env pre (snd s) ''version'' = Some v" by (auto simp: stores_def)
    have "check_mc env ?s1 = read_full_dict env ?s1"
      using False p version_true [OF s(1), of n] v by (auto simp: check_mc_def mc_get_raw mc_active_def)
    moreover have "adding env A (md, snd s)"
      using md(2, 3) p(2) version_true [OF s(1)] by (auto simp: adding_def in_sync_def stores_def)
    ultimately show ?thesis using that [of md] md(1, 2) p(2) by (simp add: in_sync_def)
  qed
qed

lemma add_config_entries_shares:
  assumes "shares env pre others A s" and "docs_of env db es js" and "es \<noteq> []"
  shows "\<exists>s'. add_config_entries env db es s = (Inr (), s') \<and> shares env pre others (fold (\<lambda>(k, j). AList.update k j) js A) s'"
proof -
  let ?A = "fold (\<lambda>(k, j). AList.update k j) js A"
  let ?s1 = "((fst s)\<lparr>md_update_mode := True\<rparr>, snd s)"
  have e: "env_ok env" using assms(1) by (simp add: shares_def)
  from check_mc_update_mode [OF assms(1)] obtain md1 where md1: "check_mc env ?s1 = (Inr (), (md1, snd s))"
    "adding env A (md1, snd s)" "md_prefix md1 = pre" .
  from assms(3) obtain k c es' where es: "es = (k, c) # es'" by (cases es) auto
  have "dict_contains env k ?s1 = dict_contains env k (md1, snd s)"
    using md1(1) check_mc_adding [OF md1(2)] by (simp add: dict_contains_def bind_s_def)
  then have first: "add_entries env db es ?s1 = add_entries env db es (md1, snd s)" by (simp add: es bind_s_def)
  from add_entries_adding [OF md1(2) assms(2)] first obtain md where md: "add_entries env db es ?s1 = (Inr (), (md, snd s))"
    "md_prefix md = pre" "adding env ?A (md, snd s)" using md1(3) by auto
  let ?s2 = "(md\<lparr>md_update_mode := False\<rparr>, snd s)"
  have "mc_active (fst ?s2)" "md_prefix (fst ?s2) = pre" "holds env ?A (fst ?s2)" "distinct (map fst ?A)"
    using md(2, 3) by (simp_all add: adding_def mc_active_def holds_def)
  from store_full_dict_ok [OF e this] obtain s' where s': "store_full_dict env ?s2 = (Inr (), s')" "in_sync env pre ?A s'"
    "newer env pre (snd ?s2) (snd s')" "md_update_mode (fst s') = md_update_mode (fst ?s2)" .
  have "add_config_entries env db es s = (Inr (), s')"
    using md(1) s'(1) by (simp add: add_config_entries_def set_update_mode_def bind_s_def ret_def)
  moreover have "up_to_date env pre others ?A s'" using newer_up_to_date [OF assms(1) s'(2)] s'(3, 4) by simp
  ultimately show ?thesis using up_to_date_shares by blast
qed

subsection \<open>Several processes\<close>

datatype conf_op = Get string | Put string py_val | Del string | Keys | Add "(string \<times> c_var) list" "py_val option"

datatype conf_out = OVal py_val | ODone | OKeys "string list"

definition out :: "('a \<Rightarrow> conf_out) \<Rightarrow> 'a res \<times> 's \<Rightarrow> conf_out res \<times> 's" where
  "out f rs = (bind_r (fst rs) (\<lambda>x. Inr (f x)), snd rs)"

fun run_op :: "'m conf_env \<Rightarrow> conf_op \<Rightarrow> 'm cstate \<Rightarrow> conf_out res \<times> 'm cstate" where
  "run_op env (Get k) s = out OVal (conf_getitem env k s)"
| "run_op env (Put k v) s = out (\<lambda>_. ODone) (conf_setitem env k v s)"
| "run_op env (Del k) s = out (\<lambda>_. ODone) (conf_delitem env k s)"
| "run_op env Keys s = out OKeys (dict_keys env s)"
| "run_op env (Add es db) s = out (\<lambda>_. ODone) (add_config_entries env db es s)"

record 'm conf_sys =
  cs_procs :: "mdict list"
  cs_world :: "'m mc_world"

definition sys_step :: "'m conf_env \<Rightarrow> nat \<Rightarrow> conf_op \<Rightarrow> 'm conf_sys \<Rightarrow> conf_out res \<times> 'm conf_sys" where
  "sys_step env i op1 sys =
     (case run_op env op1 (cs_procs sys ! i, cs_world sys) of
        (r, (md, w)) \<Rightarrow> (r, \<lparr>cs_procs = (cs_procs sys)[i := md], cs_world = w\<rparr>))"

fun run_sys :: "'m conf_env \<Rightarrow> (nat \<times> conf_op) list \<Rightarrow> 'm conf_sys \<Rightarrow> conf_out res list \<times> 'm conf_sys" where
  "run_sys env [] sys = ([], sys)"
| "run_sys env ((i, op1) # ops) sys =
     (case sys_step env i op1 sys of (r, sys1) \<Rightarrow> (case run_sys env ops sys1 of (rs, sys2) \<Rightarrow> (r # rs, sys2)))"

text \<open>Starting the processes one after the other.\<close>

fun start_procs :: "'m conf_env \<Rightarrow> string \<Rightarrow> nat \<Rightarrow> 'm mc_world \<Rightarrow> mdict list \<times> 'm mc_world" where
  "start_procs env pre 0 w = ([], w)"
| "start_procs env pre (Suc n) w =
     (case new_mdict env False True pre w of
        (_, (md, w1)) \<Rightarrow> (case start_procs env pre n w1 of (mds, w2) \<Rightarrow> (md # mds, w2)))"

text \<open>The specification: one dictionary of documents, used by one operation after the other.\<close>

inductive spec_step :: "'m conf_env \<Rightarrow> (string \<times> py_val) list \<Rightarrow> conf_op \<Rightarrow> conf_out res \<Rightarrow> (string \<times> py_val) list \<Rightarrow> bool" for env where
  get_hit: "map_of A k = Some j \<Longrightarrow> doc_of env c j \<Longrightarrow> spec_step env A (Get k) (Inr (OVal (cv_value c))) A"
| get_miss: "map_of A k = None \<Longrightarrow> spec_step env A (Get k) (Inl KeyError) A"
| put_miss: "map_of A k = None \<Longrightarrow> spec_step env A (Put k v) (Inl KeyError) A"
| put_error: "map_of A k = Some j \<Longrightarrow> doc_of env c j \<Longrightarrow> assign env v c = Inl e \<Longrightarrow> spec_step env A (Put k v) (Inl e) A"
| put_ok: "map_of A k = Some j \<Longrightarrow> doc_of env c j \<Longrightarrow> assign env v c = Inr c' \<Longrightarrow> doc_of env c' j' \<Longrightarrow>
    spec_step env A (Put k v) (Inr ODone) (AList.update k j' A)"
| del_miss: "k \<notin> fst ` set A \<Longrightarrow> spec_step env A (Del k) (Inl KeyError) A"
| del_ok: "k \<in> fst ` set A \<Longrightarrow> spec_step env A (Del k) (Inr ODone) (AList.delete k A)"
| keys: "spec_step env A Keys (Inr (OKeys (map fst A))) A"
| add: "docs_of env db es js \<Longrightarrow> spec_step env A (Add es db) (Inr ODone) (fold (\<lambda>(k, j). AList.update k j) js A)"

inductive spec_run :: "'m conf_env \<Rightarrow> (string \<times> py_val) list \<Rightarrow> conf_op list \<Rightarrow> conf_out res list \<Rightarrow> (string \<times> py_val) list \<Rightarrow> bool" for env where
  run_Nil: "spec_run env A [] [] A"
| run_Cons: "spec_step env A op1 r A1 \<Longrightarrow> spec_run env A1 ops rs A' \<Longrightarrow> spec_run env A (op1 # ops) (r # rs) A'"

text \<open>The operations that can be shared: what is written has a document that can be read, the key of a
  deleted variable is not that of a stored value, and some entry is added.\<close>

definition op_safe :: "'m conf_env \<Rightarrow> conf_op \<Rightarrow> bool" where
  "op_safe env op1 =
     (case op1 of
        Put k v \<Rightarrow> \<forall>c j. doc_of env c j \<longrightarrow> (\<exists>e. assign env v c = Inl e) \<or> (\<exists>c' j'. assign env v c = Inr c' \<and> doc_of env c' j')
      | Del k \<Rightarrow> \<forall>k'. k \<noteq> var_key k'
      | Add es db \<Rightarrow> es \<noteq> [] \<and> (\<exists>js. docs_of env db es js)
      | _ \<Rightarrow> True)"

lemma run_op_refines:
  assumes "shares env pre others A s" and "op_safe env op1"
  shows "\<exists>r s' A'. run_op env op1 s = (r, s') \<and> spec_step env A op1 r A' \<and> shares env pre others A' s'"
proof -
  have *: "?thesis" if "run_op env op1 s = (r, s')" "spec_step env A op1 r A'" "shares env pre others A' s'" for r s' A'
    using that by blast
  show ?thesis
  proof (cases op1)
    case (Get k)
    from conf_var_read [OF assms(1), of k cv_value] obtain s' where s': "shares env pre others A s'"
      "case map_of A k of None \<Rightarrow> conf_var env k cv_value s = (Inl KeyError, s')
         | Some j \<Rightarrow> \<exists>c. doc_of env c j \<and> conf_var env k cv_value s = (Inr (cv_value c), s')" by blast
    show ?thesis
    proof (cases "map_of A k")
      case None
      then show ?thesis using s' Get by (intro * [OF _ _ s'(1)]) (auto simp: out_def conf_getitem_def intro: get_miss)
    next
      case (Some j)
      with s'(2) obtain c where "doc_of env c j" "conf_var env k cv_value s = (Inr (cv_value c), s')" by auto
      then show ?thesis using Get by (intro * [OF _ _ s'(1)]) (auto simp: out_def conf_getitem_def intro: get_hit [OF Some])
    qed
  next
    case (Put k v)
    show ?thesis
    proof (cases "map_of A k")
      case None
      from sd.if_has_miss [OF assms(1) None] obtain s' where "conf_setitem env k v s = (Inl KeyError, s')" "shares env pre others A s'"
        unfolding conf_setitem_def by blast
      with None Put show ?thesis by (intro *) (auto simp: out_def intro: put_miss)
    next
      case (Some j)
      have "\<And>c. doc_of env c j \<Longrightarrow> (\<exists>e. assign env v c = Inl e) \<or> (\<exists>c' j'. assign env v c = Inr c' \<and> doc_of env c' j')"
        using assms(2) by (auto simp: op_safe_def Put)
      from conf_setitem_ok [OF assms(1) Some this] obtain c s' A' where w: "doc_of env c j" "shares env pre others A' s'"
        "case assign env v c of Inl e \<Rightarrow> A' = A \<and> conf_setitem env k v s = (Inl e, s')
         | Inr c' \<Rightarrow> \<exists>j'. doc_of env c' j' \<and> A' = AList.update k j' A \<and> conf_setitem env k v s = (Inr (), s')" by blast
      then show ?thesis using Put
        by (intro * [OF _ _ w(2)]; cases "assign env v c")
          (auto simp: out_def intro: put_error [OF Some w(1)] put_ok [OF Some w(1)])
    qed
  next
    case (Del k)
    have "free_key k A" using assms(2) by (simp add: op_safe_def Del free_key_def)
    from conf_delitem_ok [OF assms(1) this] obtain s' where
      s': "conf_delitem env k s = (if k \<in> fst ` set A then Inr () else Inl KeyError, s')" "shares env pre others (AList.delete k A) s'" by blast
    have "spec_step env A (Del k) (if k \<in> fst ` set A then Inr ODone else Inl KeyError) (AList.delete k A)"
    proof (cases "k \<in> fst ` set A")
      case False
      then have "AList.delete k A = A" by (rule delete_id)
      with del_miss [OF False] False show ?thesis by simp
    qed (simp add: del_ok)
    with s' Del show ?thesis by (intro * [OF _ _ s'(2)]) (auto simp: out_def)
  next
    case Keys
    from dict_keys_ok [OF assms(1)] obtain s' where s': "dict_keys env s = (Inr (map fst A), s')" "shares env pre others A s'" by blast
    then show ?thesis using Keys by (intro * [OF _ _ s'(2)]) (auto simp: out_def intro: keys)
  next
    case (Add es db)
    with assms(2) obtain js where js: "docs_of env db es js" "es \<noteq> []" by (auto simp: op_safe_def)
    from add_config_entries_shares [OF assms(1) this] obtain s' where s': "add_config_entries env db es s = (Inr (), s')"
      "shares env pre others (fold (\<lambda>(k, j). AList.update k j) js A) s'" by blast
    then show ?thesis using Add by (intro * [OF _ _ s'(2)]) (auto simp: out_def intro: add [OF js(1)])
  qed
qed

definition coherent :: "'m conf_env \<Rightarrow> string \<Rightarrow> (string \<times> py_val) list \<Rightarrow> 'm conf_sys \<Rightarrow> bool" where
  "coherent env pre A sys \<longleftrightarrow> env_ok env \<and> stores env pre (cs_world sys) A \<and> list_all (proc_ok env pre (cs_world sys) A) (cs_procs sys)"

lemma coherent_shares:
  assumes "coherent env pre A sys" and "i < length (cs_procs sys)"
  shows "shares env pre (cs_procs sys) A (cs_procs sys ! i, cs_world sys)"
  using assms by (simp add: coherent_def shares_def list_all_length)

lemma shares_coherent:
  assumes "shares env pre mds A (md, w)"
  shows "coherent env pre A \<lparr>cs_procs = mds[i := md], cs_world = w\<rparr>"
  using assms set_update_subset_insert [of mds i md] by (auto simp: coherent_def shares_def list_all_iff)

lemma sys_step_refines:
  assumes "coherent env pre A sys" and "i < length (cs_procs sys)" and "op_safe env op1"
  shows "\<exists>r sys' A'. sys_step env i op1 sys = (r, sys') \<and> spec_step env A op1 r A' \<and> coherent env pre A' sys' \<and>
    length (cs_procs sys') = length (cs_procs sys)"
proof -
  from run_op_refines [OF coherent_shares [OF assms(1, 2)] assms(3)] obtain r s' A' where
    r: "run_op env op1 (cs_procs sys ! i, cs_world sys) = (r, s')" "spec_step env A op1 r A'" "shares env pre (cs_procs sys) A' s'" by blast
  obtain md w where s': "s' = (md, w)" by (cases s')
  from r s' shares_coherent [of env pre "cs_procs sys" A' md w i] show ?thesis by (auto simp: sys_step_def)
qed

lemma run_sys_refines:
  assumes "coherent env pre A sys" and "list_all (\<lambda>(i, op1). i < length (cs_procs sys) \<and> op_safe env op1) ops"
  shows "\<exists>rs sys' A'. run_sys env ops sys = (rs, sys') \<and> spec_run env A (map snd ops) rs A' \<and> coherent env pre A' sys'"
  using assms
proof (induction ops arbitrary: A sys)
  case Nil
  then show ?case by (auto intro: run_Nil)
next
  case (Cons x ops)
  obtain i op1 where x: "x = (i, op1)" by (cases x)
  with Cons.prems have "i < length (cs_procs sys)" "op_safe env op1" by simp_all
  from sys_step_refines [OF Cons.prems(1) this] obtain r sys1 A1 where s: "sys_step env i op1 sys = (r, sys1)" "spec_step env A op1 r A1"
    "coherent env pre A1 sys1" "length (cs_procs sys1) = length (cs_procs sys)" by blast
  from Cons.IH [OF s(3)] s(4) Cons.prems(2) obtain rs sys' A' where t: "run_sys env ops sys1 = (rs, sys')"
    "spec_run env A1 (map snd ops) rs A'" "coherent env pre A' sys'" by auto
  have "spec_run env A (map snd (x # ops)) (r # rs) A'" using run_Cons [OF s(2) t(2)] by (simp add: x)
  with s(1) t x show ?case by auto
qed

lemma new_mdict_first:
  assumes "env_ok env" and "raw env pre w ''version'' = None"
  obtains s' where "new_mdict env False True pre w = (Inr (), s')" "up_to_date env pre [] [] s'"
proof -
  let ?s = "(\<lparr>md_spm = False, md_enabled = True, md_prefix = pre, md_dict = [], md_keys = [], md_version = VNone, md_update_mode = False\<rparr>, w)"
  have c: "new_mdict env False True pre w = store_full_dict env ?s"
    using assms(2) by (simp add: new_mdict_def check_mc_def mc_get_raw mc_active_def)
  have "mc_active (fst ?s)" "md_prefix (fst ?s) = pre" "holds env [] (fst ?s)" "distinct (map fst ([] :: (string \<times> py_val) list))"
    by (simp_all add: mc_active_def holds_def)
  from store_full_dict_ok [OF assms(1) this] obtain s' where "store_full_dict env ?s = (Inr (), s')" "in_sync env pre [] s'"
    "newer env pre (snd ?s) (snd s')" "md_update_mode (fst s') = md_update_mode (fst ?s)" .
  with c that show ?thesis by (simp add: up_to_date_def)
qed

lemma new_mdict_join:
  assumes "env_ok env" and "stores env pre w A"
  obtains md where "new_mdict env False True pre w = (Inr (), (md, w))" "proc_ok env pre w A md"
proof -
  let ?s = "(\<lparr>md_spm = False, md_enabled = True, md_prefix = pre, md_dict = [], md_keys = [], md_version = VNone, md_update_mode = False\<rparr>, w)"
  from assms(2) have c: "new_mdict env False True pre w = read_full_dict env ?s"
    by (auto simp: new_mdict_def check_mc_def mc_get_raw mc_active_def stores_def)
  have "stores env (md_prefix (fst ?s)) (snd ?s) A" "mc_active (fst ?s)" using assms(2) by (simp_all add: mc_active_def)
  from read_full_dict_ok [OF assms(1) this] obtain md where "read_full_dict env ?s = (Inr (), (md, snd ?s))"
    "in_sync env (md_prefix (fst ?s)) A (md, snd ?s)" "md_update_mode md = md_update_mode (fst ?s)" .
  with c that in_sync_proc_ok [of env pre A "(md, w)"] show ?thesis by simp
qed

lemma start_procs_join:
  assumes "env_ok env" and "stores env pre w A"
  shows "\<exists>mds. start_procs env pre n w = (mds, w) \<and> length mds = n \<and> list_all (proc_ok env pre w A) mds"
proof (induction n)
  case (Suc n)
  from new_mdict_join [OF assms] obtain md where "new_mdict env False True pre w = (Inr (), (md, w))" "proc_ok env pre w A md" .
  with Suc show ?case by auto
qed simp

lemma start_procs_coherent:
  assumes "env_ok env" and "raw env pre w ''version'' = None" and "0 < n" and "start_procs env pre n w = (mds, w1)"
  shows "coherent env pre [] \<lparr>cs_procs = mds, cs_world = w1\<rparr> \<and> length mds = n"
proof -
  from assms(3) obtain m where n: "n = Suc m" by (cases n) auto
  from new_mdict_first [OF assms(1, 2)] obtain s' where f: "new_mdict env False True pre w = (Inr (), s')" "up_to_date env pre [] [] s'" .
  obtain md w' where s': "s' = (md, w')" by (cases s')
  with f(2) have st: "stores env pre w' []" "proc_ok env pre w' [] md"
    using in_sync_proc_ok [of env pre "[]" "(md, w')"] by (simp_all add: up_to_date_def in_sync_def)
  from start_procs_join [OF assms(1) st(1), of m] obtain mds' where "start_procs env pre m w' = (mds', w')" "length mds' = m"
    "list_all (proc_ok env pre w' []) mds'" by blast
  with assms(4) f(1) s' st n assms(1) show ?thesis by (auto simp: coherent_def)
qed


lemma value_doc:
  assumes "doc_of env c j" and "(if cv_type c = BlobC then pack_blob (ce_py env) r else Inr r) = Inr v" and "json_rt (ce_py env) v = Inr v'"
  shows "\<exists>j'. doc_of env (c\<lparr>cv_value := r\<rparr>) j'"
proof -
  have s: "serialize (ce_py env) c = Inr j" and "readable c" using assms(1) by (simp_all add: doc_of_def)
  have "kwargs_of (c\<lparr>cv_value := r\<rparr>) = kwargs_of c" by (simp add: kwargs_of_def)
  with s assms(2, 3) have "\<exists>j'. serialize (ce_py env) (c\<lparr>cv_value := r\<rparr>) = Inr j'" by (auto simp: serialize_eq)
  with \<open>readable c\<close> show ?thesis by (auto simp: doc_of_def readable_def)
qed

lemma put_int_safe:
  assumes "\<And>s. \<exists>u. pe_decode (ce_py env) s = Inr u"
  shows "op_safe env (Put k (VInt i))"
proof -
  have "\<exists>c' j'. assign env (VInt i) c = Inr c' \<and> doc_of env c' j'" if d: "doc_of env c j" and a: "assign env (VInt i) c = Inr c'" for c c' j
  proof -
    from a have "set_value (ce_py env) (VInt i) VNone c = Inr c'" by (simp add: assign_def)
    then show ?thesis
    proof (cases rule: set_value_cases)
      case (2 r)
      then have "c' = c\<lparr>cv_value := r\<rparr>" by (simp add: take_value_def Let_def)
      moreover have "\<exists>v v'. (if cv_type c = BlobC then pack_blob (ce_py env) r else Inr r) = Inr v \<and> json_rt (ce_py env) v = Inr v'"
        using 2(1) assms by (cases "cv_type c") (auto simp: str_to_val_def bind_r_eq_Inr)
      ultimately show ?thesis using a value_doc [OF d] by metis
    qed (use a d in auto)
  qed
  then show ?thesis unfolding op_safe_def by (auto; metis sum.exhaust)
qed

definition demo_conf_env :: "(string \<times> py_val) list conf_env" where
  "demo_conf_env = \<lparr>ce_py = demo_py_env, ce_get = map_of, ce_set = AList.update, ce_delete = AList.delete, ce_uuid = (\<lambda>n. str_of_nat n)\<rparr>"

definition demo_world :: "(string \<times> py_val) list mc_world" where
  "demo_world = \<lparr>wo_mc = [], wo_uuid = 0\<rparr>"

definition demo_ops :: "(nat \<times> conf_op) list" where
  "demo_ops = [(0, Add [(''a'', demo_int)] None), (1, Put ''a'' (VInt 5)), (0, Get ''a''), (1, Del ''a''), (0, Keys)]"

definition demo_run :: "conf_out res list \<times> (string \<times> py_val) list conf_sys" where
  "demo_run = (case start_procs demo_conf_env ''p'' 2 demo_world of (mds, w1) \<Rightarrow> run_sys demo_conf_env demo_ops \<lparr>cs_procs = mds, cs_world = w1\<rparr>)"

lemma demo_env_ok: "env_ok demo_conf_env"
  by (auto simp: env_ok_def demo_conf_env_def demo_py_env_def pack_ok_def update_conv' delete_conv' intro!: injI)

lemma demo_int_doc: "\<exists>j. doc_of demo_conf_env demo_int j"
proof -
  have "\<not> isl (serialize (ce_py demo_conf_env) demo_int)" by code_simp
  moreover have "readable demo_int"
  proof -
    have "check_type (cv_type demo_int) (cv_default demo_int)" "cv_type demo_int = IntC" by code_simp+
    then show ?thesis by (simp add: readable_def)
  qed
  ultimately show ?thesis by (cases "serialize (ce_py demo_conf_env) demo_int") (auto simp: doc_of_def)
qed

lemma demo_ops_safe: "list_all (\<lambda>(i, op1). i < 2 \<and> op_safe demo_conf_env op1) demo_ops"
proof -
  have "op_safe demo_conf_env (Put ''a'' (VInt 5))" by (rule put_int_safe) (simp add: demo_conf_env_def demo_py_env_def)
  moreover obtain j where "doc_of demo_conf_env demo_int j" using demo_int_doc by blast
  then have "docs_of demo_conf_env None [(''a'', demo_int)] [(''a'', j)]" by (simp add: docs_of_def override_def)
  then have "op_safe demo_conf_env (Add [(''a'', demo_int)] None)" by (auto simp: op_safe_def)
  moreover have "op_safe demo_conf_env (Del ''a'')" by (simp add: op_safe_def var_key_def)
  ultimately show ?thesis by (simp add: demo_ops_def op_safe_def)
qed


end
