(* ===== verification/Config_Laws.thy ===== *)
theory Config_Laws
  imports Configuration
begin

section \<open>Limits of the shared configuration\<close>

text \<open>
  What happens outside the conditions under which the shared configuration is one dictionary: a stored
  variable that can not be read, a key that is the storage key of another variable, an addition that
  is interleaved with a change of another process, a change that is not announced.
\<close>

lemma mapM_r_fails: "x \<in> set xs \<Longrightarrow> f x = Inl e \<Longrightarrow> \<exists>e'. mapM_r f xs = Inl e'"
  by (induction xs) (auto simp: bind_r_def split: sum.splits)

lemma dummy_init_ok:
  assumes "env_ok env" and "mc_active (fst s)" and "md_prefix (fst s) = pre"
  obtains s' where "dummy_init env s = (Inr (), s')" "in_sync env pre [] s'"
proof -
  let ?s = "((fst s)\<lparr>md_keys := [], md_dict := []\<rparr>, snd s)"
  have "mc_active (fst ?s)" "md_prefix (fst ?s) = pre" "holds env [] (fst ?s)" "distinct (map fst ([] :: (string \<times> py_val) list))"
    using assms by (simp_all add: mc_active_def holds_def)
  from store_full_dict_ok [OF assms(1) this] obtain s' where "store_full_dict env ?s = (Inr (), s')" "in_sync env pre [] s'"
    "newer env pre (snd ?s) (snd s')" "md_update_mode (fst s') = md_update_mode (fst ?s)" .
  with that show ?thesis by (simp add: dummy_init_def)
qed

lemma read_full_dict_fails:
  assumes "env_ok env" and "mc_active (fst s)" and "md_prefix (fst s) = pre"
    and "keys_of (mc_get env ''keys'' s) = Inr ks" and "k \<in> set ks" and "deserialize (ce_py env) (mc_get env (var_key k) s) = Inl e"
  obtains s' where "read_full_dict env s = (Inr (), s')" "in_sync env pre [] s'"
proof -
  have "read_var env s k = Inl e" using assms(6) by (simp add: read_var_def)
  from mapM_r_fails [where f = "read_var env s", OF assms(5) this] obtain e' where e': "mapM_r (read_var env s) ks = Inl e'" by blast
  let ?s = "((fst s)\<lparr>md_version := mc_get env ''version'' s\<rparr>, snd s)"
  have "mc_active (fst ?s)" "md_prefix (fst ?s) = pre" using assms(2, 3) by (simp_all add: mc_active_def)
  from dummy_init_ok [OF assms(1) this] obtain s' where "dummy_init env ?s = (Inr (), s')" "in_sync env pre [] s'" .
  with that e' assms(4) show ?thesis by (simp add: read_full_dict_def Let_def)
qed

lemma check_mc_unreadable:
  assumes "env_ok env" and "mc_active (fst s)" and "md_prefix (fst s) = pre" and "raw env pre (snd s) ''version'' = Some v" and "v \<noteq> VNone"
    and "md_version (fst s) \<noteq> v" and "keys_of (mc_get env ''keys'' s) = Inr ks" and "k \<in> set ks"
    and "deserialize (ce_py env) (mc_get env (var_key k) s) = Inl e"
  obtains s' where "check_mc env s = (Inr (), s')" "in_sync env pre [] s'"
proof -
  have "check_mc env s = read_full_dict env s" using assms(2-6) by (simp add: check_mc_def mc_get_raw)
  with read_full_dict_fails [OF assms(1-3, 7-9)] that show ?thesis by metis
qed

lemma dict_keys_unreadable:
  assumes "env_ok env" and "mc_active md" and "md_prefix md = pre" and "raw env pre w ''version'' = Some v" and "v \<noteq> VNone"
    and "md_version md \<noteq> v" and "raw env pre w ''keys'' = Some (VList (map VUni ks))" and "k \<in> set ks"
    and "deserialize (ce_py env) (mc_get env (var_key k) (md, w)) = Inl e"
  shows "\<exists>md' w'. dict_keys env (md, w) = (Inr [], (md', w')) \<and> stores env pre w' []"
proof -
  have ks: "keys_of (mc_get env ''keys'' (md, w)) = Inr ks"
    using keys_of_texts [of "map (\<lambda>k. (k, ())) ks"] assms(3, 7) by (simp add: mc_get_raw comp_def del: keys_of.simps)
  have "mc_active (fst (md, w))" "md_prefix (fst (md, w)) = pre" "raw env pre (snd (md, w)) ''version'' = Some v"
    "md_version (fst (md, w)) \<noteq> v" using assms(2-4, 6) by simp_all
  from check_mc_unreadable [OF assms(1) this(1-3) assms(5) this(4) ks assms(8, 9)] obtain s' where
    s': "check_mc env (md, w) = (Inr (), s')" "in_sync env pre [] s'" .
  then have "dict_keys env (md, w) = (Inr [], s')" by (simp add: dict_keys_def bind_s_def ret_def in_sync_def holds_def)
  moreover have "stores env pre (snd s') []" using s'(2) by (simp add: in_sync_def)
  ultimately show ?thesis by (cases s') auto
qed

text \<open>C15: a process that reads the shared configuration and finds one variable that can not be read (an array with a
  text as default, or one that memcached has dropped) does not report it: it erases the configuration for
  all processes.\<close>

theorem unreadable_erases_config:
  assumes "env_ok env" and "mc_active md" and "raw env (md_prefix md) w ''version'' = Some v" and "v \<noteq> VNone" and "md_version md \<noteq> v"
    and "raw env (md_prefix md) w ''keys'' = Some (VList (map VUni ks))" and "k \<in> set ks"
    and "raw env (md_prefix md) w (var_key k) = None \<or>
      (\<exists>c s. raw env (md_prefix md) w (var_key k) = Some j \<and> serialize (ce_py env) c = Inr j \<and> cv_type c = ArrayC \<and> cv_default c = VStr s)"
  shows "\<exists>md' w'. dict_keys env (md, w) = (Inr [], (md', w')) \<and> stores env (md_prefix md) w' []"
proof -
  have "\<exists>e. deserialize (ce_py env) (mc_get env (var_key k) (md, w)) = Inl e"
    using assms(8) serialize_unreadable by (auto simp: mc_get_raw deserialize_def)
  then show ?thesis using dict_keys_unreadable [OF assms(1, 2) refl assms(3-7)] by blast
qed

definition demo_stale :: mdict where
  "demo_stale = \<lparr>md_spm = False, md_enabled = True, md_prefix = ''p'', md_dict = [], md_keys = [], md_version = VStr ''0'', md_update_mode = False\<rparr>"

definition demo_lost_world :: "(string \<times> py_val) list mc_world" where
  "demo_lost_world = \<lparr>wo_mc = [(''p_version'', VStr ''1''), (''p_keys'', VList [VUni ''a'', VUni ''b''])], wo_uuid = 2\<rparr>"

theorem unreadable_erases_config_witness:
  "\<exists>md' w'. dict_keys demo_conf_env (demo_stale, demo_lost_world) = (Inr [], (md', w')) \<and> stores demo_conf_env ''p'' w' []"
proof -
  have "raw demo_conf_env ''p'' demo_lost_world ''version'' = Some (VStr ''1'')"
    "raw demo_conf_env ''p'' demo_lost_world ''keys'' = Some (VList (map VUni [''a'', ''b'']))"
    "raw demo_conf_env ''p'' demo_lost_world (var_key ''a'') = None" "mc_active demo_stale" "md_prefix demo_stale = ''p''" "md_version demo_stale = VStr ''0''"
    by (simp_all add: raw_def demo_conf_env_def demo_lost_world_def mc_key_def var_key_def mc_active_def demo_stale_def)
  with unreadable_erases_config [of demo_conf_env demo_stale demo_lost_world "VStr ''1''" "[''a'', ''b'']" "''a''", OF demo_env_ok]
  show ?thesis by simp
qed

lemma store_keys_raw:
  assumes "env_ok env" and "md_prefix (fst s) = pre"
  obtains s' where "store_keys env s = (Inr (), s')"
    "\<forall>x. raw env pre (snd s') x = (if x = ''version'' then Some (VStr (ce_uuid env (wo_uuid (snd s))))
       else if x = ''keys'' then Some (VList (map VUni (md_keys (fst s)))) else raw env pre (snd s) x)"
proof -
  define s1 where "s1 = mc_set env ''keys'' (VList (map VUni (md_keys (fst s)))) s"
  define v where "v = VStr (ce_uuid env (wo_uuid (snd s)))"
  have f1: "fst s1 = fst s" "wo_uuid (snd s1) = wo_uuid (snd s)" by (simp_all add: s1_def mc_set_def)
  have r1: "raw env pre (snd s1) x = (if x = ''keys'' then Some (VList (map VUni (md_keys (fst s)))) else raw env pre (snd s) x)" for x
    using raw_mc_set [OF assms(1), of s "''keys''"] assms(2) by (simp add: s1_def)
  have "raw env pre (snd (change_version env s1)) x = (if x = ''version'' then Some v else raw env pre (snd s1) x)" for x
    using raw_mc_set [OF assms(1), of "((fst s1)\<lparr>md_version := v\<rparr>, (snd s1)\<lparr>wo_uuid := wo_uuid (snd s1) + 1\<rparr>)" "''version''" v x] assms(2)
    by (simp add: change_version_def Let_def f1 v_def raw_def)
  then show ?thesis using that [of "change_version env s1"] r1 by (simp add: store_keys_def ret_def s1_def v_def)
qed

lemma dict_delitem_in_sync:
  assumes "in_sync env pre A s" and "k \<in> fst ` set A"
  shows "dict_delitem env k s = store_keys env ((fst s)\<lparr>md_keys := remove1 k (md_keys (fst s)), md_dict := AList.delete k (md_dict (fst s))\<rparr>,
      (snd s)\<lparr>wo_mc := ce_delete env (mc_key (md_prefix (fst s)) k) (wo_mc (snd s))\<rparr>)"
proof -
  from assms(2) obtain j where "map_of A k = Some j" by (metis map_of_eq_None_iff not_None_eq)
  from in_sync_var [OF assms(1) this] obtain c where "map_of (md_dict (fst s)) k = Some c" .
  then have "k \<in> fst ` set (md_dict (fst s))" by (force dest: map_of_SomeD)
  moreover have "mc_active (fst s)" using assms(1) by (simp add: in_sync_def)
  ultimately show ?thesis using check_mc_in_sync [OF assms(1)] in_sync_keys [OF assms(1)] assms(2)
    by (simp add: dict_delitem_def bind_s_def Let_def mc_active_def)
qed

text \<open>Deleting a variable whose name is the storage key of another one removes the stored value of the other, and
  the next process that looks at the configuration erases all of it.\<close>

theorem delitem_erases_config:
  assumes "shares env pre [md2] A s" and "k \<in> fst ` set A" and "var_key k \<in> fst ` set A"
  shows "\<exists>s' md' w'. conf_delitem env (var_key k) s = (Inr (), s') \<and> dict_keys env (md2, snd s') = (Inr [], (md', w')) \<and> stores env pre w' []"
proof -
  let ?k = "var_key k"
  from check_mc_shares [OF assms(1)] obtain s1 where s1: "check_mc env s = (Inr (), s1)" "up_to_date env pre [md2] A s1" "snd s1 = snd s" .
  then have i: "in_sync env pre A s1" and md2: "proc_ok env pre (snd s1) A md2" by (simp_all add: up_to_date_def)
  have e: "env_ok env" "md_prefix (fst s1) = pre" "md_keys (fst s1) = map fst A" "stores env pre (snd s1) A"
    using i by (simp_all add: in_sync_def holds_def)
  let ?s2 = "((fst s1)\<lparr>md_keys := remove1 ?k (md_keys (fst s1)), md_dict := AList.delete ?k (md_dict (fst s1))\<rparr>,
      (snd s1)\<lparr>wo_mc := ce_delete env (mc_key (md_prefix (fst s1)) ?k) (wo_mc (snd s1))\<rparr>)"
  from e(2) have "md_prefix (fst ?s2) = pre" by simp
  from store_keys_raw [OF e(1) this] obtain s3 where s3: "store_keys env ?s2 = (Inr (), s3)"
    "\<forall>x. raw env pre (snd s3) x = (if x = ''version'' then Some (VStr (ce_uuid env (wo_uuid (snd ?s2))))
       else if x = ''keys'' then Some (VList (map VUni (md_keys (fst ?s2)))) else raw env pre (snd ?s2) x)" .
  have "dict_contains env ?k s = (Inr True, s1)" using s1(1) assms(3) e(3) by (simp add: dict_contains_def bind_s_def ret_def)
  then have d: "conf_delitem env ?k s = (Inr (), s3)"
    using s3(1) dict_delitem_in_sync [OF i assms(3)] by (simp add: conf_delitem_def bind_s_def)
  have "raw env pre (snd ?s2) ?k = None" using e(1, 2) by (simp add: raw_def env_ok_def)
  then have gone: "raw env pre (snd s3) ?k = None" by (simp add: s3(2))
  have "k \<noteq> ?k" by (simp add: var_key_def)
  then have k: "k \<in> set (remove1 ?k (map fst A))" using assms(2) by simp
  from md2 obtain n where p: "mc_active md2" "md_prefix md2 = pre" "n < wo_uuid (snd s1)" "md_version md2 = VStr (ce_uuid env n)" by (auto simp: proc_ok_def)
  have "md_version md2 \<noteq> VStr (ce_uuid env (wo_uuid (snd s1)))" using p(3, 4) e(1) by (auto simp: env_ok_def dest: injD)
  moreover have "deserialize (ce_py env) (mc_get env ?k (md2, snd s3)) = Inl TypeError" using gone p(2) by (simp add: mc_get_raw deserialize_def)
  ultimately have "\<exists>md' w'. dict_keys env (md2, snd s3) = (Inr [], (md', w')) \<and> stores env pre w' []"
    using k e(3) by (intro dict_keys_unreadable [OF e(1) p(1, 2)]) (simp_all add: s3(2))
  with d show ?thesis by blast
qed

definition demo_two :: "mdict list \<times> (string \<times> py_val) list mc_world" where
  "demo_two =
     (case start_procs demo_conf_env ''p'' 2 demo_world of (mds, w1) \<Rightarrow>
      (case run_sys demo_conf_env [(0, Add [(''a'', demo_int), (''k_a'', demo_int)] None)] \<lparr>cs_procs = mds, cs_world = w1\<rparr> of
         (_, sys) \<Rightarrow> (cs_procs sys, cs_world sys)))"

lemma demo_two_shares:
  "\<exists>A md1 md2. fst demo_two = [md1, md2] \<and> shares demo_conf_env ''p'' [md2] A (md1, snd demo_two) \<and> ''a'' \<in> fst ` set A \<and> var_key ''a'' \<in> fst ` set A"
proof -
  obtain mds w1 where s: "start_procs demo_conf_env ''p'' 2 demo_world = (mds, w1)" by fastforce
  have w: "raw demo_conf_env ''p'' demo_world ''version'' = None" by (simp add: raw_def demo_conf_env_def demo_world_def)
  have c: "coherent demo_conf_env ''p'' [] \<lparr>cs_procs = mds, cs_world = w1\<rparr>" "length mds = 2"
    using start_procs_coherent [OF demo_env_ok w _ s] by simp_all
  obtain j where j: "doc_of demo_conf_env demo_int j" using demo_int_doc by blast
  then have d: "docs_of demo_conf_env None [(''a'', demo_int), (''k_a'', demo_int)] [(''a'', j), (''k_a'', j)]" by (simp add: docs_of_def override_def)
  have sh: "shares demo_conf_env ''p'' mds [] (mds ! 0, w1)" using coherent_shares [OF c(1), of 0] c(2) by simp
  from add_config_entries_shares [OF sh d] obtain md w2 where a: "add_config_entries demo_conf_env None [(''a'', demo_int), (''k_a'', demo_int)] (mds ! 0, w1) = (Inr (), (md, w2))"
    "shares demo_conf_env ''p'' mds [(''a'', j), (''k_a'', j)] (md, w2)" by auto
  from c(2) obtain m1 m2 where mds: "mds = [m1, m2]" by (auto simp: length_Suc_conv numeral_2_eq_2)
  have two: "demo_two = ([md, m2], w2)" using a(1) by (simp add: demo_two_def s sys_step_def out_def mds)
  have "shares demo_conf_env ''p'' [m2] [(''a'', j), (''k_a'', j)] (md, w2)" using a(2) by (simp add: shares_def mds)
  then show ?thesis unfolding two
    by - (rule exI [of _ "[(''a'', j), (''k_a'', j)]"], rule exI [of _ md], rule exI [of _ m2], simp add: var_key_def)
qed

theorem delitem_erases_config_witness:
  "\<exists>md1 md2 s' md' w'. fst demo_two = [md1, md2] \<and> conf_delitem demo_conf_env (var_key ''a'') (md1, snd demo_two) = (Inr (), s') \<and>
     dict_keys demo_conf_env (md2, snd s') = (Inr [], (md', w'))"
  using demo_two_shares delitem_erases_config [of demo_conf_env "''p''"] by blast

subsection \<open>Additions that are interleaved\<close>

text \<open>While a process adds entries, a change of another process makes it read the configuration again; the entries
  it has added so far are lost, although the addition ends without an error.\<close>

theorem added_entry_lost:
  assumes "env_ok env" and "adding env A s" and "md_prefix (fst s) = pre" and "doc_of env c1 j1" and "doc_of env c2 j2" and "k1 \<noteq> k2"
    and "stores env pre w' A'" and "raw env pre w' ''version'' \<noteq> Some (md_version (fst s))" and "k1 \<notin> fst ` set A'"
  shows "\<exists>s1 s2 s3. dict_setitem env k1 c1 s = (Inr (), s1) \<and> k1 \<in> set (md_keys (fst s1)) \<and>
    dict_setitem env k2 c2 (fst s1, w') = (Inr (), s2) \<and> set_update_mode env False s2 = (Inr (), s3) \<and>
    in_sync env pre (AList.update k2 j2 A') s3 \<and> k1 \<notin> fst ` set (AList.update k2 j2 A')"
proof -
  let ?s1 = "put_local k1 c1 s"
  have s1: "dict_setitem env k1 c1 s = (Inr (), ?s1)" "adding env (AList.update k1 j1 A) ?s1" using dict_setitem_adding [OF assms(2, 4)] by blast+
  have f1: "md_prefix (fst ?s1) = pre" "md_version (fst ?s1) = md_version (fst s)" "mc_active (fst ?s1)" "md_update_mode (fst ?s1)"
    using assms(2, 3) by (simp_all add: put_local_def adding_def mc_active_def)
  let ?t = "(fst ?s1, w')"
  have "stores env (md_prefix (fst ?t)) (snd ?t) A'" "mc_active (fst ?t)" using assms(7) f1 by simp_all
  from read_full_dict_ok [OF assms(1) this] obtain md where md: "read_full_dict env ?t = (Inr (), (md, snd ?t))"
    "in_sync env (md_prefix (fst ?t)) A' (md, snd ?t)" "md_update_mode md = md_update_mode (fst ?t)" .
  from assms(7) obtain v where v: "raw env pre w' ''version'' = Some v" "v \<noteq> VNone" by (auto simp: stores_def)
  have "check_mc env ?t = (Inr (), (md, w'))" using md(1) f1 v assms(8) by (auto simp: check_mc_def mc_get_raw)
  moreover have ad: "adding env A' (md, w')" using md(2, 3) f1 version_true [OF assms(1)] by (auto simp: adding_def in_sync_def stores_def)
  ultimately have s2: "dict_setitem env k2 c2 ?t = dict_setitem env k2 c2 (md, w')"
    using check_mc_adding [OF ad] by (simp add: dict_setitem_def bind_s_def)
  let ?s2 = "put_local k2 c2 (md, w')"
  have s2': "dict_setitem env k2 c2 (md, w') = (Inr (), ?s2)" "adding env (AList.update k2 j2 A') ?s2" using dict_setitem_adding [OF ad assms(5)] by blast+
  let ?s3 = "((fst ?s2)\<lparr>md_update_mode := False\<rparr>, snd ?s2)"
  have "mc_active (fst ?s3)" "md_prefix (fst ?s3) = pre" "holds env (AList.update k2 j2 A') (fst ?s3)" "distinct (map fst (AList.update k2 j2 A'))"
    using s2'(2) md(2) f1 by (simp_all add: adding_def mc_active_def holds_def in_sync_def put_local_def)
  from store_full_dict_ok [OF assms(1) this] obtain s3 where s3: "store_full_dict env ?s3 = (Inr (), s3)" "in_sync env pre (AList.update k2 j2 A') s3"
    "newer env pre (snd ?s3) (snd s3)" "md_update_mode (fst s3) = md_update_mode (fst ?s3)" .
  have "k1 \<notin> fst ` set (AList.update k2 j2 A')"
    using assms(6, 9) by (simp flip: set_map add: AList.update_keys)
  moreover have "set_update_mode env False ?s2 = (Inr (), s3)" using s3(1) by (simp add: set_update_mode_def)
  moreover have "k1 \<in> set (md_keys (fst ?s1))" by (simp add: put_local_def)
  ultimately show ?thesis using s1(1) s2 s2'(1) s3(2)     by - (rule exI [of _ ?s1], rule exI [of _ ?s2], rule exI [of _ s3], simp)
qed

lemma newer_version:
  assumes "env_ok env" and "stores env pre w A" and "newer env pre w w'"
  shows "raw env pre w' ''version'' \<noteq> raw env pre w ''version''"
proof -
  from assms(2) obtain m where "m < wo_uuid w" "raw env pre w ''version'' = Some (VStr (ce_uuid env m))" by (auto simp: stores_def)
  moreover from assms(3) obtain n where "wo_uuid w \<le> n" "raw env pre w' ''version'' = Some (VStr (ce_uuid env n))" by (auto simp: newer_def)
  ultimately show ?thesis using assms(1) by (auto simp: env_ok_def dest: injD)
qed

theorem added_entry_lost_witness:
  "\<exists>s w' s1 s2 s3 A. dict_setitem demo_conf_env ''x'' demo_int s = (Inr (), s1) \<and> dict_setitem demo_conf_env ''y'' demo_int (fst s1, w') = (Inr (), s2) \<and>
     set_update_mode demo_conf_env False s2 = (Inr (), s3) \<and> in_sync demo_conf_env ''p'' A s3 \<and> ''x'' \<notin> fst ` set A"
proof -
  have w: "raw demo_conf_env ''p'' demo_world ''version'' = None" by (simp add: raw_def demo_conf_env_def demo_world_def)
  from new_mdict_first [OF demo_env_ok w] obtain t where t: "up_to_date demo_conf_env ''p'' [] [] t" by blast
  then have sh: "shares demo_conf_env ''p'' [] [] t" and i: "in_sync demo_conf_env ''p'' [] t" by (simp_all add: up_to_date_shares up_to_date_def)
  from check_mc_update_mode [OF sh] obtain md where ad: "adding demo_conf_env [] (md, snd t)" "md_prefix md = ''p''" by blast
  obtain j where j: "doc_of demo_conf_env demo_int j" using demo_int_doc by blast
  from key_modified_ok [OF i j] obtain s' where s': "in_sync demo_conf_env ''p'' (AList.update ''a'' j []) s'" "newer demo_conf_env ''p'' (snd t) (snd s')" by metis
  have st: "stores demo_conf_env ''p'' (snd t) []" "stores demo_conf_env ''p'' (snd s') [(''a'', j)]" using i s'(1) by (simp_all add: in_sync_def)
  have "raw demo_conf_env ''p'' (snd s') ''version'' \<noteq> Some (md_version (fst (md, snd t)))"
    using newer_version [OF demo_env_ok st(1) s'(2)] ad by (simp add: adding_def)
  from added_entry_lost [OF demo_env_ok ad(1) _ j j _ st(2) this, of "''x''" "''y''"] ad(2) obtain s1 s2 s3 where
    "dict_setitem demo_conf_env ''x'' demo_int (md, snd t) = (Inr (), s1)" "dict_setitem demo_conf_env ''y'' demo_int (fst s1, snd s') = (Inr (), s2)"
    "set_update_mode demo_conf_env False s2 = (Inr (), s3)" "in_sync demo_conf_env ''p'' (AList.update ''y'' j [(''a'', j)]) s3"
    "''x'' \<notin> fst ` set (AList.update ''y'' j [(''a'', j)])" by (auto simp del: AList.update.simps)
  then show ?thesis by blast
qed

end
