(* ===== verification/Config_File.thy ===== *)
theory Config_File
  imports Configuration
begin

section \<open>Configuration files and the command line (initat/tools/configfile.py)\<close>

text \<open>
  A configuration file has sections of lines that assign a value to a key. Lines are stripped before they are
  matched. The evaluation of a value as a Python expression and the parsing of the command line by argparse
  are parameters; log entries are left out.
\<close>

subsection \<open>Lines\<close>

text \<open>The first pattern, \<open>key\<close>, blanks, \<open>=\<close>, blanks, \<open>value\<close>: the key is as long as possible.\<close>

definition pf1_at :: "nat \<Rightarrow> string \<Rightarrow> (string \<times> string) option" where
  "pf1_at n line =
     (case dropWhile is_space (drop n line) of
        [] \<Rightarrow> None
      | c # rest \<Rightarrow>
          (let v = dropWhile is_space rest in if c = CHR ''='' \<and> v \<noteq> [] then Some (take n line, v) else None))"

fun pf1_from :: "nat \<Rightarrow> string \<Rightarrow> (string \<times> string) option" where
  "pf1_from 0 line = None"
| "pf1_from (Suc n) line = (case pf1_at (Suc n) line of Some kv \<Rightarrow> Some kv | None \<Rightarrow> pf1_from n line)"

definition pf1 :: "string \<Rightarrow> (string \<times> string) option" where
  "pf1 line = pf1_from (length (takeWhile (\<lambda>c. \<not> is_space c) line)) line"

text \<open>The second pattern, \<open>key\<close>, blanks, \<open>value\<close>.\<close>

definition pf2 :: "string \<Rightarrow> (string \<times> string) option" where
  "pf2 line =
     (let key = takeWhile (\<lambda>c. \<not> is_space c) line;
          v = dropWhile is_space (dropWhile (\<lambda>c. \<not> is_space c) line)
      in if key \<noteq> [] \<and> v \<noteq> [] then Some (key, v) else None)"

definition parse_line :: "string \<Rightarrow> (string \<times> string) option" where
  "parse_line line = (case pf1 line of Some kv \<Rightarrow> Some kv | None \<Rightarrow> pf2 line)"

definition sec_re :: "string \<Rightarrow> string option" where
  "sec_re line =
     (if 2 < length line \<and> hd line = CHR ''['' \<and> last line = CHR '']'' \<and> list_all (\<lambda>c. \<not> is_space c) (butlast (tl line))
      then Some (butlast (tl line)) else None)"

definition conf_lines :: "string \<Rightarrow> string list" where
  "conf_lines content =
     filter (\<lambda>l. l \<noteq> [] \<and> hd l \<noteq> CHR ''#'') (map py_strip (py_split (CHR 0x0A) content))"

text \<open>A value for a text variable is put in quotes unless it has them.\<close>

definition quote :: "string \<Rightarrow> string \<Rightarrow> string" where
  "quote cur_type v =
     (if cur_type = ''s'' \<and> v \<noteq> [CHR 0x22, CHR 0x22] \<and> \<not> (hd v = last v \<and> hd v \<in> {CHR 0x22, CHR 0x27})
      then CHR 0x22 # v @ [CHR 0x22] else v)"

subsection \<open>Files\<close>

definition conf_assign ::
  "'m conf_env \<Rightarrow> (string \<Rightarrow> py_val res) \<Rightarrow> string \<Rightarrow> string \<Rightarrow> string \<times> string \<Rightarrow> 'm cstate \<Rightarrow> unit res \<times> 'm cstate" where
  "conf_assign env ev file_name section1 kv s =
     (case get_type env (fst kv) s of
        (Inl KeyError, s1) \<Rightarrow> ret () s1
      | (Inl e, s1) \<Rightarrow> throw e s1
      | (Inr cur_type, s1) \<Rightarrow>
          (case ev (quote cur_type (snd kv)) of
             Inl KeyError \<Rightarrow> ret () s1
           | Inl e \<Rightarrow> throw e s1
           | Inr v \<Rightarrow>
               (case conf_setitem env (fst kv) (VTuple [v, VUni (file_name @ '', sec '' @ section1)]) s1 of
                  (Inl KeyError, s2) \<Rightarrow> ret () s2
                | r \<Rightarrow> r)))"

fun parse_lines ::
  "'m conf_env \<Rightarrow> (string \<Rightarrow> py_val res) \<Rightarrow> string \<Rightarrow> string \<Rightarrow> string \<Rightarrow> string list \<Rightarrow> 'm cstate \<Rightarrow> unit res \<times> 'm cstate" where
  "parse_lines env ev file_name scan act_section [] s = ret () s"
| "parse_lines env ev file_name scan act_section (l # ls) s =
     (case sec_re l of
        Some sec \<Rightarrow> parse_lines env ev file_name scan sec ls s
      | None \<Rightarrow>
          if act_section = scan then
            (case parse_line l of
               Some kv \<Rightarrow> bind_s (conf_assign env ev file_name act_section kv) (\<lambda>_. parse_lines env ev file_name scan act_section ls) s
             | None \<Rightarrow> parse_lines env ev file_name scan act_section ls s)
          else parse_lines env ev file_name scan act_section ls s)"

definition parse_conf_file ::
  "'m conf_env \<Rightarrow> (string \<Rightarrow> py_val res) \<Rightarrow> string \<Rightarrow> string \<Rightarrow> string option \<Rightarrow> 'm cstate \<Rightarrow> unit res \<times> 'm cstate" where
  "parse_conf_file env ev file_name scan content s =
     (case content of None \<Rightarrow> ret () s | Some tx \<Rightarrow> parse_lines env ev file_name scan ''global'' (conf_lines tx) s)"

subsection \<open>The command line\<close>

record arg_spec =
  as_opts :: "string list"
  as_dest :: string
  as_choices :: "py_val option"
  as_nargs :: "py_val option"
  as_default :: py_val
  as_store :: "bool option"

definition arg_opts :: "string \<Rightarrow> c_var \<Rightarrow> string list" where
  "arg_opts name c =
     (case (if py_true (cv_short c) then text_of (cv_short c) else None) of
        Some sh \<Rightarrow> if length sh > 1 then [''--'' @ sh] else [''-'' @ sh]
      | None \<Rightarrow>
          let low = py_lower name in
          [''--'' @ low] @ (if CHR ''_'' \<in> set low then [''--'' @ map (\<lambda>ch. if ch = CHR ''_'' then CHR ''-'' else ch) low] else []))"

text \<open>A variable of a type without an argument type gets an option only if it is a bool.\<close>

definition add_argument :: "string \<Rightarrow> c_var \<Rightarrow> arg_spec option" where
  "add_argument name c =
     (let spec = \<lparr>as_opts = arg_opts name c, as_dest = name, as_choices = (if py_true (cv_choices c) then Some (cv_choices c) else None),
                  as_nargs = (if py_true (cv_nargs c) then Some (cv_nargs c) else None), as_default = cv_value c, as_store = None\<rparr>
      in case cv_type c of
           BoolC \<Rightarrow> Some (spec\<lparr>as_default := cv_default c, as_store := Some (\<not> py_true (cv_default c))\<rparr>)
         | t \<Rightarrow> if t \<in> {IntC, FloatC, StrC, ArrayC} then Some spec else None)"

fun cl_entries :: "'m conf_env \<Rightarrow> string list \<Rightarrow> 'm cstate \<Rightarrow> (string \<times> arg_spec option) list res \<times> 'm cstate" where
  "cl_entries env [] s = ret [] s"
| "cl_entries env (k # ks) s =
     bind_s (dict_getitem env k) (\<lambda>c. bind_s (cl_entries env ks) (\<lambda>es.
       ret (if is_commandline_option c then (k, add_argument k c) # es else es))) s"

fun set_options :: "'m conf_env \<Rightarrow> (string \<times> py_val) list \<Rightarrow> string list \<Rightarrow> 'm cstate \<Rightarrow> unit res \<times> 'm cstate" where
  "set_options env options [] s = ret () s"
| "set_options env options (k # ks) s =
     (case map_of options k of
        None \<Rightarrow> throw AttributeError s
      | Some v \<Rightarrow> bind_s (conf_setitem env k v) (\<lambda>_. set_options env options ks) s)"

text \<open>argparse either returns the options or raises; in a proxy call it may also have left an exit code. An exit code
  with an error stands for no options.\<close>

definition handle_commandline ::
  "'m conf_env \<Rightarrow> (arg_spec list \<Rightarrow> int option \<times> (string \<times> py_val) list res) \<Rightarrow> 'm cstate \<Rightarrow> int option res \<times> 'm cstate" where
  "handle_commandline env argparse =
     bind_s (dict_keys env) (\<lambda>ks. bind_s (cl_entries env ks) (\<lambda>es.
       if es = [] then ret None
       else
         (case argparse (List.map_filter snd es) of
            (exit_code, outcome) \<Rightarrow>
              (case (case outcome of Inl e \<Rightarrow> if exit_code \<noteq> None then Inr [] else Inl e | Inr opts \<Rightarrow> Inr opts) of
                 Inl e \<Rightarrow> throw e
               | Inr options \<Rightarrow>
                   if exit_code = None \<or> exit_code = Some 0
                   then bind_s (set_options env options (map fst es)) (\<lambda>_. ret exit_code)
                   else ret exit_code))))"

subsection \<open>What a line and a file mean\<close>

lemma is_space_blank [simp]: "is_space CHR '' ''" "\<not> is_space CHR ''=''"
  by (simp_all add: is_space_def)


lemma first_word: "list_all (\<lambda>c. \<not> is_space c) w \<Longrightarrow> takeWhile (\<lambda>c. \<not> is_space c) (w @ rest) = w @ takeWhile (\<lambda>c. \<not> is_space c) rest"
  by (induction w) auto

text \<open>An assignment that is written with blanks around the equals sign is read back, whatever the value contains.\<close>

theorem parse_line_roundtrip:
  assumes "key \<noteq> []" and "list_all (\<lambda>c. \<not> is_space c) key" and "v \<noteq> []" and "\<not> is_space (hd v)"
  shows "parse_line (key @ '' = '' @ v) = Some (key, v)"
proof -
  let ?l = "key @ '' = '' @ v"
  have w: "takeWhile (\<lambda>c. \<not> is_space c) ?l = key" using first_word [OF assms(2), of "'' = '' @ v"] by simp
  have "pf1_at (length key) ?l = Some (key, v)" using assms(3, 4) by (cases v) (simp_all add: pf1_at_def)
  moreover obtain m where m: "length key = Suc m" using assms(1) by (cases key) auto
  ultimately have "pf1_from (length key) ?l = Some (key, v)" unfolding m by simp
  with w show ?thesis by (simp add: parse_line_def pf1_def)
qed

theorem parse_line_roundtrip_witness:
  "parse_line (''URL'' @ '' = '' @ ''http://h/?a=b c'') = Some (''URL'', ''http://h/?a=b c'')"
proof (rule parse_line_roundtrip)
  show "list_all (\<lambda>c. \<not> is_space c) ''URL''" by code_simp
  show "\<not> is_space (hd ''http://h/?a=b c'')" by code_simp
qed simp_all

lemma pf1_from_value:
  assumes "p \<noteq> []" and "v \<noteq> []" and "list_all (\<lambda>c. \<not> is_space c) v" and "CHR ''='' \<notin> set v" and "m \<le> length v"
  shows "pf1_from (length p + Suc m) (p @ CHR ''='' # v) = Some (p, v)"
  using assms(5)
proof (induction m)
  case 0
  obtain n where n: "length p = Suc n" using assms(1) by (cases p) auto
  have "hd v \<noteq> CHR ''=''" "\<not> is_space (hd v)" using assms(2-4) by (cases v; auto)+
  then have "pf1_at (Suc (length p)) (p @ CHR ''='' # v) = None" using assms(2) by (cases v) (simp_all add: pf1_at_def Let_def)
  moreover have "pf1_at (length p) (p @ CHR ''='' # v) = Some (p, v)"
    using assms(2) \<open>\<not> is_space (hd v)\<close> by (cases v) (simp_all add: pf1_at_def)
  ultimately show ?case unfolding add_Suc_right add_0_right by (simp add: n)
next
  case (Suc m)
  have "pf1_at (Suc (length p + Suc m)) (p @ CHR ''='' # v) = None"
  proof (cases "drop (Suc m) v")
    case (Cons c rest)
    then have "c \<in> set v" by (metis in_set_dropD list.set_intros(1))
    then have "\<not> is_space c" "c \<noteq> CHR ''=''" using assms(3, 4) by (auto simp: list_all_iff)
    with Cons show ?thesis by (simp add: pf1_at_def Let_def)
  qed (simp add: pf1_at_def)
  with Suc show ?case by simp
qed

text \<open>Without blanks the last equals sign of the line splits it: a value that contains one loses its beginning to the
  key.\<close>

theorem parse_line_last_equals:
  assumes "key \<noteq> []" and "list_all (\<lambda>c. \<not> is_space c) (key @ v1 @ v2)" and "v2 \<noteq> []" and "CHR ''='' \<notin> set v2"
  shows "parse_line (key @ ''='' @ v1 @ ''='' @ v2) = Some (key @ ''='' @ v1, v2)"
proof -
  let ?p = "key @ ''='' @ v1"
  have "list_all (\<lambda>c. \<not> is_space c) (?p @ CHR ''='' # v2)" using assms(2) by simp
  then have "takeWhile (\<lambda>c. \<not> is_space c) (?p @ CHR ''='' # v2) = ?p @ CHR ''='' # v2" by (auto simp: list_all_iff)
  moreover have "pf1_from (length ?p + Suc (length v2)) (?p @ CHR ''='' # v2) = Some (?p, v2)"
    using assms by (intro pf1_from_value) auto
  ultimately have "pf1 (?p @ CHR ''='' # v2) = Some (?p, v2)" unfolding pf1_def by (simp only: length_append list.size add_Suc_right add_0_right)
  then show ?thesis by (simp add: parse_line_def)
qed

theorem parse_line_last_equals_witness:
  "parse_line (''OPTS'' @ ''='' @ ''--size'' @ ''='' @ ''4'') = Some (''OPTS'' @ ''='' @ ''--size'', ''4'')"
proof (rule parse_line_last_equals)
  show "list_all (\<lambda>c. \<not> is_space c) (''OPTS'' @ ''--size'' @ ''4'')" by code_simp
qed simp_all

text \<open>The assignments of one section, in the order of the file.\<close>

fun entries_of :: "string \<Rightarrow> string \<Rightarrow> string list \<Rightarrow> (string \<times> string) list" where
  "entries_of scan sec [] = []"
| "entries_of scan sec (l # ls) =
     (case sec_re l of
        Some sec' \<Rightarrow> entries_of scan sec' ls
      | None \<Rightarrow> (if sec = scan then (case parse_line l of Some kv \<Rightarrow> [kv] | None \<Rightarrow> []) else []) @ entries_of scan sec ls)"

fun assign_all ::
  "'m conf_env \<Rightarrow> (string \<Rightarrow> py_val res) \<Rightarrow> string \<Rightarrow> string \<Rightarrow> (string \<times> string) list \<Rightarrow> 'm cstate \<Rightarrow> unit res \<times> 'm cstate" where
  "assign_all env ev file_name scan [] s = ret () s"
| "assign_all env ev file_name scan (kv # kvs) s = bind_s (conf_assign env ev file_name scan kv) (\<lambda>_. assign_all env ev file_name scan kvs) s"

lemma bind_s_cong_snd: "(\<And>x s'. m s = (Inr x, s') \<Longrightarrow> f x s' = g x s') \<Longrightarrow> bind_s m f s = bind_s m g s"
  by (auto simp: bind_s_def split: prod.splits sum.splits)

text \<open>Reading a file makes exactly the assignments of the lines of the requested section that can be parsed, in their
  order; lines before the first section header belong to the section global.\<close>

theorem parse_file_entries:
  "parse_conf_file env ev file_name scan (Some tx) s = assign_all env ev file_name scan (entries_of scan ''global'' (conf_lines tx)) s"
proof -
  have "parse_lines env ev file_name scan sec ls s = assign_all env ev file_name scan (entries_of scan sec ls) s" for sec ls
  proof (induction ls arbitrary: sec s)
    case (Cons l ls)
    then show ?case by (auto split: option.splits intro: bind_s_cong_snd)
  qed simp
  then show ?thesis by (simp add: parse_conf_file_def)
qed

text \<open>When argparse leaves the exit code 0 and raises, as for a request for help in a proxy call, the options are
  nevertheless handled, and the first one is missing.\<close>

theorem commandline_exit_zero:
  assumes "dict_keys env s = (Inr ks, s1)" and "cl_entries env ks s1 = (Inr es, s2)" and "es \<noteq> []"
    and "argparse (List.map_filter snd es) = (Some 0, Inl e)"
  shows "handle_commandline env argparse s = (Inl AttributeError, s2)"
proof -
  obtain k a es' where "es = (k, a) # es'" using assms(3) by (cases es) auto
  with assms show ?thesis by (simp add: handle_commandline_def bind_s_def throw_def)
qed

definition demo_help :: c_var where
  "demo_help = projr (new_c_var IntC (VInt 3) [(''help_string'', VUni ''h'')])"

definition demo_local :: mdict where
  "demo_local = \<lparr>md_spm = True, md_enabled = True, md_prefix = ''p'', md_dict = [(''a'', demo_help)], md_keys = [''a''], md_version = VNone,
     md_update_mode = False\<rparr>"

theorem commandline_exit_zero_witness:
  "handle_commandline demo_conf_env (\<lambda>_. (Some 0, Inl ValueError)) (demo_local, demo_world) = (Inl AttributeError, (demo_local, demo_world))"
proof (rule commandline_exit_zero)
  have c: "check_mc demo_conf_env (demo_local, demo_world) = (Inr (), (demo_local, demo_world))"
    by (simp add: check_mc_def mc_active_def demo_local_def ret_def)
  then show "dict_keys demo_conf_env (demo_local, demo_world) = (Inr [''a''], (demo_local, demo_world))"
    by (simp add: dict_keys_def bind_s_def ret_def) (simp add: demo_local_def)
  have "is_commandline_option demo_help" by code_simp
  with c show "cl_entries demo_conf_env [''a''] (demo_local, demo_world) = (Inr [(''a'', add_argument ''a'' demo_help)], (demo_local, demo_world))"
    by (simp add: dict_getitem_def bind_s_def ret_def) (simp add: demo_local_def bind_s_def ret_def)
qed simp_all

end
