(* ===== verification/Time_Line.thy ===== *)
theory Time_Line
  imports Prelude
begin

section \<open>Time lines of states (initat/md_config_server/kpi/kpi_historic.py)\<close>

text \<open>
  A time line is a list of dated states: each state holds from its date up to the next one, the last entry only
  marks the end. Time lines of several devices and services are merged into one that has the best or the
  worst state at every time, and a time line is condensed to the share of each state. Dates are numbers of
  seconds.
\<close>

subsection \<open>Results\<close>

datatype kpi_result = Planned_down | KOk | KWarning | KCritical | KUnknown | Undetermined

fun kpi_value :: "kpi_result \<Rightarrow> int" where
  "kpi_value Planned_down = -1"
| "kpi_value KOk = 0"
| "kpi_value KWarning = 1"
| "kpi_value KCritical = 2"
| "kpi_value KUnknown = 3"
| "kpi_value Undetermined = 4"

lemma kpi_value_inj [simp]: "kpi_value a = kpi_value b \<longleftrightarrow> a = b"
  by (cases a; cases b) simp_all

text \<open>The order by badness.\<close>

instantiation kpi_result :: linorder
begin

definition less_eq_kpi_result :: "kpi_result \<Rightarrow> kpi_result \<Rightarrow> bool" where
  "less_eq_kpi_result a b \<longleftrightarrow> kpi_value a \<le> kpi_value b"

definition less_kpi_result :: "kpi_result \<Rightarrow> kpi_result \<Rightarrow> bool" where
  "less_kpi_result a b \<longleftrightarrow> kpi_value a < kpi_value b"

instance
  by standard (auto simp: less_eq_kpi_result_def less_kpi_result_def intro: kpi_value_inj [THEN iffD1])

end

datatype state_type = Soft | Hard | ST_Undetermined | ST_Planned_down

fun state_type_ordering :: "state_type \<Rightarrow> int" where
  "state_type_ordering ST_Planned_down = -1"
| "state_type_ordering Soft = 0"
| "state_type_ordering Hard = 1"
| "state_type_ordering ST_Undetermined = 2"

type_synonym tl_state = "kpi_result \<times> state_type"

record tl_entry =
  tl_date :: py_float
  tl_state :: tl_state

definition key_fun :: "tl_state \<Rightarrow> int \<times> int" where
  "key_fun st = (kpi_value (fst st), state_type_ordering (snd st))"

definition key_less :: "int \<times> int \<Rightarrow> int \<times> int \<Rightarrow> bool" where
  "key_less a b \<longleftrightarrow> fst a < fst b \<or> fst a = fst b \<and> snd a < snd b"

text \<open>\<open>min\<close> and \<open>max\<close> with a key give the first extreme element; they raise on an empty list.\<close>

fun first_by :: "('a \<Rightarrow> 'a \<Rightarrow> bool) \<Rightarrow> 'a \<Rightarrow> 'a list \<Rightarrow> 'a" where
  "first_by better b [] = b"
| "first_by better b (x # xs) = first_by better (if better x b then x else b) xs"

definition py_extreme :: "('a \<Rightarrow> 'a \<Rightarrow> bool) \<Rightarrow> 'a list \<Rightarrow> 'a res" where
  "py_extreme better xs = (case xs of [] \<Rightarrow> Inl ValueError | x # ys \<Rightarrow> Inr (first_by better x ys))"

definition aggregate :: "string \<Rightarrow> tl_state list \<Rightarrow> tl_state res" where
  "aggregate method sts =
     (if method = ''best'' then py_extreme (\<lambda>a b. key_less (key_fun a) (key_fun b)) sts
      else if method = ''worst'' then py_extreme (\<lambda>a b. key_less (key_fun b) (key_fun a)) sts
      else Inl RuntimeError)"

subsection \<open>Merging time lines\<close>

definition add_to_compound_tl :: "string \<Rightarrow> py_float \<Rightarrow> tl_state list \<Rightarrow> bool \<Rightarrow> tl_entry list \<Rightarrow> tl_entry list res" where
  "add_to_compound_tl method date sts force_add ctl =
     bind_r (aggregate method sts) (\<lambda>nxt.
       Inr (if ctl = [] \<or> tl_state (last ctl) \<noteq> nxt \<or> force_add then ctl @ [\<lparr>tl_date = date, tl_state = nxt\<rparr>] else ctl))"

text \<open>The queue with the next event; an empty queue counts with the current time.\<close>

definition queue_date :: "py_float \<Rightarrow> tl_entry list \<Rightarrow> py_float" where
  "queue_date now q = (case q of [] \<Rightarrow> now | e # _ \<Rightarrow> tl_date e)"

definition next_queue :: "py_float \<Rightarrow> tl_entry list list \<Rightarrow> nat" where
  "next_queue now tls = first_by (\<lambda>a b. queue_date now (tls ! a) < queue_date now (tls ! b)) 0 [1..<length tls]"

definition any_left :: "tl_entry list list \<Rightarrow> bool" where
  "any_left tls = list_ex (\<lambda>q. q \<noteq> []) tls"

lemma first_by_in: "first_by better b xs \<in> set (b # xs)"
  by (induction xs arbitrary: b) auto

lemma next_queue_less: "tls \<noteq> [] \<Longrightarrow> next_queue now tls < length tls"
  using first_by_in [of "\<lambda>a b. queue_date now (tls ! a) < queue_date now (tls ! b)" 0 "[1..<length tls]"]
  by (auto simp: next_queue_def)

lemma sum_list_update_less:
  "i < length xs \<Longrightarrow> f y < f (xs ! i) \<Longrightarrow> sum_list (map f (xs[i := y])) < (sum_list (map f xs) :: nat)"
  by (induction xs arbitrary: i) (auto split: nat.splits)

function compound_loop ::
  "string \<Rightarrow> py_float \<Rightarrow> tl_entry list list \<Rightarrow> tl_state list \<Rightarrow> tl_entry list \<Rightarrow> tl_entry list res" where
  "compound_loop method now tls sts ctl =
     (if \<not> any_left tls then Inr ctl
      else
        (let q = next_queue now tls in
         case tls ! q of
           [] \<Rightarrow> Inl IndexError
         | e # rest \<Rightarrow>
             (let tls1 = tls[q := rest]; sts1 = sts[q := tl_state e] in
              bind_r (add_to_compound_tl method (tl_date e) sts1 (\<not> any_left tls1) ctl)
                (compound_loop method now tls1 sts1))))"
  by pat_completeness auto
termination
proof (relation "measure (\<lambda>(method, now, tls, sts, ctl). sum_list (map length tls))", goal_cases)
  case (2 mth nw tls sts ctl q e rest tls1 sts1 ctl1)
  then have "tls \<noteq> []" by (auto simp: any_left_def)
  with 2 next_queue_less [of tls nw] show ?case by (auto intro!: sum_list_update_less)
qed simp

declare compound_loop.simps [simp del]

text \<open>\<open>any\<close> over a generator: it stops at the first hit, and at the first exception.\<close>

fun any_r :: "('a \<Rightarrow> bool res) \<Rightarrow> 'a list \<Rightarrow> bool res" where
  "any_r p [] = Inr False"
| "any_r p (x # xs) = bind_r (p x) (\<lambda>b. if b then Inr True else any_r p xs)"

definition first_entry :: "tl_entry list \<Rightarrow> tl_entry res" where
  "first_entry q = (if q = [] then Inl IndexError else Inr (hd q))"

definition last_entry :: "tl_entry list \<Rightarrow> tl_entry res" where
  "last_entry q = (if q = [] then Inl IndexError else Inr (last q))"

definition pairs_of :: "'a list \<Rightarrow> ('a \<times> 'a) list" where
  "pairs_of xs = zip xs (tl xs)"

definition dates_differ :: "(tl_entry list \<Rightarrow> tl_entry res) \<Rightarrow> tl_entry list list \<Rightarrow> bool res" where
  "dates_differ f tls =
     any_r (\<lambda>(a, b). bind_r (f a) (\<lambda>x. bind_r (f b) (\<lambda>y. Inr (tl_date x \<noteq> tl_date y)))) (pairs_of tls)"

definition calculate_compound_time_line :: "string \<Rightarrow> py_float \<Rightarrow> tl_entry list list \<Rightarrow> tl_entry list res" where
  "calculate_compound_time_line method now tls =
     bind_r (dates_differ first_entry tls) (\<lambda>d1. if d1 then Inl RuntimeError else
     bind_r (dates_differ last_entry tls) (\<lambda>d2. if d2 then Inl RuntimeError else
     bind_r (mapM_r first_entry tls) (\<lambda>firsts.
       case firsts of
         [] \<Rightarrow> Inl IndexError
       | e # _ \<Rightarrow>
           (let sts = map tl_state firsts in
            bind_r (add_to_compound_tl method (tl_date e) sts False []) (compound_loop method now tls sts)))))"

subsection \<open>Condensing a time line\<close>

text \<open>The default dictionaries of the code: a missing key counts as 0.\<close>

definition get0 :: "('k \<times> py_float) list \<Rightarrow> 'k \<Rightarrow> py_float" where
  "get0 acc k = (case map_of acc k of Some v \<Rightarrow> v | None \<Rightarrow> 0)"

definition total_share :: "('k \<times> py_float) list \<Rightarrow> py_float" where
  "total_share acc = sum_list (map snd acc)"

definition add_to :: "'k \<Rightarrow> py_float \<Rightarrow> ('k \<times> py_float) list \<Rightarrow> ('k \<times> py_float) list" where
  "add_to k v acc = AList.update k (get0 acc k + v) acc"

fun accumulate :: "tl_entry list \<Rightarrow> (tl_state \<times> py_float) list \<Rightarrow> (tl_state \<times> py_float) list" where
  "accumulate (e1 # e2 # es) acc = accumulate (e2 # es) (add_to (tl_state e1) (tl_date e2 - tl_date e1) acc)"
| "accumulate es acc = acc"

definition aggregate_time_line :: "tl_entry list \<Rightarrow> (tl_state \<times> py_float) list" where
  "aggregate_time_line es =
     (let acc = accumulate es [] in if total_share acc = 0 then [] else map (\<lambda>(k, v). (k, v / total_share acc)) acc)"

definition merged_state :: "bool \<Rightarrow> tl_state \<Rightarrow> kpi_result" where
  "merged_state soft_as_hard st =
     (if \<not> soft_as_hard \<and> fst st = KCritical \<and> snd st = Soft then KWarning else fst st)"

definition merge_state_types :: "bool \<Rightarrow> (tl_state \<times> py_float) list \<Rightarrow> (kpi_result \<times> py_float) list" where
  "merge_state_types soft_as_hard shares = fold (\<lambda>(k, v). add_to (merged_state soft_as_hard k) v) shares []"

subsection \<open>The merged time line\<close>

text \<open>The state of a time line at a time: that of the last entry up to it.\<close>

definition state_at :: "tl_entry list \<Rightarrow> py_float \<Rightarrow> tl_state option" where
  "state_at es t = (case filter (\<lambda>e. tl_date e \<le> t) es of [] \<Rightarrow> None | f \<Rightarrow> Some (tl_state (last f)))"

text \<open>The current state of a line, given its state so far and the entries still to come.\<close>

definition state_after :: "tl_state \<Rightarrow> tl_entry list \<Rightarrow> py_float \<Rightarrow> tl_state" where
  "state_after s es t = (case state_at es t of None \<Rightarrow> s | Some s1 \<Rightarrow> s1)"

lemma state_at_none: "\<forall>e \<in> set es. t < tl_date e \<Longrightarrow> state_at es t = None"
proof -
  assume "\<forall>e \<in> set es. t < tl_date e"
  then have "filter (\<lambda>e. tl_date e \<le> t) es = []" by (auto simp: filter_empty_conv)
  then show ?thesis by (simp add: state_at_def)
qed

lemma state_at_all: "\<forall>e \<in> set es. tl_date e \<le> t \<Longrightarrow> es \<noteq> [] \<Longrightarrow> state_at es t = Some (tl_state (last es))"
  by (auto simp: state_at_def split: list.split)

lemma state_at_snoc_later: "t < tl_date e \<Longrightarrow> state_at (es @ [e]) t = state_at es t"
  by (simp add: state_at_def)

lemma state_at_Cons: "tl_date e \<le> t \<Longrightarrow> state_at (e # es) t = Some (state_after (tl_state e) es t)"
  by (auto simp: state_at_def state_after_def split: list.split)

lemma state_after_Cons: "tl_date e \<le> t \<Longrightarrow> state_after s (e # es) t = state_after (tl_state e) es t"
  by (simp add: state_at_Cons state_after_def [of s])

lemma state_after_none: "\<forall>e \<in> set es. t < tl_date e \<Longrightarrow> state_after s es t = s"
  by (simp add: state_after_def state_at_none)

definition states_after :: "tl_state list \<Rightarrow> tl_entry list list \<Rightarrow> py_float \<Rightarrow> tl_state list" where
  "states_after sts tls t = map2 (\<lambda>s es. state_after s es t) sts tls"

lemma states_after_update:
  assumes "length sts = length tls" "q < length tls" "tls ! q = e # rest" "tl_date e \<le> t"
  shows "states_after (sts[q := tl_state e]) (tls[q := rest]) t = states_after sts tls t"
  using assms
  by (intro nth_equalityI) (auto simp: states_after_def nth_list_update state_after_Cons)

lemma states_after_none:
  assumes "length sts = length tls" "\<forall>es \<in> set tls. \<forall>e \<in> set es. t < tl_date e"
  shows "states_after sts tls t = sts"
proof (intro nth_equalityI)
  fix i assume "i < length (states_after sts tls t)"
  then have i: "i < length sts" "i < length tls" by (simp_all add: states_after_def)
  then have "\<forall>e \<in> set (tls ! i). t < tl_date e" using assms(2) nth_mem by blast
  with i show "states_after sts tls t ! i = sts ! i" by (simp add: states_after_def state_after_none)
qed (use assms(1) in \<open>simp add: states_after_def\<close>)

subsubsection \<open>The next event\<close>

lemma first_by_min: "x \<in> set (b # xs) \<Longrightarrow> (f (first_by (\<lambda>a b. f a < f b) b xs) :: 'b::linorder) \<le> f x"
proof (induction xs arbitrary: b x)
  case (Cons y ys)
  define c where "c = (if f y < f b then y else b)"
  have c: "f c \<le> f y" "f c \<le> f b" by (auto simp: c_def)
  have ih: "f (first_by (\<lambda>a b. f a < f b) c ys) \<le> f z" if "z \<in> set (c # ys)" for z
    using Cons.IH [OF that] .
  consider "x = y" | "x = b" | "x \<in> set ys" using Cons.prems by auto
  then have "f (first_by (\<lambda>a b. f a < f b) c ys) \<le> f x"
    by cases (use ih [of c] ih [of x] c in \<open>auto intro: order_trans\<close>)
  then show ?case by (simp add: c_def)
qed simp

lemma next_queue_min: "i < length tls \<Longrightarrow> queue_date now (tls ! next_queue now tls) \<le> queue_date now (tls ! i)"
  using first_by_min [of i 0 "[1..<length tls]" "\<lambda>i. queue_date now (tls ! i)"]
  by (cases i) (auto simp: next_queue_def)

text \<open>What the loop keeps: the time lines still to be merged are sorted and lie between the current date and now.\<close>

definition queues_ok :: "py_float \<Rightarrow> py_float \<Rightarrow> tl_entry list list \<Rightarrow> bool" where
  "queues_ok now d tls \<longleftrightarrow>
     (\<forall>es \<in> set tls. sorted (map tl_date es) \<and> (\<forall>e \<in> set es. d \<le> tl_date e \<and> tl_date e < now))"

lemma next_event:
  assumes "any_left tls" "queues_ok now d tls"
  obtains e rest where
    "next_queue now tls < length tls" "tls ! next_queue now tls = e # rest" "d \<le> tl_date e"
    "queues_ok now (tl_date e) tls"
proof -
  let ?q = "next_queue now tls"
  from assms(1) obtain i where i: "i < length tls" "tls ! i \<noteq> []"
    by (auto simp: any_left_def list_ex_length)
  then have q: "?q < length tls" by (intro next_queue_less) auto
  have "queue_date now (tls ! i) < now"
    using i assms(2) by (cases "tls ! i") (auto simp: queue_date_def queues_ok_def dest: nth_mem)
  then have "queue_date now (tls ! ?q) < now" using next_queue_min [OF i(1), of now] by simp
  then obtain e rest where e: "tls ! ?q = e # rest" by (cases "tls ! ?q") (auto simp: queue_date_def)
  have "tl_date e \<le> tl_date x" if x: "es \<in> set tls" "x \<in> set es" for es x
  proof -
    from x(1) obtain j where j: "j < length tls" "es = tls ! j" by (auto simp: in_set_conv_nth)
    obtain y ys where y: "es = y # ys" using x(2) by (cases es) auto
    have "tl_date e \<le> tl_date y" using next_queue_min [OF j(1), of now] e y j(2) by (simp add: queue_date_def)
    also have "tl_date y \<le> tl_date x" using x assms(2) y by (auto simp: queues_ok_def)
    finally show ?thesis .
  qed
  moreover have "d \<le> tl_date e" using assms(2) q e by (auto simp: queues_ok_def dest: nth_mem)
  ultimately show thesis using assms(2) q e by (intro that) (auto simp: queues_ok_def)
qed

lemma queues_ok_pop:
  assumes "queues_ok now d tls" "q < length tls" "tls ! q = e # rest"
  shows "queues_ok now d (tls[q := rest])"
  using assms nth_mem [OF assms(2)] by (auto simp: queues_ok_def dest!: set_update_subset_insert [THEN subsetD])

subsubsection \<open>The loop\<close>

lemma aggregate_total:
  assumes "method = ''best'' \<or> method = ''worst''" "sts \<noteq> []"
  obtains s where "aggregate method sts = Inr s"
proof -
  have "\<exists>s. aggregate method sts = Inr s"
    using assms by (cases sts) (auto simp del: split_paired_Ex simp: aggregate_def py_extreme_def)
  then show thesis using that by blast
qed

definition line_ok :: "py_float \<Rightarrow> tl_entry list \<Rightarrow> bool" where
  "line_ok d ctl \<longleftrightarrow> ctl \<noteq> [] \<and> sorted (map tl_date ctl) \<and> (\<forall>e \<in> set ctl. tl_date e \<le> d)"

lemma add_to_compound_spec:
  assumes "aggregate method sts = Inr s" "line_ok d ctl" "d \<le> d1"
  obtains ctl1 where
    "add_to_compound_tl method d1 sts force_add ctl = Inr ctl1" "line_ok d1 ctl1" "tl_state (last ctl1) = s"
    "hd ctl1 = hd ctl" "force_add \<longrightarrow> tl_date (last ctl1) = d1" "\<forall>t < d1. state_at ctl1 t = state_at ctl t"
proof -
  let ?add = "tl_state (last ctl) \<noteq> s \<or> force_add"
  define ctl1 where "ctl1 = (if ?add then ctl @ [\<lparr>tl_date = d1, tl_state = s\<rparr>] else ctl)"
  have ne: "ctl \<noteq> []" using assms(2) by (simp add: line_ok_def)
  have "add_to_compound_tl method d1 sts force_add ctl = Inr ctl1"
    using assms(1) ne by (simp add: add_to_compound_tl_def ctl1_def)
  moreover have "line_ok d1 ctl1"
    using assms(2,3) by (auto simp: line_ok_def ctl1_def sorted_append)
  moreover have "\<forall>t < d1. state_at ctl1 t = state_at ctl t"
    by (simp add: ctl1_def state_at_snoc_later)
  ultimately show thesis using ne by (intro that) (auto simp: ctl1_def)
qed

definition merges :: "string \<Rightarrow> py_float \<Rightarrow> tl_entry list list \<Rightarrow> tl_state list \<Rightarrow> tl_entry list \<Rightarrow> tl_entry list \<Rightarrow> bool" where
  "merges method d tls sts ctl r \<longleftrightarrow>
     r \<noteq> [] \<and> hd r = hd ctl \<and> sorted (map tl_date r) \<and>
     (\<forall>t < d. state_at r t = state_at ctl t) \<and>
     (\<forall>t \<ge> d. map_option Inr (state_at r t) = Some (aggregate method (states_after sts tls t)))"

lemma merges_done:
  assumes "\<not> any_left tls" "length sts = length tls" "line_ok d ctl" "aggregate method sts = Inr (tl_state (last ctl))"
  shows "merges method d tls sts ctl ctl"
proof -
  have "states_after sts tls t = sts" for t
    using assms(1,2) by (intro states_after_none) (auto simp: any_left_def list_ex_iff)
  moreover have "state_at ctl t = Some (tl_state (last ctl))" if "d \<le> t" for t
    using assms(3) that by (intro state_at_all) (auto simp: line_ok_def)
  ultimately show ?thesis using assms(3,4) by (simp add: merges_def line_ok_def)
qed

lemma merges_step:
  assumes r: "merges method (tl_date e) (tls[q := rest]) (sts[q := tl_state e]) ctl1 r"
    and q: "length sts = length tls" "q < length tls" "tls ! q = e # rest" "queues_ok now (tl_date e) tls"
    and ctl: "line_ok d ctl" "d \<le> tl_date e" "aggregate method sts = Inr (tl_state (last ctl))"
    and ctl1: "hd ctl1 = hd ctl" "\<forall>t < tl_date e. state_at ctl1 t = state_at ctl t"
  shows "merges method d tls sts ctl r"
proof -
  have "map_option Inr (state_at r t) = Some (aggregate method (states_after sts tls t))" if t: "d \<le> t" for t
  proof (cases "t < tl_date e")
    case True
    then have "states_after sts tls t = sts"
      using q(1,4) by (intro states_after_none) (fastforce simp: queues_ok_def)+
    moreover have "state_at ctl t = Some (tl_state (last ctl))"
      using ctl(1) t by (intro state_at_all) (auto simp: line_ok_def)
    ultimately show ?thesis using True r ctl(3) ctl1(2) by (simp add: merges_def)
  next
    case False
    then have "tl_date e \<le> t" by simp
    with r show ?thesis unfolding merges_def using states_after_update [OF q(1-3), of t] by metis
  qed
  then show ?thesis using r ctl(2) ctl1 by (simp add: merges_def)
qed

lemma compound_loop_step:
  assumes "any_left tls" "tls ! next_queue now tls = e # rest"
    and "add_to_compound_tl method (tl_date e) (sts[next_queue now tls := tl_state e])
      (\<not> any_left (tls[next_queue now tls := rest])) ctl = Inr ctl1"
  shows "compound_loop method now tls sts ctl =
    compound_loop method now (tls[next_queue now tls := rest]) (sts[next_queue now tls := tl_state e]) ctl1"
  by (subst compound_loop.simps) (simp add: assms Let_def)

definition ends_at :: "py_float \<Rightarrow> tl_entry list list \<Rightarrow> bool" where
  "ends_at b tls \<longleftrightarrow> (\<forall>es \<in> set tls. es \<noteq> [] \<longrightarrow> tl_date (last es) = b)"

lemma ends_at_pop:
  assumes "ends_at b tls" "q < length tls" "tls ! q = e # rest"
  shows "ends_at b (tls[q := rest])" "rest = [] \<Longrightarrow> tl_date e = b"
  using assms nth_mem [OF assms(2)]
  by (auto simp: ends_at_def dest!: set_update_subset_insert [THEN subsetD] split: if_splits)

lemma compound_loop_merges:
  assumes "method = ''best'' \<or> method = ''worst''" "length sts = length tls" "queues_ok now d tls"
    "line_ok d ctl" "aggregate method sts = Inr (tl_state (last ctl))" "ends_at b tls"
  shows "\<exists>r. compound_loop method now tls sts ctl = Inr r \<and> merges method d tls sts ctl r \<and>
    (any_left tls \<longrightarrow> tl_date (last r) = b)"
  using assms
proof (induction "sum_list (map length tls)" arbitrary: tls sts ctl d rule: less_induct)
  case less
  show ?case
  proof (cases "any_left tls")
    case False
    then show ?thesis
      using merges_done [OF False less.prems(2,4,5)] by (subst compound_loop.simps) simp
  next
    case True
    let ?q = "next_queue now tls"
    obtain e rest where e: "?q < length tls" "tls ! ?q = e # rest" "d \<le> tl_date e" "queues_ok now (tl_date e) tls"
      using next_event [OF True less.prems(3)] .
    let ?tls = "tls[?q := rest]" and ?sts = "sts[?q := tl_state e]"
    have "?sts \<noteq> []" using e(1) less.prems(2) by auto
    then obtain s where s: "aggregate method ?sts = Inr s"
      by (rule aggregate_total [OF less.prems(1)])
    obtain ctl1 where ctl1: "add_to_compound_tl method (tl_date e) ?sts (\<not> any_left ?tls) ctl = Inr ctl1"
      "line_ok (tl_date e) ctl1" "tl_state (last ctl1) = s" "hd ctl1 = hd ctl"
      "\<not> any_left ?tls \<longrightarrow> tl_date (last ctl1) = tl_date e" "\<forall>t < tl_date e. state_at ctl1 t = state_at ctl t"
      using add_to_compound_spec [OF s less.prems(4) e(3), of "\<not> any_left ?tls"] .
    have "sum_list (map length ?tls) < sum_list (map length tls)"
      using e by (intro sum_list_update_less) simp_all
    then obtain r where r: "compound_loop method now ?tls ?sts ctl1 = Inr r"
      "merges method (tl_date e) ?tls ?sts ctl1 r" "any_left ?tls \<longrightarrow> tl_date (last r) = b"
      using less.hyps [of ?tls ?sts "tl_date e" ctl1] less.prems(1,2) queues_ok_pop [OF e(4,1,2)] ctl1(2,3) s
        ends_at_pop(1) [OF less.prems(6) e(1,2)] by auto
    have "tl_date (last r) = b" if "\<not> any_left ?tls"
    proof -
      have "rest = []" using that e(1) by (auto simp: any_left_def list_ex_iff set_update_memI)
      then have "tl_date e = b" using ends_at_pop(2) [OF less.prems(6) e(1,2)] by simp
      moreover have "r = ctl1" using r(1) that by (subst (asm) compound_loop.simps) simp
      ultimately show ?thesis using ctl1(5) that by simp
    qed
    then show ?thesis
      using r merges_step [OF r(2) less.prems(2) e(1,2,4) less.prems(4) e(3) less.prems(5) ctl1(4,6)]
        compound_loop_step [OF True e(2) ctl1(1)] by auto
  qed
qed

subsubsection \<open>The merged line at every time\<close>

text \<open>The keys are ordered like these numbers, so the aggregated state is the one with the extreme number.\<close>

definition state_rank :: "tl_state \<Rightarrow> int" where
  "state_rank st = 4 * kpi_value (fst st) + state_type_ordering (snd st)"

lemma key_less_rank: "key_less (key_fun a) (key_fun b) \<longleftrightarrow> state_rank a < state_rank b"
proof -
  have "-1 \<le> state_type_ordering x \<and> state_type_ordering x \<le> 2" for x by (cases x) simp_all
  from this [of "snd a"] this [of "snd b"] show ?thesis
    by (auto simp del: kpi_value_inj simp: key_less_def key_fun_def state_rank_def)
qed

definition extreme_state :: "string \<Rightarrow> tl_state list \<Rightarrow> tl_state \<Rightarrow> bool" where
  "extreme_state method sts s \<longleftrightarrow>
     s \<in> set sts \<and> list_all (\<lambda>x. if method = ''best'' then state_rank s \<le> state_rank x else state_rank x \<le> state_rank s) sts"

lemma aggregate_extreme:
  assumes "aggregate method sts = Inr s"
  shows "extreme_state method sts s"
proof -
  obtain b xs where sts: "sts = b # xs"
    using assms by (cases sts) (auto simp: aggregate_def py_extreme_def split: if_splits)
  have "state_rank x \<le> state_rank s" if "method \<noteq> ''best''" "x \<in> set sts" for x
    using first_by_min [of x b xs "\<lambda>x. - state_rank x"] assms sts that
    by (auto simp: aggregate_def py_extreme_def key_less_rank split: if_splits)
  moreover have "state_rank s \<le> state_rank x" if "method = ''best''" "x \<in> set sts" for x
    using first_by_min [of x b xs state_rank] assms sts that
    by (auto simp: aggregate_def py_extreme_def key_less_rank)
  moreover have "s \<in> set sts"
    using assms sts first_by_in [of "\<lambda>a b. key_less (key_fun a) (key_fun b)" b xs]
      first_by_in [of "\<lambda>a b. key_less (key_fun b) (key_fun a)" b xs]
    unfolding aggregate_def py_extreme_def by (auto split: if_splits)
  ultimately show ?thesis by (auto simp: extreme_state_def list_all_iff)
qed

text \<open>A time line as the database query gives it: sorted, from the start to the end of the time span.\<close>

definition spans :: "py_float \<Rightarrow> py_float \<Rightarrow> tl_entry list \<Rightarrow> bool" where
  "spans a b es \<longleftrightarrow> es \<noteq> [] \<and> sorted (map tl_date es) \<and> tl_date (hd es) = a \<and> tl_date (last es) = b"

lemma spans_dates: "spans a b es \<Longrightarrow> e \<in> set es \<Longrightarrow> a \<le> tl_date e \<and> tl_date e \<le> b"
proof (induction es arbitrary: a)
  case (Cons x xs)
  then show ?case by (cases "xs = []") (auto simp: spans_def intro: order_trans)
qed simp

lemma any_r_False: "(\<And>x. x \<in> set xs \<Longrightarrow> p x = Inr False) \<Longrightarrow> any_r p xs = Inr False"
  by (induction xs) auto

lemma set_pairs_of: "(x, y) \<in> set (pairs_of xs) \<Longrightarrow> x \<in> set xs \<and> y \<in> set xs"
  by (cases xs) (auto simp: pairs_of_def dest: set_zip_leftD set_zip_rightD)

lemma same_dates:
  assumes "\<forall>es \<in> set tls. \<exists>e. f es = Inr e \<and> tl_date e = a"
  shows "dates_differ f tls = Inr False"
  unfolding dates_differ_def
proof (rule any_r_False)
  fix p assume "p \<in> set (pairs_of tls)"
  moreover obtain x y where p: "p = (x, y)" by (cases p)
  ultimately have "x \<in> set tls \<and> y \<in> set tls" using set_pairs_of [of x y tls] by simp
  then have "\<exists>e. f x = Inr e \<and> tl_date e = a" "\<exists>e. f y = Inr e \<and> tl_date e = a" using assms by simp_all
  with p show "(case p of (a, b) \<Rightarrow> bind_r (f a) (\<lambda>x. bind_r (f b) (\<lambda>y. Inr (tl_date x \<noteq> tl_date y)))) = Inr False"
    by auto
qed

lemma calculate_compound_merges:
  assumes "method = ''best'' \<or> method = ''worst''" "tls \<noteq> []" "\<forall>es \<in> set tls. spans a b es" "b < now"
  shows "\<exists>r. calculate_compound_time_line method now tls = Inr r \<and> spans a b r \<and>
    (\<forall>t \<ge> a. map_option Inr (state_at r t) = Some (aggregate method (map (\<lambda>es. the (state_at es t)) tls)))"
proof -
  let ?sts = "map (\<lambda>q. tl_state (hd q)) tls"
  have ne: "\<not> list_ex (\<lambda>q. q = []) tls" and hd: "tl_date (hd (hd tls)) = a"
    using assms(2,3) by (auto simp: spans_def list_ex_iff)
  have same: "dates_differ first_entry tls = Inr False" "dates_differ last_entry tls = Inr False"
    using assms(3) same_dates [of tls first_entry a] same_dates [of tls last_entry b]
    by (simp_all add: spans_def first_entry_def last_entry_def)
  have firsts: "mapM_r first_entry tls = Inr (map hd tls)"
    using assms(3) by (intro mapM_r_all_Inr) (simp add: spans_def first_entry_def)
  obtain s where s: "aggregate method ?sts = Inr s"
    using aggregate_total [OF assms(1), of ?sts] assms(2) by (auto simp del: split_paired_All)
  define ctl where "ctl = [\<lparr>tl_date = a, tl_state = s\<rparr>]"
  have ctl: "add_to_compound_tl method a ?sts False [] = Inr ctl" "line_ok a ctl" "tl_state (last ctl) = s"
    using s by (simp_all add: add_to_compound_tl_def ctl_def line_ok_def)
  have "queues_ok now a tls"
    using assms(3,4) spans_dates by (fastforce simp: queues_ok_def spans_def)
  moreover have "ends_at b tls" using assms(3) by (simp add: ends_at_def spans_def)
  ultimately obtain r where r: "compound_loop method now tls ?sts ctl = Inr r" "merges method a tls ?sts ctl r"
    "any_left tls \<longrightarrow> tl_date (last r) = b"
    using compound_loop_merges [OF assms(1), of ?sts tls now a ctl b] s ctl by auto
  have "states_after ?sts tls t = map (\<lambda>es. the (state_at es t)) tls" if t: "a \<le> t" for t
  proof (rule nth_equalityI)
    fix i assume "i < length (states_after ?sts tls t)"
    then have i: "i < length tls" by (simp add: states_after_def)
    then have "spans a b (tls ! i)" using assms(3) by simp
    then obtain e es where "tls ! i = e # es" "tl_date e \<le> t" using t by (cases "tls ! i") (auto simp: spans_def)
    with i show "states_after ?sts tls t ! i = map (\<lambda>es. the (state_at es t)) tls ! i"
      by (simp add: states_after_def state_at_Cons state_after_Cons)
  qed (simp add: states_after_def)
  moreover have "any_left tls" using assms(2) ne by (cases tls) (auto simp: any_left_def)
  ultimately show ?thesis
    using r assms(2) same firsts hd ctl(1)
    by (cases tls) (auto simp: calculate_compound_time_line_def comp_def merges_def spans_def ctl_def)
qed

lemma compound_extreme:
  assumes "method = ''best'' \<or> method = ''worst''" "tls \<noteq> []" "\<forall>es \<in> set tls. spans a b es" "b < now"
  shows "\<exists>r. calculate_compound_time_line method now tls = Inr r \<and> spans a b r \<and>
    (\<forall>t \<ge> a. \<exists>s. state_at r t = Some s \<and> extreme_state method (map (\<lambda>es. the (state_at es t)) tls) s)"
proof -
  obtain r where r: "calculate_compound_time_line method now tls = Inr r" "spans a b r"
    "\<forall>t \<ge> a. map_option Inr (state_at r t) = Some (aggregate method (map (\<lambda>es. the (state_at es t)) tls))"
    using calculate_compound_merges [OF assms] by blast
  have "\<exists>s. state_at r t = Some s \<and> extreme_state method (map (\<lambda>es. the (state_at es t)) tls) s" if "a \<le> t" for t
    using r(3) that aggregate_extreme by (fastforce simp del: split_paired_Ex)
  with r(1,2) show ?thesis by blast
qed

text \<open>C16: merging time lines over the same time span, all in the past: the merge always returns a time line over that
  span, and at every time its state is the best (or worst) of the states the merged lines have at that time.\<close>

theorem compound_pointwise:
  assumes "method = ''best'' \<or> method = ''worst''" "tls \<noteq> []" "\<forall>es \<in> set tls. spans a b es" "b < now"
  shows "\<exists>r. calculate_compound_time_line method now tls = Inr r \<and> spans a b r \<and>
    (\<forall>t \<ge> a. \<exists>s. state_at r t = Some s \<and> extreme_state method (map (\<lambda>es. the (state_at es t)) tls) s)"
  using assms by (rule compound_extreme)

definition two_lines :: "tl_entry list list" where
  "two_lines =
     [[\<lparr>tl_date = 0, tl_state = (KOk, Hard)\<rparr>, \<lparr>tl_date = 40, tl_state = (KCritical, Hard)\<rparr>, \<lparr>tl_date = 100, tl_state = (KCritical, Hard)\<rparr>],
      [\<lparr>tl_date = 0, tl_state = (KWarning, Hard)\<rparr>, \<lparr>tl_date = 70, tl_state = (KOk, Soft)\<rparr>, \<lparr>tl_date = 100, tl_state = (KOk, Soft)\<rparr>]]"

theorem compound_pointwise_witness:
  "\<exists>r. calculate_compound_time_line ''best'' 200 two_lines = Inr r \<and> spans 0 100 r \<and> state_at r 50 = Some (KWarning, Hard)"
proof -
  obtain r where r: "calculate_compound_time_line ''best'' 200 two_lines = Inr r" "spans 0 100 r"
    "\<forall>t \<ge> 0. \<exists>s. state_at r t = Some s \<and> extreme_state ''best'' (map (\<lambda>es. the (state_at es t)) two_lines) s"
    using compound_pointwise [of "''best''" two_lines 0 100 200] by (auto simp: two_lines_def spans_def)
  have "\<exists>s. state_at r 50 = Some s \<and> extreme_state ''best'' (map (\<lambda>es. the (state_at es 50)) two_lines) s"
    using r(3) by simp
  then have "state_at r 50 = Some (KWarning, Hard)"
    by (auto simp: two_lines_def state_at_def extreme_state_def state_rank_def)
  with r(1,2) show ?thesis by blast
qed

subsection \<open>Shares of the states\<close>

lemma get0_add_to [simp]: "get0 (add_to k v acc) j = (if j = k then get0 acc k + v else get0 acc j)"
  by (simp add: add_to_def get0_def update_conv')

lemma total_share_simps [simp]: "total_share [] = 0" "total_share (x # xs) = snd x + total_share xs"
  by (simp_all add: total_share_def)

lemma distinct_add_to [simp]: "distinct (map fst acc) \<Longrightarrow> distinct (map fst (add_to k v acc))"
  by (simp add: add_to_def distinct_update)

lemma total_add_to [simp]: "distinct (map fst acc) \<Longrightarrow> total_share (add_to k v acc) = total_share acc + v"
proof (induction acc)
  case (Cons x acc)
  then show ?case by (cases x) (auto simp: total_share_def get0_def add_to_def)
qed (simp add: total_share_def get0_def add_to_def)

text \<open>The share of the keys of a kind.\<close>

definition share_where :: "('k \<Rightarrow> bool) \<Rightarrow> ('k \<times> py_float) list \<Rightarrow> py_float" where
  "share_where P shares = sum_list (map snd (filter (\<lambda>(k, v). P k) shares))"

lemma share_where_simps [simp]:
  "share_where P [] = 0" "share_where P ((k, v) # xs) = (if P k then v else 0) + share_where P xs"
  by (simp_all add: share_where_def)

lemma share_where_add_to:
  "distinct (map fst acc) \<Longrightarrow> share_where P (add_to k v acc) = share_where P acc + (if P k then v else 0)"
proof (induction acc)
  case (Cons x acc)
  then show ?case by (cases x) (auto simp: add_to_def get0_def)
qed (simp add: add_to_def get0_def)

lemma share_where_div: "share_where P (map (\<lambda>(k, v). (k, v / c)) acc) = share_where P acc / c"
  by (induction acc) (auto simp: add_divide_distrib)

text \<open>How long a time line is in a state.\<close>

fun time_in :: "tl_state \<Rightarrow> tl_entry list \<Rightarrow> py_float" where
  "time_in s (e1 # e2 # es) = (if tl_state e1 = s then tl_date e2 - tl_date e1 else 0) + time_in s (e2 # es)"
| "time_in s es = 0"

lemma get0_accumulate: "get0 (accumulate es acc) s = get0 acc s + time_in s es"
  by (induction es acc rule: accumulate.induct) simp_all

lemma distinct_accumulate: "distinct (map fst acc) \<Longrightarrow> distinct (map fst (accumulate es acc))"
  by (induction es acc rule: accumulate.induct) simp_all

lemma total_accumulate:
  "distinct (map fst acc) \<Longrightarrow> es \<noteq> [] \<Longrightarrow> total_share (accumulate es acc) = total_share acc + (tl_date (last es) - tl_date (hd es))"
  by (induction es acc rule: accumulate.induct) simp_all

lemma time_in_bounds:
  "sorted (map tl_date es) \<Longrightarrow> es \<noteq> [] \<Longrightarrow> 0 \<le> time_in s es \<and> time_in s es \<le> tl_date (last es) - tl_date (hd es)"
  by (induction s es rule: time_in.induct) auto

lemma get0_map_div: "get0 (map (\<lambda>(k, v). (k, v / c)) acc) k = get0 acc k / c"
  by (induction acc) (auto simp: get0_def)

lemma total_map_div: "total_share (map (\<lambda>(k, v). (k, v / c)) acc) = total_share acc / c"
  by (induction acc) (auto simp: total_share_def add_divide_distrib)

text \<open>The shares of a time line over a non-empty time span: each state has the share of the span it holds
  for, between 0 and 1, and the shares sum to one.\<close>

theorem aggregate_time_line_shares:
  assumes "spans a b es" "a < b"
  shows "get0 (aggregate_time_line es) s = time_in s es / (b - a) \<and>
    0 \<le> get0 (aggregate_time_line es) s \<and> get0 (aggregate_time_line es) s \<le> 1 \<and> total_share (aggregate_time_line es) = 1"
proof -
  have t: "total_share (accumulate es []) = b - a"
    using assms(1) total_accumulate [of "[]" es] by (simp add: spans_def total_share_def)
  then have "aggregate_time_line es = map (\<lambda>(k, v). (k, v / (b - a))) (accumulate es [])"
    using assms(2) by (simp add: aggregate_time_line_def)
  then have "get0 (aggregate_time_line es) s = time_in s es / (b - a)" "total_share (aggregate_time_line es) = 1"
    using assms(2) t by (simp_all add: get0_map_div total_map_div get0_accumulate) (simp add: get0_def)
  moreover have "0 \<le> time_in s es" "time_in s es \<le> b - a"
    using time_in_bounds [of es s] assms(1) by (simp_all add: spans_def)
  ultimately show ?thesis using assms(2) by (simp add: divide_le_eq_1)
qed

theorem aggregate_time_line_shares_witness:
  "get0 (aggregate_time_line (hd two_lines)) (KCritical, Hard) = 3 / 5 \<and> total_share (aggregate_time_line (hd two_lines)) = 1"
  using aggregate_time_line_shares [of 0 100 "hd two_lines" "(KCritical, Hard)"] by (simp add: two_lines_def spans_def)

text \<open>Removing the state types keeps the time: the share of a result is the sum of the shares of the states it
  stands for.\<close>

lemma get0_merge_aux:
  "get0 (fold (\<lambda>(k, v). add_to (f k) v) shares acc) r = get0 acc r + sum_list (map snd (filter (\<lambda>(k, v). f k = r) shares))"
  by (induction shares arbitrary: acc) auto

lemma merge_state_types_share:
  "get0 (merge_state_types soft_as_hard shares) r = sum_list (map snd (filter (\<lambda>(k, v). merged_state soft_as_hard k = r) shares))"
  by (simp add: merge_state_types_def get0_merge_aux) (simp add: get0_def)

lemma merge_state_types_total: "total_share (merge_state_types soft_as_hard shares) = total_share shares"
proof -
  have "distinct (map fst acc) \<Longrightarrow> total_share (fold (\<lambda>(k, v). add_to (merged_state soft_as_hard k) v) shares acc) = total_share acc + total_share shares" for acc
    by (induction shares arbitrary: acc) auto
  from this [of "[]"] show ?thesis by (simp add: merge_state_types_def)
qed

end
