(* ===== verification/Alert_History.thy ===== *)
theory Alert_History
  imports Time_Line
begin

section \<open>Alerts and downtimes (models/status_history.py, kpi_historic.py)\<close>

text \<open>
  The log of the monitoring core gives, per device or service, the last state before a time span and the
  alerts in it. Planned downtimes, logged as start and stop events, are paired (\<open>preprocess_start_stop_data\<close>),
  laid over the alerts (\<open>add_downtimes_to_alerts\<close>), and the result becomes one time line per key
  (\<open>calculate_time_lines\<close>). The rows the database queries give are the arguments.
\<close>

subsection \<open>States of the log\<close>

definition all_results :: "kpi_result list" where
  "all_results = [Planned_down, KOk, KWarning, KCritical, KUnknown, Undetermined]"

fun kpi_to_icinga_service_state :: "kpi_result \<Rightarrow> string" where
  "kpi_to_icinga_service_state Planned_down = ''PD''"
| "kpi_to_icinga_service_state KOk = ''O''"
| "kpi_to_icinga_service_state KWarning = ''W''"
| "kpi_to_icinga_service_state KCritical = ''C''"
| "kpi_to_icinga_service_state KUnknown = ''U''"
| "kpi_to_icinga_service_state Undetermined = ''UD''"

fun kpi_to_icinga_host_state :: "kpi_result \<Rightarrow> string" where
  "kpi_to_icinga_host_state Planned_down = ''PD''"
| "kpi_to_icinga_host_state KOk = ''UP''"
| "kpi_to_icinga_host_state KWarning = ''UR''"
| "kpi_to_icinga_host_state KCritical = ''D''"
| "kpi_to_icinga_host_state KUnknown = ''U''"
| "kpi_to_icinga_host_state Undetermined = ''UD''"

text \<open>The reverse dictionaries.\<close>

definition reverse_lookup :: "(kpi_result \<Rightarrow> string) \<Rightarrow> string \<Rightarrow> kpi_result res" where
  "reverse_lookup f s = (case find (\<lambda>r. f r = s) all_results of Some r \<Rightarrow> Inr r | None \<Rightarrow> Inl KeyError)"

definition from_icinga_service_status :: "string \<Rightarrow> kpi_result res" where
  "from_icinga_service_status = reverse_lookup kpi_to_icinga_service_state"

definition from_icinga_host_status :: "string \<Rightarrow> kpi_result res" where
  "from_icinga_host_status = reverse_lookup kpi_to_icinga_host_state"

definition convert_state :: "bool \<Rightarrow> string \<Rightarrow> kpi_result res" where
  "convert_state is_host = (if is_host then from_icinga_host_status else from_icinga_service_status)"

subsection \<open>Downtimes\<close>

record alert =
  al_date :: py_float
  al_state :: string
  al_state_type :: state_type
  al_msg :: string

datatype event = Start | Stop

record 'k event_row =
  er_key :: 'k
  er_event :: event
  er_date :: py_float
  er_msg :: string

text \<open>A downtime row has the interface of an alert.\<close>

definition row_alert :: "'k event_row \<Rightarrow> alert" where
  "row_alert r = \<lparr>al_date = er_date r, al_state = ''PD'', al_state_type = ST_Planned_down, al_msg = er_msg r\<rparr>"

record start_stop =
  du_start :: py_float
  du_end :: py_float
  du_start_entry :: alert
  du_end_entry :: "alert option"

type_synonym 'k pp_state = "('k \<times> 'k event_row) list \<times> ('k \<times> start_stop list) list"

definition append_at :: "'k \<Rightarrow> 'a \<Rightarrow> ('k \<times> 'a list) list \<Rightarrow> ('k \<times> 'a list) list" where
  "append_at k x d = AList.update k ((case map_of d k of Some l \<Rightarrow> l | None \<Rightarrow> []) @ [x]) d"

definition start_event :: "py_float \<Rightarrow> 'k event_row \<Rightarrow> ('k \<times> 'k event_row) list \<Rightarrow> ('k \<times> 'k event_row) list" where
  "start_event end_time r aux =
     (if map_of aux (er_key r) = None \<and> er_event r = Start \<and> er_date r \<le> end_time then AList.update (er_key r) r aux else aux)"

definition pp_step :: "py_float \<Rightarrow> py_float \<Rightarrow> 'k event_row \<Rightarrow> 'k pp_state \<Rightarrow> 'k pp_state" where
  "pp_step start_time end_time r st =
     (let aux = start_event end_time r (fst st) in
      case map_of aux (er_key r) of
        None \<Rightarrow> (aux, snd st)
      | Some r0 \<Rightarrow>
          if er_event r = Stop then
            (AList.delete (er_key r) aux,
             if start_time \<le> er_date r
             then append_at (er_key r)
               \<lparr>du_start = er_date r0, du_end = er_date r, du_start_entry = row_alert r0, du_end_entry = Some (row_alert r)\<rparr> (snd st)
             else snd st)
          else (aux, snd st))"

definition preprocess_start_stop_data ::
  "py_float \<Rightarrow> py_float \<Rightarrow> py_float \<Rightarrow> 'k event_row list \<Rightarrow> ('k \<times> start_stop list) list" where
  "preprocess_start_stop_data now start_time end_time rows =
     (let (aux, cache) = fold (pp_step start_time end_time) rows ([], [])
      in fold (\<lambda>(k, r). append_at k \<lparr>du_start = er_date r, du_end = now, du_start_entry = row_alert r, du_end_entry = None\<rparr>) aux cache)"

definition in_downtime :: "py_float \<Rightarrow> start_stop \<Rightarrow> bool" where
  "in_downtime t d \<longleftrightarrow> du_start d \<le> t \<and> t < du_end d"

definition get_downtime_entry :: "start_stop list \<Rightarrow> py_float \<Rightarrow> alert option" where
  "get_downtime_entry ds t = map_option du_start_entry (find (in_downtime t) ds)"

text \<open>The description of the last state before the time span is unpacked into two names: the aggregation of the log
  passes a pair, the alert list a dictionary with more than two fields, for which that raises.\<close>

datatype state_description = StateTuple "string \<times> state_type" | StateFields "string \<times> state_type"

fun unpack_state :: "state_description \<Rightarrow> (string \<times> state_type) res" where
  "unpack_state (StateTuple s) = Inr s"
| "unpack_state (StateFields s) = Inl ValueError"

type_synonym last_before = "state_description option"

definition last_alert_before :: "alert list \<Rightarrow> start_stop \<Rightarrow> alert option" where
  "last_alert_before alerts d = (case takeWhile (\<lambda>a. al_date a \<le> du_start d) alerts of [] \<Rightarrow> None | as \<Rightarrow> Some (last as))"

definition downtime_entries :: "alert list \<Rightarrow> last_before \<Rightarrow> start_stop \<Rightarrow> alert list res" where
  "downtime_entries all_alerts last_state d =
     (case du_end_entry d of
        None \<Rightarrow> Inr [du_start_entry d]
      | Some e \<Rightarrow>
          (case last_alert_before all_alerts d of
             Some a \<Rightarrow> Inr [du_start_entry d, e\<lparr>al_state := al_state a, al_state_type := al_state_type a, al_msg := al_msg a\<rparr>]
           | None \<Rightarrow>
               bind_r (case last_state of Some s \<Rightarrow> unpack_state s | None \<Rightarrow> Inr (''UD'', ST_Undetermined))
                 (\<lambda>(st, ty). Inr [du_start_entry d, e\<lparr>al_state := st, al_state_type := ty\<rparr>])))"

definition add_downtimes_to_alerts :: "alert list \<Rightarrow> last_before \<Rightarrow> start_stop list \<Rightarrow> alert list res" where
  "add_downtimes_to_alerts alerts last_state ds =
     (if ds = [] then Inr alerts
      else bind_r (mapM_r (downtime_entries alerts last_state) ds) (\<lambda>entries.
        Inr (sort_key al_date (filter (\<lambda>a. \<not> list_ex (in_downtime (al_date a)) ds) alerts @ concat entries))))"

record 'k alert_list =
  ali_alerts :: "('k \<times> alert list) list"
  ali_last_before :: "('k \<times> (string \<times> state_type)) list"

text \<open>A downtime at the start of the span is copied field by field with \<open>getattr\<close> from the new, empty dictionary
  instead of from the downtime row: the first field raises.\<close>

definition add_downtimes_of :: "py_float \<Rightarrow> 'k \<times> start_stop list \<Rightarrow> 'k alert_list \<Rightarrow> 'k alert_list res" where
  "add_downtimes_of start_time kd al =
     (let k = fst kd in
      bind_r (add_downtimes_to_alerts (case map_of (ali_alerts al) k of Some as \<Rightarrow> as | None \<Rightarrow> [])
                (map_option StateFields (map_of (ali_last_before al) k)) (snd kd)) (\<lambda>as.
        if get_downtime_entry (snd kd) start_time \<noteq> None then Inl AttributeError
        else Inr (al\<lparr>ali_alerts := AList.update k as (ali_alerts al)\<rparr>)))"

definition make_alert_list ::
  "py_float \<Rightarrow> py_float \<Rightarrow> py_float \<Rightarrow> ('k \<times> alert list) list \<Rightarrow> ('k \<times> (string \<times> state_type)) list \<Rightarrow> 'k event_row list
     \<Rightarrow> 'k alert_list res" where
  "make_alert_list now start_time end_time alerts lb rows =
     fold (\<lambda>kd m. bind_r m (add_downtimes_of start_time kd)) (preprocess_start_stop_data now start_time end_time rows)
       (Inr \<lparr>ali_alerts = alerts, ali_last_before = lb\<rparr>)"

subsection \<open>Alerts of the span and before it\<close>

text \<open>The rows of the log: some belong to no device (a restart of the monitoring core) and count for every key.\<close>

record 'k alert_row =
  ar_key :: 'k
  ar_independent :: bool
  ar_alert :: alert

definition in_range :: "py_float \<Rightarrow> py_float \<Rightarrow> 'k alert_row \<Rightarrow> bool" where
  "in_range start_time end_time r \<longleftrightarrow> start_time \<le> al_date (ar_alert r) \<and> al_date (ar_alert r) \<le> end_time"

definition calc_alerts :: "('k alert_row \<Rightarrow> bool) \<Rightarrow> py_float \<Rightarrow> py_float \<Rightarrow> 'k alert_row list \<Rightarrow> ('k \<times> alert list) list" where
  "calc_alerts additional_filter start_time end_time rows =
     (let own = fold (\<lambda>r. append_at (ar_key r) (ar_alert r))
            (filter (\<lambda>r. additional_filter r \<and> \<not> ar_independent r \<and> in_range start_time end_time r) rows) [];
          all_rows = fold (\<lambda>r. map (\<lambda>(k, l). (k, l @ [ar_alert r])))
            (filter (\<lambda>r. ar_independent r \<and> in_range start_time end_time r) rows) own
      in map (\<lambda>(k, l). (k, sort_key al_date l)) all_rows)"

text \<open>The last state before a time or the first one after it: the query gives, per key, state and state type, the
  greatest or least date; the latest (or first) row of no device counts where it is closer to the time.\<close>

datatype limit_mode = LastBefore | FirstAfter

record 'k limit_entry =
  le_key :: 'k
  le_state :: "string \<times> state_type"
  le_date :: py_float

fun closer :: "limit_mode \<Rightarrow> py_float \<Rightarrow> py_float \<Rightarrow> bool" where
  "closer LastBefore x y \<longleftrightarrow> x > y"
| "closer FirstAfter x y \<longleftrightarrow> x < y"

type_synonym 'k limit_cache = "('k \<times> ((string \<times> state_type) \<times> py_float)) list"

definition limit_step :: "limit_mode \<Rightarrow> 'k limit_entry option \<Rightarrow> 'k limit_entry \<Rightarrow> 'k limit_cache \<Rightarrow> 'k limit_cache" where
  "limit_step mode indep e cache =
     (let relevant = (case indep of Some i \<Rightarrow> if closer mode (le_date i) (le_date e) then i else e | None \<Rightarrow> e) in
      if (case map_of cache (le_key e) of None \<Rightarrow> True | Some (_, d) \<Rightarrow> closer mode (le_date e) d)
      then AList.update (le_key e) (le_state relevant, le_date e) cache else cache)"

definition calc_limit_alerts ::
  "limit_mode \<Rightarrow> 'k limit_entry option \<Rightarrow> 'k limit_entry list \<Rightarrow> ('k \<times> (string \<times> state_type)) list" where
  "calc_limit_alerts mode indep entries = map (\<lambda>(k, s, d). (k, s)) (fold (limit_step mode indep) entries [])"

subsection \<open>Time lines\<close>

text \<open>Only alerts that change the state or the state type give an entry.\<close>

fun changes :: "alert option \<Rightarrow> alert list \<Rightarrow> alert list" where
  "changes prev [] = []"
| "changes prev (a # as) =
     (if case prev of None \<Rightarrow> True | Some p \<Rightarrow> al_state a \<noteq> al_state p \<or> al_state_type a \<noteq> al_state_type p
      then a # changes (Some a) as else changes (Some a) as)"

definition alert_entry :: "bool \<Rightarrow> alert \<Rightarrow> tl_entry res" where
  "alert_entry is_host a = bind_r (convert_state is_host (al_state a)) (\<lambda>r. Inr \<lparr>tl_date = al_date a, tl_state = (r, al_state_type a)\<rparr>)"

definition initial_lines :: "bool \<Rightarrow> py_float \<Rightarrow> ('k \<times> (string \<times> state_type)) list \<Rightarrow> ('k \<times> tl_entry list) list res" where
  "initial_lines is_host start =
     mapM_r (\<lambda>(k, s, ty). bind_r (convert_state is_host s) (\<lambda>r. Inr (k, [\<lparr>tl_date = start, tl_state = (r, ty)\<rparr>])))"

definition add_alerts :: "bool \<Rightarrow> py_float \<Rightarrow> 'k \<times> alert list \<Rightarrow> ('k \<times> tl_entry list) list \<Rightarrow> ('k \<times> tl_entry list) list res" where
  "add_alerts is_host start ka tls =
     bind_r (case map_of tls (fst ka) of
               Some es \<Rightarrow> Inr es
             | None \<Rightarrow> bind_r (convert_state is_host ''UD'') (\<lambda>r. Inr [\<lparr>tl_date = start, tl_state = (r, ST_Undetermined)\<rparr>]))
       (\<lambda>es. bind_r (mapM_r (alert_entry is_host) (changes None (snd ka))) (\<lambda>new.
          Inr (AList.update (fst ka) (es @ new) tls)))"

definition calculate_time_lines :: "bool \<Rightarrow> py_float \<Rightarrow> py_float \<Rightarrow> 'k alert_list \<Rightarrow> ('k \<times> tl_entry list) list res" where
  "calculate_time_lines is_host start end_time al =
     bind_r (initial_lines is_host start (ali_last_before al)) (\<lambda>tls0.
       bind_r (fold (\<lambda>ka m. bind_r m (add_alerts is_host start ka)) (ali_alerts al) (Inr tls0)) (\<lambda>tls.
         Inr (map (\<lambda>(k, es). (k, es @ [\<lparr>tl_date = end_time, tl_state = tl_state (last es)\<rparr>])) tls)))"

subsection \<open>Pairing of start and stop events\<close>

definition at_key :: "('k \<times> 'a list) list \<Rightarrow> 'k \<Rightarrow> 'a list" where
  "at_key d k = (case map_of d k of Some l \<Rightarrow> l | None \<Rightarrow> [])"

lemma at_key_append [simp]: "at_key (append_at k x d) j = (if j = k then at_key d k @ [x] else at_key d j)"
  by (simp add: at_key_def append_at_def update_conv')

lemma at_key_Nil [simp]: "at_key [] k = []"
  by (simp add: at_key_def)

text \<open>The last event of a key up to a time.\<close>

definition last_event :: "'k event_row list \<Rightarrow> 'k \<Rightarrow> py_float \<Rightarrow> event option" where
  "last_event rows k t =
     (let l = filter (\<lambda>r. er_key r = k \<and> er_date r \<le> t) rows in if l = [] then None else Some (er_event (last l)))"

lemma last_event_snoc:
  "last_event (rows @ [r]) k t = (if er_key r = k \<and> er_date r \<le> t then Some (er_event r) else last_event rows k t)"
  by (simp add: last_event_def)

text \<open>What the pairing knows of a key: the open start and the finished intervals.\<close>

definition open_start :: "'k pp_state \<Rightarrow> 'k \<Rightarrow> 'k event_row option" where
  "open_start st k = map_of (fst st) k"

definition finished :: "'k pp_state \<Rightarrow> 'k \<Rightarrow> start_stop list" where
  "finished st k = at_key (snd st) k"

definition interval :: "'k event_row \<Rightarrow> 'k event_row \<Rightarrow> start_stop" where
  "interval r0 r = \<lparr>du_start = er_date r0, du_end = er_date r, du_start_entry = row_alert r0, du_end_entry = Some (row_alert r)\<rparr>"

lemma pp_step_key:
  "open_start (pp_step a b r st) k =
     (if er_key r \<noteq> k then open_start st k
      else case open_start st k of
        None \<Rightarrow> if er_event r = Start \<and> er_date r \<le> b then Some r else None
      | Some r0 \<Rightarrow> if er_event r = Stop then None else Some r0)"
  "finished (pp_step a b r st) k =
     (case open_start st k of
        Some r0 \<Rightarrow> if er_key r = k \<and> er_event r = Stop \<and> a \<le> er_date r then finished st k @ [interval r0 r] else finished st k
      | None \<Rightarrow> finished st k)"
  by (auto simp: open_start_def finished_def pp_step_def start_event_def Let_def interval_def update_conv' delete_conv'
      split: option.splits event.splits)

definition pp_inv :: "py_float \<Rightarrow> py_float \<Rightarrow> 'k event_row list \<Rightarrow> 'k \<Rightarrow> 'k pp_state \<Rightarrow> bool" where
  "pp_inv a b rows k st \<longleftrightarrow>
     (\<forall>r0. open_start st k = Some r0 \<longrightarrow> r0 \<in> set rows) \<and>
     (\<forall>d \<in> set (finished st k). \<exists>r \<in> set rows. du_end d = er_date r) \<and>
     (\<forall>t. a \<le> t \<longrightarrow> t \<le> b \<longrightarrow>
        (list_ex (in_downtime t) (finished st k) \<or> (\<exists>r0. open_start st k = Some r0 \<and> er_date r0 \<le> t)) =
        (last_event rows k t = Some Start))"

lemma pp_invD:
  assumes "pp_inv a b rows k st"
  shows "open_start st k = Some r0 \<Longrightarrow> r0 \<in> set rows"
    and "d \<in> set (finished st k) \<Longrightarrow> \<exists>r \<in> set rows. du_end d = er_date r"
    and "a \<le> t \<Longrightarrow> t \<le> b \<Longrightarrow>
      (list_ex (in_downtime t) (finished st k) \<or> (\<exists>r0. open_start st k = Some r0 \<and> er_date r0 \<le> t)) =
      (last_event rows k t = Some Start)"
  using assms unfolding pp_inv_def by blast+

lemma pp_inv_other_key:
  assumes "pp_inv a b rows k st" "er_key r \<noteq> k"
  shows "pp_inv a b (rows @ [r]) k (pp_step a b r st)"
proof -
  have "open_start (pp_step a b r st) k = open_start st k" "finished (pp_step a b r st) k = finished st k"
    using assms(2) by (simp_all add: pp_step_key split: option.split)
  moreover have "last_event (rows @ [r]) k t = last_event rows k t" for t
    using assms(2) by (simp add: last_event_snoc)
  moreover have "\<forall>d \<in> set (finished st k). \<exists>x \<in> set (rows @ [r]). du_end d = er_date x"
    "\<forall>r0. open_start st k = Some r0 \<longrightarrow> r0 \<in> set (rows @ [r])"
    using pp_invD(1,2) [OF assms(1)] by fastforce+
  ultimately show ?thesis using pp_invD(3) [OF assms(1)] by (simp only: pp_inv_def) simp
qed

lemma pp_covers_before:
  assumes "pp_inv a b rows k st" "er_key r = k" "a \<le> t" "t \<le> b" "t < er_date r"
  shows "(list_ex (in_downtime t) (finished (pp_step a b r st) k) \<or>
      (\<exists>r0. open_start (pp_step a b r st) k = Some r0 \<and> er_date r0 \<le> t)) = (last_event (rows @ [r]) k t = Some Start)"
proof -
  have "last_event (rows @ [r]) k t = last_event rows k t" using assms(5) by (simp add: last_event_snoc)
  moreover have "in_downtime t (interval r0 r) \<longleftrightarrow> er_date r0 \<le> t" for r0
    using assms(5) by (simp add: in_downtime_def interval_def)
  moreover have "\<not> er_date r \<le> t" "a \<le> er_date r" using assms(3,5) by auto
  ultimately show ?thesis
    unfolding pp_step_key using assms(2) pp_invD(3) [OF assms(1,3,4)]
    by (cases "open_start st k"; cases "er_event r") simp_all
qed

lemma pp_covers_after:
  assumes "pp_inv a b rows k st" "er_key r = k" "t \<le> b" "er_date r \<le> t" "\<forall>x \<in> set rows. er_date x \<le> er_date r"
  shows "(list_ex (in_downtime t) (finished (pp_step a b r st) k) \<or>
      (\<exists>r0. open_start (pp_step a b r st) k = Some r0 \<and> er_date r0 \<le> t)) = (last_event (rows @ [r]) k t = Some Start)"
proof -
  have "\<not> in_downtime t d" if "d \<in> set (finished st k)" for d
    using pp_invD(2) [OF assms(1) that] assms(4,5) by (fastforce simp: in_downtime_def)
  then have "\<not> list_ex (in_downtime t) (finished st k)" by (simp add: list_ex_iff)
  moreover have "er_date r0 \<le> t" if "open_start st k = Some r0" for r0
    using pp_invD(1) [OF assms(1) that] assms(4,5) by fastforce
  moreover have "\<not> in_downtime t (interval r0 r)" for r0 using assms(4) by (simp add: in_downtime_def interval_def)
  moreover have "last_event (rows @ [r]) k t = Some (er_event r)" using assms(2,4) by (simp add: last_event_snoc)
  ultimately show ?thesis
    unfolding pp_step_key using assms(2,3,4) by (cases "open_start st k"; cases "er_event r") simp_all
qed

lemma pp_inv_step:
  assumes inv: "pp_inv a b rows k st" and max: "\<forall>x \<in> set rows. er_date x \<le> er_date r"
  shows "pp_inv a b (rows @ [r]) k (pp_step a b r st)"
proof (cases "er_key r = k")
  case True
  have "\<forall>r0. open_start (pp_step a b r st) k = Some r0 \<longrightarrow> r0 \<in> set (rows @ [r])"
    using pp_invD(1) [OF inv] by (simp add: pp_step_key split: option.split)
  moreover have "\<forall>d \<in> set (finished (pp_step a b r st) k). \<exists>x \<in> set (rows @ [r]). du_end d = er_date x"
    using pp_invD(2) [OF inv] by (auto simp: pp_step_key interval_def split: option.split)
  ultimately show ?thesis
    unfolding pp_inv_def using pp_covers_before [OF inv True] pp_covers_after [OF inv True _ _ max] by (meson not_le)
qed (rule pp_inv_other_key [OF inv])

lemma pp_inv_fold:
  "sorted (map er_date rows) \<Longrightarrow> pp_inv a b rows k (fold (pp_step a b) rows ([], []))"
proof (induction rows rule: rev_induct)
  case Nil
  show ?case by (simp add: pp_inv_def open_start_def finished_def last_event_def)
next
  case (snoc r rows)
  then have "pp_inv a b rows k (fold (pp_step a b) rows ([], []))" "\<forall>x \<in> set rows. er_date x \<le> er_date r"
    by (simp_all add: sorted_append)
  then show ?case using pp_inv_step by fastforce
qed

lemma distinct_aux: "distinct (map fst (fst st)) \<Longrightarrow> distinct (map fst (fst (fold (pp_step a b) rows st)))"
proof (induction rows arbitrary: st)
  case (Cons r rows)
  have "distinct (map fst (fst (pp_step a b r st)))"
    using Cons.prems by (auto simp: pp_step_def start_event_def Let_def distinct_update distinct_delete split: option.split)
  with Cons.IH show ?case by simp
qed simp

definition still_open :: "py_float \<Rightarrow> 'k event_row \<Rightarrow> start_stop" where
  "still_open now r = \<lparr>du_start = er_date r, du_end = now, du_start_entry = row_alert r, du_end_entry = None\<rparr>"

lemma at_key_still_open:
  "distinct (map fst aux) \<Longrightarrow>
   at_key (fold (\<lambda>(k, r). append_at k (still_open now r)) aux cache) k =
     at_key cache k @ (case map_of aux k of Some r \<Rightarrow> [still_open now r] | None \<Rightarrow> [])"
proof (induction aux arbitrary: cache)
  case (Cons x aux)
  obtain j r where x: "x = (j, r)" by (cases x)
  with Cons.prems have "j = k \<longrightarrow> map_of aux k = None" by (auto simp: map_of_eq_None_iff)
  with Cons x show ?case by (auto split: option.split)
qed simp

lemma preprocess_key:
  "at_key (preprocess_start_stop_data now a b rows) k =
     (let st = fold (pp_step a b) rows ([], []) in
      finished st k @ (case open_start st k of Some r \<Rightarrow> [still_open now r] | None \<Rightarrow> []))"
  using at_key_still_open [OF distinct_aux [of "([], [])" a b rows], of now "snd (fold (pp_step a b) rows ([], []))" k]
  by (simp add: preprocess_start_stop_data_def Let_def split_beta finished_def open_start_def still_open_def)

lemma downtimes_cover:
  assumes "sorted (map er_date rows)" "start_time \<le> t" "t \<le> end_time" "t < now"
  shows "list_ex (in_downtime t) (at_key (preprocess_start_stop_data now start_time end_time rows) k) \<longleftrightarrow>
    last_event rows k t = Some Start"
proof -
  have "in_downtime t (still_open now r) \<longleftrightarrow> er_date r \<le> t" for r :: "'a event_row"
    using assms(4) by (simp add: in_downtime_def still_open_def)
  with pp_inv_fold [OF assms(1), of start_time end_time k] assms(2,3) show ?thesis
    by (auto simp: preprocess_key Let_def pp_inv_def split: option.split)
qed

text \<open>C18: for a log sorted by date, a time of the span is in one of the downtimes of a key exactly when the last
  event of that key up to it is a start: double starts and stops without a start do not matter.\<close>

theorem preprocess_covers:
  assumes "sorted (map er_date rows)" "start_time \<le> t" "t \<le> end_time" "t < now"
  shows "list_ex (in_downtime t) (at_key (preprocess_start_stop_data now start_time end_time rows) k) \<longleftrightarrow>
    last_event rows k t = Some Start"
  using assms by (rule downtimes_cover)

theorem preprocess_covers_witness:
  "list_ex (in_downtime 25) (at_key (preprocess_start_stop_data 100 5 50
     [\<lparr>er_key = ''h'', er_event = Start, er_date = 1, er_msg = []\<rparr>, \<lparr>er_key = ''h'', er_event = Stop, er_date = 10, er_msg = []\<rparr>,
      \<lparr>er_key = ''h'', er_event = Start, er_date = 20, er_msg = []\<rparr>]) ''h'')"
  by (subst preprocess_covers) (simp_all add: last_event_def)

subsection \<open>Downtimes laid over the alerts\<close>

definition state_of :: "alert \<Rightarrow> string \<times> state_type" where
  "state_of a = (al_state a, al_state_type a)"

text \<open>The state of a list of alerts at a time.\<close>

definition alert_at :: "alert list \<Rightarrow> py_float \<Rightarrow> (string \<times> state_type) option" where
  "alert_at as t = (let l = filter (\<lambda>a. al_date a \<le> t) as in if l = [] then None else Some (state_of (last l)))"

lemma sort_key_eq_Nil [simp]: "sort_key f xs = [] \<longleftrightarrow> xs = []"
  by (metis length_0_conv length_sort)

lemma last_sort_key:
  assumes "\<forall>u \<in> set us. f u \<le> f x" "\<forall>v \<in> set vs. f v < f x"
  shows "last (sort_key f (us @ x # vs)) = x"
proof -
  define l where "l = sort_key f (us @ x # vs)"
  have ne: "l \<noteq> []" by (simp add: l_def)
  then obtain ws z where l: "l = ws @ [z]" by (cases l rule: rev_cases) auto
  have eq: "filter (\<lambda>y. f y = f x) l = filter (\<lambda>y. f y = f x) us @ [x]"
    using assms(2) by (auto simp: l_def sort_key_stable filter_empty_conv)
  have set_l: "set l = set (us @ x # vs)" by (simp add: l_def)
  have "z \<in> set (us @ x # vs)" using set_l l by auto
  then have "f z \<le> f x" using assms by auto
  moreover have "sorted (map f l)" by (simp add: l_def)
  moreover have "x \<in> set (ws @ [z])" using set_l l by auto
  ultimately have "f z = f x" using l by (auto simp: sorted_append intro: order_antisym)
  then show ?thesis using eq l by (simp add: l_def)
qed

lemma alert_at_sort:
  assumes "filter (\<lambda>a. al_date a \<le> t) as = us @ x # vs"
    "\<forall>u \<in> set us. al_date u \<le> al_date x" "\<forall>v \<in> set vs. al_date v < al_date x"
  shows "alert_at (sort_key al_date as) t = Some (state_of x)"
  using last_sort_key [OF assms(2,3)] assms(1) by (simp add: alert_at_def Let_def filter_sort)

text \<open>A finished downtime as the pairing makes it.\<close>

definition downtime_ok :: "start_stop \<Rightarrow> bool" where
  "downtime_ok d \<longleftrightarrow>
     du_start d < du_end d \<and> al_date (du_start_entry d) = du_start d \<and>
     state_of (du_start_entry d) = (''PD'', ST_Planned_down) \<and>
     (case du_end_entry d of None \<Rightarrow> False | Some e \<Rightarrow> al_date e = du_end d)"

lemma takeWhile_sorted_filter:
  "sorted (map f xs) \<Longrightarrow> takeWhile (\<lambda>x. f x \<le> c) xs = filter (\<lambda>x. f x \<le> (c :: 'b :: linorder)) xs"
proof (induction xs)
  case (Cons x xs)
  have "filter (\<lambda>x. f x \<le> c) xs = []" if "\<not> f x \<le> c"
    using that Cons.prems by (fastforce simp: filter_empty_conv)
  with Cons show ?case by simp
qed simp

lemma last_alert_before_at:
  "sorted (map al_date as) \<Longrightarrow> map_option state_of (last_alert_before as d) = alert_at as (du_start d)"
  by (auto simp: last_alert_before_def alert_at_def takeWhile_sorted_filter split: list.split)

text \<open>The list before sorting, and its entry for the end of the downtime.\<close>

definition end_of :: "alert list \<Rightarrow> last_before \<Rightarrow> start_stop \<Rightarrow> string \<times> state_type" where
  "end_of alerts lb d =
     (case alert_at alerts (du_start d) of
        Some s \<Rightarrow> s
      | None \<Rightarrow> (case lb of Some (StateTuple s) \<Rightarrow> s | _ \<Rightarrow> (''UD'', ST_Undetermined)))"

definition unpackable :: "last_before \<Rightarrow> bool" where
  "unpackable lb = (case lb of Some (StateFields _) \<Rightarrow> False | _ \<Rightarrow> True)"

lemma add_one_downtime:
  assumes "sorted (map al_date alerts)" "downtime_ok d" "unpackable lb \<or> alert_at alerts (du_start d) \<noteq> None"
  obtains e where "al_date e = du_end d" "state_of e = end_of alerts lb d"
    "add_downtimes_to_alerts alerts lb [d] =
       Inr (sort_key al_date (filter (\<lambda>a. \<not> in_downtime (al_date a) d) alerts @ [du_start_entry d, e]))"
proof -
  obtain e0 where e0: "du_end_entry d = Some e0" "al_date e0 = du_end d"
    using assms(2) by (auto simp: downtime_ok_def split: option.splits)
  have at: "map_option state_of (last_alert_before alerts d) = alert_at alerts (du_start d)"
    using assms(1) by (rule last_alert_before_at)
  define e where "e = (case last_alert_before alerts d of
      Some a \<Rightarrow> e0\<lparr>al_state := al_state a, al_state_type := al_state_type a, al_msg := al_msg a\<rparr>
    | None \<Rightarrow> e0\<lparr>al_state := fst (end_of alerts lb d), al_state_type := snd (end_of alerts lb d)\<rparr>)"
  have "state_of e = end_of alerts lb d"
    using at [symmetric] by (cases "last_alert_before alerts d") (auto simp: e_def end_of_def state_of_def)
  moreover have "downtime_entries alerts lb d = Inr [du_start_entry d, e]"
    using assms(3) at
    by (cases "last_alert_before alerts d")
      (auto simp: downtime_entries_def e0 e_def unpackable_def end_of_def split: option.splits state_description.splits)
  moreover have "al_date e = du_end d" by (simp add: e_def e0 split: option.split)
  ultimately show thesis by (intro that [of e]) (simp_all add: add_downtimes_to_alerts_def)
qed

lemma overlay_after:
  assumes "sorted (map al_date alerts)" "downtime_ok d" "al_date e = du_end d"
    and later: "du_end d \<le> t" "list_ex (\<lambda>a. du_end d < al_date a \<and> al_date a \<le> t) alerts"
  shows "alert_at (sort_key al_date (filter (\<lambda>a. \<not> in_downtime (al_date a) d) alerts @ [du_start_entry d, e])) t = alert_at alerts t"
proof -
  let ?out = "\<lambda>a. \<not> in_downtime (al_date a) d" and ?upto = "\<lambda>a. al_date a \<le> t"
  have d: "du_start d < du_end d" "al_date (du_start_entry d) = du_start d"
    using assms(2) by (simp_all add: downtime_ok_def)
  obtain us a where F: "filter ?upto alerts = us @ [a]"
    using later(2) by (cases "filter ?upto alerts" rule: rev_cases) (auto simp: list_ex_iff filter_empty_conv)
  have s: "sorted (map al_date (us @ [a]))" using sorted_filter [OF assms(1), of ?upto] F by simp
  obtain b where b: "b \<in> set (us @ [a])" "du_end d < al_date b"
    using later(2) by (auto simp: list_ex_iff F [symmetric])
  then have a: "du_end d < al_date a" using s by (auto simp: sorted_append)
  have "filter ?upto (filter ?out alerts) = filter ?out (us @ [a])"
    by (simp add: F [symmetric] conj_commute)
  then have "filter ?upto (filter ?out alerts @ [du_start_entry d, e]) = filter ?out us @ a # [du_start_entry d, e]"
    using a d assms(3) later(1) by (simp add: in_downtime_def)
  then have "alert_at (sort_key al_date (filter ?out alerts @ [du_start_entry d, e])) t = Some (state_of a)"
    by (rule alert_at_sort) (use a d assms(3) s in \<open>auto simp: sorted_append\<close>)
  then show ?thesis by (simp add: alert_at_def F)
qed

text \<open>C19: laying a finished downtime over sorted alerts: before it the state is unchanged, during it the state is
  planned down, and after it the state is that of the latest alert after the downtime, or, when there is none, the
  state from before the downtime or, before the first alert, from before the span. Alerts logged while it lasted are dropped without effect.\<close>

theorem downtime_overlay:
  assumes "sorted (map al_date alerts)" "downtime_ok d" "unpackable lb \<or> alert_at alerts (du_start d) \<noteq> None"
  shows "\<exists>res. add_downtimes_to_alerts alerts lb [d] = Inr res \<and> sorted (map al_date res) \<and>
    (\<forall>t. alert_at res t =
      (if t < du_start d then alert_at alerts t
       else if t < du_end d then Some (''PD'', ST_Planned_down)
       else if list_ex (\<lambda>a. du_end d < al_date a \<and> al_date a \<le> t) alerts then alert_at alerts t
       else Some (end_of alerts lb d)))"
proof -
  obtain e where e: "al_date e = du_end d" "state_of e = end_of alerts lb d"
    "add_downtimes_to_alerts alerts lb [d] =
       Inr (sort_key al_date (filter (\<lambda>a. \<not> in_downtime (al_date a) d) alerts @ [du_start_entry d, e]))"
    using add_one_downtime [OF assms] .
  define kept where "kept = filter (\<lambda>a. \<not> in_downtime (al_date a) d) alerts"
  let ?l = "kept @ [du_start_entry d, e]"
  have d: "du_start d < du_end d" "al_date (du_start_entry d) = du_start d" "state_of (du_start_entry d) = (''PD'', ST_Planned_down)"
    using assms(2) by (simp_all add: downtime_ok_def)
  have "alert_at (sort_key al_date ?l) t = alert_at alerts t" if "t < du_start d" for t
  proof -
    have "filter (\<lambda>a. al_date a \<le> t) ?l = filter (\<lambda>a. al_date a \<le> t) alerts"
      using that d(1,2) e(1) by (auto simp: kept_def in_downtime_def intro!: filter_cong)
    moreover have "sort_key al_date (filter (\<lambda>a. al_date a \<le> t) alerts) = filter (\<lambda>a. al_date a \<le> t) alerts"
      using assms(1) by (intro sort_key_id_if_sorted sorted_filter)
    ultimately show ?thesis by (simp add: alert_at_def filter_sort)
  qed
  moreover have "alert_at (sort_key al_date ?l) t = Some (''PD'', ST_Planned_down)" if "\<not> t < du_start d" "t < du_end d" for t
  proof -
    have "filter (\<lambda>a. al_date a \<le> t) ?l = filter (\<lambda>a. al_date a \<le> t) kept @ du_start_entry d # []"
      using that d(2) e(1) by simp
    moreover have "\<forall>u \<in> set (filter (\<lambda>a. al_date a \<le> t) kept). al_date u \<le> al_date (du_start_entry d)"
      using that d(2) by (auto simp: kept_def in_downtime_def)
    ultimately show ?thesis using alert_at_sort d(3) by fastforce
  qed
  moreover have "alert_at (sort_key al_date ?l) t = alert_at alerts t"
    if "\<not> t < du_end d" "list_ex (\<lambda>a. du_end d < al_date a \<and> al_date a \<le> t) alerts" for t
    using overlay_after [OF assms(1,2) e(1)] that by (simp add: kept_def)
  moreover have "alert_at (sort_key al_date ?l) t = Some (end_of alerts lb d)"
    if "\<not> t < du_end d" "\<not> list_ex (\<lambda>a. du_end d < al_date a \<and> al_date a \<le> t) alerts" for t
    using that d e(1,2) alert_at_sort [of t ?l "filter (\<lambda>a. al_date a \<le> t) kept @ [du_start_entry d]" e "[]"]
    by (fastforce simp: kept_def list_ex_iff)
  ultimately show ?thesis using e(3) d(1) by (simp add: kept_def)
qed

theorem downtime_overlay_witness:
  "\<exists>res. add_downtimes_to_alerts
      [\<lparr>al_date = 0, al_state = ''O'', al_state_type = Hard, al_msg = ''fine''\<rparr>,
       \<lparr>al_date = 15, al_state = ''C'', al_state_type = Hard, al_msg = ''down''\<rparr>] None
      [\<lparr>du_start = 10, du_end = 20,
        du_start_entry = \<lparr>al_date = 10, al_state = ''PD'', al_state_type = ST_Planned_down, al_msg = ''''\<rparr>,
        du_end_entry = Some \<lparr>al_date = 20, al_state = ''PD'', al_state_type = ST_Planned_down, al_msg = ''''\<rparr>\<rparr>] = Inr res \<and>
    alert_at res 15 = Some (''PD'', ST_Planned_down) \<and> alert_at res 30 = Some (''O'', Hard)"
proof -
  let ?alerts = "[\<lparr>al_date = 0, al_state = ''O'', al_state_type = Hard, al_msg = ''fine''\<rparr>,
    \<lparr>al_date = 15, al_state = ''C'', al_state_type = Hard, al_msg = ''down''\<rparr>]"
  let ?d = "\<lparr>du_start = 10, du_end = 20,
    du_start_entry = \<lparr>al_date = 10, al_state = ''PD'', al_state_type = ST_Planned_down, al_msg = ''''\<rparr>,
    du_end_entry = Some \<lparr>al_date = 20, al_state = ''PD'', al_state_type = ST_Planned_down, al_msg = ''''\<rparr>\<rparr>"
  have ok: "sorted (map al_date ?alerts)" "downtime_ok ?d" "unpackable None"
    by (simp_all add: downtime_ok_def state_of_def unpackable_def)
  from downtime_overlay [OF ok(1,2) disjI1 [OF ok(3)]] obtain res where res: "add_downtimes_to_alerts ?alerts None [?d] = Inr res"
    "\<forall>t. alert_at res t =
      (if t < du_start ?d then alert_at ?alerts t
       else if t < du_end ?d then Some (''PD'', ST_Planned_down)
       else if list_ex (\<lambda>a. du_end ?d < al_date a \<and> al_date a \<le> t) ?alerts then alert_at ?alerts t
       else Some (end_of ?alerts None ?d))" by blast
  from res(2) have "alert_at res 15 = Some (''PD'', ST_Planned_down)" "alert_at res 30 = Some (''O'', Hard)"
    by (simp_all add: end_of_def alert_at_def state_of_def)
  with res(1) show ?thesis by blast
qed

subsection \<open>Downtimes at the limits of the span\<close>

lemma fold_bind_Inl [simp]: "fold (\<lambda>x m. bind_r m (f x)) xs (Inl e) = Inl e"
  by (induction xs) simp_all

lemma fold_bind_error:
  assumes "x \<in> set xs" "\<And>s. \<exists>e. f x s = Inl e"
  shows "\<exists>e. fold (\<lambda>x m. bind_r m (f x)) xs m = Inl e"
  using assms(1)
proof (induction xs arbitrary: m)
  case (Cons y ys)
  show ?case
  proof (cases "x = y")
    case True
    with assms(2) obtain e where "bind_r m (f y) = Inl e" by (cases m) auto
    then show ?thesis by simp
  qed (use Cons in auto)
qed simp

text \<open>A downtime that has started before the time span and lasts at its start makes the construction of the
  alert list raise, so no historic data is available for it.\<close>

theorem downtime_at_start_raises:
  assumes "sorted (map er_date rows)" "start_time \<le> end_time" "start_time < now" "last_event rows k start_time = Some Start"
  shows "\<exists>e. make_alert_list now start_time end_time alerts lb rows = Inl e"
proof -
  let ?p = "preprocess_start_stop_data now start_time end_time rows"
  have "list_ex (in_downtime start_time) (at_key ?p k)"
    using downtimes_cover [of rows start_time start_time end_time now k] assms by simp
  then obtain ds where ds: "map_of ?p k = Some ds" "list_ex (in_downtime start_time) ds"
    by (auto simp: at_key_def split: option.splits)
  then have "get_downtime_entry ds start_time \<noteq> None"
    by (auto simp: get_downtime_entry_def find_None_iff list_ex_iff)
  then have "\<exists>e. add_downtimes_of start_time (k, ds) al = Inl e" for al
    by (cases "add_downtimes_to_alerts (case map_of (ali_alerts al) k of Some as \<Rightarrow> as | None \<Rightarrow> []) (map_option StateFields (map_of (ali_last_before al) k)) ds")
      (simp_all add: add_downtimes_of_def Let_def)
  then show ?thesis
    unfolding make_alert_list_def by (intro fold_bind_error [of "(k, ds)"]) (use ds(1) in \<open>auto dest: map_of_SomeD\<close>)
qed

theorem downtime_at_start_raises_witness:
  "\<exists>e. make_alert_list 100 20 50 [] [] [\<lparr>er_key = ''h'', er_event = Start, er_date = 10, er_msg = []\<rparr>] = Inl e"
  by (rule downtime_at_start_raises [of _ 20 50 100 "''h''"]) (simp_all add: last_event_def)

subsection \<open>The time lines of the alerts\<close>

text \<open>The states of the log convert back and forth.\<close>

lemma convert_state_roundtrip:
  "from_icinga_service_status (kpi_to_icinga_service_state r) = Inr r"
  "from_icinga_host_status (kpi_to_icinga_host_state r) = Inr r"
  by (cases r; simp add: from_icinga_service_status_def from_icinga_host_status_def reverse_lookup_def all_results_def)+

lemma convert_state_UD [simp]: "convert_state is_host ''UD'' = Inr Undetermined"
  using convert_state_roundtrip [of Undetermined] by (simp add: convert_state_def)

text \<open>A line whose changes have been appended has the state of the latest alert at every time.\<close>

definition line_state :: "bool \<Rightarrow> string \<times> state_type \<Rightarrow> tl_state" where
  "line_state is_host s = ((case convert_state is_host (fst s) of Inr r \<Rightarrow> r | Inl _ \<Rightarrow> Undetermined), snd s)"

definition convertible :: "bool \<Rightarrow> string \<Rightarrow> bool" where
  "convertible is_host s \<longleftrightarrow> (case convert_state is_host s of Inr _ \<Rightarrow> True | Inl _ \<Rightarrow> False)"

definition entry_of :: "bool \<Rightarrow> alert \<Rightarrow> tl_entry" where
  "entry_of is_host a = \<lparr>tl_date = al_date a, tl_state = line_state is_host (state_of a)\<rparr>"

lemma alert_entry_ok: "convertible is_host (al_state a) \<Longrightarrow> alert_entry is_host a = Inr (entry_of is_host a)"
  by (auto simp: alert_entry_def entry_of_def line_state_def convertible_def state_of_def split: sum.splits)

lemma set_changes: "set (changes p as) \<subseteq> set as"
  by (induction as arbitrary: p) (auto split: option.splits)

lemma changes_sorted: "sorted (map al_date as) \<Longrightarrow> sorted (map al_date (changes p as))"
  using set_changes by (induction as arbitrary: p) (fastforce split: option.splits)+


text \<open>Appended to a line in state \<open>s\<close>, the changes give the state of the last alert, or \<open>s\<close> before the first.\<close>

lemma state_after_changes:
  assumes "sorted (map al_date as)" "p = None \<or> map_option (\<lambda>p. line_state is_host (state_of p)) p = Some s"
  shows "state_after s (map (entry_of is_host) (changes p as)) t =
    (case alert_at as t of Some x \<Rightarrow> line_state is_host x | None \<Rightarrow> s)"
  using assms
proof (induction as arbitrary: p s)
  case Nil
  then show ?case by (simp add: state_after_def state_at_def alert_at_def)
next
  case (Cons a as)
  let ?s = "line_state is_host (state_of a)"
  have ih: "state_after ?s (map (entry_of is_host) (changes (Some a) as)) t =
    (case alert_at as t of Some x \<Rightarrow> line_state is_host x | None \<Rightarrow> ?s)"
    using Cons.prems by (intro Cons.IH) simp_all
  show ?case
  proof (cases "al_date a \<le> t")
    case True
    have at: "alert_at (a # as) t = Some (case alert_at as t of Some x \<Rightarrow> x | None \<Rightarrow> state_of a)"
      using True by (simp add: alert_at_def)
    have "changes p (a # as) = a # changes (Some a) as \<or> changes p (a # as) = changes (Some a) as \<and> s = ?s"
      using Cons.prems(2) by (cases p) (auto simp: line_state_def state_of_def)
    moreover have "tl_date (entry_of is_host a) \<le> t" using True by (simp add: entry_of_def)
    ultimately show ?thesis using ih at
      by (auto simp: state_after_Cons split: option.splits) (simp_all add: entry_of_def)
  next
    case False
    then have later: "\<forall>x \<in> set (a # as). t < al_date x" using Cons.prems(1) by auto
    then have "state_after s (map (entry_of is_host) (changes p (a # as))) t = s"
      using set_changes [of p "a # as"] by (intro state_after_none) (auto simp del: changes.simps simp: entry_of_def)
    moreover have "alert_at (a # as) t = None" using later by (auto simp: alert_at_def filter_empty_conv)
    ultimately show ?thesis by simp
  qed
qed

lemma state_at_final:
  assumes "es \<noteq> []" "\<forall>e \<in> set es. tl_date e \<le> b"
  shows "state_at (es @ [\<lparr>tl_date = b, tl_state = tl_state (last es)\<rparr>]) t = state_at es t"
proof (cases "t < b")
  case False
  then have "\<forall>e \<in> set es. tl_date e \<le> t" using assms(2) by fastforce
  then show ?thesis using assms(1) False by (simp add: state_at_all)
qed (simp add: state_at_snoc_later)

text \<open>The start of a line, and the whole line of a key.\<close>

definition first_state :: "bool \<Rightarrow> (string \<times> state_type) option \<Rightarrow> tl_state" where
  "first_state is_host s0 = (case s0 of Some s \<Rightarrow> line_state is_host s | None \<Rightarrow> (Undetermined, ST_Undetermined))"

definition line_of :: "bool \<Rightarrow> py_float \<Rightarrow> py_float \<Rightarrow> (string \<times> state_type) option \<Rightarrow> alert list \<Rightarrow> tl_entry list" where
  "line_of is_host start b s0 as =
     (let es = \<lparr>tl_date = start, tl_state = first_state is_host s0\<rparr> # map (entry_of is_host) (changes None as)
      in es @ [\<lparr>tl_date = b, tl_state = tl_state (last es)\<rparr>])"

lemma line_of_spans:
  assumes "sorted (map al_date as)" "\<forall>a \<in> set as. start \<le> al_date a \<and> al_date a \<le> b" "start \<le> b"
  shows "spans start b (line_of is_host start b s0 as)"
    and "start \<le> t \<Longrightarrow> state_at (line_of is_host start b s0 as) t =
      Some (case alert_at as t of Some s \<Rightarrow> line_state is_host s | None \<Rightarrow> first_state is_host s0)"
proof -
  let ?new = "map (entry_of is_host) (changes None as)" and ?e = "\<lparr>tl_date = start, tl_state = first_state is_host s0\<rparr>"
  have dates: "start \<le> tl_date e \<and> tl_date e \<le> b" if "e \<in> set ?new" for e
    using that assms(2) set_changes [of None as] by (auto simp: entry_of_def)
  have "map tl_date ?new = map al_date (changes None as)" by (simp add: entry_of_def comp_def)
  then have "sorted (map tl_date ?new)" using changes_sorted [OF assms(1), of None] by (simp only:)
  then show "spans start b (line_of is_host start b s0 as)"
    using dates assms(3) by (simp add: spans_def line_of_def Let_def sorted_append del: map_map)
  show "state_at (line_of is_host start b s0 as) t =
      Some (case alert_at as t of Some s \<Rightarrow> line_state is_host s | None \<Rightarrow> first_state is_host s0)" if "start \<le> t"
  proof -
    have "state_at (line_of is_host start b s0 as) t = state_at (?e # ?new) t"
      unfolding line_of_def Let_def by (rule state_at_final) (use dates assms(3) in auto)
    then show ?thesis using that state_after_changes [OF assms(1), of None is_host "first_state is_host s0" t]
      by (simp add: state_at_Cons)
  qed
qed

definition start_line :: "py_float \<Rightarrow> ('k \<times> tl_entry list) list \<Rightarrow> 'k \<Rightarrow> tl_entry list" where
  "start_line start tls k = (case map_of tls k of Some es \<Rightarrow> es | None \<Rightarrow> [\<lparr>tl_date = start, tl_state = (Undetermined, ST_Undetermined)\<rparr>])"

lemma add_alerts_ok:
  assumes "\<forall>a \<in> set as. convertible is_host (al_state a)"
  shows "add_alerts is_host start (k, as) tls =
    Inr (AList.update k (start_line start tls k @ map (entry_of is_host) (changes None as)) tls)"
proof -
  have "mapM_r (alert_entry is_host) (changes None as) = Inr (map (entry_of is_host) (changes None as))"
    using assms set_changes [of None as] by (intro mapM_r_all_Inr alert_entry_ok) auto
  then show ?thesis by (simp add: add_alerts_def start_line_def split: option.split)
qed

lemma fold_add_alerts:
  assumes "distinct (map fst al)" "\<forall>(k, as) \<in> set al. \<forall>a \<in> set as. convertible is_host (al_state a)"
  shows "\<exists>tls1. fold (\<lambda>ka m. bind_r m (add_alerts is_host start ka)) al (Inr tls) = Inr tls1 \<and>
    (distinct (map fst tls) \<longrightarrow> distinct (map fst tls1)) \<and>
    (\<forall>k. map_of tls1 k = (case map_of al k of
        Some as \<Rightarrow> Some (start_line start tls k @ map (entry_of is_host) (changes None as)) | None \<Rightarrow> map_of tls k))"
  using assms
proof (induction al arbitrary: tls)
  case (Cons x al)
  obtain j as where x: "x = (j, as)" by (cases x)
  let ?tls = "AList.update j (start_line start tls j @ map (entry_of is_host) (changes None as)) tls"
  obtain tls1 where tls1: "fold (\<lambda>ka m. bind_r m (add_alerts is_host start ka)) al (Inr ?tls) = Inr tls1"
    "distinct (map fst ?tls) \<longrightarrow> distinct (map fst tls1)"
    "\<forall>k. map_of tls1 k = (case map_of al k of
        Some as \<Rightarrow> Some (start_line start ?tls k @ map (entry_of is_host) (changes None as)) | None \<Rightarrow> map_of ?tls k)"
    using Cons.IH [of ?tls] Cons.prems by auto
  have "map_of al j = None" using Cons.prems(1) x by (auto simp: map_of_eq_None_iff)
  with tls1(3) have "\<forall>k. map_of tls1 k = (case map_of (x # al) k of
      Some as \<Rightarrow> Some (start_line start tls k @ map (entry_of is_host) (changes None as)) | None \<Rightarrow> map_of tls k)"
    by (auto simp: x start_line_def update_conv' split: option.split)
  with tls1(1,2) show ?case
    using add_alerts_ok [of as is_host start j tls] Cons.prems(2) by (auto simp: x distinct_update)
qed simp

lemma calculate_time_lines_ok:
  assumes "distinct (map fst (ali_alerts al))"
    and "\<forall>(k, as) \<in> set (ali_alerts al). \<forall>a \<in> set as. convertible is_host (al_state a)"
    and "\<forall>(k, s) \<in> set (ali_last_before al). convertible is_host (fst s)"
    and "distinct (map fst (ali_last_before al))"
  shows "\<exists>tls. calculate_time_lines is_host start b al = Inr tls \<and> distinct (map fst tls) \<and>
    (\<forall>k. map_of tls k =
      (if map_of (ali_last_before al) k = None \<and> map_of (ali_alerts al) k = None then None
       else Some (line_of is_host start b (map_of (ali_last_before al) k) (at_key (ali_alerts al) k))))"
proof -
  define tls0 where "tls0 = map (\<lambda>(k, s). (k, [\<lparr>tl_date = start, tl_state = line_state is_host s\<rparr>])) (ali_last_before al)"
  have "initial_lines is_host start (ali_last_before al) = Inr tls0"
    unfolding initial_lines_def tls0_def using assms(3)
    by (intro mapM_r_all_Inr) (fastforce simp: convertible_def line_state_def split: sum.splits)
  moreover obtain tls1 where tls1:
    "fold (\<lambda>ka m. bind_r m (add_alerts is_host start ka)) (ali_alerts al) (Inr tls0) = Inr tls1"
    "distinct (map fst tls0) \<longrightarrow> distinct (map fst tls1)"
    "\<forall>k. map_of tls1 k = (case map_of (ali_alerts al) k of
        Some as \<Rightarrow> Some (start_line start tls0 k @ map (entry_of is_host) (changes None as)) | None \<Rightarrow> map_of tls0 k)"
    using fold_add_alerts [OF assms(1,2), of start tls0] by blast
  moreover have "map_of tls0 k = map_option (\<lambda>s. [\<lparr>tl_date = start, tl_state = line_state is_host s\<rparr>]) (map_of (ali_last_before al) k)" for k
    by (simp add: tls0_def map_of_map)
  moreover have "distinct (map fst tls0)" using assms(4) by (simp add: tls0_def split_def comp_def)
  ultimately have tls: "calculate_time_lines is_host start b al =
      Inr (map (\<lambda>(k, es). (k, es @ [\<lparr>tl_date = b, tl_state = tl_state (last es)\<rparr>])) tls1)"
    "distinct (map fst tls1)" "\<And>k. map_of tls0 k =
      map_option (\<lambda>s. [\<lparr>tl_date = start, tl_state = line_state is_host s\<rparr>]) (map_of (ali_last_before al) k)"
    by (simp_all add: calculate_time_lines_def)
  have "map_of (map (\<lambda>(k, es). (k, es @ [\<lparr>tl_date = b, tl_state = tl_state (last es)\<rparr>])) tls1) k =
      (if map_of (ali_last_before al) k = None \<and> map_of (ali_alerts al) k = None then None
       else Some (line_of is_host start b (map_of (ali_last_before al) k) (at_key (ali_alerts al) k)))" for k
    using tls1(3) [rule_format, of k] tls(3) [of k]
    by (cases "map_of (ali_last_before al) k"; cases "map_of (ali_alerts al) k")
      (simp_all add: map_of_map line_of_def first_state_def start_line_def at_key_def)
  moreover have "distinct (map fst (map (\<lambda>(k, es). (k, es @ [\<lparr>tl_date = b, tl_state = tl_state (last es)\<rparr>])) tls1))"
    using tls(2) by (simp add: split_def comp_def)
  ultimately show ?thesis using tls(1) by blast
qed

text \<open>Alert lists as the queries give them: sorted alerts of the span, with states of the log.\<close>

definition alerts_ok :: "bool \<Rightarrow> py_float \<Rightarrow> py_float \<Rightarrow> 'k alert_list \<Rightarrow> bool" where
  "alerts_ok is_host start b al \<longleftrightarrow>
     distinct (map fst (ali_alerts al)) \<and> distinct (map fst (ali_last_before al)) \<and>
     list_all (\<lambda>(k, as). sorted (map al_date as) \<and>
       list_all (\<lambda>a. convertible is_host (al_state a) \<and> start \<le> al_date a \<and> al_date a \<le> b) as) (ali_alerts al) \<and>
     list_all (\<lambda>(k, s). convertible is_host (fst s)) (ali_last_before al)"

definition logged_state :: "bool \<Rightarrow> 'k alert_list \<Rightarrow> 'k \<Rightarrow> py_float \<Rightarrow> tl_state" where
  "logged_state is_host al k t =
     (case alert_at (at_key (ali_alerts al) k) t of
        Some s \<Rightarrow> line_state is_host s
      | None \<Rightarrow> first_state is_host (map_of (ali_last_before al) k))"

lemma time_lines_logged:
  assumes "alerts_ok is_host start b al" "start \<le> b"
  shows "\<exists>tls. calculate_time_lines is_host start b al = Inr tls \<and> distinct (map fst tls) \<and>
    (\<forall>k. (map_of tls k = None) = (map_of (ali_last_before al) k = None \<and> map_of (ali_alerts al) k = None)) \<and>
    (\<forall>k es. map_of tls k = Some es \<longrightarrow> spans start b es \<and> (\<forall>t \<ge> start. state_at es t = Some (logged_state is_host al k t)))"
proof -
  have ok: "distinct (map fst (ali_alerts al))"
    "\<forall>(k, as) \<in> set (ali_alerts al). \<forall>a \<in> set as. convertible is_host (al_state a)"
    "\<forall>(k, s) \<in> set (ali_last_before al). convertible is_host (fst s)" "distinct (map fst (ali_last_before al))"
    using assms(1) by (auto simp: alerts_ok_def list_all_iff)
  obtain tls where tls: "calculate_time_lines is_host start b al = Inr tls" "distinct (map fst tls)"
    "\<forall>k. map_of tls k =
      (if map_of (ali_last_before al) k = None \<and> map_of (ali_alerts al) k = None then None
       else Some (line_of is_host start b (map_of (ali_last_before al) k) (at_key (ali_alerts al) k)))"
    using calculate_time_lines_ok [OF ok] by blast
  have "sorted (map al_date (at_key (ali_alerts al) k))"
    "\<forall>a \<in> set (at_key (ali_alerts al) k). start \<le> al_date a \<and> al_date a \<le> b" for k
    using assms(1) by (auto simp: alerts_ok_def list_all_iff at_key_def split: option.splits dest!: map_of_SomeD)
  note spans = line_of_spans [OF this assms(2)]
  have "spans start b es \<and> (\<forall>t \<ge> start. state_at es t = Some (logged_state is_host al k t))" if "map_of tls k = Some es" for k es
  proof -
    have "es = line_of is_host start b (map_of (ali_last_before al) k) (at_key (ali_alerts al) k)"
      using that tls(3) by (metis option.distinct(1) option.inject)
    then show ?thesis using spans by (simp add: logged_state_def)
  qed
  with tls show ?thesis by simp
qed

text \<open>The time lines of an alert list: every key with a state before the span or an alert in it has a line over
  the whole span, whose state at every time is that of the last alert, before the first alert the last state before
  the span, and undetermined when there is none.\<close>

theorem time_lines_follow_log:
  assumes "alerts_ok is_host start b al" "start \<le> b" "map_of (ali_last_before al) k \<noteq> None \<or> map_of (ali_alerts al) k \<noteq> None"
  shows "\<exists>tls es. calculate_time_lines is_host start b al = Inr tls \<and> map_of tls k = Some es \<and> spans start b es \<and>
    (\<forall>t \<ge> start. state_at es t = Some (logged_state is_host al k t))"
proof -
  obtain tls where tls: "calculate_time_lines is_host start b al = Inr tls" "map_of tls k \<noteq> None"
    "\<forall>k es. map_of tls k = Some es \<longrightarrow> spans start b es \<and> (\<forall>t \<ge> start. state_at es t = Some (logged_state is_host al k t))"
    using time_lines_logged [OF assms(1,2)] assms(3) by metis
  then show ?thesis by blast
qed

definition example_alerts :: "string alert_list" where
  "example_alerts =
     \<lparr>ali_alerts =
        [(''web'', [\<lparr>al_date = 30, al_state = ''D'', al_state_type = Hard, al_msg = ''no answer''\<rparr>]),
         (''db'', [\<lparr>al_date = 60, al_state = ''UP'', al_state_type = Hard, al_msg = ''back''\<rparr>])],
      ali_last_before = [(''web'', (''UP'', Hard))]\<rparr>"

lemma example_alerts_ok: "alerts_ok True 0 100 example_alerts"
  by (simp add: alerts_ok_def example_alerts_def convertible_def convert_state_def from_icinga_host_status_def
      reverse_lookup_def all_results_def)

theorem time_lines_follow_log_witness:
  "\<exists>tls es. calculate_time_lines True 0 100 example_alerts = Inr tls \<and> map_of tls ''db'' = Some es \<and>
     state_at es 10 = Some (Undetermined, ST_Undetermined) \<and> state_at es 70 = Some (KOk, Hard)"
proof -
  obtain tls es where "calculate_time_lines True 0 100 example_alerts = Inr tls" "map_of tls ''db'' = Some es"
    "\<forall>t \<ge> 0. state_at es t = Some (logged_state True example_alerts ''db'' t)"
    using time_lines_follow_log [OF example_alerts_ok, of "''db''"] by (auto simp: example_alerts_def)
  then show ?thesis
    by (auto simp: logged_state_def example_alerts_def at_key_def alert_at_def first_state_def line_state_def state_of_def
        convert_state_def from_icinga_host_status_def reverse_lookup_def all_results_def)
qed

text \<open>C17: from the log to the merged line: the time lines of an alert list, merged by best or worst, give at every time
  of a past span the best or worst of the states the log has for the keys at that time.\<close>

theorem merged_history:
  assumes "alerts_ok is_host start b al" "start \<le> b" "b < now" "method = ''best'' \<or> method = ''worst''"
    and "ali_last_before al \<noteq> [] \<or> ali_alerts al \<noteq> []"
  shows "\<exists>tls r. calculate_time_lines is_host start b al = Inr tls \<and>
    calculate_compound_time_line method now (map snd tls) = Inr r \<and> spans start b r \<and>
    (\<forall>t \<ge> start. \<exists>s. state_at r t = Some s \<and> extreme_state method (map (\<lambda>(k, es). logged_state is_host al k t) tls) s)"
proof -
  obtain tls where tls: "calculate_time_lines is_host start b al = Inr tls" "distinct (map fst tls)"
    "\<forall>k. (map_of tls k = None) = (map_of (ali_last_before al) k = None \<and> map_of (ali_alerts al) k = None)"
    "\<forall>k es. map_of tls k = Some es \<longrightarrow> spans start b es \<and> (\<forall>t \<ge> start. state_at es t = Some (logged_state is_host al k t))"
    using time_lines_logged [OF assms(1,2)] by blast
  have line: "spans start b es" "start \<le> t \<Longrightarrow> state_at es t = Some (logged_state is_host al k t)" if "(k, es) \<in> set tls" for k es t
    using tls(4) map_of_is_SomeI [OF tls(2) that] by blast+
  have "\<exists>k. k \<in> fst ` set (ali_last_before al) \<or> k \<in> fst ` set (ali_alerts al)"
    using assms(5) by (meson image_eqI last_in_set)
  then obtain k where "map_of tls k \<noteq> None" using tls(3) by (metis map_of_eq_None_iff)
  then have "tls \<noteq> []" by auto
  moreover have "\<forall>es \<in> set (map snd tls). spans start b es" using line(1) by auto
  ultimately obtain r where r: "calculate_compound_time_line method now (map snd tls) = Inr r" "spans start b r"
    "\<forall>t \<ge> start. \<exists>s. state_at r t = Some s \<and> extreme_state method (map (\<lambda>es. the (state_at es t)) (map snd tls)) s"
    using compound_extreme [OF assms(4), of "map snd tls" start b now] assms(3) by blast
  have "map (\<lambda>es. the (state_at es t)) (map snd tls) = map (\<lambda>(k, es). logged_state is_host al k t) tls" if "start \<le> t" for t
    using line(2) that by auto
  with r(3) have "\<forall>t \<ge> start. \<exists>s. state_at r t = Some s \<and>
    extreme_state method (map (\<lambda>(k, es). logged_state is_host al k t) tls) s" by metis
  with r(1,2) tls(1) show ?thesis by blast
qed

theorem merged_history_witness:
  "\<exists>tls r. calculate_time_lines True 0 100 example_alerts = Inr tls \<and>
    calculate_compound_time_line ''worst'' 200 (map snd tls) = Inr r \<and> spans 0 100 r"
  using merged_history [OF example_alerts_ok, of 200 "''worst''"] by (auto simp: example_alerts_def)

subsection \<open>The rows of the log\<close>

lemma at_key_fold_append:
  "at_key (fold (\<lambda>r. append_at (f r) (g r)) rows d) k = at_key d k @ map g (filter (\<lambda>r. f r = k) rows)"
  by (induction rows arbitrary: d) auto

lemma distinct_fold_append: "distinct (map fst d) \<Longrightarrow> distinct (map fst (fold (\<lambda>r. append_at (f r) (g r)) rows d))"
  by (induction rows arbitrary: d) (simp_all add: append_at_def distinct_update)

lemma dom_fold_append: "map_of (fold (\<lambda>r. append_at (f r) (g r)) rows d) k = None \<longleftrightarrow> map_of d k = None \<and> (\<forall>r \<in> set rows. f r \<noteq> k)"
  by (induction rows arbitrary: d) (auto simp: append_at_def update_conv')

lemma fold_append_all: "fold (\<lambda>r. map (\<lambda>(k, l). (k, l @ [g r]))) rows d = map (\<lambda>(k, l). (k, l @ map g rows)) d"
  by (induction rows arbitrary: d) (simp_all add: split_def comp_def)

text \<open>The alerts of a key, in order of their dates: its own ones and those of no device.\<close>

definition rows_of :: "('k alert_row \<Rightarrow> bool) \<Rightarrow> py_float \<Rightarrow> py_float \<Rightarrow> 'k alert_row list \<Rightarrow> 'k \<Rightarrow> alert list" where
  "rows_of additional_filter start_time end_time rows k =
     map ar_alert (filter (\<lambda>r. additional_filter r \<and> \<not> ar_independent r \<and> in_range start_time end_time r \<and> ar_key r = k) rows) @
     map ar_alert (filter (\<lambda>r. ar_independent r \<and> in_range start_time end_time r) rows)"

definition own_rows :: "('k alert_row \<Rightarrow> bool) \<Rightarrow> py_float \<Rightarrow> py_float \<Rightarrow> 'k alert_row list \<Rightarrow> ('k \<times> alert list) list" where
  "own_rows additional_filter start_time end_time rows =
     fold (\<lambda>r. append_at (ar_key r) (ar_alert r))
       (filter (\<lambda>r. additional_filter r \<and> \<not> ar_independent r \<and> in_range start_time end_time r) rows) []"

lemma calc_alerts_eq:
  "calc_alerts additional_filter start_time end_time rows =
     map (\<lambda>(k, l). (k, sort_key al_date (l @ map ar_alert (filter (\<lambda>r. ar_independent r \<and> in_range start_time end_time r) rows))))
       (own_rows additional_filter start_time end_time rows)"
  unfolding calc_alerts_def own_rows_def Let_def fold_append_all by (simp add: split_def comp_def)

lemma map_of_calc_alerts:
  "map_of (calc_alerts additional_filter start_time end_time rows) k =
     (if \<exists>r \<in> set rows. additional_filter r \<and> \<not> ar_independent r \<and> in_range start_time end_time r \<and> ar_key r = k
      then Some (sort_key al_date (rows_of additional_filter start_time end_time rows k)) else None)"
proof -
  let ?P = "\<lambda>r. additional_filter r \<and> \<not> ar_independent r \<and> in_range start_time end_time r"
  let ?own = "own_rows additional_filter start_time end_time rows"
  have "map_of ?own k = (if \<exists>r \<in> set rows. ?P r \<and> ar_key r = k
      then Some (map ar_alert (filter (\<lambda>r. ?P r \<and> ar_key r = k) rows)) else None)"
    using at_key_fold_append [of ar_key ar_alert "filter ?P rows" "[]" k] dom_fold_append [of ar_key ar_alert "filter ?P rows" "[]" k]
    by (cases "map_of ?own k") (auto simp: own_rows_def at_key_def conj_commute cong: conj_cong)
  then show ?thesis by (auto simp: calc_alerts_eq map_of_map rows_of_def)
qed

lemma distinct_calc_alerts: "distinct (map fst (calc_alerts additional_filter start_time end_time rows))"
  by (simp add: calc_alerts_eq own_rows_def split_def comp_def distinct_fold_append)

text \<open>So the alert list is as the time lines need it.\<close>

lemma calc_alerts_ok:
  assumes "\<forall>r \<in> set rows. convertible is_host (al_state (ar_alert r))"
    and "distinct (map fst lb)" "\<forall>(k, s) \<in> set lb. convertible is_host (fst s)"
  shows "alerts_ok is_host start b \<lparr>ali_alerts = calc_alerts additional_filter start b rows, ali_last_before = lb\<rparr>"
proof -
  have "sorted (map al_date as) \<and> (\<forall>a \<in> set as. convertible is_host (al_state a) \<and> start \<le> al_date a \<and> al_date a \<le> b)"
    if "(k, as) \<in> set (calc_alerts additional_filter start b rows)" for k as
  proof -
    have "as = sort_key al_date (rows_of additional_filter start b rows k)"
      using map_of_is_SomeI [OF distinct_calc_alerts that] by (simp add: map_of_calc_alerts split: if_splits)
    then show ?thesis using assms(1) by (auto simp: rows_of_def in_range_def)
  qed
  then show ?thesis
    using assms(2,3) distinct_calc_alerts by (auto simp: alerts_ok_def list_all_iff)
qed

text \<open>The state of a key at the limit is that of an entry with the closest date, unless the row of no device is closer.\<close>

definition closest :: "limit_mode \<Rightarrow> 'k limit_entry list \<Rightarrow> 'k \<Rightarrow> 'k limit_entry \<Rightarrow> bool" where
  "closest mode entries k e \<longleftrightarrow>
     e \<in> set entries \<and> le_key e = k \<and> (\<forall>x \<in> set entries. le_key x = k \<longrightarrow> \<not> closer mode (le_date x) (le_date e))"

definition relevant_state :: "limit_mode \<Rightarrow> 'k limit_entry option \<Rightarrow> 'k limit_entry \<Rightarrow> string \<times> state_type" where
  "relevant_state mode indep e =
     (case indep of Some i \<Rightarrow> if closer mode (le_date i) (le_date e) then le_state i else le_state e | None \<Rightarrow> le_state e)"

lemma closer_trans: "closer mode x y \<Longrightarrow> \<not> closer mode z y \<Longrightarrow> \<not> closer mode z x"
  by (cases mode) auto

lemma limit_step_at:
  "map_of (limit_step mode indep e cache) k =
     (if le_key e = k \<and> (case map_of cache k of None \<Rightarrow> True | Some (_, d) \<Rightarrow> closer mode (le_date e) d)
      then Some (relevant_state mode indep e, le_date e) else map_of cache k)"
  by (auto simp: limit_step_def Let_def relevant_state_def update_conv' split: option.splits)

lemma limit_fold_closest:
  "(case map_of (fold (limit_step mode indep) entries []) k of
      None \<Rightarrow> \<forall>x \<in> set entries. le_key x \<noteq> k
    | Some (s, d) \<Rightarrow> \<exists>e. closest mode entries k e \<and> s = relevant_state mode indep e \<and> d = le_date e)"
proof (induction entries rule: rev_induct)
  case (snoc x entries)
  let ?c = "fold (limit_step mode indep) entries []"
  show ?case
  proof (cases "map_of ?c k")
    case None
    moreover from this have "closest mode (entries @ [x]) k x" if "le_key x = k"
      using snoc that by (cases mode) (auto simp: closest_def)
    ultimately show ?thesis using snoc by (auto simp: limit_step_at)
  next
    case (Some sd)
    then obtain e where e: "closest mode entries k e" "sd = (relevant_state mode indep e, le_date e)"
      using snoc by (cases sd) auto
    show ?thesis
    proof (cases "le_key x = k \<and> closer mode (le_date x) (le_date e)")
      case True
      then have "closest mode (entries @ [x]) k x"
        using e(1) closer_trans [of mode "le_date x" "le_date e"] by (cases mode) (auto simp: closest_def)
      with True show ?thesis using Some e(2) by (auto simp: limit_step_at)
    next
      case False
      then have "closest mode (entries @ [x]) k e" using e(1) by (auto simp: closest_def)
      with False show ?thesis using Some e(2) by (auto simp: limit_step_at)
    qed
  qed
qed simp

text \<open>The state of a key before (or after) a time span is that of a row of that key with the last (or first) date,
  replaced by the row that belongs to no device exactly when that is closer to the span; keys without a row have none.\<close>

theorem limit_alerts_closest:
  "(case map_of (calc_limit_alerts mode indep entries) k of
      None \<Rightarrow> \<forall>x \<in> set entries. le_key x \<noteq> k
    | Some s \<Rightarrow> \<exists>e. closest mode entries k e \<and> s = relevant_state mode indep e)"
proof -
  have "map_of (calc_limit_alerts mode indep entries) k = map_option fst (map_of (fold (limit_step mode indep) entries []) k)"
    unfolding calc_limit_alerts_def using map_of_map [of fst "fold (limit_step mode indep) entries []"]
    by (simp add: split_def comp_def)
  then show ?thesis using limit_fold_closest [where mode = mode and indep = indep and entries = entries and k = k]
    by (cases "map_of (fold (limit_step mode indep) entries []) k") auto
qed

end
