(* ===== verification/Kpi_Set.thy ===== *)
theory Kpi_Set
  imports Alert_History "HOL-Library.Multiset"
begin

section \<open>The KPI language (initat/md_config_server/kpi/kpi_language.py)\<close>

text \<open>
  A key performance indicator is a formula over sets of objects: check results of devices and services, current
  values and time lines. Every operation gives a new set that remembers the operation it comes from. The database
  (categories, check commands, the alert history) and the regular expressions of the filters are parameters.
\<close>

subsection \<open>Results from numbers\<close>

definition from_numeric_icinga_service_state :: "int \<Rightarrow> kpi_result res" where
  "from_numeric_icinga_service_state num =
     (if num = -1 then Inr Planned_down
      else if num = 0 then Inr KOk
      else if num = 1 then Inr KWarning
      else if num = 2 then Inr KCritical
      else if num = 3 then Inr KUnknown
      else if num = 4 then Inr Undetermined
      else Inl ValueError)"

text \<open>The keys of the last dictionary are strings: a number is never found there.\<close>

definition from_numeric_icinga_host_state :: "int \<Rightarrow> kpi_result res" where
  "from_numeric_icinga_host_state num =
     (if num = 0 then Inr KOk
      else if num = 1 then Inr KCritical
      else if num = 2 then Inr KWarning
      else Inl KeyError)"

subsection \<open>Objects\<close>

record mon_check_command =
  mcc_pk :: int
  mcc_name :: string
  mcc_description :: string
  mcc_config :: string
  mcc_config_description :: string

record kpi_service =
  ks_id :: int
  ks_info :: string
  ks_mcc :: "mon_check_command option"
  ks_monitoring_category :: "string list option"

datatype kpi_ext =
    Plain
  | Detail "(tl_state \<times> py_float) list"
  | Rrd string string py_float
  | Service kpi_service
  | TimeLine "tl_entry list"
  | ServiceTimeLine kpi_service "tl_entry list"
  | ServiceDetail kpi_service "(tl_state \<times> py_float) list"

record kpi_object =
  ko_result :: "kpi_result option"
  ko_host_name :: "string option"
  ko_host_pk :: "int option"
  ko_device_category :: "string list"
  ko_ext :: kpi_ext

text \<open>The database as the objects see it: categories of devices and check commands, and the check commands.\<close>

record kpi_globals =
  kg_device_category :: "int option \<Rightarrow> string list"
  kg_mcc_category :: "int \<Rightarrow> string list"
  kg_mcc :: "int \<Rightarrow> mon_check_command option"

definition kpi_object_init ::
  "kpi_globals \<Rightarrow> kpi_result option \<Rightarrow> string option \<Rightarrow> int option \<Rightarrow> kpi_ext \<Rightarrow> kpi_object res" where
  "kpi_object_init g result host_name host_pk ext =
     (if (host_name = None) \<noteq> (host_pk = None) then Inl ValueError
      else Inr \<lparr>ko_result = result, ko_host_name = host_name, ko_host_pk = host_pk,
                ko_device_category = kg_device_category g host_pk, ko_ext = ext\<rparr>)"

definition kpi_service_init ::
  "kpi_globals \<Rightarrow> int option \<Rightarrow> string option \<Rightarrow> mon_check_command option \<Rightarrow> kpi_service res" where
  "kpi_service_init g service_id service_info mcc =
     (case service_id of
        None \<Rightarrow> Inl ValueError
      | Some sid \<Rightarrow>
          (case service_info of
             None \<Rightarrow> Inl ValueError
           | Some info \<Rightarrow>
               (let m = (case mcc of Some c \<Rightarrow> Some c | None \<Rightarrow> kg_mcc g sid)
                in Inr \<lparr>ks_id = sid, ks_info = info, ks_mcc = m,
                        ks_monitoring_category = map_option (\<lambda>c. kg_mcc_category g (mcc_pk c)) m\<rparr>)))"

definition service_of :: "kpi_object \<Rightarrow> kpi_service option" where
  "service_of obj = (case ko_ext obj of Service s \<Rightarrow> Some s | ServiceTimeLine s _ \<Rightarrow> Some s | ServiceDetail s _ \<Rightarrow> Some s | _ \<Rightarrow> None)"

definition time_line_of :: "kpi_object \<Rightarrow> tl_entry list option" where
  "time_line_of obj = (case ko_ext obj of TimeLine es \<Rightarrow> Some es | ServiceTimeLine _ es \<Rightarrow> Some es | _ \<Rightarrow> None)"

definition is_service :: "kpi_object \<Rightarrow> bool" where
  "is_service obj \<longleftrightarrow> service_of obj \<noteq> None"

text \<open>Identities: of a device, of a value of a device, of a service on a device.\<close>

datatype ident = IdDevice int | IdRrd int string | IdService int int string

fun matches_id :: "kpi_object \<Rightarrow> ident \<Rightarrow> bool" where
  "matches_id obj (IdDevice pk) \<longleftrightarrow>
     (case ko_ext obj of Plain \<Rightarrow> True | Detail _ \<Rightarrow> True | TimeLine _ \<Rightarrow> True | _ \<Rightarrow> False) \<and> ko_host_pk obj = Some pk"
| "matches_id obj (IdRrd pk rid) \<longleftrightarrow> (case ko_ext obj of Rrd i _ _ \<Rightarrow> i = rid | _ \<Rightarrow> False) \<and> ko_host_pk obj = Some pk"
| "matches_id obj (IdService pk sid info) \<longleftrightarrow>
     (case service_of obj of Some s \<Rightarrow> ks_id s = sid \<and> ks_info s = info | None \<Rightarrow> False) \<and> ko_host_pk obj = Some pk"

definition get_machine_object_id_properties :: "kpi_object \<Rightarrow> ident option" where
  "get_machine_object_id_properties obj =
     map_option (\<lambda>pk. case service_of obj of
         Some s \<Rightarrow> IdService pk (ks_id s) (ks_info s)
       | None \<Rightarrow> (case ko_ext obj of Rrd i _ _ \<Rightarrow> IdRrd pk i | _ \<Rightarrow> IdDevice pk)) (ko_host_pk obj)"

subsection \<open>Properties of objects\<close>

datatype attr = ANone | AStr string | ANum py_float | AStrs "string list" | AEntries "tl_entry list" | AOther

definition opt_str :: "string option \<Rightarrow> attr" where
  "opt_str s = (case s of Some x \<Rightarrow> AStr x | None \<Rightarrow> ANone)"

definition service_attr :: "kpi_service \<Rightarrow> string \<Rightarrow> attr option" where
  "service_attr s k =
     (if k = ''service_id'' then Some (ANum (of_int (ks_id s)))
      else if k = ''service_info'' then Some (AStr (ks_info s))
      else if k = ''check_command'' then Some (opt_str (map_option mcc_name (ks_mcc s)))
      else if k = ''check_command_description'' then Some (opt_str (map_option mcc_description (ks_mcc s)))
      else if k = ''config'' then Some (opt_str (map_option mcc_config (ks_mcc s)))
      else if k = ''config_description'' then Some (opt_str (map_option mcc_config_description (ks_mcc s)))
      else if k = ''monitoring_category'' then map_option AStrs (ks_monitoring_category s)
      else if k = ''mcc'' then Some (case ks_mcc s of Some _ \<Rightarrow> AOther | None \<Rightarrow> ANone)
      else None)"

definition ext_attr :: "kpi_ext \<Rightarrow> string \<Rightarrow> attr option" where
  "ext_attr ext k =
     (case ext of
        Plain \<Rightarrow> None
      | Detail _ \<Rightarrow> if k = ''time_line'' then Some AOther else None
      | Rrd i n v \<Rightarrow>
          if k = ''rrd_id'' then Some (AStr i) else if k = ''rrd_name'' then Some (AStr n)
          else if k = ''rrd_value'' then Some (ANum v) else None
      | Service s \<Rightarrow> service_attr s k
      | TimeLine es \<Rightarrow> if k = ''time_line'' then Some (AEntries es) else None
      | ServiceTimeLine s es \<Rightarrow> if k = ''time_line'' then Some (AEntries es) else service_attr s k
      | ServiceDetail s _ \<Rightarrow> if k = ''time_line'' then Some AOther else service_attr s k)"

text \<open>\<open>getattr(obj, k, None)\<close>.\<close>

definition get_attr :: "kpi_object \<Rightarrow> string \<Rightarrow> attr" where
  "get_attr obj k =
     (if k = ''result'' then (case ko_result obj of Some r \<Rightarrow> ANum (of_int (kpi_value r)) | None \<Rightarrow> ANone)
      else if k = ''host_name'' then opt_str (ko_host_name obj)
      else if k = ''host_pk'' then (case ko_host_pk obj of Some pk \<Rightarrow> ANum (of_int pk) | None \<Rightarrow> ANone)
      else if k = ''device_category'' then AStrs (ko_device_category obj)
      else (case ext_attr (ko_ext obj) k of Some a \<Rightarrow> a | None \<Rightarrow> ANone))"

text \<open>A parameter of a filter: a string is a regular expression, a number (results are numbers) or \<open>None\<close> is compared.\<close>

datatype filter_value = FRegex string | FNum py_float | FNone

type_synonym matcher = "attr \<Rightarrow> bool res"

definition make_matcher :: "(string \<Rightarrow> (string \<Rightarrow> bool) option) \<Rightarrow> filter_value \<Rightarrow> matcher res" where
  "make_matcher re v =
     (case v of
        FRegex pat \<Rightarrow>
          (case re pat of
             None \<Rightarrow> Inl ReError
           | Some search \<Rightarrow> Inr (\<lambda>x. case x of ANone \<Rightarrow> Inr False | AStr s \<Rightarrow> Inr (search s) | _ \<Rightarrow> Inl TypeError))
      | FNum q \<Rightarrow> Inr (\<lambda>x. Inr (x = ANum q))
      | FNone \<Rightarrow> Inr (\<lambda>x. Inr (x = ANone)))"

definition check_match :: "matcher \<Rightarrow> attr \<Rightarrow> bool res" where
  "check_match m x =
     (case x of
        AStrs ss \<Rightarrow> any_r m (map AStr ss)
      | AEntries es \<Rightarrow> any_r m (map (\<lambda>_. AOther) es)
      | _ \<Rightarrow> m x)"

fun filter_r :: "('a \<Rightarrow> bool res) \<Rightarrow> 'a list \<Rightarrow> 'a list res" where
  "filter_r p [] = Inr []"
| "filter_r p (x # xs) = bind_r (p x) (\<lambda>b. bind_r (filter_r p xs) (\<lambda>ys. Inr (if b then x # ys else ys)))"

fun filter_impl ::
  "(string \<Rightarrow> (string \<Rightarrow> bool) option) \<Rightarrow> (string \<times> filter_value) list \<Rightarrow> bool \<Rightarrow> kpi_object list \<Rightarrow> kpi_object list res" where
  "filter_impl re [] positive objs = Inr objs"
| "filter_impl re ((k, v) # ps) positive objs =
     bind_r (make_matcher re v) (\<lambda>m.
       bind_r (filter_r (\<lambda>obj. bind_r (check_match m (get_attr obj k)) (\<lambda>b. Inr (b = positive))) objs)
         (filter_impl re ps positive))"

subsection \<open>Sets and their origin\<close>

datatype kpi_set = KpiSet (set_objects: "kpi_object list") (set_origin: kpi_operation)
  and kpi_operation =
    Initial
  | FilterOp "(string \<times> filter_value) list" kpi_set
  | ExcludeOp "(string \<times> filter_value) list" kpi_set
  | UnionOp kpi_set kpi_set
  | AtLeastOp int "int option" kpi_result kpi_set
  | EvaluateOp string kpi_set
  | EvaluateHistoricOp py_float "py_float option" kpi_result string kpi_set
  | EvaluateRrdOp py_float "py_float option" string kpi_set
  | GetHistoricDataOp kpi_set
  | AggregateHistoricOp string kpi_set

definition get_singleton :: "kpi_globals \<Rightarrow> kpi_result \<Rightarrow> kpi_operation \<Rightarrow> kpi_set res" where
  "get_singleton g r origin = bind_r (kpi_object_init g (Some r) None None Plain) (\<lambda>obj. Inr (KpiSet [obj] origin))"

definition result_objects :: "kpi_set \<Rightarrow> kpi_object list" where
  "result_objects s = filter (\<lambda>obj. ko_result obj \<noteq> None) (set_objects s)"

definition host_objects :: "kpi_set \<Rightarrow> kpi_object list" where
  "host_objects s = filter (\<lambda>obj. ko_host_pk obj \<noteq> None) (set_objects s)"

definition service_objects :: "kpi_set \<Rightarrow> kpi_object list" where
  "service_objects s = filter is_service (set_objects s)"

definition time_line_objects :: "kpi_set \<Rightarrow> (kpi_object \<times> tl_entry list) list" where
  "time_line_objects s = List.map_filter (\<lambda>obj. map_option (Pair obj) (time_line_of obj)) (set_objects s)"

definition rrd_objects :: "kpi_set \<Rightarrow> (kpi_object \<times> string \<times> string \<times> py_float) list" where
  "rrd_objects s =
     List.map_filter (\<lambda>obj. case ko_ext obj of Rrd i n v \<Rightarrow> Some (obj, i, n, v) | _ \<Rightarrow> None) (set_objects s)"

definition get_by_id :: "kpi_set \<Rightarrow> ident \<Rightarrow> kpi_object list" where
  "get_by_id s i = filter (\<lambda>obj. matches_id obj i) (set_objects s)"

subsection \<open>Operations\<close>

definition kpi_filter ::
  "(string \<Rightarrow> (string \<Rightarrow> bool) option) \<Rightarrow> (string \<times> filter_value) list \<Rightarrow> kpi_set \<Rightarrow> kpi_set res" where
  "kpi_filter re params s = bind_r (filter_impl re params True (set_objects s)) (\<lambda>objs. Inr (KpiSet objs (FilterOp params s)))"

definition kpi_exclude ::
  "(string \<Rightarrow> (string \<Rightarrow> bool) option) \<Rightarrow> (string \<times> filter_value) list \<Rightarrow> kpi_set \<Rightarrow> kpi_set res" where
  "kpi_exclude re params s = bind_r (filter_impl re params False (set_objects s)) (\<lambda>objs. Inr (KpiSet objs (ExcludeOp params s)))"

definition kpi_union :: "kpi_set \<Rightarrow> kpi_set \<Rightarrow> kpi_set" where
  "kpi_union s1 s2 = KpiSet (set_objects s1 @ set_objects s2) (UnionOp s1 s2)"

definition check_value :: "py_float \<Rightarrow> py_float \<Rightarrow> py_float option \<Rightarrow> string \<Rightarrow> kpi_result res" where
  "check_value amount limit_ok limit_warn method =
     (if method = ''at least'' then
        if case limit_warn of Some w \<Rightarrow> limit_ok < w | None \<Rightarrow> False then Inl RuntimeError
        else if limit_ok \<le> amount then Inr KOk
        else if case limit_warn of Some w \<Rightarrow> w \<le> amount | None \<Rightarrow> False then Inr KWarning
        else Inr KCritical
      else if method = ''at most'' then
        if case limit_warn of Some w \<Rightarrow> w < limit_ok | None \<Rightarrow> False then Inl RuntimeError
        else if amount \<le> limit_ok then Inr KOk
        else if case limit_warn of Some w \<Rightarrow> amount \<le> w | None \<Rightarrow> False then Inr KWarning
        else Inr KCritical
      else Inl ValueError)"

definition result_le :: "kpi_result \<Rightarrow> kpi_object \<Rightarrow> bool" where
  "result_le result obj = (case ko_result obj of Some r \<Rightarrow> r \<le> result | None \<Rightarrow> False)"

definition kpi_at_least :: "kpi_globals \<Rightarrow> int \<Rightarrow> int option \<Rightarrow> kpi_result \<Rightarrow> kpi_set \<Rightarrow> kpi_set res" where
  "kpi_at_least g num_ok num_warn result s =
     (if case num_warn of Some w \<Rightarrow> num_ok < w | None \<Rightarrow> False then Inl ValueError
      else
        (let origin = AtLeastOp num_ok num_warn result s;
             num = int (length (filter (result_le result) (result_objects s)))
         in if num_ok \<le> num then get_singleton g KOk origin
            else if case num_warn of Some w \<Rightarrow> w \<le> num | None \<Rightarrow> False then get_singleton g KWarning origin
            else get_singleton g KCritical origin))"

definition aggregate_historic :: "kpi_globals \<Rightarrow> py_float \<Rightarrow> string \<Rightarrow> kpi_set \<Rightarrow> kpi_set res" where
  "aggregate_historic g now method s =
     (let origin = AggregateHistoricOp method s in
      if time_line_objects s = [] then get_singleton g Undetermined origin
      else bind_r (calculate_compound_time_line method now (map snd (time_line_objects s))) (\<lambda>es.
        bind_r (kpi_object_init g None None None (TimeLine es)) (\<lambda>obj. Inr (KpiSet [obj] origin))))"

definition historic_best :: "kpi_globals \<Rightarrow> py_float \<Rightarrow> kpi_set \<Rightarrow> kpi_set res" where
  "historic_best g now = aggregate_historic g now ''best''"

definition historic_worst :: "kpi_globals \<Rightarrow> py_float \<Rightarrow> kpi_set \<Rightarrow> kpi_set res" where
  "historic_worst g now = aggregate_historic g now ''worst''"

text \<open>The extension of an object with the properties that identify it, for a new object.\<close>

definition service_again :: "kpi_globals \<Rightarrow> kpi_service \<Rightarrow> kpi_service res" where
  "service_again g s = kpi_service_init g (Some (ks_id s)) (Some (ks_info s)) (ks_mcc s)"

definition historic_ratio :: "kpi_result \<Rightarrow> bool \<Rightarrow> (tl_state \<times> py_float) list \<Rightarrow> py_float" where
  "historic_ratio result discard_planned_downtimes shares =
     (let ratio = sum_list (map snd (filter (\<lambda>(k, v). fst k \<le> result) shares)) in
      if discard_planned_downtimes then
        (let planned_down = sum_list (map snd (filter (\<lambda>(k, v). fst k = Planned_down) shares))
         in if 1 - planned_down = 0 then 0 else ratio / (1 - planned_down))
      else ratio)"

definition evaluate_historic_object ::
  "kpi_globals \<Rightarrow> py_float \<Rightarrow> py_float option \<Rightarrow> kpi_result \<Rightarrow> string \<Rightarrow> bool \<Rightarrow> kpi_object \<times> tl_entry list \<Rightarrow> kpi_object res" where
  "evaluate_historic_object g ratio_ok ratio_warn result method discard_planned_downtimes oe =
     (let shares = aggregate_time_line (snd oe); obj = fst oe in
      bind_r (check_value (historic_ratio result discard_planned_downtimes shares) ratio_ok ratio_warn method) (\<lambda>r.
        case service_of obj of
          Some sv \<Rightarrow> bind_r (service_again g sv) (\<lambda>sv1.
            kpi_object_init g (Some r) (ko_host_name obj) (ko_host_pk obj) (ServiceDetail sv1 shares))
        | None \<Rightarrow> kpi_object_init g (Some r) (ko_host_name obj) (ko_host_pk obj) (Detail shares)))"

definition evaluate_historic ::
  "kpi_globals \<Rightarrow> py_float \<Rightarrow> py_float option \<Rightarrow> kpi_result \<Rightarrow> string \<Rightarrow> bool \<Rightarrow> kpi_set \<Rightarrow> kpi_set res" where
  "evaluate_historic g ratio_ok ratio_warn result method discard_planned_downtimes s =
     (if 1 < ratio_ok then Inl ValueError
      else if case ratio_warn of Some w \<Rightarrow> 1 < w | None \<Rightarrow> False then Inl ValueError
      else
        (let origin = EvaluateHistoricOp ratio_ok ratio_warn result method s in
         if time_line_objects s = [] then get_singleton g Undetermined origin
         else bind_r (mapM_r (evaluate_historic_object g ratio_ok ratio_warn result method discard_planned_downtimes)
                        (time_line_objects s)) (\<lambda>objs. Inr (KpiSet objs origin))))"

text \<open>\<open>max\<close> and \<open>min\<close> over the results.\<close>

definition evaluate :: "kpi_globals \<Rightarrow> string \<Rightarrow> kpi_set \<Rightarrow> kpi_set res" where
  "evaluate g method s =
     (if method \<noteq> ''worst'' \<and> method \<noteq> ''best'' then Inl ValueError
      else
        (let origin = EvaluateOp method s in
         case map (\<lambda>obj. the (ko_result obj)) (result_objects s) of
           [] \<Rightarrow> get_singleton g Undetermined origin
         | r # rs \<Rightarrow> get_singleton g (if method = ''worst'' then fold max rs r else fold min rs r) origin))"

definition worst :: "kpi_globals \<Rightarrow> kpi_set \<Rightarrow> kpi_set res" where
  "worst g = evaluate g ''worst''"

definition best :: "kpi_globals \<Rightarrow> kpi_set \<Rightarrow> kpi_set res" where
  "best g = evaluate g ''best''"

definition evaluate_rrd :: "kpi_globals \<Rightarrow> py_float \<Rightarrow> py_float option \<Rightarrow> string \<Rightarrow> kpi_set \<Rightarrow> kpi_set res" where
  "evaluate_rrd g limit_ok limit_warn method s =
     (let origin = EvaluateRrdOp limit_ok limit_warn method s in
      if rrd_objects s = [] then get_singleton g Undetermined origin
      else bind_r (mapM_r (\<lambda>(obj, i, n, v).
             bind_r (check_value v limit_ok limit_warn method) (\<lambda>r.
               kpi_object_init g (Some r) (ko_host_name obj) (ko_host_pk obj) (Rrd i n v))) (rrd_objects s))
           (\<lambda>objs. Inr (KpiSet objs origin)))"

subsubsection \<open>Historic data\<close>

text \<open>The time range of the indicator and the alert list of a group of identities come from the database; the
  arguments are moments, already with a time zone.\<close>

type_synonym alert_source = "bool \<Rightarrow> ident list \<Rightarrow> py_float \<Rightarrow> py_float \<Rightarrow> ident alert_list res"

definition lines_of :: "alert_source \<Rightarrow> bool \<Rightarrow> ident list \<Rightarrow> py_float \<Rightarrow> py_float \<Rightarrow> (ident \<times> tl_entry list) list res" where
  "lines_of src is_host ids start end_time =
     (if ids = [] then Inr []
      else bind_r (src is_host ids start end_time) (calculate_time_lines is_host start end_time))"

definition history_object :: "kpi_globals \<Rightarrow> kpi_set \<Rightarrow> ident \<times> tl_entry list \<Rightarrow> kpi_object list res" where
  "history_object g s il =
     (case get_by_id s (fst il) of
        [] \<Rightarrow> Inl IndexError
      | obj # _ \<Rightarrow>
          (case fst il of
             IdService _ _ _ \<Rightarrow>
               (case service_of obj of
                  Some sv \<Rightarrow> bind_r (service_again g sv) (\<lambda>sv1.
                    bind_r (kpi_object_init g None (ko_host_name obj) (ko_host_pk obj) (ServiceTimeLine sv1 (snd il))) (\<lambda>o1. Inr [o1]))
                | None \<Rightarrow> Inl ValueError)
           | IdDevice _ \<Rightarrow>
               bind_r (kpi_object_init g None (ko_host_name obj) (ko_host_pk obj) (TimeLine (snd il))) (\<lambda>o1. Inr [o1])
           | IdRrd _ _ \<Rightarrow> Inr []))"

definition is_service_ident :: "ident \<Rightarrow> bool" where
  "is_service_ident i = (case i of IdService _ _ _ \<Rightarrow> True | _ \<Rightarrow> False)"

definition is_device_ident :: "ident \<Rightarrow> bool" where
  "is_device_ident i = (case i of IdDevice _ \<Rightarrow> True | _ \<Rightarrow> False)"

definition get_historic_data ::
  "kpi_globals \<Rightarrow> alert_source \<Rightarrow> (py_float \<times> py_float) res \<Rightarrow> py_float option \<Rightarrow> py_float option \<Rightarrow> kpi_set \<Rightarrow> kpi_set res" where
  "get_historic_data g src time_range start end_time s =
     (let idents = remdups (List.map_filter get_machine_object_id_properties (host_objects s)) in
      if idents = [] then Inr (KpiSet [] (GetHistoricDataOp s))
      else bind_r time_range (\<lambda>(kpi_start, kpi_end).
        let st = (case start of Some x \<Rightarrow> x | None \<Rightarrow> kpi_start); en = (case end_time of Some x \<Rightarrow> x | None \<Rightarrow> kpi_end) in
        if st < kpi_start then Inl RuntimeError
        else if kpi_end < en then Inl RuntimeError
        else if st = en then Inl RuntimeError
        else if en < st then Inl RuntimeError
        else
          bind_r (lines_of src False (filter is_service_ident idents) st en) (\<lambda>ls1.
          bind_r (lines_of src True (filter is_device_ident idents) st en) (\<lambda>ls2.
          bind_r (mapM_r (history_object g s) (ls1 @ ls2)) (\<lambda>objs.
            Inr (KpiSet (concat objs) (GetHistoricDataOp s)))))))"

subsection \<open>Filter and exclude\<close>

definition match_r :: "(string \<Rightarrow> (string \<Rightarrow> bool) option) \<Rightarrow> string \<times> filter_value \<Rightarrow> kpi_object \<Rightarrow> bool res" where
  "match_r re p obj = bind_r (make_matcher re (snd p)) (\<lambda>m. check_match m (get_attr obj (fst p)))"

definition matches :: "(string \<Rightarrow> (string \<Rightarrow> bool) option) \<Rightarrow> string \<times> filter_value \<Rightarrow> kpi_object \<Rightarrow> bool" where
  "matches re p obj = (match_r re p obj = Inr True)"

definition params_ok :: "(string \<Rightarrow> (string \<Rightarrow> bool) option) \<Rightarrow> (string \<times> filter_value) list \<Rightarrow> kpi_object list \<Rightarrow> bool" where
  "params_ok re ps objs \<longleftrightarrow>
     list_all (\<lambda>p. make_matcher re (snd p) \<noteq> Inl ReError \<and> list_all (\<lambda>obj. match_r re p obj = Inr (matches re p obj)) objs) ps"

lemma make_matcher_cases: "make_matcher re v = Inl ReError \<or> (\<exists>m. make_matcher re v = Inr m)"
  by (cases v) (auto simp: make_matcher_def split: option.split)

lemma filter_r_ok: "(\<And>x. x \<in> set xs \<Longrightarrow> p x = Inr (q x)) \<Longrightarrow> filter_r p xs = Inr (filter q xs)"
  by (induction xs) auto

lemma filter_impl_ok:
  "params_ok re ps objs \<Longrightarrow>
   filter_impl re ps positive objs = Inr (filter (\<lambda>obj. list_all (\<lambda>p. matches re p obj = positive) ps) objs)"
proof (induction ps arbitrary: objs)
  case (Cons p ps)
  obtain k v where p: "p = (k, v)" by (cases p)
  obtain m where m: "make_matcher re v = Inr m"
    using make_matcher_cases [of re v] Cons.prems by (auto simp: params_ok_def p)
  let ?objs = "filter (\<lambda>obj. matches re p obj = positive) objs"
  have "check_match m (get_attr obj k) = Inr (matches re p obj)" if "obj \<in> set objs" for obj
    using Cons.prems that m by (auto simp: params_ok_def p match_r_def list_all_iff)
  then have "filter_r (\<lambda>obj. bind_r (check_match m (get_attr obj k)) (\<lambda>b. Inr (b = positive))) objs = Inr ?objs"
    by (intro filter_r_ok) simp
  moreover have "params_ok re ps ?objs" using Cons.prems by (auto simp: params_ok_def list_all_iff)
  ultimately show ?case using m Cons.IH [of ?objs] by (auto simp: p intro!: filter_cong)
qed simp

lemma mset_filter_split:
  "mset (filter P xs @ filter Q xs) = mset xs \<longleftrightarrow> list_all (\<lambda>x. P x \<noteq> Q x) xs"
proof
  assume eq: "mset (filter P xs @ filter Q xs) = mset xs"
  have "P x \<noteq> Q x" if "x \<in> set xs" for x
  proof -
    have "count (mset xs) x > 0" using that by simp
    moreover have "count (mset (filter P xs @ filter Q xs)) x = (if P x then count (mset xs) x else 0) + (if Q x then count (mset xs) x else 0)"
      by (simp add: mset_filter)
    ultimately show ?thesis unfolding eq by (auto split: if_splits)
  qed
  then show "list_all (\<lambda>x. P x \<noteq> Q x) xs" by (simp add: list_all_iff)
qed (induction xs; auto)

text \<open>\<open>filter\<close> and \<open>exclude\<close> are complementary, as the documentation of \<open>exclude\<close> promises for all parameters,
  exactly when every object matches either all parameters or none, and not both: with two parameters an object that
  matches only one of them is in neither set, and without parameters every object is in both.\<close>

theorem filter_exclude_complement_iff:
  assumes "params_ok re ps (set_objects s)"
  shows "\<exists>f e. kpi_filter re ps s = Inr f \<and> kpi_exclude re ps s = Inr e \<and>
    (mset (set_objects (kpi_union f e)) = mset (set_objects s) \<longleftrightarrow>
     list_all (\<lambda>obj. list_all (\<lambda>p. matches re p obj) ps \<noteq> list_all (\<lambda>p. \<not> matches re p obj) ps) (set_objects s))"
  using filter_impl_ok [OF assms, of True] filter_impl_ok [OF assms, of False]
  by (simp add: kpi_filter_def kpi_exclude_def kpi_union_def mset_filter_split del: mset_append mset_filter)

definition no_categories :: kpi_globals where
  "no_categories = \<lparr>kg_device_category = (\<lambda>_. []), kg_mcc_category = (\<lambda>_. []), kg_mcc = (\<lambda>_. None)\<rparr>"

definition host_object :: "string \<Rightarrow> int \<Rightarrow> kpi_result \<Rightarrow> kpi_object" where
  "host_object name pk r =
     \<lparr>ko_result = Some r, ko_host_name = Some name, ko_host_pk = Some pk, ko_device_category = [], ko_ext = Plain\<rparr>"

theorem filter_exclude_complement_iff_witness:
  "\<exists>f e. kpi_filter (\<lambda>p. Some (\<lambda>x. x = p)) [(''host_name'', FRegex ''web''), (''result'', FNum 0)]
       (KpiSet [host_object ''web'' 1 KCritical] Initial) = Inr f \<and>
     kpi_exclude (\<lambda>p. Some (\<lambda>x. x = p)) [(''host_name'', FRegex ''web''), (''result'', FNum 0)]
       (KpiSet [host_object ''web'' 1 KCritical] Initial) = Inr e \<and>
     mset (set_objects (kpi_union f e)) \<noteq> mset [host_object ''web'' 1 KCritical]"
proof -
  let ?re = "\<lambda>p. Some (\<lambda>x. x = p)" and ?ps = "[(''host_name'', FRegex ''web''), (''result'', FNum 0)]"
  let ?s = "KpiSet [host_object ''web'' 1 KCritical] Initial"
  have m: "match_r ?re (''host_name'', FRegex ''web'') (host_object ''web'' 1 KCritical) = Inr True"
    "match_r ?re (''result'', FNum 0) (host_object ''web'' 1 KCritical) = Inr False"
    by (simp_all add: match_r_def make_matcher_def check_match_def get_attr_def host_object_def opt_str_def)
  then have "params_ok ?re ?ps (set_objects ?s)"
    by (simp add: params_ok_def matches_def make_matcher_def)
  from filter_exclude_complement_iff [OF this] m show ?thesis by (auto simp: matches_def)
qed

subsection \<open>Evaluation of results\<close>

text \<open>\<open>worst\<close> and \<open>best\<close> give one object whose result is the greatest or the least, by badness, of the results of
  the set, and undetermined for a set without results; any other method is refused.\<close>

theorem evaluate_extreme:
  "(case evaluate g method s of
      Inl e \<Rightarrow> e = ValueError \<and> method \<noteq> ''worst'' \<and> method \<noteq> ''best''
    | Inr s1 \<Rightarrow>
        (let rs = set (List.map_filter ko_result (set_objects s)) in
         set_origin s1 = EvaluateOp method s \<and>
         map ko_result (set_objects s1) =
           [Some (if rs = {} then Undetermined else if method = ''worst'' then Max rs else Min rs)]))"
proof -
  have "map (\<lambda>obj. the (ko_result obj)) (result_objects s) = List.map_filter ko_result (set_objects s)"
    by (simp add: result_objects_def map_filter_def comp_def)
  then show ?thesis
    by (cases "List.map_filter ko_result (set_objects s)")
      (auto simp: evaluate_def get_singleton_def kpi_object_init_def Let_def Max.set_eq_fold [symmetric] Min.set_eq_fold [symmetric])
qed

text \<open>\<open>at_least\<close> counts the objects with a result not worse than the given one: the singleton it gives is ok from
  \<open>num_ok\<close> of them on, a warning from \<open>num_warn\<close> on when that is given, and critical otherwise.\<close>

theorem at_least_counts:
  "(case kpi_at_least g num_ok num_warn result s of
      Inl e \<Rightarrow> e = ValueError \<and> (\<exists>w. num_warn = Some w \<and> num_ok < w)
    | Inr s1 \<Rightarrow>
        (let n = int (length (filter (result_le result) (set_objects s))) in
         map ko_result (set_objects s1) =
           [Some (if num_ok \<le> n then KOk else if \<exists>w. num_warn = Some w \<and> w \<le> n then KWarning else KCritical)]))"
proof -
  have "filter (result_le result) (result_objects s) = filter (result_le result) (set_objects s)"
    by (auto simp: result_objects_def result_le_def intro!: filter_cong split: option.splits)
  then show ?thesis
    by (auto simp: kpi_at_least_def get_singleton_def kpi_object_init_def Let_def split: option.splits)
qed

subsection \<open>Evaluation of time lines\<close>

text \<open>How long a line is in the states of a kind, and their share.\<close>

fun time_where :: "(tl_state \<Rightarrow> bool) \<Rightarrow> tl_entry list \<Rightarrow> py_float" where
  "time_where P (e1 # e2 # es) = (if P (tl_state e1) then tl_date e2 - tl_date e1 else 0) + time_where P (e2 # es)"
| "time_where P es = 0"

lemma share_where_accumulate:
  "distinct (map fst acc) \<Longrightarrow> share_where P (accumulate es acc) = share_where P acc + time_where P es"
  by (induction es acc rule: accumulate.induct) (simp_all add: share_where_add_to)

lemma share_where_line:
  assumes "spans a b es" "a < b"
  shows "share_where P (aggregate_time_line es) = time_where P es / (b - a)"
proof -
  have "total_share (accumulate es []) = b - a"
    using assms(1) total_accumulate [of "[]" es] by (simp add: spans_def)
  then show ?thesis
    using assms(2) share_where_accumulate [of "[]" P es] by (simp add: aggregate_time_line_def share_where_div)
qed

lemma time_where_bounds:
  "sorted (map tl_date es) \<Longrightarrow> es \<noteq> [] \<Longrightarrow> 0 \<le> time_where P es \<and> time_where P es \<le> tl_date (last es) - tl_date (hd es)"
  by (induction P es rule: time_where.induct) auto

lemma time_where_disj:
  "(\<And>s. P s \<Longrightarrow> \<not> Q s) \<Longrightarrow> time_where (\<lambda>s. P s \<or> Q s) es = time_where P es + time_where Q es"
  by (induction P es rule: time_where.induct) auto

abbreviation planned :: "tl_state \<Rightarrow> bool" where
  "planned st \<equiv> fst st = Planned_down"

lemma ratio_of_shares:
  assumes "(d :: py_float) \<noteq> 0"
  shows "g / d / (1 - p / d) = g / (d - p)" "1 - p / d = 0 \<longleftrightarrow> p = d"
proof -
  have "1 - p / d = (d - p) / d" using assms by (simp add: diff_divide_distrib)
  with assms show "g / d / (1 - p / d) = g / (d - p)" "1 - p / d = 0 \<longleftrightarrow> p = d" by auto
qed

text \<open>The planned downtime is also counted as good time.\<close>

lemma historic_ratio_line:
  assumes "spans a b es" "a < b"
  shows "historic_ratio result True (aggregate_time_line es) =
    (if time_where planned es = b - a then 0
     else (time_where (\<lambda>st. fst st \<le> result \<and> \<not> planned st) es + time_where planned es) / (b - a - time_where planned es))"
proof -
  have "(\<lambda>st :: tl_state. fst st \<le> result) = (\<lambda>st. (fst st \<le> result \<and> \<not> planned st) \<or> planned st)"
    by (cases result) (auto simp: less_eq_kpi_result_def fun_eq_iff)
  then have "time_where (\<lambda>st. fst st \<le> result) es = time_where (\<lambda>st. fst st \<le> result \<and> \<not> planned st) es + time_where planned es"
    using time_where_disj [of "\<lambda>st. fst st \<le> result \<and> \<not> planned st" planned es] by simp
  moreover have "historic_ratio result True (aggregate_time_line es) =
      (let p = time_where planned es / (b - a) in if 1 - p = 0 then 0 else time_where (\<lambda>st. fst st \<le> result) es / (b - a) / (1 - p))"
    by (simp add: historic_ratio_def share_where_def [symmetric] share_where_line [OF assms])
  moreover have "b - a \<noteq> 0" using assms(2) by simp
  ultimately show ?thesis by (simp only: Let_def ratio_of_shares not_False_eq_True)
qed

lemma half_downtime_ratio:
  assumes "spans a b es" "a < b" "(b - a) / 2 \<le> time_where planned es" "time_where planned es < b - a"
  shows "1 \<le> historic_ratio result True (aggregate_time_line es)"
proof -
  have "0 \<le> time_where (\<lambda>st. fst st \<le> result \<and> \<not> planned st) es"
    using time_where_bounds [of es "\<lambda>st. fst st \<le> result \<and> \<not> planned st"] assms(1) by (simp add: spans_def)
  moreover have "b - a - time_where planned es \<le> time_where planned es" using assms(3) by (simp add: field_simps)
  ultimately show ?thesis using assms(4) by (simp add: historic_ratio_line [OF assms(1,2)] le_divide_eq)
qed

definition object_ok :: "kpi_object \<Rightarrow> bool" where
  "object_ok obj \<longleftrightarrow> (ko_host_name obj = None) = (ko_host_pk obj = None)"

lemma evaluate_historic_object_result:
  assumes "object_ok obj" "check_value (historic_ratio result discard (aggregate_time_line es)) ratio_ok ratio_warn method = Inr r"
  shows "\<exists>o1. evaluate_historic_object g ratio_ok ratio_warn result method discard (obj, es) = Inr o1 \<and>
    ko_result o1 = Some r \<and> ko_host_pk o1 = ko_host_pk obj"
  using assms
  by (auto simp: evaluate_historic_object_def Let_def kpi_object_init_def service_again_def kpi_service_init_def object_ok_def
      split: option.split)

lemma mapM_r_rel:
  "(\<And>x. x \<in> set xs \<Longrightarrow> \<exists>y. f x = Inr y \<and> R x y) \<Longrightarrow> \<exists>ys. mapM_r f xs = Inr ys \<and> list_all2 R xs ys"
proof (induction xs)
  case (Cons x xs)
  obtain y where y: "f x = Inr y" "R x y" using Cons.prems [of x] by auto
  obtain ys where "mapM_r f xs = Inr ys" "list_all2 R xs ys" using Cons.IH Cons.prems by auto
  with y show ?case by simp
qed simp

text \<open>C20: when planned downtimes are to be discarded, they are counted as good time before the rest is scaled: a
  device that is down for all the time outside planned downtimes is reported as ok, whatever ratio is required, as
  soon as planned downtimes make up half of the time span.\<close>

theorem planned_downtime_hides_outage:
  assumes "time_line_objects s \<noteq> []" "ratio_ok \<le> 1"
    and "\<forall>(obj, es) \<in> set (time_line_objects s). object_ok obj \<and> spans a b es \<and>
      (b - a) / 2 \<le> time_where planned es \<and> time_where planned es < b - a"
    and "a < b"
  shows "\<exists>s1. evaluate_historic g ratio_ok None result ''at least'' True s = Inr s1 \<and>
    map ko_result (set_objects s1) = map (\<lambda>_. Some KOk) (time_line_objects s)"
proof -
  let ?f = "evaluate_historic_object g ratio_ok None result ''at least'' True"
  have "\<exists>o1. ?f oe = Inr o1 \<and> ko_result o1 = Some KOk" if "oe \<in> set (time_line_objects s)" for oe
  proof -
    obtain obj es where oe: "oe = (obj, es)" by (cases oe)
    with that assms(3) have ok: "object_ok obj" "spans a b es" "(b - a) / 2 \<le> time_where planned es" "time_where planned es < b - a"
      by auto
    have "check_value (historic_ratio result True (aggregate_time_line es)) ratio_ok None ''at least'' = Inr KOk"
      using half_downtime_ratio [OF ok(2) assms(4) ok(3,4), of result] assms(2) by (simp add: check_value_def)
    with evaluate_historic_object_result [OF ok(1) this, of g] oe show ?thesis by auto
  qed
  then have "\<exists>ys. mapM_r ?f (time_line_objects s) = Inr ys \<and>
      list_all2 (\<lambda>_ o1. ko_result o1 = Some KOk) (time_line_objects s) ys"
    by (rule mapM_r_rel)
  then obtain ys where "mapM_r ?f (time_line_objects s) = Inr ys"
    "list_all2 (\<lambda>_ o1. ko_result o1 = Some KOk) (time_line_objects s) ys" by blast
  moreover from this(2) have "map ko_result ys = map (\<lambda>_. Some KOk) (time_line_objects s)"
    by (induction rule: list_all2_induct) simp_all
  ultimately show ?thesis using assms(1,2) by (simp add: evaluate_historic_def)
qed

definition outage_line :: "tl_entry list" where
  "outage_line =
     [\<lparr>tl_date = 0, tl_state = (Planned_down, ST_Planned_down)\<rparr>, \<lparr>tl_date = 60, tl_state = (KCritical, Hard)\<rparr>,
      \<lparr>tl_date = 100, tl_state = (KCritical, Hard)\<rparr>]"

theorem planned_downtime_hides_outage_witness:
  "\<exists>s1. evaluate_historic no_categories 1 None KOk ''at least'' True
      (KpiSet [\<lparr>ko_result = None, ko_host_name = Some ''web'', ko_host_pk = Some 1, ko_device_category = [],
                ko_ext = TimeLine outage_line\<rparr>] Initial) = Inr s1 \<and>
    map ko_result (set_objects s1) = [Some KOk]"
proof -
  let ?o = "\<lparr>ko_result = None, ko_host_name = Some ''web'', ko_host_pk = Some 1, ko_device_category = [],
    ko_ext = TimeLine outage_line\<rparr>"
  have tl: "time_line_objects (KpiSet [?o] Initial) = [(?o, outage_line)]"
    by (simp add: time_line_objects_def map_filter_simps time_line_of_def)
  have "spans 0 100 outage_line" "time_where planned outage_line = 60"
    by (simp_all add: spans_def outage_line_def)
  then have "\<forall>(obj, es) \<in> set (time_line_objects (KpiSet [?o] Initial)). object_ok obj \<and> spans 0 100 es \<and>
      (100 - 0) / 2 \<le> time_where planned es \<and> time_where planned es < 100 - 0"
    by (simp add: tl object_ok_def)
  from planned_downtime_hides_outage [OF _ _ this, of 1 no_categories KOk] show ?thesis by (simp add: tl)
qed

text \<open>Without planned downtime in the line, an object is ok exactly when it was in a state not worse than the
  required one for at least the required share of the time span.\<close>

theorem evaluate_historic_share:
  assumes "object_ok obj" "spans a b es" "a < b" "time_where planned es = 0" "ratio_ok \<le> 1"
  shows "\<exists>o1. evaluate_historic_object g ratio_ok None result ''at least'' discard (obj, es) = Inr o1 \<and>
    ko_result o1 = Some (if ratio_ok * (b - a) \<le> time_where (\<lambda>st. fst st \<le> result) es then KOk else KCritical)"
proof -
  have "historic_ratio result discard (aggregate_time_line es) = time_where (\<lambda>st. fst st \<le> result) es / (b - a)"
    using assms(4) by (simp add: historic_ratio_def share_where_def [symmetric] share_where_line [OF assms(2,3)] Let_def)
  then have "check_value (historic_ratio result discard (aggregate_time_line es)) ratio_ok None ''at least'' =
    Inr (if ratio_ok * (b - a) \<le> time_where (\<lambda>st. fst st \<le> result) es then KOk else KCritical)"
    using assms(3) by (simp add: check_value_def le_divide_eq)
  from evaluate_historic_object_result [OF assms(1) this, of g] show ?thesis by blast
qed

theorem evaluate_historic_share_witness:
  "\<exists>o1. evaluate_historic_object no_categories (2 / 5) None KOk ''at least'' True (host_object ''web'' 1 KOk, hd two_lines) = Inr o1 \<and>
    ko_result o1 = Some KOk"
  using evaluate_historic_share [of "host_object ''web'' 1 KOk" 0 100 "hd two_lines" "2 / 5" no_categories KOk True]
  by (simp add: object_ok_def host_object_def two_lines_def spans_def less_eq_kpi_result_def)

end
