(* ===== verification/Icinga_Log.thy ===== *)
theory Icinga_Log
  imports Alert_History
begin

section \<open>Reading the log of the monitoring core (md_config_server/icinga_log_reader)\<close>

text \<open>
  The log reader turns the lines of the monitoring core's log into rows of the database. Services are named in the log
  by descriptions that hold their primary keys (\<open>log_reader_utils.py\<close>); lines from before that scheme are resolved by
  name. The model reads a list of lines, without the line ends; the tables of known hosts and services are arguments.
\<close>

subsection \<open>Service descriptions\<close>

definition fmt_pk :: "int option \<Rightarrow> string" where
  "fmt_pk pk = (case pk of Some i \<Rightarrow> str_of_int i | None \<Rightarrow> ''None'')"

definition create_host_service_description_direct :: "int \<Rightarrow> int option \<Rightarrow> int option \<Rightarrow> string \<Rightarrow> string" where
  "create_host_service_description_direct host_pk check_command_pk special_check_command_pk info =
     (case special_check_command_pk of
        Some sp \<Rightarrow> ''s_host_check:'' @ str_of_int host_pk @ '':'' @ fmt_pk check_command_pk @ '':'' @ str_of_int sp @ '':'' @ info
      | None \<Rightarrow>
          (case check_command_pk of
             Some c \<Rightarrow> ''host_check:'' @ str_of_int host_pk @ '':'' @ str_of_int c @ '':'' @ info
           | None \<Rightarrow> ''unstructured: '' @ info))"

type_synonym parsed_description = "int option \<times> int option \<times> string option"

definition parse_ids :: "string \<Rightarrow> string \<Rightarrow> string \<Rightarrow> parsed_description res" where
  "parse_ids h s info = bind_r (py_int h) (\<lambda>host. bind_r (py_int s) (\<lambda>service. Inr (Some host, Some service, Some info)))"

definition parse_host_service_description :: "string \<Rightarrow> parsed_description res" where
  "parse_host_service_description spec =
     (case split_max CHR '':'' 1 spec of
        [kind, rest] \<Rightarrow>
          if kind = ''host_check'' then
            (case split_max CHR '':'' 2 rest of [h, s, info] \<Rightarrow> parse_ids h s info | _ \<Rightarrow> Inr (None, None, None))
          else if kind = ''s_host_check'' then
            (case split_max CHR '':'' 3 rest of [h, s, _, info] \<Rightarrow> parse_ids h s info | _ \<Rightarrow> Inr (None, None, None))
          else Inr (None, None, None)
      | _ \<Rightarrow> Inr (None, None, None))"

subsection \<open>Lines\<close>

text \<open>A line is malformed, or names an unknown host; any other exception ends the reading.\<close>

datatype log_error = Malformed | Unknown_host | Crash py_error

definition bind_l :: "'e + 'a \<Rightarrow> ('a \<Rightarrow> 'e + 'b) \<Rightarrow> 'e + 'b" where
  "bind_l m f = (case m of Inl e \<Rightarrow> Inl e | Inr x \<Rightarrow> f x)"

lemma bind_l_simps [simp]: "bind_l (Inl e) f = Inl e" "bind_l (Inr x) f = f x"
  by (simp_all add: bind_l_def)

record log_line =
  ll_timestamp :: int
  ll_kind :: "string option"
  ll_info :: string

definition parse_timestamp :: "string \<Rightarrow> log_error + int \<times> string" where
  "parse_timestamp line =
     (case split_max CHR '' '' 1 line of
        [timestamp_raw, info_raw] \<Rightarrow>
          (case py_int (butlast (tl timestamp_raw)) of Inr t \<Rightarrow> Inr (t, info_raw) | Inl _ \<Rightarrow> Inl Malformed)
      | _ \<Rightarrow> Inl Malformed)"

definition parse_log_line :: "string \<Rightarrow> log_error + log_line" where
  "parse_log_line line =
     bind_l (parse_timestamp line) (\<lambda>(t, info_raw).
       Inr (case split_on '': '' info_raw of
              Some (kind, info) \<Rightarrow> \<lparr>ll_timestamp = t, ll_kind = Some kind, ll_info = info\<rparr>
            | None \<Rightarrow> \<lparr>ll_timestamp = t, ll_kind = None, ll_info = info_raw\<rparr>))"

subsection \<open>Hosts, services and states\<close>

record reader_env =
  re_hosts :: "(string \<times> int) list"
  re_services :: "(string \<times> int) list"
  re_valid_hosts :: "int list"
  re_valid_services :: "int list"

definition resolve_host :: "reader_env \<Rightarrow> string \<Rightarrow> int option" where
  "resolve_host env spec = map_of (re_hosts env) spec"

definition resolve_service :: "reader_env \<Rightarrow> string \<Rightarrow> int option" where
  "resolve_service env spec = map_of (re_services env) (py_lower (map (\<lambda>c. if c = CHR '' '' then CHR ''_'' else c) spec))"

text \<open>\<open>if not host\<close>: also the key 0 counts as missing.\<close>

definition found :: "int option \<Rightarrow> bool" where
  "found pk = (case pk of Some i \<Rightarrow> i \<noteq> 0 | None \<Rightarrow> False)"

definition only_valid :: "int list \<Rightarrow> int option \<Rightarrow> int option" where
  "only_valid ids pk = (case pk of Some i \<Rightarrow> if i \<in> set ids then Some i else None | None \<Rightarrow> None)"

definition parse_host_service :: "reader_env \<Rightarrow> string \<Rightarrow> string \<Rightarrow> log_error + int \<times> int option \<times> string" where
  "parse_host_service env host_spec service_spec =
     (case parse_host_service_description service_spec of
        Inl e \<Rightarrow> Inl (Crash e)
      | Inr (h, s, i) \<Rightarrow>
          (let h1 = only_valid (re_valid_hosts env) h;
               s1 = only_valid (re_valid_services env) s;
               h2 = (if found h1 then h1 else resolve_host env host_spec);
               (s2, i2) = (if found s1 then (s1, i) else (resolve_service env service_spec, Some service_spec))
           in case h2 of
                None \<Rightarrow> Inl Unknown_host
              | Some pk \<Rightarrow>
                  if pk = 0 then Inl Unknown_host
                  else if found s2 then Inr (pk, s2, case i2 of Some x \<Rightarrow> x | None \<Rightarrow> service_spec)
                  else Inr (pk, None, service_spec)))"

definition host_states :: "(string \<times> string) list" where
  "host_states = [(''UP'', ''UP''), (''DOWN'', ''D''), (''UNREACHABLE'', ''UR''), (''UNKNOWN'', ''U''), (''PLANNED DOWN'', ''PD''), (''UNDETERMINED'', ''UD'')]"

definition service_states :: "(string \<times> string) list" where
  "service_states = [(''OK'', ''O''), (''WARNING'', ''W''), (''UNKNOWN'', ''U''), (''CRITICAL'', ''C''), (''UNDETERMINED'', ''UD''), (''PLANNED DOWN'', ''PD'')]"

definition state_types :: "(string \<times> state_type) list" where
  "state_types = [(''SOFT'', Soft), (''HARD'', Hard)]"

definition start_stop_states :: "(string \<times> event) list" where
  "start_stop_states = [(''STARTED'', Start), (''STOPPED'', Stop)]"

definition get_or :: "log_error \<Rightarrow> (string \<times> 'a) list \<Rightarrow> string \<Rightarrow> log_error + 'a" where
  "get_or e d k = (case map_of d k of Some v \<Rightarrow> Inr v | None \<Rightarrow> Inl e)"

subsection \<open>Entries\<close>

datatype log_entry =
    HostAlert int string state_type bool bool string
  | ServiceAlert int "int option" string string state_type bool bool string
  | HostFlapping "int option" event string
  | ServiceFlapping int "int option" string event string
  | HostNotification string "int option" string string string
  | ServiceNotification string int "int option" string string string string
  | HostDowntime "int option" event string
  | ServiceDowntime int "int option" string event string
  | HostDown string
  | ServiceDown string
  | HostFlapDown string
  | ServiceFlapDown string

text \<open>The message for an unknown host state has three places for one argument, so building it raises.\<close>

definition parse_host_alert :: "reader_env \<Rightarrow> string \<Rightarrow> log_error + int \<times> string \<times> state_type \<times> string" where
  "parse_host_alert env info =
     (case split_max CHR '';'' 4 info of
        [h, st, ty, _, msg] \<Rightarrow>
          (case resolve_host env h of
             None \<Rightarrow> Inl Unknown_host
           | Some pk \<Rightarrow>
               if pk = 0 then Inl Unknown_host
               else bind_l (get_or (Crash IndexError) host_states st) (\<lambda>state.
                 bind_l (get_or Malformed state_types ty) (\<lambda>state_type. Inr (pk, state, state_type, msg))))
      | _ \<Rightarrow> Inl Malformed)"

definition parse_service_alert :: "reader_env \<Rightarrow> string \<Rightarrow> log_error + (int \<times> int option \<times> string) \<times> string \<times> state_type \<times> string" where
  "parse_service_alert env info =
     (case split_max CHR '';'' 5 info of
        [h, sv, st, ty, _, msg] \<Rightarrow>
          bind_l (parse_host_service env h sv) (\<lambda>hs.
          bind_l (get_or Malformed service_states st) (\<lambda>state.
          bind_l (get_or Malformed state_types ty) (\<lambda>state_type. Inr (hs, state, state_type, msg))))
      | _ \<Rightarrow> Inl Malformed)"

definition parse_host_start_stop :: "reader_env \<Rightarrow> string \<Rightarrow> log_error + int option \<times> event \<times> string" where
  "parse_host_start_stop env info =
     (case split_max CHR '';'' 2 info of
        [h, st, msg] \<Rightarrow> bind_l (get_or Malformed start_stop_states st) (\<lambda>ev. Inr (resolve_host env h, ev, msg))
      | _ \<Rightarrow> Inl Malformed)"

definition parse_service_start_stop :: "reader_env \<Rightarrow> string \<Rightarrow> log_error + (int \<times> int option \<times> string) \<times> event \<times> string" where
  "parse_service_start_stop env info =
     (case split_max CHR '';'' 3 info of
        [h, sv, st, msg] \<Rightarrow>
          bind_l (parse_host_service env h sv) (\<lambda>hs.
          bind_l (get_or Malformed start_stop_states st) (\<lambda>ev. Inr (hs, ev, msg)))
      | _ \<Rightarrow> Inl Malformed)"

definition parse_host_notification :: "reader_env \<Rightarrow> string \<Rightarrow> log_error + string \<times> int option \<times> string \<times> string \<times> string" where
  "parse_host_notification env info =
     (case split_max CHR '';'' 4 info of
        [user, h, st, ntype, msg] \<Rightarrow>
          bind_l (get_or Malformed host_states st) (\<lambda>state. Inr (user, resolve_host env h, state, ntype, msg))
      | _ \<Rightarrow> Inl Malformed)"

definition parse_service_notification ::
  "reader_env \<Rightarrow> string \<Rightarrow> log_error + string \<times> (int \<times> int option \<times> string) \<times> string \<times> string \<times> string" where
  "parse_service_notification env info =
     (case split_max CHR '';'' 5 info of
        [user, h, sv, st, ntype, msg] \<Rightarrow>
          bind_l (parse_host_service env h sv) (\<lambda>hs.
          bind_l (get_or Malformed service_states st) (\<lambda>state. Inr (user, hs, state, ntype, msg)))
      | _ \<Rightarrow> Inl Malformed)"

text \<open>The kinds of lines and their entries; a line of another kind gives none.\<close>

definition service_alert_kinds :: "string list" where
  "service_alert_kinds = [''SERVICE ALERT'', ''CURRENT SERVICE STATE'', ''INITIAL SERVICE STATE'']"

definition host_alert_kinds :: "string list" where
  "host_alert_kinds = [''HOST ALERT'', ''CURRENT HOST STATE'', ''INITIAL HOST STATE'']"

definition create_entry :: "reader_env \<Rightarrow> string \<Rightarrow> string \<Rightarrow> log_error + log_entry list" where
  "create_entry env kind info =
     (if kind \<in> set service_alert_kinds then
        bind_l (parse_service_alert env info) (\<lambda>((h, s, i), state, ty, msg).
          Inr [ServiceAlert h s i state ty (kind = ''CURRENT SERVICE STATE'') (kind = ''INITIAL SERVICE STATE'') msg])
      else if kind \<in> set host_alert_kinds then
        bind_l (parse_host_alert env info) (\<lambda>(h, state, ty, msg).
          Inr [HostAlert h state ty (kind = ''CURRENT HOST STATE'') (kind = ''INITIAL HOST STATE'') msg])
      else if kind = ''SERVICE FLAPPING ALERT'' then
        bind_l (parse_service_start_stop env info) (\<lambda>((h, s, i), ev, msg). Inr [ServiceFlapping h s i ev msg])
      else if kind = ''HOST FLAPPING ALERT'' then
        bind_l (parse_host_start_stop env info) (\<lambda>(h, ev, msg). Inr [HostFlapping h ev msg])
      else if kind = ''SERVICE NOTIFICATION'' then
        bind_l (parse_service_notification env info) (\<lambda>(user, (h, s, i), state, ntype, msg).
          Inr [ServiceNotification user h s i state ntype msg])
      else if kind = ''HOST NOTIFICATION'' then
        bind_l (parse_host_notification env info) (\<lambda>(user, h, state, ntype, msg). Inr [HostNotification user h state ntype msg])
      else if kind = ''HOST DOWNTIME ALERT'' then
        bind_l (parse_host_start_stop env info) (\<lambda>(h, ev, msg). Inr [HostDowntime h ev msg])
      else if kind = ''SERVICE DOWNTIME ALERT'' then
        bind_l (parse_service_start_stop env info) (\<lambda>((h, s, i), ev, msg). Inr [ServiceDowntime h s i ev msg])
      else Inr [])"

subsection \<open>Files\<close>

text \<open>The stop of the monitoring core gives entries for no device in particular.\<close>

definition shutdown_entries :: "string \<Rightarrow> (int \<times> log_entry) list" where
  "shutdown_entries line =
     (case parse_timestamp line of
        Inr (t, msg) \<Rightarrow>
          if startswith msg ''Successfully shutdown''
          then [(t, HostDown msg), (t, ServiceDown msg), (t, HostFlapDown msg), (t, ServiceFlapDown msg)] else []
      | Inl _ \<Rightarrow> [])"

definition wanted :: "int option \<Rightarrow> log_line \<Rightarrow> bool" where
  "wanted start_at l =
     (case start_at of
        None \<Rightarrow> True
      | Some t \<Rightarrow> t < ll_timestamp l \<or> ll_kind l = Some ''CURRENT HOST STATE'' \<or> ll_kind l = Some ''CURRENT SERVICE STATE'')"

definition line_entries :: "reader_env \<Rightarrow> int option \<Rightarrow> string \<Rightarrow> (int \<times> log_entry) list res" where
  "line_entries env start_at line =
     (case parse_log_line line of
        Inl _ \<Rightarrow> Inr []
      | Inr l \<Rightarrow>
          if \<not> wanted start_at l then Inr []
          else
            (case ll_kind l of
               None \<Rightarrow> Inr []
             | Some kind \<Rightarrow>
                 (case create_entry env kind (ll_info l) of
                    Inr es \<Rightarrow> Inr (map (Pair (ll_timestamp l)) es)
                  | Inl (Crash e) \<Rightarrow> Inl e
                  | Inl _ \<Rightarrow> Inr [])))"

definition dump_kinds :: "string list" where
  "dump_kinds = [''CURRENT HOST STATE'', ''CURRENT SERVICE STATE'', ''INITIAL HOST STATE'', ''INITIAL SERVICE STATE'']"

definition dump_time :: "int option \<Rightarrow> string \<Rightarrow> int list" where
  "dump_time start_at line =
     (case parse_log_line line of
        Inr l \<Rightarrow> if wanted start_at l \<and> (\<exists>k \<in> set dump_kinds. ll_kind l = Some k) then [ll_timestamp l] else []
      | Inl _ \<Rightarrow> [])"

definition last_timestamp :: "string list \<Rightarrow> int option" where
  "last_timestamp lines =
     fold (\<lambda>line acc. case parse_log_line line of Inr l \<Rightarrow> Some (ll_timestamp l) | Inl _ \<Rightarrow> acc) lines None"

text \<open>Everything is stored at the end, so an exception loses the entries of the whole file. The result has the entries,
  the times of full dumps and the time of the last line.\<close>

definition parse_log_file :: "reader_env \<Rightarrow> int option \<Rightarrow> string list \<Rightarrow> ((int \<times> log_entry) list \<times> int list \<times> int option) res" where
  "parse_log_file env start_at lines =
     bind_r (mapM_r (\<lambda>line. bind_r (line_entries env start_at line) (\<lambda>es. Inr (shutdown_entries line @ es))) lines) (\<lambda>ess.
       Inr (concat ess, remdups (concat (map (dump_time start_at) lines)), last_timestamp lines))"

subsection \<open>Descriptions are read back\<close>

lemma str_of_int_plain [simp]: "CHR '':'' \<notin> set (str_of_int i)" "CHR '';'' \<notin> set (str_of_int i)" "CHR '' '' \<notin> set (str_of_int i)"
  by (simp_all add: str_of_int_def str_of_nat_no_char is_digit_def)

lemma split_2: "c \<notin> set a \<Longrightarrow> split_max c 1 (a @ c # r) = [a, r]"
  using split_max_part [of c a 0 r] by simp

lemma split_3: "c \<notin> set a \<Longrightarrow> c \<notin> set b \<Longrightarrow> split_max c 2 (a @ c # b @ c # r) = [a, b, r]"
  using split_max_part [of c a 1 "b @ c # r"] split_2 [of c b r] by (simp add: numeral_2_eq_2)

lemma split_4: "c \<notin> set a \<Longrightarrow> c \<notin> set b \<Longrightarrow> c \<notin> set d \<Longrightarrow> split_max c 3 (a @ c # b @ c # d @ c # r) = [a, b, d, r]"
  using split_max_part [of c a 2 "b @ c # d @ c # r"] split_3 [of c b d r] by (simp add: numeral_3_eq_3 numeral_2_eq_2)

lemma split_5:
  "c \<notin> set a \<Longrightarrow> c \<notin> set b \<Longrightarrow> c \<notin> set d \<Longrightarrow> c \<notin> set e \<Longrightarrow>
   split_max c 4 (a @ c # b @ c # d @ c # e @ c # r) = [a, b, d, e, r]"
  using split_max_part [of c a 3 "b @ c # d @ c # e @ c # r"] split_4 [of c b d e r] by (simp add: eval_nat_numeral)

lemma split_6:
  "c \<notin> set a \<Longrightarrow> c \<notin> set b \<Longrightarrow> c \<notin> set d \<Longrightarrow> c \<notin> set e \<Longrightarrow> c \<notin> set f \<Longrightarrow>
   split_max c 5 (a @ c # b @ c # d @ c # e @ c # f @ c # r) = [a, b, d, e, f, r]"
  using split_max_part [of c a 4 "b @ c # d @ c # e @ c # f @ c # r"] split_5 [of c b d e f r] by (simp add: eval_nat_numeral)

lemma description_read:
  "parse_host_service_description (create_host_service_description_direct host (Some check) special info) =
     Inr (Some host, Some check, Some info)"
proof (cases special)
  case None
  have "create_host_service_description_direct host (Some check) special info =
      ''host_check'' @ CHR '':'' # str_of_int host @ CHR '':'' # str_of_int check @ CHR '':'' # info"
    by (simp add: None create_host_service_description_direct_def)
  then show ?thesis
    by (simp only: parse_host_service_description_def) (simp add: split_2 [of _ "''host_check''", simplified] split_3 parse_ids_def)
next
  case (Some sp)
  have "create_host_service_description_direct host (Some check) special info =
      ''s_host_check'' @ CHR '':'' # str_of_int host @ CHR '':'' # str_of_int check @ CHR '':'' # str_of_int sp @ CHR '':'' # info"
    by (simp add: Some create_host_service_description_direct_def fmt_pk_def)
  then show ?thesis
    by (simp only: parse_host_service_description_def) (simp add: split_2 [of _ "''s_host_check''", simplified] split_4 parse_ids_def)
qed

text \<open>The description of a service on a host, regular or special, is read back to the same host, check command and
  information, whatever characters the information has.\<close>

theorem description_roundtrip:
  "parse_host_service_description (create_host_service_description_direct host (Some check) special info) =
     Inr (Some host, Some check, Some info)"
  by (rule description_read)

subsection \<open>Lines are read back\<close>

text \<open>A line of the log: the time in brackets, the kind and the fields.\<close>

definition log_text :: "int \<Rightarrow> string \<Rightarrow> string list \<Rightarrow> string \<Rightarrow> string" where
  "log_text t kind fs msg = ''['' @ str_of_int t @ ''] '' @ kind @ '': '' @ concat (map (\<lambda>f. f @ '';'') fs) @ msg"

lemma split_on_first:
  assumes "sep = a # rest" "a \<notin> set k"
  shows "split_on sep (k @ sep @ r) = Some (k, r)"
  using assms(2)
proof (induction k)
  case Nil
  then show ?case using assms(1) by (simp add: startswith_def)
next
  case (Cons c k)
  then have "\<not> startswith (c # k @ sep @ r) sep" using assms(1) by (auto simp: startswith_def)
  with Cons show ?case by simp
qed

lemma parse_log_text:
  assumes "CHR '':'' \<notin> set kind"
  shows "parse_log_line (log_text t kind fs msg) =
    Inr \<lparr>ll_timestamp = t, ll_kind = Some kind, ll_info = concat (map (\<lambda>f. f @ '';'') fs) @ msg\<rparr>"
proof -
  let ?info = "concat (map (\<lambda>f. f @ '';'') fs) @ msg" and ?ts = "''['' @ str_of_int t @ '']''"
  have "log_text t kind fs msg = ?ts @ CHR '' '' # kind @ '': '' @ ?info" by (simp add: log_text_def)
  moreover have "split_max CHR '' '' 1 (?ts @ CHR '' '' # kind @ '': '' @ ?info) = [?ts, kind @ '': '' @ ?info]"
    by (rule split_2) simp
  moreover have "butlast (tl ?ts) = str_of_int t" by (simp add: butlast_append)
  ultimately have "parse_timestamp (log_text t kind fs msg) = Inr (t, kind @ '': '' @ ?info)"
    by (simp only: parse_timestamp_def) simp
  moreover have "split_on '': '' (kind @ '': '' @ ?info) = Some (kind, ?info)"
    using assms by (intro split_on_first) auto
  ultimately show ?thesis by (simp only: parse_log_line_def) simp
qed

text \<open>C28: a service alert that the monitoring core logs for a known service under the description made for it gives an
  entry for exactly that host, check command and information, with the state and state type of the line.\<close>

theorem service_alert_recorded:
  assumes "host \<noteq> 0" "check \<noteq> 0" "host \<in> set (re_valid_hosts env)" "check \<in> set (re_valid_services env)"
    and "map_of service_states st = Some state" "map_of state_types ty = Some state_type"
    and "CHR '';'' \<notin> set name" "CHR '';'' \<notin> set info" "CHR '';'' \<notin> set attempt"
  shows "line_entries env None (log_text t ''SERVICE ALERT''
      [name, create_host_service_description_direct host (Some check) special info, st, ty, attempt] msg) =
    Inr [(t, ServiceAlert host (Some check) info state state_type False False msg)]"
proof -
  let ?desc = "create_host_service_description_direct host (Some check) special info"
  have "CHR '';'' \<notin> set ?desc"
    using assms(8) by (simp add: create_host_service_description_direct_def fmt_pk_def split: option.split)
  moreover have "CHR '';'' \<notin> set st" "CHR '';'' \<notin> set ty"
    using assms(5,6) by (auto simp: service_states_def state_types_def split: if_splits)
  ultimately have "split_max CHR '';'' 5 (name @ CHR '';'' # ?desc @ CHR '';'' # st @ CHR '';'' # ty @ CHR '';'' # attempt @ CHR '';'' # msg) =
      [name, ?desc, st, ty, attempt, msg]"
    using assms(7,9) by (intro split_6)
  moreover have "parse_host_service env name ?desc = Inr (host, Some check, info)"
    using assms(1-4) by (simp add: parse_host_service_def description_read only_valid_def found_def)
  ultimately have "parse_service_alert env (concat (map (\<lambda>f. f @ '';'') [name, ?desc, st, ty, attempt]) @ msg) =
      Inr ((host, Some check, info), state, state_type, msg)"
    using assms(5,6) by (simp add: parse_service_alert_def get_or_def)
  then show ?thesis
    unfolding line_entries_def by (subst parse_log_text) (simp_all add: wanted_def create_entry_def service_alert_kinds_def)
qed

definition demo_reader :: reader_env where
  "demo_reader = \<lparr>re_hosts = [(''web.example'', 3)], re_services = [], re_valid_hosts = [3], re_valid_services = [8]\<rparr>"

theorem service_alert_recorded_witness:
  "line_entries demo_reader None (log_text 1460000000 ''SERVICE ALERT''
      [''web.example'', create_host_service_description_direct 3 (Some 8) None ''/boot: used'', ''CRITICAL'', ''HARD'', ''3''] ''full'') =
    Inr [(1460000000, ServiceAlert 3 (Some 8) ''/boot: used'' ''C'' Hard False False ''full'')]"
  by (rule service_alert_recorded) (simp_all add: demo_reader_def service_states_def state_types_def)

subsection \<open>A line that ends the reading\<close>

lemma mapM_r_error: "x \<in> set xs \<Longrightarrow> f x = Inl e \<Longrightarrow> \<exists>e. mapM_r f xs = Inl e"
proof (induction xs)
  case (Cons y ys)
  then show ?case
    by (cases "f y"; cases "mapM_r f ys") auto
qed simp

text \<open>A host alert of a known host with a state the reader does not know raises while the message about the
  malformed line is built: the reading of the whole file fails and none of its entries are stored.\<close>

theorem unknown_host_state_loses_file:
  assumes "log_text t ''HOST ALERT'' [name, st, ty, attempt] msg \<in> set lines" "map_of (re_hosts env) name = Some pk" "pk \<noteq> 0"
    and "map_of host_states st = None"
    and "CHR '';'' \<notin> set name" "CHR '';'' \<notin> set st" "CHR '';'' \<notin> set ty" "CHR '';'' \<notin> set attempt"
  shows "\<exists>e. parse_log_file env None lines = Inl e"
proof -
  let ?line = "log_text t ''HOST ALERT'' [name, st, ty, attempt] msg"
  have "split_max CHR '';'' 4 (name @ CHR '';'' # st @ CHR '';'' # ty @ CHR '';'' # attempt @ CHR '';'' # msg) = [name, st, ty, attempt, msg]"
    using assms(5-8) by (rule split_5)
  then have "parse_host_alert env (concat (map (\<lambda>f. f @ '';'') [name, st, ty, attempt]) @ msg) = Inl (Crash IndexError)"
    using assms(2-4) by (simp add: parse_host_alert_def resolve_host_def get_or_def)
  then have "line_entries env None ?line = Inl IndexError"
    unfolding line_entries_def
    by (subst parse_log_text) (simp_all add: wanted_def create_entry_def service_alert_kinds_def host_alert_kinds_def)
  then obtain e where "mapM_r (\<lambda>line. bind_r (line_entries env None line) (\<lambda>es. Inr (shutdown_entries line @ es))) lines = Inl e"
    using mapM_r_error [OF assms(1), of "\<lambda>line. bind_r (line_entries env None line) (\<lambda>es. Inr (shutdown_entries line @ es))" IndexError]
    by auto
  then show ?thesis by (simp add: parse_log_file_def)
qed

theorem unknown_host_state_loses_file_witness:
  "\<exists>e. parse_log_file demo_reader None
     [log_text 1460000000 ''HOST ALERT'' [''web.example'', ''DOWN'', ''HARD'', ''1''] ''no answer'',
      log_text 1460000060 ''HOST ALERT'' [''web.example'', ''PENDING'', ''HARD'', ''1''] ''''] = Inl e"
  by (rule unknown_host_state_loses_file [where t = 1460000060 and name = "''web.example''" and st = "''PENDING''" and ty = "''HARD''"
        and attempt = "''1''" and msg = "''''" and pk = 3])
    (simp_all add: demo_reader_def host_states_def)

subsection \<open>Reading a file again\<close>

text \<open>Entries of the present state of a host or service, and entries for no device.\<close>

fun state_dump :: "log_entry \<Rightarrow> bool" where
  "state_dump (HostAlert _ _ _ rot _ _) = rot"
| "state_dump (ServiceAlert _ _ _ _ _ rot _ _) = rot"
| "state_dump _ = False"

fun for_no_device :: "log_entry \<Rightarrow> bool" where
  "for_no_device (HostDown _) = True"
| "for_no_device (ServiceDown _) = True"
| "for_no_device (HostFlapDown _) = True"
| "for_no_device (ServiceFlapDown _) = True"
| "for_no_device _ = False"

lemma bind_l_Inr: "bind_l m f = Inr y \<longleftrightarrow> (\<exists>x. m = Inr x \<and> f x = Inr y)"
  by (cases m) auto

lemma create_entry_dump:
  assumes "create_entry env kind info = Inr es" "e \<in> set es" "kind = ''CURRENT HOST STATE'' \<or> kind = ''CURRENT SERVICE STATE''"
  shows "state_dump e"
  using assms by (auto simp: create_entry_def service_alert_kinds_def host_alert_kinds_def bind_l_Inr)

lemma line_entries_old:
  assumes "line_entries env (Some t0) line = Inr es" "(t, e) \<in> set es"
  shows "t0 < t \<or> state_dump e"
proof -
  obtain l kind es1 where l: "parse_log_line line = Inr l" "wanted (Some t0) l" "ll_kind l = Some kind"
    "create_entry env kind (ll_info l) = Inr es1" "es = map (Pair (ll_timestamp l)) es1"
    using assms by (auto simp: line_entries_def split: sum.splits if_splits option.splits log_error.splits)
  then show ?thesis using assms(2) create_entry_dump [OF l(4)] by (auto simp: wanted_def)
qed

lemma mapM_r_mem: "mapM_r f xs = Inr ys \<Longrightarrow> y \<in> set ys \<Longrightarrow> \<exists>x \<in> set xs. f x = Inr y"
  by (induction xs arbitrary: ys) (auto simp: bind_r_eq_Inr)

text \<open>When an archive is read again from a given time on, every entry is newer than that, or a dump of the present
  states, or an entry about a stop of the monitoring core: only these last ones are stored twice.\<close>

theorem reread_entries:
  assumes "parse_log_file env (Some t0) lines = Inr (es, dumps, lt)" "(t, e) \<in> set es"
  shows "t0 < t \<or> state_dump e \<or> for_no_device e"
proof -
  obtain ess where ess: "mapM_r (\<lambda>line. bind_r (line_entries env (Some t0) line) (\<lambda>es. Inr (shutdown_entries line @ es))) lines = Inr ess"
    "es = concat ess" using assms(1) by (auto simp: parse_log_file_def bind_r_eq_Inr)
  then obtain es1 where "es1 \<in> set ess" "(t, e) \<in> set es1" using assms(2) by auto
  with mapM_r_mem [OF ess(1)] obtain line es2 where "line_entries env (Some t0) line = Inr es2" "es1 = shutdown_entries line @ es2"
    by (fastforce simp: bind_r_eq_Inr)
  then show ?thesis
    using \<open>(t, e) \<in> set es1\<close> line_entries_old [of env t0 line es2 t e]
    by (auto simp: shutdown_entries_def split: sum.splits if_splits)
qed

theorem reread_entries_witness:
  "parse_log_file demo_reader (Some 500) [''[400] Successfully shutdown... (PID=7)''] =
     Inr ([(400, HostDown ''Successfully shutdown... (PID=7)''), (400, ServiceDown ''Successfully shutdown... (PID=7)''),
           (400, HostFlapDown ''Successfully shutdown... (PID=7)''), (400, ServiceFlapDown ''Successfully shutdown... (PID=7)'')], [], Some 400) \<and>
   for_no_device (HostDown ''Successfully shutdown... (PID=7)'')"
proof -
  have "parse_log_file demo_reader (Some 500) [''[400] Successfully shutdown... (PID=7)''] =
     Inr ([(400, HostDown ''Successfully shutdown... (PID=7)''), (400, ServiceDown ''Successfully shutdown... (PID=7)''),
           (400, HostFlapDown ''Successfully shutdown... (PID=7)''), (400, ServiceFlapDown ''Successfully shutdown... (PID=7)'')], [], Some 400)"
    by code_simp
  with reread_entries [OF this, of 400 "HostDown ''Successfully shutdown... (PID=7)''"] show ?thesis by simp
qed

end
