(* ===== verification/Log_Reader.thy ===== *)
theory Log_Reader
  imports Icinga_Log
begin

section \<open>Keeping up with the log (md_config_server/icinga_log_reader/log_reader.py)\<close>

text \<open>
  The reader remembers the time of the last line it has read and the position where that line starts. At the next update
  it goes on from there, if it finds a line with that time at the position; otherwise the log was rotated, and the
  archived files and then the whole current file are read. What seeking in a file gives, and the archived files whose
  names belong to the days since the last line, are parameters; so is the request to exit, asked for after every archive.
\<close>

subsection \<open>The tables\<close>

record last_read_row =
  lr_timestamp :: int
  lr_position :: nat

record reader_db =
  rb_entries :: "(int \<times> log_entry) list"
  rb_dumps :: "int list"
  rb_last_read :: "last_read_row option"

definition update_last_read :: "nat \<Rightarrow> int \<Rightarrow> reader_db \<Rightarrow> last_read_row \<times> reader_db" where
  "update_last_read position timestamp db =
     (let new = \<lparr>lr_timestamp = timestamp, lr_position = position\<rparr>; saved = (new, db\<lparr>rb_last_read := Some new\<rparr>) in
      case rb_last_read db of
        Some lr \<Rightarrow> if lr_timestamp lr > timestamp then (lr, db) else saved
      | None \<Rightarrow> saved)"

text \<open>A file is read and its entries are stored; an exception leaves the tables as they are.\<close>

definition read_file :: "reader_env \<Rightarrow> int option \<Rightarrow> nat \<Rightarrow> string list \<Rightarrow> reader_db \<Rightarrow> reader_db \<times> int option res" where
  "read_file env start_at position lines db =
     (case parse_log_file env start_at lines of
        Inl err \<Rightarrow> (db, Inl err)
      | Inr (es, dumps, t) \<Rightarrow>
          (let db1 = db\<lparr>rb_entries := rb_entries db @ es, rb_dumps := rb_dumps db @ filter (\<lambda>d. d \<notin> set (rb_dumps db)) dumps\<rparr> in
           case t of
             None \<Rightarrow> (db1, Inr None)
           | Some ts \<Rightarrow> (snd (update_last_read position ts db1), Inr (Some ts))))"

subsection \<open>Archived files\<close>

text \<open>The name of an archived file ends with month, day, year and hour; other names are skipped. The parts are compared as
  texts.\<close>

definition archive_key :: "string \<Rightarrow> string list option" where
  "archive_key path =
     (case py_split CHR ''-'' path of [_, month, day, year, hour] \<Rightarrow> Some [year, month, day, hour, path] | _ \<Rightarrow> None)"

definition archive_order :: "string list \<Rightarrow> string list" where
  "archive_order files = map last (sort (List.map_filter archive_key files))"

definition max_opt :: "int option \<Rightarrow> int option \<Rightarrow> int option" where
  "max_opt a b = (case a of None \<Rightarrow> b | Some x \<Rightarrow> (case b of None \<Rightarrow> a | Some y \<Rightarrow> Some (max x y)))"

fun read_archives ::
  "reader_env \<Rightarrow> int option \<Rightarrow> (string \<Rightarrow> string list option) \<Rightarrow> (string \<Rightarrow> bool) \<Rightarrow> string list \<Rightarrow> int option \<Rightarrow> reader_db
     \<Rightarrow> reader_db \<times> int option res" where
  "read_archives env start_at content exit_after [] retval db = (db, Inr retval)"
| "read_archives env start_at content exit_after (p # ps) retval db =
     (case content p of
        None \<Rightarrow> read_archives env start_at content exit_after ps retval db
      | Some lines \<Rightarrow>
          (case read_file env start_at 0 lines db of
             (db1, Inl err) \<Rightarrow> (db1, Inl err)
           | (db1, Inr t) \<Rightarrow>
               if exit_after p then (db1, Inr (max_opt retval t))
               else read_archives env start_at content exit_after ps (max_opt retval t) db1))"

definition parse_archive_files ::
  "reader_env \<Rightarrow> int option \<Rightarrow> (string \<Rightarrow> string list option) \<Rightarrow> (string \<Rightarrow> bool) \<Rightarrow> string list \<Rightarrow> reader_db
     \<Rightarrow> reader_db \<times> int option res" where
  "parse_archive_files env start_at content exit_after files db =
     read_archives env start_at content exit_after (archive_order files) None db"

subsection \<open>An update\<close>

record log_files =
  lf_archives :: "string list"
  lf_missed :: "int \<Rightarrow> string list"
  lf_content :: "string \<Rightarrow> string list option"
  lf_exit_after :: "string \<Rightarrow> bool"
  lf_exit :: bool
  lf_current :: "string list option"
  lf_line_at :: "nat \<Rightarrow> string"
  lf_rest_at :: "nat \<Rightarrow> string list"
  lf_position :: nat
  lf_dead_pid :: "int option"

definition same_logfile :: "log_files \<Rightarrow> last_read_row \<Rightarrow> bool" where
  "same_logfile lf lr =
     (let line = lf_line_at lf (lr_position lr) in
      line \<noteq> [] \<and> (case parse_log_line line of Inr l \<Rightarrow> ll_timestamp l = lr_timestamp lr | Inl _ \<Rightarrow> False))"

definition read_current :: "reader_env \<Rightarrow> log_files \<Rightarrow> last_read_row \<Rightarrow> reader_db \<Rightarrow> reader_db \<times> unit res" where
  "read_current env lf lr db =
     (let done = (\<lambda>r. (fst r, bind_r (snd r) (\<lambda>_. Inr ()))) in
      case lf_current lf of
        None \<Rightarrow> (db, Inr ())
      | Some lines \<Rightarrow>
          if same_logfile lf lr then done (read_file env None (lf_position lf) (lf_rest_at lf (lr_position lr)) db)
          else
            (case parse_archive_files env (Some (lr_timestamp lr)) (lf_content lf) (lf_exit_after lf) (lf_missed lf (lr_timestamp lr)) db of
               (db1, Inl err) \<Rightarrow> (db1, Inl err)
             | (db1, Inr _) \<Rightarrow>
                 if lf_exit lf then (db1, Inr ()) else done (read_file env None (lf_position lf) lines db1)))"

definition down_entries :: "int \<Rightarrow> int option \<Rightarrow> (int \<times> log_entry) list" where
  "down_entries now pid =
     (case pid of
        None \<Rightarrow> []
      | Some p \<Rightarrow> (let msg = ''icinga process (pid: '' @ str_of_int p @ '') is not running''
                 in [(now, HostDown msg), (now, ServiceDown msg), (now, HostFlapDown msg), (now, ServiceFlapDown msg)]))"

text \<open>Without any line read before, all archives are read; without archives the time of the day before counts as the last.\<close>

definition last_read_or_archives :: "reader_env \<Rightarrow> log_files \<Rightarrow> int \<Rightarrow> reader_db \<Rightarrow> reader_db \<times> last_read_row res" where
  "last_read_or_archives env lf now db =
     (case rb_last_read db of
        Some lr \<Rightarrow> (db, Inr lr)
      | None \<Rightarrow>
          (case parse_archive_files env None (lf_content lf) (lf_exit_after lf) (lf_archives lf) db of
             (db1, Inl err) \<Rightarrow> (db1, Inl err)
           | (db1, Inr (Some t)) \<Rightarrow>
               if t = 0 then (db1, Inr \<lparr>lr_timestamp = now - 86400, lr_position = 0\<rparr>)
               else (let (lr, db2) = update_last_read 0 t db1 in (db2, Inr lr))
           | (db1, Inr None) \<Rightarrow> (db1, Inr \<lparr>lr_timestamp = now - 86400, lr_position = 0\<rparr>)))"

definition update_raw_data :: "reader_env \<Rightarrow> log_files \<Rightarrow> int \<Rightarrow> reader_db \<Rightarrow> reader_db \<times> unit res" where
  "update_raw_data env lf now db =
     (case last_read_or_archives env lf now db of
        (db1, Inl err) \<Rightarrow> (db1, Inl err)
      | (db1, Inr lr) \<Rightarrow>
          (case read_current env lf lr db1 of
             (db2, Inl err) \<Rightarrow> (db2, Inl err)
           | (db2, Inr _) \<Rightarrow> (db2\<lparr>rb_entries := rb_entries db2 @ down_entries now (lf_dead_pid lf)\<rparr>, Inr ())))"

subsection \<open>What is read\<close>

definition line_results :: "reader_env \<Rightarrow> int option \<Rightarrow> string \<Rightarrow> (int \<times> log_entry) list res" where
  "line_results env start_at line = bind_r (line_entries env start_at line) (\<lambda>es. Inr (shutdown_entries line @ es))"

lemma mapM_r_append: "mapM_r f (xs @ ys) = bind_r (mapM_r f xs) (\<lambda>a. bind_r (mapM_r f ys) (\<lambda>b. Inr (a @ b)))"
  by (induction xs) (auto simp: bind_r_def split: sum.splits)

lemma parse_entries:
  "parse_log_file env start_at lines = Inr (es, ds, t) \<longleftrightarrow>
     (\<exists>ess. mapM_r (line_results env start_at) lines = Inr ess \<and> es = concat ess) \<and>
     ds = remdups (concat (map (dump_time start_at) lines)) \<and> t = last_timestamp lines"
  by (auto simp: parse_log_file_def bind_r_eq_Inr line_results_def [abs_def])

lemma parse_append:
  assumes "parse_log_file env start_at xs = Inr (es1, ds1, t1)" "parse_log_file env start_at ys = Inr (es2, ds2, t2)"
  shows "\<exists>ds t. parse_log_file env start_at (xs @ ys) = Inr (es1 @ es2, ds, t)"
  using assms by (auto simp: parse_entries mapM_r_append)

lemma parse_part:
  assumes "parse_log_file env start_at (xs @ ys @ zs) = Inr (es, ds, t)" "parse_log_file env start_at ys = Inr (es2, ds2, t2)"
  shows "\<exists>us vs. es = us @ es2 @ vs"
  using assms by (auto simp: parse_entries mapM_r_append bind_r_eq_Inr) blast

lemma last_timestamp_snoc: "parse_log_line x = Inr l \<Longrightarrow> last_timestamp (xs @ [x]) = Some (ll_timestamp l)"
  by (simp add: last_timestamp_def)

lemma last_timestamp_last:
  assumes "xs \<noteq> []" "parse_log_line (last xs) = Inr l"
  shows "last_timestamp xs = Some (ll_timestamp l)"
  using assms last_timestamp_snoc [of "last xs" l "butlast xs"] by simp

lemma read_file_entries:
  assumes "parse_log_file env start_at lines = Inr (es, ds, t)"
  shows "rb_entries (fst (read_file env start_at p lines db)) = rb_entries db @ es" "snd (read_file env start_at p lines db) = Inr t"
  using assms by (auto simp: read_file_def update_last_read_def Let_def split: option.splits)

lemma read_file_last:
  assumes "parse_log_file env start_at lines = Inr (es, ds, Some t)" "\<forall>lr. rb_last_read db = Some lr \<longrightarrow> lr_timestamp lr \<le> t"
  shows "rb_last_read (fst (read_file env start_at p lines db)) = Some \<lparr>lr_timestamp = t, lr_position = p\<rparr>"
  using assms by (auto simp: read_file_def update_last_read_def Let_def split: option.splits)

text \<open>An update of an unrotated log without further events.\<close>

lemma update_continues:
  assumes "rb_last_read db = Some lr" "same_logfile lf lr" "lf_current lf \<noteq> None" "lf_dead_pid lf = None"
    and "parse_log_file env None (lf_rest_at lf (lr_position lr)) = Inr (es, ds, t)"
  shows "fst (update_raw_data env lf now db) = fst (read_file env None (lf_position lf) (lf_rest_at lf (lr_position lr)) db)"
proof -
  obtain db1 r where "read_file env None (lf_position lf) (lf_rest_at lf (lr_position lr)) db = (db1, r)"
    by (cases "read_file env None (lf_position lf) (lf_rest_at lf (lr_position lr)) db")
  moreover from this have "r = Inr t" using read_file_entries(2) [OF assms(5), of "lf_position lf" db] by simp
  ultimately show ?thesis using assms
    by (cases "lf_current lf") (simp_all add: update_raw_data_def last_read_or_archives_def read_current_def down_entries_def Let_def)
qed



subsection \<open>Time and order\<close>

lemma read_file_monotone:
  assumes "rb_last_read db = Some lr"
  shows "\<exists>lr'. rb_last_read (fst (read_file env start_at p lines db)) = Some lr' \<and> lr_timestamp lr \<le> lr_timestamp lr'"
    and "\<exists>es. rb_entries (fst (read_file env start_at p lines db)) = rb_entries db @ es"
  using assms by (auto simp: read_file_def update_last_read_def Let_def split: option.splits sum.splits prod.splits)

lemma read_archives_monotone:
  assumes "rb_last_read db = Some lr"
  shows "(\<exists>lr'. rb_last_read (fst (read_archives env start_at content ex ps retval db)) = Some lr' \<and> lr_timestamp lr \<le> lr_timestamp lr') \<and>
    (\<exists>es. rb_entries (fst (read_archives env start_at content ex ps retval db)) = rb_entries db @ es)"
  using assms
proof (induction env start_at content ex ps retval db arbitrary: lr rule: read_archives.induct)
  case (2 env start_at content ex p ps retval db)
  show ?case
  proof (cases "content p")
    case None
    then show ?thesis using 2(1) [OF None 2(3)] by simp
  next
    case (Some lines)
    obtain db1 r where rf: "read_file env start_at 0 lines db = (db1, r)" by (cases "read_file env start_at 0 lines db")
    obtain lr1 es1 where m: "rb_last_read db1 = Some lr1" "lr_timestamp lr \<le> lr_timestamp lr1" "rb_entries db1 = rb_entries db @ es1"
      using read_file_monotone [OF 2(3), of env start_at 0 lines] rf by auto
    show ?thesis
    proof (cases "\<exists>t. r = Inr t \<and> \<not> ex p")
      case True
      then obtain t where t: "r = Inr t" "\<not> ex p" by blast
      from 2(2) [OF Some rf [symmetric] t(1,2) m(1)] m show ?thesis using Some rf t by fastforce
    next
      case False
      then show ?thesis using Some rf m by (auto split: sum.splits)
    qed
  qed
qed simp

lemma read_current_monotone:
  assumes "rb_last_read db = Some lr0"
  shows "(\<exists>lr'. rb_last_read (fst (read_current env lf lr db)) = Some lr' \<and> lr_timestamp lr0 \<le> lr_timestamp lr') \<and>
    (\<exists>es. rb_entries (fst (read_current env lf lr db)) = rb_entries db @ es)"
proof -
  define ar where "ar = parse_archive_files env (Some (lr_timestamp lr)) (lf_content lf) (lf_exit_after lf) (lf_missed lf (lr_timestamp lr)) db"
  obtain lr1 es1 where m: "rb_last_read (fst ar) = Some lr1" "lr_timestamp lr0 \<le> lr_timestamp lr1" "rb_entries (fst ar) = rb_entries db @ es1"
    using read_archives_monotone [OF assms] by (fastforce simp: ar_def parse_archive_files_def)
  note f = read_file_monotone [OF m(1), of env None "lf_position lf"] read_file_monotone [OF assms, of env None "lf_position lf"]
  obtain db1 r where ar: "ar = (db1, r)" by (cases ar)
  show ?thesis
  proof (cases "lf_current lf")
    case None
    then show ?thesis using assms by (simp add: read_current_def Let_def)
  next
    case (Some lines)
    show ?thesis
    proof (cases "same_logfile lf lr")
      case True
      then show ?thesis using Some f(3,4) by (simp add: read_current_def Let_def)
    next
      case False
      then have "fst (read_current env lf lr db) = db1 \<or>
          fst (read_current env lf lr db) = fst (read_file env None (lf_position lf) lines db1)"
        using Some ar by (simp add: read_current_def Let_def ar_def [symmetric] split: sum.split)
      then show ?thesis using f(1,2) [of lines] m ar by fastforce
    qed
  qed
qed

lemma update_monotone:
  assumes "rb_last_read db = Some lr"
  shows "(\<exists>lr'. rb_last_read (fst (update_raw_data env lf now db)) = Some lr' \<and> lr_timestamp lr \<le> lr_timestamp lr') \<and>
    (\<exists>es. rb_entries (fst (update_raw_data env lf now db)) = rb_entries db @ es)"
proof -
  obtain db1 r where c: "read_current env lf lr db = (db1, r)" by (cases "read_current env lf lr db")
  then have "fst (update_raw_data env lf now db) = db1 \<or>
      fst (update_raw_data env lf now db) = db1\<lparr>rb_entries := rb_entries db1 @ down_entries now (lf_dead_pid lf)\<rparr>"
    using assms by (auto simp: update_raw_data_def last_read_or_archives_def split: sum.splits)
  then show ?thesis using read_current_monotone [OF assms, of env lf lr] c by auto
qed

lemma length_py_split: "length (py_split c s) = Suc (length (filter ((=) c) s))"
  by (induction s) (auto split: list.splits)

text \<open>An archived file is read only when its whole path, with the directory, has exactly four dashes.\<close>

lemma archive_key_dashes: "archive_key path \<noteq> None \<longleftrightarrow> length (filter ((=) CHR ''-'') path) = 4"
proof -
  have "archive_key path \<noteq> None \<longleftrightarrow> length (py_split CHR ''-'' path) = 5"
    by (auto simp: archive_key_def split: list.splits)
  then show ?thesis by (simp add: length_py_split)
qed

lemma archive_key_last: "archive_key p = Some k \<Longrightarrow> last k = p"
  by (auto simp: archive_key_def split: list.splits)

text \<open>The files are read in the order of year, month, day and hour.\<close>

lemma archive_order_sorted: "sorted (map (\<lambda>p. case archive_key p of Some k \<Rightarrow> k | None \<Rightarrow> []) (archive_order files))"
proof -
  let ?key = "\<lambda>p. case archive_key p of Some k \<Rightarrow> k | None \<Rightarrow> []"
  have "map ?key (map last ks) = ks" if "set ks \<subseteq> {k. \<exists>p. archive_key p = Some k}" for ks
    using that
  proof (induction ks)
    case (Cons k ks)
    then obtain p where "archive_key p = Some k" by auto
    with Cons archive_key_last [OF this] show ?case by simp
  qed simp
  moreover have "set (sort (List.map_filter archive_key files)) \<subseteq> {k. \<exists>p. archive_key p = Some k}"
    by (auto simp: map_filter_def)
  ultimately show ?thesis by (simp add: archive_order_def)
qed

subsection \<open>Instances\<close>

definition demo_db :: reader_db where
  "demo_db = \<lparr>rb_entries = [], rb_dumps = [], rb_last_read = Some \<lparr>lr_timestamp = 100, lr_position = 0\<rparr>\<rparr>"

definition demo_files :: "string list \<Rightarrow> string \<Rightarrow> string list \<Rightarrow> nat \<Rightarrow> log_files" where
  "demo_files current line rest p =
     \<lparr>lf_archives = [], lf_missed = (\<lambda>_. []), lf_content = (\<lambda>_. None), lf_exit_after = (\<lambda>_. False), lf_exit = False,
      lf_current = Some current, lf_line_at = (\<lambda>_. line), lf_rest_at = (\<lambda>_. rest), lf_position = p, lf_dead_pid = None\<rparr>"

definition line1 :: string where "line1 = ''[100] LOG VERSION: 2.0''"
definition line2 :: string where "line2 = ''[200] HOST FLAPPING ALERT: web.example;STARTED;x''"
definition line3 :: string where "line3 = ''[300] HOST FLAPPING ALERT: web.example;STOPPED;x''"

lemma demo_lines:
  "same_logfile (demo_files [line1, line2] line1 [line2] 23) \<lparr>lr_timestamp = 100, lr_position = 0\<rparr>"
  "parse_log_line line2 = Inr \<lparr>ll_timestamp = 200, ll_kind = Some ''HOST FLAPPING ALERT'', ll_info = ''web.example;STARTED;x''\<rparr>"
  "parse_log_file demo_reader None [line2] = Inr ([(200, HostFlapping (Some 3) Start ''x'')], [], Some 200)"
  "parse_log_file demo_reader None [line3] = Inr ([(300, HostFlapping (Some 3) Stop ''x'')], [], Some 300)"
  "parse_log_file demo_reader None [line2, line3] = Inr ([(200, HostFlapping (Some 3) Start ''x''), (300, HostFlapping (Some 3) Stop ''x'')], [], Some 300)"
  by code_simp+


lemma demo_empty_line:
  "parse_log_line '''' = Inl Malformed"
  "parse_log_file demo_reader None [line2, ''''] = Inr ([(200, HostFlapping (Some 3) Start ''x'')], [], Some 200)"
  "parse_log_file demo_reader None ([line1] @ [line2, ''''] @ []) = Inr ([(200, HostFlapping (Some 3) Start ''x'')], [], Some 200)"
  by code_simp+


end
