(* ===== verification/Log_Aggregation.thy ===== *)
theory Log_Aggregation
  imports Alert_History
begin

section \<open>Aggregation of the alert log (md_config_server/icinga_log_reader/log_aggregation.py)\<close>

text \<open>
  For every hour the alerts of a host or service are condensed to the weights of its states, with the planned
  downtimes laid over them and the time it was flapping beside them. Days, weeks, months and years are the averages
  of the shorter time spans. The rows of the database are the arguments.
\<close>

subsection \<open>One time span from raw data\<close>

datatype agg_state = Regular "string \<times> state_type" | Flapping

record time_span =
  ts_start :: py_float
  ts_end :: py_float

definition timespan_seconds :: "time_span \<Rightarrow> py_float" where
  "timespan_seconds ts = ts_end ts - ts_start ts"

fun pair_weights :: "py_float \<Rightarrow> alert list \<Rightarrow> (agg_state \<times> py_float) list \<Rightarrow> (agg_state \<times> py_float) list" where
  "pair_weights secs (a1 # a2 # as) ws =
     pair_weights secs (a2 # as) (add_to (Regular (state_of a1)) ((al_date a2 - al_date a1) / secs) ws)"
| "pair_weights secs as ws = ws"

definition calc_weighted_states ::
  "time_span \<Rightarrow> alert list \<Rightarrow> string \<times> state_type \<Rightarrow> bool \<Rightarrow> (agg_state \<times> py_float) list \<times> (string \<times> state_type)" where
  "calc_weighted_states ts entries before start_in_planned_downtime =
     (let secs = timespan_seconds ts;
          ws = pair_weights secs entries [];
          actual = (if start_in_planned_downtime then (''PD'', ST_Planned_down) else before)
      in if entries = [] then (add_to (Regular actual) 1 ws, before)
         else
           (let ws1 = add_to (Regular actual) ((al_date (hd entries) - ts_start ts) / secs) ws;
                last_state = state_of (last entries)
            in (add_to (Regular last_state) ((ts_end ts - al_date (last entries)) / secs) ws1, last_state)))"

definition calc_flapping_ratio :: "time_span \<Rightarrow> start_stop list \<Rightarrow> py_float" where
  "calc_flapping_ratio ts flappings =
     sum_list (map (\<lambda>f. min (du_end f) (ts_end ts) - max (du_start f) (ts_start ts)) flappings) / timespan_seconds ts"

record 'k raw_data =
  rd_alerts :: "('k \<times> alert list) list"
  rd_last :: "('k \<times> (string \<times> state_type)) list"
  rd_downtimes :: "('k \<times> start_stop list) list"
  rd_flappings :: "('k \<times> start_stop list) list"

definition process_key ::
  "time_span \<Rightarrow> 'k raw_data \<Rightarrow> 'k \<Rightarrow> ((agg_state \<times> py_float) list \<times> (string \<times> state_type)) res" where
  "process_key ts rd k =
     (let before = (case map_of (rd_last rd) k of Some s \<Rightarrow> s | None \<Rightarrow> (''UD'', ST_Undetermined));
          ds = at_key (rd_downtimes rd) k
      in bind_r (add_downtimes_to_alerts (at_key (rd_alerts rd) k) (Some (StateTuple before)) ds) (\<lambda>entries.
           let (ws, last_state) = calc_weighted_states ts entries before (get_downtime_entry ds (ts_start ts) \<noteq> None);
               ratio = calc_flapping_ratio ts (at_key (rd_flappings rd) k)
           in Inr (if ratio \<noteq> 0 then AList.update Flapping ratio ws else ws, last_state)))"

text \<open>The rows of all keys, and the last states for the next time span.\<close>

record 'k agg_row =
  ag_timespan :: nat
  ag_key :: 'k
  ag_state :: agg_state
  ag_value :: py_float

definition process_alerts ::
  "time_span \<Rightarrow> nat \<Rightarrow> 'k raw_data \<Rightarrow> 'k list \<Rightarrow> ('k agg_row list \<times> ('k \<times> (string \<times> state_type)) list) res" where
  "process_alerts ts ts_id rd ks =
     bind_r (mapM_r (\<lambda>k. bind_r (process_key ts rd k) (\<lambda>(ws, l). Inr (k, ws, l))) ks) (\<lambda>rs.
       Inr (concat (map (\<lambda>(k, ws, l). map (\<lambda>(s, v). \<lparr>ag_timespan = ts_id, ag_key = k, ag_state = s, ag_value = v\<rparr>) ws) rs),
            fold (\<lambda>(k, ws, l). AList.update k l) rs []))"

text \<open>The warning about missing entries: the weights without flapping do not sum to one.\<close>

definition missing_entries :: "(agg_state \<times> py_float) list \<Rightarrow> bool" where
  "missing_entries ws \<longleftrightarrow> \<bar>sum_list (map snd (filter (\<lambda>(s, v). s \<noteq> Flapping) ws)) - 1\<bar> > 1 / 100"

subsection \<open>Longer time spans\<close>

definition count_timespans :: "'k agg_row list \<Rightarrow> nat" where
  "count_timespans rows = length (remdups (map ag_timespan rows))"

definition data_sum :: "'k agg_row list \<Rightarrow> (('k \<times> agg_state) \<times> py_float) list" where
  "data_sum rows = fold (\<lambda>r. add_to (ag_key r, ag_state r) (ag_value r)) rows []"

definition timespans_of :: "'k agg_row list \<Rightarrow> 'k \<Rightarrow> nat list" where
  "timespans_of rows k = remdups (map ag_timespan (filter (\<lambda>r. ag_key r = k) rows))"

definition add_undetermined :: "'k agg_row list \<Rightarrow> 'k \<Rightarrow> (('k \<times> agg_state) \<times> py_float) list \<Rightarrow> (('k \<times> agg_state) \<times> py_float) list" where
  "add_undetermined rows k d =
     fold (\<lambda>_. add_to (k, Regular (''UD'', ST_Undetermined)) 1) [length (timespans_of rows k)..<count_timespans rows] d"

definition create_entries_incrementally :: "nat \<Rightarrow> 'k agg_row list \<Rightarrow> 'k agg_row list" where
  "create_entries_incrementally ts_id rows =
     (let ks = remdups (map ag_key rows); d = fold (add_undetermined rows) ks (data_sum rows)
      in map (\<lambda>((k, s), v). \<lparr>ag_timespan = ts_id, ag_key = k, ag_state = s, ag_value = v / of_nat (count_timespans rows)\<rparr>) d)"

subsection \<open>The weights of a time span\<close>

text \<open>How long a state holds in a line of dated states.\<close>

fun held :: "'a \<Rightarrow> (py_float \<times> 'a) list \<Rightarrow> py_float" where
  "held s ((d1, x) # (d2, y) # l) = (if x = s then d2 - d1 else 0) + held s ((d2, y) # l)"
| "held s l = 0"

lemma held_bounds:
  "sorted (map fst l) \<Longrightarrow> l \<noteq> [] \<Longrightarrow> 0 \<le> held s l \<and> held s l \<le> fst (last l) - fst (hd l)"
  by (induction s l rule: held.induct) auto

definition dated :: "alert list \<Rightarrow> (py_float \<times> agg_state) list" where
  "dated as = map (\<lambda>a. (al_date a, Regular (state_of a))) as"

lemma held_snoc: "l \<noteq> [] \<Longrightarrow> held s (l @ [(d, x)]) = held s l + (if snd (last l) = s then d - fst (last l) else 0)"
  by (induction s l rule: held.induct) auto

lemma held_Cons: "l \<noteq> [] \<Longrightarrow> held s ((d, x) # l) = (if x = s then fst (hd l) - d else 0) + held s l"
  by (cases l) auto

lemma pair_weights_get0: "get0 (pair_weights secs as ws) s = get0 ws s + held s (dated as) / secs"
  by (induction secs as ws rule: pair_weights.induct) (auto simp: dated_def add_divide_distrib)

lemma pair_weights_distinct: "distinct (map fst ws) \<Longrightarrow> distinct (map fst (pair_weights secs as ws))"
  by (induction secs as ws rule: pair_weights.induct) simp_all

lemma pair_weights_total:
  "distinct (map fst ws) \<Longrightarrow> as \<noteq> [] \<Longrightarrow>
   total_share (pair_weights secs as ws) = total_share ws + (al_date (last as) - al_date (hd as)) / secs"
  by (induction secs as ws rule: pair_weights.induct) (simp_all add: diff_divide_distrib)

definition state_line :: "time_span \<Rightarrow> alert list \<Rightarrow> string \<times> state_type \<Rightarrow> (py_float \<times> agg_state) list" where
  "state_line ts entries s0 = (ts_start ts, Regular s0) # dated entries @ [(ts_end ts, Flapping)]"

lemma get0_Nil [simp]: "get0 [] s = 0"
  by (simp add: get0_def)

lemma weighted_states_held:
  assumes "timespan_seconds ts \<noteq> 0"
  shows "get0 (fst (calc_weighted_states ts entries before dt)) s =
    held s (state_line ts entries (if dt then (''PD'', ST_Planned_down) else before)) / timespan_seconds ts"
proof (cases "entries = []")
  case True
  then show ?thesis using assms
    by (auto simp: calc_weighted_states_def state_line_def dated_def timespan_seconds_def get0_def add_to_def)
next
  case False
  then have d: "dated entries \<noteq> []" "fst (last (dated entries)) = al_date (last entries)"
    "snd (last (dated entries)) = Regular (state_of (last entries))" "fst (hd (dated entries)) = al_date (hd entries)"
    by (simp_all add: dated_def last_map hd_map)
  then show ?thesis using False
    by (simp add: calc_weighted_states_def Let_def pair_weights_get0 state_line_def held_Cons held_snoc add_divide_distrib)
qed

lemma weighted_states_total:
  assumes "timespan_seconds ts \<noteq> 0"
  shows "total_share (fst (calc_weighted_states ts entries before dt)) = 1"
    and "distinct (map fst (fst (calc_weighted_states ts entries before dt)))"
proof -
  have d: "distinct (map fst (pair_weights (timespan_seconds ts) entries []))"
    by (rule pair_weights_distinct) simp
  then show "distinct (map fst (fst (calc_weighted_states ts entries before dt)))"
    by (simp add: calc_weighted_states_def Let_def)
  show "total_share (fst (calc_weighted_states ts entries before dt)) = 1"
  proof (cases "entries = []")
    case False
    have "(al_date (last entries) - al_date (hd entries)) / timespan_seconds ts +
        (al_date (hd entries) - ts_start ts) / timespan_seconds ts +
        (ts_end ts - al_date (last entries)) / timespan_seconds ts = 1"
      using assms by (simp add: timespan_seconds_def add_divide_distrib [symmetric])
    then show ?thesis using False d pair_weights_total [of "[]" entries "timespan_seconds ts"]
      by (simp add: calc_weighted_states_def Let_def)
  qed (simp add: calc_weighted_states_def Let_def)
qed

text \<open>C26: for alerts of the span, in order, the weight of every state is the share of the time span during which it was
  the latest state (or the state before the span, or planned down when the span starts in a downtime), between 0
  and 1, and the weights sum to one.\<close>

theorem weighted_states_exact:
  assumes "ts_start ts < ts_end ts" "sorted (map al_date entries)"
    and "\<forall>a \<in> set entries. ts_start ts \<le> al_date a \<and> al_date a \<le> ts_end ts"
  shows "get0 (fst (calc_weighted_states ts entries before dt)) s =
      held s (state_line ts entries (if dt then (''PD'', ST_Planned_down) else before)) / (ts_end ts - ts_start ts) \<and>
    0 \<le> get0 (fst (calc_weighted_states ts entries before dt)) s \<and>
    get0 (fst (calc_weighted_states ts entries before dt)) s \<le> 1 \<and>
    total_share (fst (calc_weighted_states ts entries before dt)) = 1"
proof -
  let ?s0 = "if dt then (''PD'', ST_Planned_down) else before"
  have T: "timespan_seconds ts = ts_end ts - ts_start ts" "timespan_seconds ts \<noteq> 0"
    using assms(1) by (simp_all add: timespan_seconds_def)
  have "sorted (map fst (state_line ts entries ?s0))"
    using assms by (auto simp: state_line_def dated_def sorted_append comp_def)
  then have "0 \<le> held s (state_line ts entries ?s0)" "held s (state_line ts entries ?s0) \<le> ts_end ts - ts_start ts"
    using held_bounds [of "state_line ts entries ?s0" s] by (simp_all add: state_line_def)
  then show ?thesis
    using weighted_states_held [OF T(2), of entries before dt s] weighted_states_total(1) [OF T(2), of entries before dt] assms(1) T(1)
    by (simp add: divide_le_eq_1)
qed

theorem weighted_states_exact_witness:
  "get0 (fst (calc_weighted_states \<lparr>ts_start = 0, ts_end = 100\<rparr>
      [\<lparr>al_date = 25, al_state = ''D'', al_state_type = Hard, al_msg = []\<rparr>] (''UP'', Hard) False)) (Regular (''D'', Hard)) = 3 / 4"
  using weighted_states_exact [of "\<lparr>ts_start = 0, ts_end = 100\<rparr>"
      "[\<lparr>al_date = 25, al_state = ''D'', al_state_type = Hard, al_msg = []\<rparr>]" "(''UP'', Hard)" False "Regular (''D'', Hard)"]
  by (simp add: state_line_def dated_def state_of_def)

lemma share_where_total: "share_where (\<lambda>_. True) ws = total_share ws"
  by (induction ws) auto

lemma regular_add_to: "list_all (\<lambda>x. fst x \<noteq> Flapping) ws \<Longrightarrow> list_all (\<lambda>x. fst x \<noteq> Flapping) (add_to (Regular r) v ws)"
  by (induction ws) (auto simp: add_to_def get0_def)

lemma regular_pair_weights:
  "list_all (\<lambda>x. fst x \<noteq> Flapping) ws \<Longrightarrow> list_all (\<lambda>x. fst x \<noteq> Flapping) (pair_weights secs as ws)"
  by (induction secs as ws rule: pair_weights.induct) (simp_all add: regular_add_to)

lemma regular_keys: "list_all (\<lambda>x. fst x \<noteq> Flapping) (fst (calc_weighted_states ts entries before dt))"
  by (simp add: calc_weighted_states_def Let_def regular_add_to regular_pair_weights)

lemma filter_regular_update: "filter (\<lambda>(s, v). s \<noteq> Flapping) (AList.update Flapping r ws) = filter (\<lambda>(s, v). s \<noteq> Flapping) ws"
  by (induction ws) auto

lemma process_key_sum:
  assumes "process_key ts rd k = Inr (ws, l)" "ts_start ts \<noteq> ts_end ts"
  shows "sum_list (map snd (filter (\<lambda>(s, v). s \<noteq> Flapping) ws)) = 1"
proof -
  have T: "timespan_seconds ts \<noteq> 0" using assms(2) by (simp add: timespan_seconds_def)
  define before where "before = (case map_of (rd_last rd) k of Some s \<Rightarrow> s | None \<Rightarrow> (''UD'', ST_Undetermined))"
  define dt where "dt = (get_downtime_entry (at_key (rd_downtimes rd) k) (ts_start ts) \<noteq> None)"
  obtain entries where "add_downtimes_to_alerts (at_key (rd_alerts rd) k) (Some (StateTuple before)) (at_key (rd_downtimes rd) k) = Inr entries"
    using assms(1) by (auto simp: process_key_def Let_def bind_r_eq_Inr before_def)
  then have ws: "ws = fst (calc_weighted_states ts entries before dt) \<or>
      (\<exists>r. ws = AList.update Flapping r (fst (calc_weighted_states ts entries before dt)))"
    using assms(1) by (auto simp: process_key_def Let_def before_def [symmetric] dt_def split: prod.splits if_splits)
  let ?w = "fst (calc_weighted_states ts entries before dt)"
  have "filter (\<lambda>(s, v). s \<noteq> Flapping) ws = filter (\<lambda>(s, v). s \<noteq> Flapping) ?w"
    using ws by (auto simp: filter_regular_update)
  also have "\<dots> = ?w" using regular_keys [of ts entries before dt] by (auto simp: list_all_iff intro!: filter_True)
  finally show ?thesis
    using weighted_states_total(1) [OF T, of entries before dt] by (simp add: total_share_def)
qed

text \<open>The check for missing log entries never reports anything: the weights of a time span always sum to one,
  whatever alerts there are.\<close>

theorem missing_entries_never:
  assumes "process_key ts rd k = Inr (ws, l)" "ts_start ts \<noteq> ts_end ts"
  shows "\<not> missing_entries ws"
  using process_key_sum [OF assms] by (simp add: missing_entries_def)

theorem missing_entries_never_witness:
  "\<exists>ws l. process_key \<lparr>ts_start = 0, ts_end = 3600\<rparr> \<lparr>rd_alerts = [], rd_last = [], rd_downtimes = [], rd_flappings = []\<rparr> ''web'' = Inr (ws, l) \<and>
    \<not> missing_entries ws"
proof -
  let ?ts = "\<lparr>ts_start = 0, ts_end = 3600\<rparr>" and ?rd = "\<lparr>rd_alerts = [], rd_last = [], rd_downtimes = [], rd_flappings = []\<rparr>"
  have "process_key ?ts ?rd ''web'' = Inr ([(Regular (''UD'', ST_Undetermined), 1)], (''UD'', ST_Undetermined))"
    by (simp add: process_key_def add_downtimes_to_alerts_def at_key_def calc_weighted_states_def add_to_def get0_def
        calc_flapping_ratio_def get_downtime_entry_def Let_def)
  with missing_entries_never [OF this] show ?thesis by auto
qed

subsection \<open>Downtimes beyond the end of the span\<close>

lemma process_key_plain:
  assumes "add_downtimes_to_alerts (at_key (rd_alerts rd) k)
      (Some (StateTuple (case map_of (rd_last rd) k of Some s \<Rightarrow> s | None \<Rightarrow> (''UD'', ST_Undetermined)))) (at_key (rd_downtimes rd) k) = Inr entries"
    and "at_key (rd_flappings rd) k = []"
  shows "process_key ts rd k = Inr (calc_weighted_states ts entries
      (case map_of (rd_last rd) k of Some s \<Rightarrow> s | None \<Rightarrow> (''UD'', ST_Undetermined))
      (get_downtime_entry (at_key (rd_downtimes rd) k) (ts_start ts) \<noteq> None))"
  using assms by (simp add: process_key_def Let_def calc_flapping_ratio_def split: prod.split)

text \<open>C27: a downtime that begins in the time span and has ended after it by the time of the aggregation gets the weight
  of its whole length, and the state before it a weight that is too small by the time after the span: weights above
  one and below zero are stored.\<close>

theorem downtime_past_end_weights:
  assumes "at_key (rd_alerts rd) k = []" "at_key (rd_downtimes rd) k = [d]" "at_key (rd_flappings rd) k = []"
    and "map_of (rd_last rd) k = Some s" "s \<noteq> (''PD'', ST_Planned_down)" "downtime_ok d"
    and "ts_start ts < du_start d" "du_start d < ts_end ts" "ts_end ts < du_end d"
  shows "\<exists>ws l. process_key ts rd k = Inr (ws, l) \<and>
    get0 ws (Regular (''PD'', ST_Planned_down)) = (du_end d - du_start d) / (ts_end ts - ts_start ts) \<and>
    get0 ws (Regular s) = ((du_start d - ts_start ts) - (du_end d - ts_end ts)) / (ts_end ts - ts_start ts)"
proof -
  have T: "timespan_seconds ts = ts_end ts - ts_start ts" "timespan_seconds ts \<noteq> 0"
    using assms(7,8) by (simp_all add: timespan_seconds_def)
  have d: "du_start d < du_end d" "al_date (du_start_entry d) = du_start d" "state_of (du_start_entry d) = (''PD'', ST_Planned_down)"
    using assms(6) by (simp_all add: downtime_ok_def)
  have "sorted (map al_date [])" "unpackable (Some (StateTuple s)) \<or> alert_at [] (du_start d) \<noteq> None"
    by (simp_all add: unpackable_def)
  from add_one_downtime [OF this(1) assms(6) this(2)] obtain e where e: "al_date e = du_end d"
    "state_of e = end_of [] (Some (StateTuple s)) d"
    "add_downtimes_to_alerts [] (Some (StateTuple s)) [d] =
       Inr (sort_key al_date (filter (\<lambda>a. \<not> in_downtime (al_date a) d) [] @ [du_start_entry d, e]))" .
  have "sort_key al_date [du_start_entry d, e] = [du_start_entry d, e]"
    using d e(1) by (intro sort_key_id_if_sorted) simp
  moreover have "get_downtime_entry [d] (ts_start ts) = None"
    using assms(7) by (simp add: get_downtime_entry_def in_downtime_def)
  ultimately have p: "process_key ts rd k = Inr (calc_weighted_states ts [du_start_entry d, e] s False)"
    using process_key_plain [of rd k "[du_start_entry d, e]" ts] assms(1-4) e(3) by simp
  have "state_of e = s" using e(2) by (simp add: end_of_def alert_at_def)
  then have line: "state_line ts [du_start_entry d, e] s =
      [(ts_start ts, Regular s), (du_start d, Regular (''PD'', ST_Planned_down)), (du_end d, Regular s), (ts_end ts, Flapping)]"
    using d(2,3) e(1) by (simp add: state_line_def dated_def)
  let ?ws = "fst (calc_weighted_states ts [du_start_entry d, e] s False)"
  have "get0 ?ws (Regular (''PD'', ST_Planned_down)) = (du_end d - du_start d) / (ts_end ts - ts_start ts)"
    "get0 ?ws (Regular s) = ((du_start d - ts_start ts) - (du_end d - ts_end ts)) / (ts_end ts - ts_start ts)"
    using assms(5) by (simp_all add: weighted_states_held [OF T(2)] line T(1))
  with p show ?thesis by (cases "calc_weighted_states ts [du_start_entry d, e] s False") auto
qed

theorem downtime_past_end_weights_witness:
  "\<exists>ws l. process_key \<lparr>ts_start = 0, ts_end = 3600\<rparr>
      \<lparr>rd_alerts = [], rd_last = [(''web'', (''UP'', Hard))],
       rd_downtimes = [(''web'', [\<lparr>du_start = 1800, du_end = 9000,
         du_start_entry = \<lparr>al_date = 1800, al_state = ''PD'', al_state_type = ST_Planned_down, al_msg = ''''\<rparr>,
         du_end_entry = Some \<lparr>al_date = 9000, al_state = ''PD'', al_state_type = ST_Planned_down, al_msg = ''''\<rparr>\<rparr>])],
       rd_flappings = []\<rparr> ''web'' = Inr (ws, l) \<and>
    get0 ws (Regular (''PD'', ST_Planned_down)) = 2 \<and> get0 ws (Regular (''UP'', Hard)) = - 1"
proof -
  let ?d = "\<lparr>du_start = 1800, du_end = 9000,
    du_start_entry = \<lparr>al_date = 1800, al_state = ''PD'', al_state_type = ST_Planned_down, al_msg = ''''\<rparr>,
    du_end_entry = Some \<lparr>al_date = 9000, al_state = ''PD'', al_state_type = ST_Planned_down, al_msg = ''''\<rparr>\<rparr>"
  let ?rd = "\<lparr>rd_alerts = [], rd_last = [(''web'', (''UP'', Hard))], rd_downtimes = [(''web'', [?d])], rd_flappings = []\<rparr>"
  have "downtime_ok ?d" by (simp add: downtime_ok_def state_of_def)
  then show ?thesis
    using downtime_past_end_weights [of ?rd "''web''" ?d "(''UP'', Hard)" "\<lparr>ts_start = 0, ts_end = 3600\<rparr>"]
    by (simp add: at_key_def)
qed

subsection \<open>Averages of shorter spans\<close>

lemma sum_list_group:
  assumes "finite T" "\<forall>x \<in> set xs. g x \<in> T"
  shows "sum_list (map f xs) = (\<Sum>t \<in> T. sum_list (map f (filter (\<lambda>x. g x = t) xs)))"
  using assms(2)
proof (induction xs)
  case (Cons x xs)
  have "(\<Sum>t \<in> T. sum_list (map f (filter (\<lambda>y. g y = t) (x # xs)))) =
      (\<Sum>t \<in> T. (if g x = t then f x else 0) + sum_list (map f (filter (\<lambda>y. g y = t) xs)))"
    by (intro sum.cong) auto
  also have "\<dots> = f x + sum_list (map f xs)"
    using Cons assms(1) by (simp add: sum.distrib)
  finally show ?case by simp
qed simp

lemma share_where_fold:
  "distinct (map fst d) \<Longrightarrow>
   share_where P (fold (\<lambda>r. add_to (f r) (v r)) rows d) = share_where P d + sum_list (map v (filter (\<lambda>r. P (f r)) rows))"
  by (induction rows arbitrary: d) (auto simp: share_where_add_to)

lemma distinct_fold_add_to: "distinct (map fst d) \<Longrightarrow> distinct (map fst (fold (\<lambda>r. add_to (f r) (v r)) rows d))"
  by (induction rows arbitrary: d) simp_all

lemma add_undetermined_share:
  assumes "distinct (map fst d)"
  shows "distinct (map fst (add_undetermined rows k d))"
    and "share_where P (add_undetermined rows k d) = share_where P d +
      (if P (k, Regular (''UD'', ST_Undetermined)) then of_nat (count_timespans rows - length (timespans_of rows k)) else 0)"
proof -
  let ?l = "[length (timespans_of rows k)..<count_timespans rows]" and ?u = "(k, Regular (''UD'', ST_Undetermined))"
  show "distinct (map fst (add_undetermined rows k d))"
    unfolding add_undetermined_def using assms by (rule distinct_fold_add_to)
  have "share_where P (fold (\<lambda>_. add_to ?u 1) ?l d) = share_where P d + sum_list (map (\<lambda>_. 1) (filter (\<lambda>_. P ?u) ?l))"
    using assms by (rule share_where_fold)
  then show "share_where P (add_undetermined rows k d) = share_where P d +
      (if P ?u then of_nat (count_timespans rows - length (timespans_of rows k)) else 0)"
    by (simp add: add_undetermined_def sum_list_triv)
qed

lemma fold_undetermined_share:
  assumes "distinct (map fst d)" "distinct ks"
  shows "share_where P (fold (add_undetermined rows) ks d) = share_where P d +
    sum_list (map (\<lambda>k. if P (k, Regular (''UD'', ST_Undetermined)) then of_nat (count_timespans rows - length (timespans_of rows k)) else 0) ks)"
  using assms
proof (induction ks arbitrary: d)
  case (Cons k ks)
  then show ?case
    using add_undetermined_share(1) [of d rows k] add_undetermined_share(2) [of d P rows k] by simp
qed simp

text \<open>The value of the rows of a key and of the states of a kind.\<close>

definition rows_value :: "'k \<Rightarrow> (agg_state \<Rightarrow> bool) \<Rightarrow> 'k agg_row list \<Rightarrow> py_float" where
  "rows_value k P rows = sum_list (map ag_value (filter (\<lambda>r. ag_key r = k \<and> P (ag_state r)) rows))"

lemma rows_value_created:
  assumes "k \<in> ag_key ` set rows"
  shows "rows_value k P (create_entries_incrementally ts_id rows) =
    (rows_value k P rows + (if P (Regular (''UD'', ST_Undetermined)) then of_nat (count_timespans rows - length (timespans_of rows k)) else 0)) /
    of_nat (count_timespans rows)"
proof -
  let ?Q = "\<lambda>(k', s). k' = k \<and> P s" and ?ks = "remdups (map ag_key rows)"
  let ?u = "\<lambda>k. of_nat (count_timespans rows - length (timespans_of rows k)) :: py_float"
  define d where "d = fold (add_undetermined rows) ?ks (data_sum rows)"
  have "share_where ?Q (data_sum rows) = rows_value k P rows"
    unfolding data_sum_def rows_value_def by (subst share_where_fold) simp_all
  moreover have "distinct (map fst (data_sum rows))"
    unfolding data_sum_def by (rule distinct_fold_add_to) simp
  moreover have "sum_list (map (\<lambda>j. if ?Q (j, Regular (''UD'', ST_Undetermined)) then ?u j else 0) ?ks) =
      (if P (Regular (''UD'', ST_Undetermined)) then ?u k else 0)"
    using assms by (subst sum_list_distinct_conv_sum_set) (auto simp: sum.delta image_iff)
  ultimately have d: "share_where ?Q d = rows_value k P rows + (if P (Regular (''UD'', ST_Undetermined)) then ?u k else 0)"
    unfolding d_def by (subst fold_undetermined_share) auto
  have "rows_value k P (map (\<lambda>((k, s), v). \<lparr>ag_timespan = ts_id, ag_key = k, ag_state = s, ag_value = v / c\<rparr>) l) = share_where ?Q l / c" for c l
    by (induction l) (auto simp: rows_value_def add_divide_distrib)
  with d show ?thesis by (simp add: create_entries_incrementally_def Let_def d_def)
qed

lemma rows_value_timespans:
  "rows_value k P rows = (\<Sum>t \<in> set (timespans_of rows k). rows_value k P (filter (\<lambda>r. ag_timespan r = t) rows))"
proof -
  let ?rs = "filter (\<lambda>r. ag_key r = k \<and> P (ag_state r)) rows"
  have "rows_value k P rows = (\<Sum>t \<in> set (timespans_of rows k). sum_list (map ag_value (filter (\<lambda>r. ag_timespan r = t) ?rs)))"
    unfolding rows_value_def by (rule sum_list_group) (auto simp: timespans_of_def)
  then show ?thesis by (simp add: rows_value_def conj_commute cong: conj_cong)
qed

lemma timespans_of_le: "length (timespans_of rows k) \<le> count_timespans rows"
  by (simp add: timespans_of_def count_timespans_def length_remdups_card_conv card_mono image_mono)

lemma incremental_sum:
  assumes "k \<in> ag_key ` set rows"
    and "\<forall>t \<in> set (timespans_of rows k). rows_value k (\<lambda>s. s \<noteq> Flapping) (filter (\<lambda>r. ag_timespan r = t) rows) = 1"
  shows "rows_value k (\<lambda>s. s \<noteq> Flapping) (create_entries_incrementally ts_id rows) = 1 \<and>
    rows_value k (\<lambda>x. x = s) (create_entries_incrementally ts_id rows) =
      (rows_value k (\<lambda>x. x = s) rows +
       (if s = Regular (''UD'', ST_Undetermined) then of_nat (count_timespans rows - length (timespans_of rows k)) else 0)) /
      of_nat (count_timespans rows)"
proof -
  let ?n = "count_timespans rows" and ?m = "length (timespans_of rows k)"
  have "rows_value k (\<lambda>s. s \<noteq> Flapping) rows = (\<Sum>t \<in> set (timespans_of rows k). 1)"
    unfolding rows_value_timespans [of k _ rows] using assms(2) by (intro sum.cong) auto
  also have "\<dots> = of_nat ?m" by (simp add: timespans_of_def length_remdups_card_conv)
  finally have v: "rows_value k (\<lambda>s. s \<noteq> Flapping) rows = of_nat ?m" .
  have "?n \<noteq> 0" using assms(1) by (auto simp: count_timespans_def)
  moreover have "(of_nat ?m :: py_float) + of_nat (?n - ?m) = of_nat ?n"
    using timespans_of_le [of rows k] by (simp add: of_nat_add [symmetric] del: of_nat_add)
  ultimately show ?thesis using v by (simp add: rows_value_created [OF assms(1)])
qed

text \<open>A longer time span: for every key that has entries the value of a state is the average over the shorter spans,
  where a span without entries of the key counts as undetermined; when the weights of every shorter span sum to one, so
  do those of the longer one.\<close>

theorem incremental_average:
  assumes "k \<in> ag_key ` set rows"
    and "\<forall>t \<in> set (timespans_of rows k). rows_value k (\<lambda>s. s \<noteq> Flapping) (filter (\<lambda>r. ag_timespan r = t) rows) = 1"
  shows "rows_value k (\<lambda>s. s \<noteq> Flapping) (create_entries_incrementally ts_id rows) = 1 \<and>
    rows_value k (\<lambda>x. x = s) (create_entries_incrementally ts_id rows) =
      (rows_value k (\<lambda>x. x = s) rows +
       (if s = Regular (''UD'', ST_Undetermined) then of_nat (count_timespans rows - length (timespans_of rows k)) else 0)) /
      of_nat (count_timespans rows)"
  using assms by (rule incremental_sum)

theorem incremental_average_witness:
  "rows_value ''web'' (\<lambda>x. x = Regular (''UD'', ST_Undetermined)) (create_entries_incrementally 7
     [\<lparr>ag_timespan = 1, ag_key = ''web'', ag_state = Regular (''UP'', Hard), ag_value = 1\<rparr>,
      \<lparr>ag_timespan = 2, ag_key = ''db'', ag_state = Regular (''UP'', Hard), ag_value = 1\<rparr>]) = 1 / 2"
  using incremental_average [of "''web''" "[\<lparr>ag_timespan = 1, ag_key = ''web'', ag_state = Regular (''UP'', Hard), ag_value = 1\<rparr>,
      \<lparr>ag_timespan = 2, ag_key = ''db'', ag_state = Regular (''UP'', Hard), ag_value = 1\<rparr>]" 7 "Regular (''UD'', ST_Undetermined)"]
  by (simp add: timespans_of_def rows_value_def count_timespans_def)

subsection \<open>Flapping\<close>

text \<open>The intervals the pairing gives overlap the span, so none of them counts negatively, and together they never
  count more than the span when they do not overlap each other.\<close>

lemma flapping_ratio_bounds:
  assumes "ts_start ts < ts_end ts" "\<forall>f \<in> set fs. ts_start ts \<le> du_end f \<and> du_start f \<le> ts_end ts \<and> du_start f \<le> du_end f"
    and "sorted_wrt (\<lambda>f g. du_end f \<le> du_start g) fs"
  shows "0 \<le> calc_flapping_ratio ts fs \<and> calc_flapping_ratio ts fs \<le> 1"
proof -
  have "0 \<le> sum_list (map (\<lambda>f. min (du_end f) (ts_end ts) - max (du_start f) a) fs) \<and>
      sum_list (map (\<lambda>f. min (du_end f) (ts_end ts) - max (du_start f) a) fs) \<le> ts_end ts - a"
    if "a \<le> ts_end ts" "\<forall>f \<in> set fs. a \<le> du_end f" "\<forall>f \<in> set fs. du_start f \<le> ts_end ts \<and> du_start f \<le> du_end f"
      "sorted_wrt (\<lambda>f g. du_end f \<le> du_start g) fs" for a fs
    using that
  proof (induction fs arbitrary: a)
    case (Cons f fs)
    let ?b = "min (du_end f) (ts_end ts)"
    have "max (du_start g) a = max (du_start g) ?b" if "g \<in> set fs" for g
    proof -
      have "du_end f \<le> du_start g" "du_start g \<le> ts_end ts" "a \<le> du_end f" using that Cons.prems by auto
      then show ?thesis by simp
    qed
    then have eq: "map (\<lambda>f. min (du_end f) (ts_end ts) - max (du_start f) a) fs = map (\<lambda>f. min (du_end f) (ts_end ts) - max (du_start f) ?b) fs"
      by simp
    define S where "S = sum_list (map (\<lambda>f. min (du_end f) (ts_end ts) - max (du_start f) ?b) fs)"
    have "0 \<le> S \<and> S \<le> ts_end ts - ?b"
      unfolding S_def
    proof (rule Cons.IH)
      show "\<forall>g \<in> set fs. ?b \<le> du_end g"
        using Cons.prems(3,4) by (auto intro!: min.coboundedI1 intro: order_trans)
    qed (use Cons.prems in auto)
    moreover have "max (du_start f) a \<le> ?b" "a \<le> max (du_start f) a" using Cons.prems by auto
    moreover have "sum_list (map (\<lambda>f. min (du_end f) (ts_end ts) - max (du_start f) a) (f # fs)) = ?b - max (du_start f) a + S"
      by (simp only: list.map sum_list.Cons eq S_def)
    ultimately show ?case by linarith
  qed simp
  from this [of "ts_start ts" fs] show ?thesis
    using assms by (simp add: calc_flapping_ratio_def timespan_seconds_def divide_le_eq_1)
qed

end
