(* ===== verification/Durations.thy ===== *)
theory Durations
  imports Prelude
begin

section \<open>Calendar durations (cluster/backbone/models/functions.py, models/kpi.py, frontend/common.py)\<close>

text \<open>
  Aggregated data is kept per hour, day, week, month, year and decade. A duration class gives the start of the time
  frame of a point in time and the end of a frame that starts at a given time. The model has Python's dates without time
  zone (the source asks not to use one): the proleptic Gregorian calendar of the years 1 to 9999, with the addition of
  days as iterated steps to the next or previous day.
\<close>

subsection \<open>Dates of Python\<close>

record datetime =
  dt_year :: int
  dt_month :: int
  dt_day :: int
  dt_hour :: int
  dt_minute :: int
  dt_second :: int
  dt_micro :: int

definition is_leap :: "int \<Rightarrow> bool" where
  "is_leap y \<longleftrightarrow> y mod 4 = 0 \<and> (y mod 100 \<noteq> 0 \<or> y mod 400 = 0)"

definition days_in_month :: "int \<Rightarrow> int \<Rightarrow> int" where
  "days_in_month y m = (if m = 2 then (if is_leap y then 29 else 28) else if m \<in> {4, 6, 9, 11} then 30 else 31)"

definition next_day :: "datetime \<Rightarrow> datetime" where
  "next_day d =
     (if dt_day d < days_in_month (dt_year d) (dt_month d) then d\<lparr>dt_day := dt_day d + 1\<rparr>
      else if dt_month d < 12 then d\<lparr>dt_month := dt_month d + 1, dt_day := 1\<rparr>
      else d\<lparr>dt_year := dt_year d + 1, dt_month := 1, dt_day := 1\<rparr>)"

lemma next_day_code [code]:
  "next_day \<lparr>dt_year = y, dt_month = m, dt_day = d, dt_hour = h, dt_minute = mi, dt_second = s, dt_micro = u\<rparr> =
     (if d < days_in_month y m
      then \<lparr>dt_year = y, dt_month = m, dt_day = d + 1, dt_hour = h, dt_minute = mi, dt_second = s, dt_micro = u\<rparr>
      else if m < 12
      then \<lparr>dt_year = y, dt_month = m + 1, dt_day = 1, dt_hour = h, dt_minute = mi, dt_second = s, dt_micro = u\<rparr>
      else \<lparr>dt_year = y + 1, dt_month = 1, dt_day = 1, dt_hour = h, dt_minute = mi, dt_second = s, dt_micro = u\<rparr>)"
  by (simp add: next_day_def)

definition prev_day :: "datetime \<Rightarrow> datetime" where
  "prev_day d =
     (if 1 < dt_day d then d\<lparr>dt_day := dt_day d - 1\<rparr>
      else if 1 < dt_month d then d\<lparr>dt_month := dt_month d - 1, dt_day := days_in_month (dt_year d) (dt_month d - 1)\<rparr>
      else d\<lparr>dt_year := dt_year d - 1, dt_month := 12, dt_day := 31\<rparr>)"

definition valid_date :: "datetime \<Rightarrow> bool" where
  "valid_date d \<longleftrightarrow> 1 \<le> dt_month d \<and> dt_month d \<le> 12 \<and> 1 \<le> dt_day d \<and> dt_day d \<le> days_in_month (dt_year d) (dt_month d)"

definition valid_time :: "datetime \<Rightarrow> bool" where
  "valid_time d \<longleftrightarrow> 0 \<le> dt_hour d \<and> dt_hour d < 24 \<and> 0 \<le> dt_minute d \<and> dt_minute d < 60 \<and>
     0 \<le> dt_second d \<and> dt_second d < 60 \<and> 0 \<le> dt_micro d \<and> dt_micro d < 1000000"

definition valid_dt :: "datetime \<Rightarrow> bool" where
  "valid_dt d \<longleftrightarrow> 1 \<le> dt_year d \<and> dt_year d \<le> 9999 \<and> valid_date d \<and> valid_time d"

text \<open>Other dates can not be built in Python.\<close>

definition checked :: "datetime \<Rightarrow> datetime res" where
  "checked d = (if valid_dt d then Inr d else Inl OverflowError)"

definition add_days :: "nat \<Rightarrow> datetime \<Rightarrow> datetime res" where
  "add_days n d = bind_r (checked d) (\<lambda>d. checked ((next_day ^^ n) d))"

definition sub_days :: "nat \<Rightarrow> datetime \<Rightarrow> datetime res" where
  "sub_days n d = bind_r (checked d) (\<lambda>d. checked ((prev_day ^^ n) d))"

definition add_hour :: "datetime \<Rightarrow> datetime res" where
  "add_hour d = bind_r (checked d) (\<lambda>d.
     checked (if dt_hour d < 23 then d\<lparr>dt_hour := dt_hour d + 1\<rparr> else (next_day d)\<lparr>dt_hour := 0\<rparr>))"

definition add_second :: "datetime \<Rightarrow> datetime res" where
  "add_second d = bind_r (checked d) (\<lambda>d.
     if dt_second d < 59 then checked (d\<lparr>dt_second := dt_second d + 1\<rparr>)
     else if dt_minute d < 59 then checked (d\<lparr>dt_second := 0, dt_minute := dt_minute d + 1\<rparr>)
     else add_hour (d\<lparr>dt_second := 0, dt_minute := 0\<rparr>))"

definition sub_second :: "datetime \<Rightarrow> datetime res" where
  "sub_second d = bind_r (checked d) (\<lambda>d.
     if 0 < dt_second d then checked (d\<lparr>dt_second := dt_second d - 1\<rparr>)
     else if 0 < dt_minute d then checked (d\<lparr>dt_second := 59, dt_minute := dt_minute d - 1\<rparr>)
     else if 0 < dt_hour d then checked (d\<lparr>dt_second := 59, dt_minute := 59, dt_hour := dt_hour d - 1\<rparr>)
     else checked ((prev_day d)\<lparr>dt_second := 59, dt_minute := 59, dt_hour := 23\<rparr>))"

definition dt_fields :: "datetime \<Rightarrow> int list" where
  "dt_fields d = [dt_year d, dt_month d, dt_day d, dt_hour d, dt_minute d, dt_second d, dt_micro d]"

definition dt_less :: "datetime \<Rightarrow> datetime \<Rightarrow> bool" where
  "dt_less a b \<longleftrightarrow> dt_fields a < dt_fields b"

text \<open>The ordinal of a date (1 January of the year 1 has ordinal 1) and the day of the week, 0 for Monday.\<close>

definition days_before_year :: "int \<Rightarrow> int" where
  "days_before_year y = 365 * (y - 1) + (y - 1) div 4 - (y - 1) div 100 + (y - 1) div 400"

definition days_before_month :: "int \<Rightarrow> int \<Rightarrow> int" where
  "days_before_month y m = sum_list (map (days_in_month y) [1..m - 1])"

definition toordinal :: "datetime \<Rightarrow> int" where
  "toordinal d = days_before_year (dt_year d) + days_before_month (dt_year d) (dt_month d) + dt_day d"

definition weekday :: "datetime \<Rightarrow> int" where
  "weekday d = (toordinal d + 6) mod 7"

subsection \<open>The duration classes\<close>

datatype duration = Hour | Day | Week | Month | Year | Decade

definition duration_id :: "duration \<Rightarrow> int" where
  "duration_id c = (case c of Day \<Rightarrow> 1 | Month \<Rightarrow> 2 | Hour \<Rightarrow> 3 | Week \<Rightarrow> 4 | Year \<Rightarrow> 5 | Decade \<Rightarrow> 6)"

definition get_class :: "int \<Rightarrow> duration res" where
  "get_class i = (case filter (\<lambda>c. i = duration_id c) [Hour, Day, Week, Month, Year, Decade] of
     c # _ \<Rightarrow> Inr c | [] \<Rightarrow> Inl PlainException)"

definition start_of_hour :: "datetime \<Rightarrow> datetime" where
  "start_of_hour t = t\<lparr>dt_minute := 0, dt_second := 0, dt_micro := 0\<rparr>"

definition start_of_day :: "datetime \<Rightarrow> datetime" where
  "start_of_day t = t\<lparr>dt_hour := 0, dt_minute := 0, dt_second := 0, dt_micro := 0\<rparr>"

text \<open>The decade of the years 1 to 9 would start in the year 0, which \<open>replace\<close> refuses.\<close>

definition get_time_frame_start :: "duration \<Rightarrow> datetime \<Rightarrow> datetime res" where
  "get_time_frame_start c t =
     (case c of
        Hour \<Rightarrow> Inr (start_of_hour t)
      | Day \<Rightarrow> Inr (start_of_day t)
      | Week \<Rightarrow> (let d = start_of_day t in sub_days (nat (weekday d)) d)
      | Month \<Rightarrow> Inr ((start_of_day t)\<lparr>dt_day := 1\<rparr>)
      | Year \<Rightarrow> Inr ((start_of_day t)\<lparr>dt_month := 1, dt_day := 1\<rparr>)
      | Decade \<Rightarrow>
          if dt_year t < 10 then Inl ValueError
          else Inr ((start_of_day t)\<lparr>dt_month := 1, dt_day := 1, dt_year := 10 * (dt_year t div 10)\<rparr>))"

definition get_end_time_for_start :: "duration \<Rightarrow> datetime \<Rightarrow> datetime res" where
  "get_end_time_for_start c s =
     (case c of
        Hour \<Rightarrow> add_hour s
      | Day \<Rightarrow> add_days 1 s
      | Week \<Rightarrow> add_days 7 s
      | Month \<Rightarrow> bind_r (add_days 35 s) (get_time_frame_start Month)
      | Year \<Rightarrow> bind_r (add_days 370 s) (get_time_frame_start Year)
      | Decade \<Rightarrow> bind_r (add_days 3660 s) (get_time_frame_start Decade))"

definition shorter :: "duration \<Rightarrow> duration option" where
  "shorter c = (case c of Hour \<Rightarrow> None | Day \<Rightarrow> Some Hour | Week \<Rightarrow> Some Day | Month \<Rightarrow> Some Week | Year \<Rightarrow> Some Month
     | Decade \<Rightarrow> Some Year)"

definition get_shorter_duration :: "duration \<Rightarrow> duration res" where
  "get_shorter_duration c = (case shorter c of Some s \<Rightarrow> Inr s | None \<Rightarrow> Inl ValueError)"

subsection \<open>Ordinals\<close>

lemma is_leap_iff: "is_leap y \<longleftrightarrow> 4 dvd y \<and> (\<not> 100 dvd y \<or> 400 dvd y)"
  by (auto simp: is_leap_def mod_eq_0_iff_dvd)

lemma div_pred: "0 < k \<Longrightarrow> y div k = (y - 1) div k + (if k dvd y then 1 else 0)" for y k :: int
proof -
  assume k: "0 < k"
  show ?thesis
  proof (cases "k dvd y")
    case True
    then obtain q where y: "y = k * q" by (rule dvdE)
    have "(y - 1) div k = q - 1"
      by (rule int_div_pos_eq [where r = "k - 1"]) (use k y in \<open>simp_all add: algebra_simps\<close>)
    then show ?thesis using k y by simp
  next
    case False
    then have r: "0 < y mod k" using k pos_mod_sign [of k y] by (simp add: dvd_eq_mod_eq_0 order_less_le)
    have b: "y mod k < k" using k by (rule pos_mod_bound)
    have "(y - 1) div k = y div k"
      by (rule int_div_pos_eq [where r = "y mod k - 1"]) (use r b mult_div_mod_eq [of k y] in linarith)+
    then show ?thesis using False by simp
  qed
qed

definition days_in_year :: "int \<Rightarrow> int" where
  "days_in_year y = (if is_leap y then 366 else 365)"

lemma days_before_next_year: "days_before_year (y + 1) = days_before_year y + days_in_year y"
proof -
  define p where "p k = (if k dvd y then 1 else 0 :: int)" for k
  have "y div k = (y - 1) div k + p k" if "0 < k" for k unfolding p_def by (rule div_pred [OF that])
  note d = this [of 4, simplified] this [of 100, simplified] this [of 400, simplified]
  have "100 dvd y \<Longrightarrow> 4 dvd y" "400 dvd y \<Longrightarrow> 100 dvd y"
    by (erule dvd_trans [rotated], simp)+
  then have "p 4 - p 100 + p 400 = (if is_leap y then 1 else 0)"
    by (auto simp only: p_def is_leap_iff split: if_splits)
  then have "days_in_year y = 365 + p 4 - p 100 + p 400" by (simp add: days_in_year_def split: if_splits)
  then show ?thesis
    unfolding days_before_year_def by (simp only: add_diff_cancel_right' d [symmetric]) (simp only: d algebra_simps)
qed

lemma days_before_year_mono: "y \<le> z \<Longrightarrow> days_before_year y \<le> days_before_year z"
proof (induction z rule: int_ge_induct)
  case (step i)
  then show ?case by (simp add: days_before_next_year days_in_year_def)
qed simp

lemma days_in_month_bounds: "28 \<le> days_in_month y m" "days_in_month y m \<le> 31"
  by (simp_all add: days_in_month_def)

lemma days_before_next_month: "1 \<le> m \<Longrightarrow> days_before_month y (m + 1) = days_before_month y m + days_in_month y m"
  by (simp add: days_before_month_def upto_rec2)

lemma days_before_month_1 [simp]: "days_before_month y 1 = 0"
  by (simp add: days_before_month_def)

lemma days_before_month_13: "days_before_month y 13 = days_in_year y"
  by (simp add: days_before_month_def days_in_month_def days_in_year_def upto_rec1 [of _ 12])

lemma days_before_month_mono: "m \<le> n \<Longrightarrow> 1 \<le> m \<Longrightarrow> days_before_month y m \<le> days_before_month y n"
proof (induction n rule: int_ge_induct)
  case (step i)
  then show ?case using days_in_month_bounds(1) [of y i] by (simp add: days_before_next_month)
qed simp

lemma days_before_month_nonneg: "1 \<le> m \<Longrightarrow> 0 \<le> days_before_month y m"
  using days_before_month_mono [of 1 m y] by simp

lemma day_in_year:
  assumes "valid_date d"
  shows "0 < days_before_month (dt_year d) (dt_month d) + dt_day d"
    and "days_before_month (dt_year d) (dt_month d) + dt_day d \<le> days_in_year (dt_year d)"
proof -
  have "0 \<le> days_before_month (dt_year d) (dt_month d)"
    "days_before_month (dt_year d) (dt_month d + 1) \<le> days_before_month (dt_year d) 13"
    using assms by (auto simp: valid_date_def intro!: days_before_month_mono days_before_month_nonneg)
  then show "0 < days_before_month (dt_year d) (dt_month d) + dt_day d"
    and "days_before_month (dt_year d) (dt_month d) + dt_day d \<le> days_in_year (dt_year d)"
    using assms by (simp_all add: valid_date_def days_before_next_month days_before_month_13)
qed

lemma ordinal_in_year:
  assumes "valid_date d"
  shows "days_before_year (dt_year d) < toordinal d" "toordinal d \<le> days_before_year (dt_year d + 1)"
  using day_in_year [OF assms] by (simp_all add: toordinal_def days_before_next_year)

text \<open>The year and the month of a date are determined by its ordinal.\<close>

lemma year_of_ordinal:
  assumes "valid_date d" "days_before_year y < toordinal d" "toordinal d \<le> days_before_year (y + 1)"
  shows "dt_year d = y"
proof (rule ccontr)
  assume "dt_year d \<noteq> y"
  then consider "dt_year d + 1 \<le> y" | "y + 1 \<le> dt_year d" by linarith
  then show False
    using days_before_year_mono [of "dt_year d + 1" y] days_before_year_mono [of "y + 1" "dt_year d"]
      ordinal_in_year [OF assms(1)] assms(2,3) by cases auto
qed

lemma month_of_ordinal:
  assumes "valid_date d" "1 \<le> m" "m \<le> 12"
    and "days_before_year y + days_before_month y m < toordinal d" "toordinal d \<le> days_before_year y + days_before_month y (m + 1)"
  shows "dt_year d = y \<and> dt_month d = m"
proof -
  have "days_before_month y (m + 1) \<le> days_before_month y 13" "0 \<le> days_before_month y m"
    using assms(2,3) by (auto intro!: days_before_month_mono days_before_month_nonneg)
  then have y: "dt_year d = y"
    using assms by (intro year_of_ordinal) (simp_all add: days_before_next_year days_before_month_13)
  have o: "days_before_month y m < days_before_month y (dt_month d) + dt_day d"
    "days_before_month y (dt_month d) + dt_day d \<le> days_before_month y (m + 1)"
    using assms(4,5) y by (simp_all add: toordinal_def)
  have "dt_month d = m"
  proof (rule ccontr)
    assume "dt_month d \<noteq> m"
    then consider "dt_month d + 1 \<le> m" | "m + 1 \<le> dt_month d" by linarith
    then show False
      using days_before_month_mono [of "dt_month d + 1" m y] days_before_month_mono [of "m + 1" "dt_month d" y]
        days_before_next_month [of "dt_month d" y] o assms(1,2) y
      by cases (auto simp: valid_date_def)
  qed
  with y show ?thesis by simp
qed

lemma ordinal_inj:
  assumes "valid_date a" "valid_date b" "toordinal a = toordinal b"
  shows "dt_year a = dt_year b \<and> dt_month a = dt_month b \<and> dt_day a = dt_day b"
proof -
  have "dt_year a = dt_year b \<and> dt_month a = dt_month b"
    using assms by (intro month_of_ordinal) (auto simp: toordinal_def valid_date_def days_before_next_month)
  with assms(3) show ?thesis by (simp add: toordinal_def)
qed

lemma next_day_valid: "valid_date d \<Longrightarrow> valid_date (next_day d)"
  using days_in_month_bounds(1) [of "dt_year d" "dt_month d + 1"] days_in_month_bounds(1) [of "dt_year d + 1" 1]
  by (auto simp: valid_date_def next_day_def)

lemma next_day_ordinal: "valid_date d \<Longrightarrow> toordinal (next_day d) = toordinal d + 1"
  using days_before_next_month [of "dt_month d" "dt_year d"] days_before_month_13 [of "dt_year d"]
  by (auto simp: valid_date_def next_day_def toordinal_def days_before_next_year)

lemma prev_day_valid: "valid_date d \<Longrightarrow> valid_date (prev_day d)"
  using days_in_month_bounds(1) [of "dt_year d" "dt_month d - 1"]
  by (auto simp: valid_date_def prev_day_def) (simp add: days_in_month_def)

lemma prev_day_ordinal: "valid_date d \<Longrightarrow> toordinal (prev_day d) = toordinal d - 1"
proof -
  assume d: "valid_date d"
  have "days_before_month y 12 + 31 = days_in_year y" for y
    using days_before_month_13 [of y] days_before_next_month [of 12 y] by (simp add: days_in_month_def)
  from this [of "dt_year d - 1"] show ?thesis
    using d days_before_next_month [of "dt_month d - 1" "dt_year d"] days_before_next_year [of "dt_year d - 1"]
    by (auto simp: valid_date_def prev_day_def toordinal_def)
qed

definition same_time :: "datetime \<Rightarrow> datetime \<Rightarrow> bool" where
  "same_time a b \<longleftrightarrow> dt_hour a = dt_hour b \<and> dt_minute a = dt_minute b \<and> dt_second a = dt_second b \<and> dt_micro a = dt_micro b"

lemma next_days:
  "valid_date d \<Longrightarrow> valid_date ((next_day ^^ n) d) \<and> toordinal ((next_day ^^ n) d) = toordinal d + int n \<and>
    same_time ((next_day ^^ n) d) d"
  by (induction n) (auto simp: next_day_valid next_day_ordinal same_time_def, simp_all add: next_day_def)

lemma prev_days:
  "valid_date d \<Longrightarrow> valid_date ((prev_day ^^ n) d) \<and> toordinal ((prev_day ^^ n) d) = toordinal d - int n \<and>
    same_time ((prev_day ^^ n) d) d"
  by (induction n) (auto simp: prev_day_valid prev_day_ordinal same_time_def, simp_all add: prev_day_def)

lemma checked_Inr: "checked d = Inr e \<longleftrightarrow> valid_dt d \<and> e = d"
  by (auto simp: checked_def)

lemma add_days_Inr:
  assumes "add_days n d = Inr e"
  shows "valid_dt d" "valid_dt e" "toordinal e = toordinal d + int n" "same_time e d"
  using assms next_days [of d n] by (auto simp: add_days_def bind_r_eq_Inr checked_Inr valid_dt_def)

lemma sub_days_Inr:
  assumes "sub_days n d = Inr e"
  shows "valid_dt d" "valid_dt e" "toordinal e = toordinal d - int n" "same_time e d"
  using assms prev_days [of d n] by (auto simp: sub_days_def bind_r_eq_Inr checked_Inr valid_dt_def)

subsection \<open>Dates as numbers\<close>

text \<open>Python compares dates by their parts; for dates that can be built this is the order of the microseconds since the
  start of the calendar.\<close>

definition time_micros :: "datetime \<Rightarrow> int" where
  "time_micros d = ((dt_hour d * 60 + dt_minute d) * 60 + dt_second d) * 1000000 + dt_micro d"

definition micros :: "datetime \<Rightarrow> int" where
  "micros d = toordinal d * 86400000000 + time_micros d"

lemma time_micros_bounds: "valid_time d \<Longrightarrow> 0 \<le> time_micros d" "valid_time d \<Longrightarrow> time_micros d < 86400000000"
  by (simp_all add: valid_time_def time_micros_def)

lemma same_time_micros: "same_time a b \<Longrightarrow> time_micros a = time_micros b"
  by (simp add: same_time_def time_micros_def)

lemma ordinal_micros: "valid_time d \<Longrightarrow> toordinal d = micros d div 86400000000"
  using time_micros_bounds [of d] by (simp add: micros_def)

lemma time_micros_mod: "valid_time d \<Longrightarrow> time_micros d = micros d mod 86400000000"
  using time_micros_bounds [of d] by (simp add: micros_def)

lemma digits_inj:
  fixes a b r s k :: int
  assumes "a * k + r = b * k + s" "0 \<le> r" "r < k" "0 \<le> s" "s < k"
  shows "a = b \<and> r = s"
proof -
  have "(a * k + r) div k = a" "(b * k + s) div k = b" using assms(2-) by simp_all
  with assms(1) show ?thesis by simp
qed

lemma time_micros_inj:
  assumes "valid_time a" "valid_time b" "time_micros a = time_micros b"
  shows "same_time a b"
proof -
  note v = assms(1,2) [unfolded valid_time_def]
  have s: "(dt_hour a * 60 + dt_minute a) * 60 + dt_second a = (dt_hour b * 60 + dt_minute b) * 60 + dt_second b \<and> dt_micro a = dt_micro b"
    using v by (intro digits_inj [OF assms(3) [unfolded time_micros_def]]) simp_all
  then have m: "dt_hour a * 60 + dt_minute a = dt_hour b * 60 + dt_minute b \<and> dt_second a = dt_second b"
    using v by (intro digits_inj [of _ 60]) simp_all
  then have "dt_hour a = dt_hour b \<and> dt_minute a = dt_minute b"
    using v by (intro digits_inj [of _ 60]) simp_all
  with s m show ?thesis by (simp add: same_time_def)
qed

lemma micros_inj:
  assumes "valid_dt a" "valid_dt b" "micros a = micros b"
  shows "a = b"
proof -
  have v: "valid_time a" "valid_time b" "valid_date a" "valid_date b" using assms(1,2) by (simp_all add: valid_dt_def)
  have "toordinal a = toordinal b" "same_time a b"
    using v assms(3) by (simp_all add: ordinal_micros time_micros_inj time_micros_mod)
  with ordinal_inj [of a b] v show ?thesis by (simp add: same_time_def)
qed

lemma digits_less:
  fixes a b r s k :: int
  assumes "a < b" "0 \<le> s" "r < k" "0 \<le> k"
  shows "a * k + r < b * k + s"
proof -
  have "(a + 1) * k \<le> b * k" using assms by (intro mult_right_mono) simp_all
  with assms show ?thesis by (simp add: distrib_right)
qed

lemma ordinal_less:
  assumes "valid_date a" "valid_date b" "[dt_year a, dt_month a, dt_day a] < [dt_year b, dt_month b, dt_day b]"
  shows "toordinal a < toordinal b"
proof -
  consider "dt_year a + 1 \<le> dt_year b" | "dt_year a = dt_year b" "dt_month a + 1 \<le> dt_month b"
    | "dt_year a = dt_year b" "dt_month a = dt_month b" "dt_day a < dt_day b"
    using assms(3) by auto
  then show ?thesis
  proof cases
    case 1
    then show ?thesis using days_before_year_mono [OF 1] ordinal_in_year [OF assms(1)] ordinal_in_year [OF assms(2)] by linarith
  next
    case 2
    then show ?thesis using assms(1,2) days_before_month_mono [OF 2(2), of "dt_year b"] days_before_next_month [of "dt_month a" "dt_year a"]
      by (simp add: toordinal_def valid_date_def)
  next
    case 3
    then show ?thesis by (simp add: toordinal_def)
  qed
qed

lemma dt_less_imp_micros:
  assumes "valid_dt a" "valid_dt b" "dt_less a b"
  shows "micros a < micros b"
proof -
  note v = assms(1,2) [unfolded valid_dt_def]
  note t = v(1)[THEN conjunct2, THEN conjunct2, THEN conjunct2] v(2)[THEN conjunct2, THEN conjunct2, THEN conjunct2]
  note w = t [unfolded valid_time_def]
  consider "[dt_year a, dt_month a, dt_day a] < [dt_year b, dt_month b, dt_day b]"
    | "dt_year a = dt_year b" "dt_month a = dt_month b" "dt_day a = dt_day b"
      "[dt_hour a, dt_minute a, dt_second a, dt_micro a] < [dt_hour b, dt_minute b, dt_second b, dt_micro b]"
    using assms(3) by (auto simp: dt_less_def dt_fields_def)
  then show ?thesis
  proof cases
    case 1
    then have "toordinal a < toordinal b" using v by (intro ordinal_less) simp_all
    then show ?thesis using time_micros_bounds t by (simp add: micros_def digits_less)
  next
    case 2
    have "time_micros a < time_micros b"
      using 2(4) w unfolding time_micros_def by (auto intro!: digits_less)
    with 2 show ?thesis by (simp add: micros_def toordinal_def)
  qed
qed

lemma dt_less_iff:
  assumes "valid_dt a" "valid_dt b"
  shows "dt_less a b \<longleftrightarrow> micros a < micros b"
proof
  assume "micros a < micros b"
  then have "dt_fields a \<noteq> dt_fields b" "\<not> dt_less b a"
    using dt_less_imp_micros [of b a] assms by (auto simp: dt_fields_def micros_def toordinal_def time_micros_def)
  then show "dt_less a b" unfolding dt_less_def by (simp only: neq_iff simp_thms)
qed (use assms in \<open>rule dt_less_imp_micros\<close>)

subsection \<open>Time frames\<close>

lemma days_before_year_add:
  "365 * int n \<le> days_before_year (y + int n) - days_before_year y"
  "days_before_year (y + int n) - days_before_year y \<le> 366 * int n"
proof (induction n)
  case (Suc n)
  case 1 with Suc show ?case using days_before_next_year [of "y + int n"] by (simp add: days_in_year_def algebra_simps split: if_splits)
  case 2 with Suc show ?case using days_before_next_year [of "y + int n"] by (simp add: days_in_year_def algebra_simps split: if_splits)
qed simp_all

lemma decade_of_ordinal:
  assumes "valid_date d" "days_before_year (10 * k) < toordinal d" "toordinal d \<le> days_before_year (10 * k + 10)"
  shows "dt_year d div 10 = k"
proof -
  have "\<not> 10 * k + 10 \<le> dt_year d" "\<not> dt_year d + 1 \<le> 10 * k"
    using days_before_year_mono [of "10 * k + 10" "dt_year d"] days_before_year_mono [of "dt_year d + 1" "10 * k"]
      ordinal_in_year [OF assms(1)] assms(2,3) by linarith+
  then show ?thesis by simp
qed

lemma valid_first: "valid_dt t \<Longrightarrow> valid_dt ((start_of_day t)\<lparr>dt_day := 1\<rparr>)"
  "valid_dt t \<Longrightarrow> valid_dt ((start_of_day t)\<lparr>dt_month := 1, dt_day := 1\<rparr>)"
  "valid_dt t \<Longrightarrow> 10 \<le> dt_year t \<Longrightarrow> valid_dt ((start_of_day t)\<lparr>dt_month := 1, dt_day := 1, dt_year := 10 * (dt_year t div 10)\<rparr>)"
  "valid_dt t \<Longrightarrow> valid_dt (start_of_day t)" "valid_dt t \<Longrightarrow> valid_dt (start_of_hour t)"
  using days_in_month_bounds(1) [of "dt_year t" "dt_month t"]
  by (auto simp: valid_dt_def valid_date_def valid_time_def start_of_day_def start_of_hour_def) (simp_all add: days_in_month_def)

lemma ordinal_start_of_day [simp]: "toordinal (start_of_day t) = toordinal t" "time_micros (start_of_day t) = 0"
  "toordinal (start_of_hour t) = toordinal t"
  by (simp_all add: start_of_day_def start_of_hour_def toordinal_def time_micros_def)

text \<open>A date is valid when its day and time are and its ordinal is within the calendar.\<close>

lemma valid_by_ordinal:
  assumes "valid_date d" "valid_time d" "0 < toordinal d" "toordinal d \<le> days_before_year 10000"
  shows "valid_dt d"
proof -
  have "days_before_year 1 = 0" by (simp add: days_before_year_def)
  then have "\<not> dt_year d + 1 \<le> 1" "\<not> 10000 \<le> dt_year d"
    using days_before_year_mono [of "dt_year d + 1" 1] days_before_year_mono [of 10000 "dt_year d"]
      ordinal_in_year [OF assms(1)] assms(3,4) by linarith+
  with assms(1,2) show ?thesis by (simp add: valid_dt_def)
qed

lemma valid_ordinal: "valid_dt d \<Longrightarrow> 0 < toordinal d" "valid_dt d \<Longrightarrow> toordinal d \<le> days_before_year 10000"
proof -
  assume d: "valid_dt d"
  have "days_before_year 1 = 0" by (simp add: days_before_year_def)
  then show "0 < toordinal d" "toordinal d \<le> days_before_year 10000"
    using d days_before_year_mono [of 1 "dt_year d"] days_before_year_mono [of "dt_year d + 1" 10000] ordinal_in_year [of d]
    by (simp_all add: valid_dt_def)
qed

lemma same_time_valid: "same_time a b \<Longrightarrow> valid_time a \<longleftrightarrow> valid_time b"
  by (simp add: same_time_def valid_time_def)

lemma add_days_total: "valid_dt d \<Longrightarrow> toordinal d + int n \<le> days_before_year 10000 \<Longrightarrow> \<exists>e. add_days n d = Inr e"
  using next_days [of d n] valid_ordinal(1) [of d] same_time_valid valid_by_ordinal [of "(next_day ^^ n) d"]
  by (auto simp: add_days_def checked_def valid_dt_def)

lemma sub_days_total: "valid_dt d \<Longrightarrow> int n < toordinal d \<Longrightarrow> \<exists>e. sub_days n d = Inr e"
  using prev_days [of d n] valid_ordinal(2) [of d] same_time_valid valid_by_ordinal [of "(prev_day ^^ n) d"]
  by (auto simp: sub_days_def checked_def valid_dt_def)

lemma frame_start_valid:
  assumes "valid_dt t" "get_time_frame_start c t = Inr s"
  shows "valid_dt s"
  using assms valid_first [of t] sub_days_Inr(2)
  by (cases c) (auto simp: get_time_frame_start_def Let_def split: if_splits)

lemma frame_start_total: "valid_dt t \<Longrightarrow> c \<noteq> Decade \<or> 10 \<le> dt_year t \<Longrightarrow> \<exists>s. get_time_frame_start c t = Inr s"
proof (cases c)
  case Week
  assume t: "valid_dt t"
  have "int (nat (weekday t)) < toordinal t"
    using valid_ordinal(1) [OF t] by (simp add: weekday_def) presburger
  then show ?thesis
    using sub_days_total [of "start_of_day t" "nat (weekday t)"] valid_first(4) [OF t] Week
    by (simp add: get_time_frame_start_def weekday_def)
qed (simp_all add: get_time_frame_start_def)

lemma add_hour_Inr:
  assumes "add_hour d = Inr e"
  shows "valid_dt d" "valid_dt e" "micros e = micros d + 3600000000"
proof -
  show d: "valid_dt d" and "valid_dt e" using assms by (auto simp: add_hour_def bind_r_eq_Inr checked_Inr)
  have "dt_hour d < 24" "valid_date d" using d by (simp_all add: valid_dt_def valid_time_def)
  moreover have "toordinal (x\<lparr>dt_hour := h\<rparr>) = toordinal x" for x h by (simp add: toordinal_def)
  moreover have "same_time (next_day d) d" by (simp add: same_time_def next_day_def)
  ultimately show "micros e = micros d + 3600000000"
    using assms next_day_ordinal [of d]
    by (auto simp: add_hour_def bind_r_eq_Inr checked_Inr micros_def time_micros_def same_time_def)
qed

lemma micros_add_days: "add_days n d = Inr e \<Longrightarrow> micros e = micros d + int n * 86400000000"
  using add_days_Inr [of n d e] same_time_micros [of e d] by (simp add: micros_def algebra_simps)

lemma micros_sub_days: "sub_days n d = Inr e \<Longrightarrow> micros e = micros d - int n * 86400000000"
  using sub_days_Inr [of n d e] same_time_micros [of e d] by (simp add: micros_def algebra_simps)

text \<open>The frames of hours, days and weeks have a fixed length, counted from a Monday.\<close>

definition frame_length :: "duration \<Rightarrow> int" where
  "frame_length c = (case c of Hour \<Rightarrow> 3600000000 | Day \<Rightarrow> 86400000000 | _ \<Rightarrow> 604800000000)"

lemma frame_length_pos: "0 < frame_length c"
  by (cases c) (simp_all add: frame_length_def)

lemma fixed_start:
  assumes "c \<in> {Hour, Day, Week}" "valid_dt t" "get_time_frame_start c t = Inr s"
  shows "micros s = micros t - (micros t - 86400000000) mod frame_length c"
proof -
  have t: "0 \<le> time_micros t" "time_micros t < 86400000000" using assms(2) time_micros_bounds by (simp_all add: valid_dt_def)
  consider "c = Hour" | "c = Day" | "c = Week" using assms(1) by auto
  then show ?thesis
  proof cases
    case 1
    have "micros t - 86400000000 = (toordinal t * 24 + dt_hour t - 24) * 3600000000 + (time_micros t - dt_hour t * 3600000000)"
      by (simp add: micros_def)
    moreover have "0 \<le> time_micros t - dt_hour t * 3600000000" "time_micros t - dt_hour t * 3600000000 < 3600000000"
      using assms(2) by (simp_all add: valid_dt_def valid_time_def time_micros_def)
    ultimately have "(micros t - 86400000000) mod 3600000000 = time_micros t - dt_hour t * 3600000000"
      by (metis mod_mult_self3 mod_pos_pos_trivial)
    with 1 assms(3) show ?thesis
      by (auto simp: get_time_frame_start_def frame_length_def micros_def start_of_hour_def toordinal_def time_micros_def)
  next
    case 2
    have "micros t - 86400000000 = (toordinal t - 1) * 86400000000 + time_micros t" by (simp add: micros_def)
    then have "(micros t - 86400000000) mod 86400000000 = time_micros t" using t by (metis mod_mult_self3 mod_pos_pos_trivial)
    with 2 assms(3) show ?thesis by (auto simp: get_time_frame_start_def frame_length_def micros_def)
  next
    case 3
    have "micros t - 86400000000 = ((toordinal t - 1) div 7) * 604800000000 + (((toordinal t - 1) mod 7) * 86400000000 + time_micros t)"
      using div_mult_mod_eq [of "toordinal t - 1" 7] unfolding micros_def by linarith
    moreover have "0 \<le> (toordinal t - 1) mod 7 * 86400000000 + time_micros t"
        "(toordinal t - 1) mod 7 * 86400000000 + time_micros t < 604800000000"
      using t pos_mod_bound [of 7 "toordinal t - 1"] pos_mod_sign [of 7 "toordinal t - 1"] by linarith+
    ultimately have "(micros t - 86400000000) mod 604800000000 = ((toordinal t - 1) mod 7) * 86400000000 + time_micros t"
      by (metis mod_mult_self3 mod_pos_pos_trivial)
    moreover have "(toordinal t + 6) mod 7 = (toordinal t - 1) mod 7" by presburger
    ultimately show ?thesis
      using 3 assms(3) by (auto simp: get_time_frame_start_def Let_def frame_length_def weekday_def micros_def dest!: micros_sub_days)
  qed
qed

lemma fixed_end:
  assumes "c \<in> {Hour, Day, Week}" "get_end_time_for_start c s = Inr e"
  shows "valid_dt s" "valid_dt e" "micros e = micros s + frame_length c"
  using assms micros_add_days [of 1 s e] micros_add_days [of 7 s e] add_days_Inr [of _ s e] add_hour_Inr [of s e]
  by (auto simp: get_end_time_for_start_def frame_length_def)

lemma multiple_interval:
  fixes s u k off :: int
  assumes "0 < k" "(s - off) mod k = 0"
  shows "s = u - (u - off) mod k \<longleftrightarrow> s \<le> u \<and> u < s + k"
proof
  assume "s = u - (u - off) mod k"
  then show "s \<le> u \<and> u < s + k" using assms(1) pos_mod_bound [of k "u - off"] pos_mod_sign [of k "u - off"] by linarith
next
  assume u: "s \<le> u \<and> u < s + k"
  have "(u - off) mod k = ((s - off) mod k + (u - s)) mod k" by (simp add: mod_add_left_eq)
  also have "\<dots> = u - s" using u assms by simp
  finally show "s = u - (u - off) mod k" by simp
qed

text \<open>The frames that start at a frame start: exactly the times from there up to the end belong to it, and the end is the
  start of the next frame.\<close>

definition frame_law :: "duration \<Rightarrow> datetime \<Rightarrow> datetime \<Rightarrow> bool" where
  "frame_law c s e \<longleftrightarrow> valid_dt e \<and> get_time_frame_start c e = Inr e \<and>
     (\<forall>u. valid_dt u \<longrightarrow> (get_time_frame_start c u = Inr s \<longleftrightarrow> micros s \<le> micros u \<and> micros u < micros e))"

lemma fixed_frame:
  assumes c: "c \<in> {Hour, Day, Week}" and s: "get_time_frame_start c s = Inr s" and e: "get_end_time_for_start c s = Inr e"
  shows "frame_law c s e"
proof -
  note v = fixed_end [OF c e]
  have total: "\<exists>x. get_time_frame_start c u = Inr x" if "valid_dt u" for u using frame_start_total [OF that] c by auto
  have m: "(micros s - 86400000000) mod frame_length c = 0" using fixed_start [OF c v(1) s] by simp
  have iff: "get_time_frame_start c u = Inr x \<longleftrightarrow> micros x = micros u - (micros u - 86400000000) mod frame_length c"
    if "valid_dt u" "valid_dt x" for u x
    using total [OF that(1)] fixed_start [OF c that(1)] frame_start_valid [OF that(1)] micros_inj [OF that(2)] by metis
  have "(micros e - 86400000000) mod frame_length c = 0"
    using m v(3) by (metis add_diff_eq diff_add_eq mod_add_self2)
  then have "get_time_frame_start c e = Inr e" by (simp add: iff [OF v(2) v(2)])
  moreover have "get_time_frame_start c u = Inr s \<longleftrightarrow> micros s \<le> micros u \<and> micros u < micros e" if "valid_dt u" for u
    using iff [OF that v(1)] multiple_interval [OF frame_length_pos m, of "micros u"] v(3) by simp
  ultimately show ?thesis using v(2) by (simp add: frame_law_def)
qed

lemma midnight_le: "valid_dt u \<Longrightarrow> time_micros s = 0 \<Longrightarrow> micros s \<le> micros u \<longleftrightarrow> toordinal s \<le> toordinal u"
  "valid_dt u \<Longrightarrow> time_micros s = 0 \<Longrightarrow> micros u < micros s \<longleftrightarrow> toordinal u < toordinal s"
  using time_micros_bounds [of u] by (auto simp: valid_dt_def micros_def)

lemma at_midnight: "start_of_day s = s \<longleftrightarrow> dt_hour s = 0 \<and> dt_minute s = 0 \<and> dt_second s = 0 \<and> dt_micro s = 0"
  by (cases s) (auto simp: start_of_day_def)

lemma month_frame:
  assumes s: "get_time_frame_start Month s = Inr s" and e: "get_end_time_for_start Month s = Inr e"
  shows "frame_law Month s e"
proof -
  obtain x where x: "add_days 35 s = Inr x" "e = (start_of_day x)\<lparr>dt_day := 1\<rparr>"
    using e by (auto simp: get_end_time_for_start_def get_time_frame_start_def bind_r_eq_Inr)
  note a = add_days_Inr [OF x(1)]
  have d: "dt_day s = 1" and mid: "start_of_day s = s" using s by (cases s; simp add: get_time_frame_start_def start_of_day_def)+
  let ?y = "dt_year s" and ?m = "dt_month s"
  define y m where "y = (if ?m = 12 then ?y + 1 else ?y)" and "m = (if ?m = 12 then 1 else ?m + 1)"
  have m: "1 \<le> ?m" "?m \<le> 12" "1 \<le> m" "m \<le> 12" using a(1) by (auto simp: valid_dt_def valid_date_def m_def)
  have o: "toordinal s = days_before_year ?y + days_before_month ?y ?m + 1" using d by (simp add: toordinal_def)
  have n: "days_before_year y + days_before_month y m = days_before_year ?y + days_before_month ?y (?m + 1)"
    using days_before_month_13 [of ?y] by (auto simp: y_def m_def days_before_next_year)
  have "dt_year x = y \<and> dt_month x = m"
    using a(2,3) m o n days_before_next_month [of ?m ?y] days_in_month_bounds [of ?y ?m] days_before_next_month [of m y] days_in_month_bounds [of y m]
    by (intro month_of_ordinal) (simp_all add: valid_dt_def)
  then have te: "toordinal e = days_before_year ?y + days_before_month ?y (?m + 1) + 1" "time_micros e = 0"
    using n x(2) by (simp_all add: toordinal_def start_of_day_def time_micros_def)
  have "get_time_frame_start Month e = Inr e" "valid_dt e" 
    using x(2) a(2) valid_first(1) by (simp_all add: get_time_frame_start_def start_of_day_def)
  moreover have "get_time_frame_start Month u = Inr s \<longleftrightarrow> micros s \<le> micros u \<and> micros u < micros e" if u: "valid_dt u" for u
  proof -
    have vu: "valid_date u" using u by (simp add: valid_dt_def)
    have "get_time_frame_start Month u = Inr s \<longleftrightarrow> dt_year u = ?y \<and> dt_month u = ?m"
      using d mid by (cases s; cases u) (auto simp: get_time_frame_start_def start_of_day_def)
    also have "\<dots> \<longleftrightarrow> toordinal s \<le> toordinal u \<and> toordinal u < toordinal e"
      using month_of_ordinal [OF vu m(1,2), of ?y] o te(1) vu days_before_next_month [OF m(1), of ?y]
      by (auto simp: toordinal_def valid_date_def)
    also have "\<dots> \<longleftrightarrow> micros s \<le> micros u \<and> micros u < micros e"
      using midnight_le [OF u] te(2) mid by (metis ordinal_start_of_day(2))
    finally show ?thesis .
  qed
  ultimately show ?thesis by (simp add: frame_law_def)
qed

definition new_year :: "int \<Rightarrow> datetime" where
  "new_year y = \<lparr>dt_year = y, dt_month = 1, dt_day = 1, dt_hour = 0, dt_minute = 0, dt_second = 0, dt_micro = 0\<rparr>"

lemma new_year_simps [simp]: "toordinal (new_year y) = days_before_year y + 1" "time_micros (new_year y) = 0" "dt_year (new_year y) = y"
  by (simp_all add: new_year_def toordinal_def time_micros_def)

lemma new_year_inj [simp]: "new_year y = new_year z \<longleftrightarrow> y = z"
  by (simp add: new_year_def)

lemma valid_new_year [simp]: "valid_dt (new_year y) \<longleftrightarrow> 1 \<le> y \<and> y \<le> 9999"
  by (auto simp: valid_dt_def valid_date_def valid_time_def new_year_def days_in_month_def)

lemma year_starts: "get_time_frame_start Year t = Inr (new_year (dt_year t))"
  "get_time_frame_start Decade t = (if dt_year t < 10 then Inl ValueError else Inr (new_year (10 * (dt_year t div 10))))"
  by (cases t; simp add: get_time_frame_start_def new_year_def start_of_day_def)+

lemma years_interval:
  assumes "valid_dt u"
  shows "y \<le> dt_year u \<and> dt_year u < z \<longleftrightarrow> micros (new_year y) \<le> micros u \<and> micros u < micros (new_year z)"
proof -
  have u: "days_before_year (dt_year u) < toordinal u" "toordinal u \<le> days_before_year (dt_year u + 1)"
    using ordinal_in_year assms by (simp_all add: valid_dt_def)
  have "w \<le> dt_year u \<longleftrightarrow> days_before_year w < toordinal u" for w
    using days_before_year_mono [of w "dt_year u"] days_before_year_mono [of "dt_year u + 1" w] u by linarith
  then have "y \<le> dt_year u \<and> dt_year u < z \<longleftrightarrow> days_before_year y < toordinal u \<and> \<not> days_before_year z < toordinal u"
    by (simp add: not_le [symmetric])
  then show ?thesis by (simp add: midnight_le [OF assms]) linarith
qed

lemma year_frame:
  assumes s: "get_time_frame_start Year s = Inr s" and e: "get_end_time_for_start Year s = Inr e"
  shows "frame_law Year s e"
proof -
  obtain x where x: "add_days 370 s = Inr x" "e = new_year (dt_year x)"
    using e by (auto simp: get_end_time_for_start_def year_starts bind_r_eq_Inr)
  note a = add_days_Inr [OF x(1)]
  obtain y where y: "s = new_year y" using s by (simp add: year_starts) metis
  have "dt_year x = y + 1"
    using a(2,3) y days_before_year_add [where n = 1 and y = y] days_before_year_add [where n = 1 and y = "y + 1"]
    by (intro year_of_ordinal) (simp_all add: valid_dt_def)
  then have "e = new_year (y + 1)" "valid_dt e" using x(2) a(2) valid_dt_def [of x] by simp_all
  moreover have "dt_year u = y \<longleftrightarrow> micros (new_year y) \<le> micros u \<and> micros u < micros (new_year (y + 1))" if "valid_dt u" for u
    unfolding years_interval [OF that, symmetric] by auto
  ultimately show ?thesis using y by (simp add: frame_law_def year_starts)
qed

lemma decade_frame:
  assumes s: "get_time_frame_start Decade s = Inr s" and e: "get_end_time_for_start Decade s = Inr e"
  shows "frame_law Decade s e"
proof -
  obtain x where x: "add_days 3660 s = Inr x" "\<not> dt_year x < 10" "e = new_year (10 * (dt_year x div 10))"
    using e by (auto simp: get_end_time_for_start_def year_starts bind_r_eq_Inr split: if_splits)
  note a = add_days_Inr [OF x(1)]
  define k where "k = dt_year s div 10"
  have k: "s = new_year (10 * k)" "10 \<le> dt_year s" using s by (auto simp: year_starts k_def split: if_splits)
  have "dt_year x div 10 = k + 1"
    using a(2,3) k days_before_year_add [where n = 10 and y = "10 * k"] days_before_year_add [where n = 10 and y = "10 * k + 10"]
    by (intro decade_of_ordinal) (simp_all add: valid_dt_def algebra_simps)
  moreover have "10 * (dt_year x div 10) \<le> dt_year x" by simp
  ultimately have e': "e = new_year (10 * (k + 1))" "valid_dt e" using x(3) a(2) k valid_dt_def [of x] by simp_all
  have "\<not> u < 10 \<and> u div 10 = k \<longleftrightarrow> 10 * k \<le> u \<and> u < 10 * (k + 1)" for u :: int using k by auto
  then have "get_time_frame_start Decade u = Inr s \<longleftrightarrow> 10 * k \<le> dt_year u \<and> dt_year u < 10 * (k + 1)" for u
    using k(1) by (simp add: year_starts) blast
  then show ?thesis
    using k e' years_interval [of _ "10 * k" "10 * (k + 1)"] by (simp add: frame_law_def) (simp add: year_starts)
qed

lemma frames:
  assumes "get_time_frame_start c s = Inr s" "get_end_time_for_start c s = Inr e"
  shows "frame_law c s e"
  using assms by (cases c) (auto intro: fixed_frame month_frame year_frame decade_frame)

lemma frame_start_idem:
  assumes "valid_dt t" "get_time_frame_start c t = Inr s"
  shows "get_time_frame_start c s = Inr s"
proof (cases "c \<in> {Hour, Day, Week}")
  case True
  have s: "valid_dt s" by (rule frame_start_valid [OF assms])
  then obtain x where x: "get_time_frame_start c s = Inr x" using frame_start_total [OF s] True by auto
  have "micros s = micros t - (micros t - 86400000000) mod frame_length c" by (rule fixed_start [OF True assms])
  then have "(micros s - 86400000000) mod frame_length c = 0"
    by (metis diff_diff_eq2 diff_right_commute minus_mod_eq_div_mult mod_mult_self2_is_0)
  then have "x = s" using fixed_start [OF True s x] frame_start_valid [OF s x] s by (simp add: micros_inj)
  with x show ?thesis by simp
next
  case False
  with assms(2) show ?thesis
    by (cases c) (auto simp: year_starts split: if_splits, auto simp: get_time_frame_start_def start_of_day_def)
qed

lemma end_after_start:
  assumes "get_end_time_for_start c s = Inr e"
  shows "valid_dt s" "valid_dt e" "micros s < micros e"
proof -
  have days: "valid_dt s \<and> valid_dt e \<and> micros s < micros e"
    if "add_days n s = Inr x" "get_time_frame_start c x = Inr e" "toordinal x < toordinal e + int n" for n x
  proof -
    note a = add_days_Inr [OF that(1)]
    have e: "valid_dt e" by (rule frame_start_valid [OF a(2) that(2)])
    have "toordinal s < toordinal e" using a(3) that(3) by simp
    then have "micros s < micros e"
      using time_micros_bounds [of s] time_micros_bounds [of e] a(1) e unfolding micros_def
      by (intro digits_less) (simp_all add: valid_dt_def)
    with a e show ?thesis by simp
  qed
  have "valid_dt s \<and> valid_dt e \<and> micros s < micros e"
  proof (cases c)
    case Month
    then obtain x where x: "add_days 35 s = Inr x" "get_time_frame_start Month x = Inr e"
      using assms by (auto simp: get_end_time_for_start_def bind_r_eq_Inr)
    have "dt_day x \<le> 31" using add_days_Inr(2) [OF x(1)] days_in_month_bounds(2) [of "dt_year x" "dt_month x"]
      by (simp add: valid_dt_def valid_date_def)
    then have "toordinal x < toordinal e + 35"
      using x(2) by (auto simp: get_time_frame_start_def toordinal_def start_of_day_def)
    with days [of 35 x] x Month show ?thesis by simp
  next
    case Year
    then obtain x where x: "add_days 370 s = Inr x" "get_time_frame_start Year x = Inr e"
      using assms by (auto simp: get_end_time_for_start_def bind_r_eq_Inr)
    have "toordinal x < toordinal e + 370"
      using x(2) ordinal_in_year(2) [of x] add_days_Inr(2) [OF x(1)] days_before_year_add(2) [where n = 1 and y = "dt_year x"]
      by (auto simp: year_starts valid_dt_def)
    with days [of 370 x] x Year show ?thesis by simp
  next
    case Decade
    then obtain x where x: "add_days 3660 s = Inr x" "get_time_frame_start Decade x = Inr e"
      using assms by (auto simp: get_end_time_for_start_def bind_r_eq_Inr)
    have "dt_year x + 1 \<le> 10 * (dt_year x div 10) + 10" by presburger
    then have "toordinal x < toordinal e + 3660"
      using x(2) ordinal_in_year(2) [of x] add_days_Inr(2) [OF x(1)] days_before_year_mono
        days_before_year_add(2) [where n = 10 and y = "10 * (dt_year x div 10)"]
      by (fastforce simp: year_starts valid_dt_def split: if_splits)
    with days [of 3660 x] x Decade show ?thesis by simp
  qed (use assms fixed_end [of c s e] frame_length_pos [of c] in \<open>simp_all\<close>)
  then show "valid_dt s" "valid_dt e" "micros s < micros e" by simp_all
qed

lemma frame_end_total:
  assumes "valid_dt s" "dt_year s \<le> 9980"
  shows "\<exists>e. get_end_time_for_start c s = Inr e"
proof -
  have "toordinal s \<le> days_before_year 9981"
    using ordinal_in_year(2) [of s] days_before_year_mono [of "dt_year s + 1" 9981] assms by (simp add: valid_dt_def)
  moreover have "days_before_year 9981 + 3660 \<le> days_before_year 10000" by (simp add: days_before_year_def)
  ultimately have days: "\<exists>x. add_days n s = Inr x" if "n \<le> 3660" for n
    using that by (intro add_days_total [OF assms(1)]) linarith
  have starts: "\<exists>e. get_time_frame_start c x = Inr e" if x: "add_days n s = Inr x" "c = Decade \<Longrightarrow> 3660 \<le> n" for n x
  proof (rule frame_start_total [OF add_days_Inr(2) [OF x(1)]], rule disjCI)
    assume "\<not> 10 \<le> dt_year x"
    then have "toordinal x \<le> days_before_year 10"
      using ordinal_in_year(2) [of x] add_days_Inr(2) [OF x(1)] days_before_year_mono [of "dt_year x + 1" 10] by (simp add: valid_dt_def)
    moreover have "days_before_year 10 = 3287" by (simp add: days_before_year_def)
    ultimately have "\<not> 3660 \<le> n" using add_days_Inr(3) [OF x(1)] valid_ordinal(1) [OF assms(1)] by linarith
    with x(2) show "c \<noteq> Decade" by blast
  qed
  show ?thesis
  proof (cases c)
    case Hour
    have "\<exists>e. next_day s = e \<and> valid_dt e"
      using days [of 1] by (auto simp: add_days_def bind_r_eq_Inr checked_Inr)
    then have "valid_dt ((next_day s)\<lparr>dt_hour := 0\<rparr>)" by (auto simp: valid_dt_def valid_date_def valid_time_def)
    then show ?thesis using assms(1) Hour
      by (auto simp: get_end_time_for_start_def add_hour_def checked_def valid_dt_def valid_date_def valid_time_def)
  next
    case Day
    then show ?thesis using days [of 1] by (simp add: get_end_time_for_start_def)
  next
    case Week
    then show ?thesis using days [of 7] by (simp add: get_end_time_for_start_def)
  next
    case Month
    then show ?thesis using days [of 35] starts [of 35] by (auto simp: get_end_time_for_start_def)
  next
    case Year
    then show ?thesis using days [of 370] starts [of 370] by (auto simp: get_end_time_for_start_def)
  next
    case Decade
    then show ?thesis using days [of 3660] starts [of 3660] by (auto simp: get_end_time_for_start_def)
  qed
qed

lemma frame_start_before:
  assumes "valid_dt t" "get_time_frame_start c t = Inr s" "get_end_time_for_start c s = Inr e"
  shows "micros s \<le> micros t" "micros t < micros e"
  using frames [OF frame_start_idem [OF assms(1,2)] assms(3)] assms(1,2) by (auto simp: frame_law_def)

lemma frame_start_year:
  assumes "valid_dt t" "get_time_frame_start c t = Inr s"
  shows "dt_year s \<le> dt_year t"
proof (cases "c = Week")
  case True
  then have "toordinal s \<le> toordinal t"
    using assms(2) sub_days_Inr(3) by (fastforce simp: get_time_frame_start_def Let_def)
  moreover have "valid_date s" "valid_date t" using frame_start_valid [OF assms] assms(1) by (simp_all add: valid_dt_def)
  ultimately show ?thesis
    using ordinal_in_year [of s] ordinal_in_year [of t] days_before_year_mono [of "dt_year t + 1" "dt_year s"] by linarith
next
  case False
  with assms(2) show ?thesis
    by (cases c) (auto simp: year_starts split: if_splits, auto simp: get_time_frame_start_def start_of_hour_def start_of_day_def)
qed

text \<open>C25: the frames of every duration class partition the calendar: every date has a frame that starts at or before it and
  ends after it, exactly the dates between start and end have this frame, and the end is the start of a frame again,
  although the lengths of months, years and decades vary and the end is found by adding 35, 370 or 3660 days.\<close>

theorem frames_partition:
  assumes "valid_dt t" "10 \<le> dt_year t" "dt_year t \<le> 9980"
  shows "\<exists>s e. get_time_frame_start c t = Inr s \<and> get_end_time_for_start c s = Inr e \<and>
    \<not> dt_less t s \<and> dt_less t e \<and> get_time_frame_start c e = Inr e \<and>
    (\<forall>u. valid_dt u \<longrightarrow> (get_time_frame_start c u = Inr s \<longleftrightarrow> \<not> dt_less u s \<and> dt_less u e))"
proof -
  obtain s where s: "get_time_frame_start c t = Inr s" using frame_start_total [OF assms(1)] assms(2) by blast
  note v = frame_start_valid [OF assms(1) s]
  obtain e where e: "get_end_time_for_start c s = Inr e"
    using frame_end_total [OF v] frame_start_year [OF assms(1) s] assms(3) by fastforce
  have "frame_law c s e" by (rule frames [OF frame_start_idem [OF assms(1) s] e])
  then show ?thesis
    using s e v frame_start_before [OF assms(1) s e] assms(1) by (auto simp: frame_law_def dt_less_iff not_less)
qed

definition demo_date :: datetime where
  "demo_date = \<lparr>dt_year = 2016, dt_month = 3, dt_day = 1, dt_hour = 13, dt_minute = 5, dt_second = 9, dt_micro = 7\<rparr>"

theorem frames_partition_witness:
  "get_time_frame_start Month demo_date = Inr (demo_date\<lparr>dt_day := 1, dt_hour := 0, dt_minute := 0, dt_second := 0, dt_micro := 0\<rparr>) \<and>
   (\<exists>s e. get_time_frame_start Month demo_date = Inr s \<and> get_end_time_for_start Month s = Inr e \<and> dt_less demo_date e)"
proof -
  have "valid_dt demo_date \<and> 10 \<le> dt_year demo_date \<and> dt_year demo_date \<le> 9980" by code_simp
  then have "\<exists>s e. get_time_frame_start Month demo_date = Inr s \<and> get_end_time_for_start Month s = Inr e \<and> dt_less demo_date e"
    using frames_partition [of demo_date Month] by blast
  moreover have "get_time_frame_start Month demo_date = Inr (demo_date\<lparr>dt_day := 1, dt_hour := 0, dt_minute := 0, dt_second := 0, dt_micro := 0\<rparr>)"
    by code_simp
  ultimately show ?thesis by blast
qed

text \<open>The frames of the next shorter class, whose data is averaged, lie within the frames of a class for every class but
  the month: a week that starts at the end of a month counts for that month as a whole.\<close>

theorem frames_nest:
  assumes "shorter c = Some d"
  shows "(\<forall>t s. valid_dt t \<longrightarrow> get_time_frame_start d t = Inr s \<longrightarrow> get_time_frame_start c s = get_time_frame_start c t) \<longleftrightarrow>
    c \<noteq> Month"
proof -
  have "valid_dt demo_date \<and> (case get_time_frame_start Week demo_date of
      Inr s \<Rightarrow> get_time_frame_start Month s \<noteq> get_time_frame_start Month demo_date | Inl _ \<Rightarrow> False)"
    by code_simp
  then have "\<exists>t s. valid_dt t \<and> get_time_frame_start Week t = Inr s \<and> get_time_frame_start Month s \<noteq> get_time_frame_start Month t"
    by (auto split: sum.splits)
  moreover have "get_time_frame_start c s = get_time_frame_start c t" if "get_time_frame_start d t = Inr s" "c \<noteq> Month" for t s
    using assms that
    by (cases c) (auto simp: shorter_def get_time_frame_start_def Let_def start_of_day_def start_of_hour_def weekday_def toordinal_def)
  ultimately show ?thesis using assms by (auto simp: shorter_def)
qed

theorem frames_nest_witness: "shorter Week = Some Day \<and> Week \<noteq> Month \<and> (case get_time_frame_start Day demo_date of Inr s \<Rightarrow>
    get_time_frame_start Week s = get_time_frame_start Week demo_date | Inl _ \<Rightarrow> False)"
proof -
  have "shorter Week = Some Day" "valid_dt demo_date" by code_simp+
  moreover obtain s where "get_time_frame_start Day demo_date = Inr s" by (simp add: get_time_frame_start_def)
  ultimately show ?thesis using frames_nest [of Week Day] by simp
qed

subsection \<open>The contract of the time frames\<close>

text \<open>What a user of time frames relies on: the frame of a time is found by its start, the times of a frame are those from
  its start up to its end, and frames follow each other. A list of such frames without gap holds every time between its
  first start and its last end exactly once.\<close>

fun frame_chain :: "('d \<times> 'd) list \<Rightarrow> bool" where
  "frame_chain ((s, e) # (s', e') # fs) \<longleftrightarrow> e = s' \<and> frame_chain ((s', e') # fs)"
| "frame_chain fs \<longleftrightarrow> True"

locale time_frames =
  fixes frame_start frame_end :: "'d \<Rightarrow> 'd res" and pos :: "'d \<Rightarrow> int" and valid :: "'d \<Rightarrow> bool"
  assumes frame_times: "frame_start s = Inr s \<Longrightarrow> frame_end s = Inr e \<Longrightarrow> valid u \<Longrightarrow>
      frame_start u = Inr s \<longleftrightarrow> pos s \<le> pos u \<and> pos u < pos e"
    and frame_next: "frame_start s = Inr s \<Longrightarrow> frame_end s = Inr e \<Longrightarrow> frame_start e = Inr e"
    and frame_before: "frame_end s = Inr e \<Longrightarrow> pos s < pos e"
begin

definition is_frame :: "'d \<times> 'd \<Rightarrow> bool" where
  "is_frame f \<longleftrightarrow> frame_start (fst f) = Inr (fst f) \<and> frame_end (fst f) = Inr (snd f)"

lemma in_frame_iff: "is_frame (s, e) \<Longrightarrow> valid u \<Longrightarrow> pos s \<le> pos u \<and> pos u < pos e \<longleftrightarrow> frame_start u = Inr s"
  using frame_times [of s e u] by (simp add: is_frame_def)

lemma in_frame_pair: "is_frame f \<Longrightarrow> valid u \<Longrightarrow> pos (fst f) \<le> pos u \<and> pos u < pos (snd f) \<longleftrightarrow> frame_start u = Inr (fst f)"
  using in_frame_iff [of "fst f" "snd f" u] by simp

lemma chain_covers:
  assumes "frame_chain fs" "\<forall>f \<in> set fs. is_frame f" "fs \<noteq> []" "valid u"
    and "pos (fst (hd fs)) \<le> pos u" "pos u < pos (snd (last fs))"
  shows "\<exists>f \<in> set fs. frame_start u = Inr (fst f)"
  using assms
proof (induction fs rule: frame_chain.induct)
  case (1 s e s' e' fs)
  show ?case
  proof (cases "pos u < pos e")
    case True
    then show ?thesis using 1(3,5,6) in_frame_iff [of s e u] by auto
  next
    case False
    then show ?thesis using 1 by auto
  qed
qed (auto simp: in_frame_pair [symmetric])

lemma frame_unique:
  assumes "is_frame f" "is_frame g" "valid u" "frame_start u = Inr (fst f)" "frame_start u = Inr (fst g)"
  shows "f = g"
  using assms by (auto simp: is_frame_def prod_eq_iff)

lemma chain_covers_once:
  assumes "frame_chain fs" "\<forall>f \<in> set fs. is_frame f" "fs \<noteq> []" "valid u"
    and "pos (fst (hd fs)) \<le> pos u" "pos u < pos (snd (last fs))"
  shows "\<exists>!f. f \<in> set fs \<and> pos (fst f) \<le> pos u \<and> pos u < pos (snd f)"
proof -
  obtain f where f: "f \<in> set fs" "frame_start u = Inr (fst f)" using chain_covers [OF assms] by blast
  have iff: "pos (fst g) \<le> pos u \<and> pos u < pos (snd g) \<longleftrightarrow> frame_start u = Inr (fst g)" if "g \<in> set fs" for g
    using in_frame_pair [of g u] assms(2,4) that by simp
  show ?thesis
    using f iff assms(2,4) frame_unique by (intro ex1I [of _ f]) blast+
qed

end

interpretation cal: time_frames "get_time_frame_start c" "get_end_time_for_start c" micros valid_dt for c
proof
  fix s e u :: datetime
  assume s: "get_time_frame_start c s = Inr s" "get_end_time_for_start c s = Inr e"
  have law: "frame_law c s e" by (rule frames [OF s])
  then show "get_time_frame_start c e = Inr e" by (simp add: frame_law_def)
  show "get_time_frame_start c u = Inr s \<longleftrightarrow> micros s \<le> micros u \<and> micros u < micros e" if "valid_dt u"
    using law that by (simp add: frame_law_def)
next
  fix s e assume "get_end_time_for_start c s = Inr e"
  then show "micros s < micros e" by (rule end_after_start)
qed

subsection \<open>Time ranges of key performance indicators\<close>

definition shift_days :: "int \<Rightarrow> datetime \<Rightarrow> datetime res" where
  "shift_days n d = (if 0 \<le> n then add_days (nat n) d else sub_days (nat (- n)) d)"

definition get_duration_class_start_end :: "duration \<Rightarrow> datetime \<Rightarrow> (datetime \<times> datetime) res" where
  "get_duration_class_start_end c t =
     bind_r (get_time_frame_start c t) (\<lambda>s. bind_r (get_end_time_for_start c s) (\<lambda>e. Inr (s, e)))"

definition parse_kpi_time_range :: "datetime \<Rightarrow> string \<Rightarrow> int \<Rightarrow> (datetime \<times> datetime) option res" where
  "parse_kpi_time_range now time_range n =
     (let frame = (\<lambda>c t. bind_r t (\<lambda>t. bind_r (get_duration_class_start_end c t) (\<lambda>r. Inr (Some r))))
      in if time_range = ''yesterday'' then frame Day (shift_days (- 1) now)
         else if time_range = ''last week'' then frame Week (shift_days (- 7) now)
         else if time_range = ''last month'' then frame Month (shift_days (- 1) (now\<lparr>dt_day := 1\<rparr>))
         else if time_range = ''last year'' then frame Year (shift_days (- 1) (now\<lparr>dt_day := 1, dt_month := 1\<rparr>))
         else if time_range = ''last n days'' then
           bind_r (shift_days (- n) now) (\<lambda>t. bind_r (get_time_frame_start Day t) (\<lambda>s.
             bind_r (shift_days n s) (\<lambda>e. Inr (Some (s, e)))))
         else Inr None)"

definition kpi_get_time_range :: "datetime \<Rightarrow> string \<Rightarrow> int \<Rightarrow> (datetime \<times> datetime) res" where
  "kpi_get_time_range now time_range n =
     bind_r (parse_kpi_time_range now time_range n) (\<lambda>r. case r of Some p \<Rightarrow> Inr p | None \<Rightarrow> Inl RuntimeError)"

text \<open>The class of frames behind the names of the ranges.\<close>

definition range_class :: "string \<Rightarrow> duration option" where
  "range_class r = map_of [(''yesterday'', Day), (''last week'', Week), (''last month'', Month), (''last year'', Year)] r"

lemma previous_fixed:
  assumes c: "c \<in> {Day, Week}" and t: "valid_dt now" "sub_days (if c = Day then 1 else 7) now = Inr t"
    and s: "get_time_frame_start c t = Inr s" and e: "get_end_time_for_start c s = Inr e"
  shows "get_time_frame_start c now = Inr e"
proof -
  have c3: "c \<in> {Hour, Day, Week}" using c by auto
  have P: "micros t = micros now - frame_length c" using micros_sub_days [OF t(2)] c by (auto simp: frame_length_def)
  obtain f where f: "get_time_frame_start c now = Inr f" using frame_start_total [OF t(1)] c by fastforce
  have "(micros now - frame_length c - 86400000000) mod frame_length c = (micros now - 86400000000) mod frame_length c"
    by (metis diff_right_commute minus_mod_self2)
  then have "micros f = micros e"
    using fixed_start [OF c3 t(1) f] fixed_start [OF c3 sub_days_Inr(2) [OF t(2)] s] fixed_end(3) [OF c3 e] P by simp
  then show ?thesis using f frame_start_valid [OF t(1) f] fixed_end(2) [OF c3 e] micros_inj by blast
qed

lemma previous_by_day:
  assumes "valid_dt now" "get_time_frame_start c now = Inr f" "time_micros f = 0"
    and "valid_dt t" "toordinal t = toordinal f - 1"
    and "get_time_frame_start c t = Inr s" "get_end_time_for_start c s = Inr e" "time_micros e = 0"
  shows "f = e"
proof -
  have law: "frame_law c s e" by (rule frames [OF frame_start_idem [OF assms(4,6)] assms(7)])
  note b = frame_start_before [OF assms(4,6,7)] and v = frame_start_valid [OF assms(1,2)] and i = frame_start_idem [OF assms(1,2)]
  have tf: "micros t < micros f" using assms(3,4,5) midnight_le(2) by simp
  have "\<not> micros f < micros e"
  proof
    assume "micros f < micros e"
    then have "get_time_frame_start c f = Inr s" using law v b(1) tf by (simp add: frame_law_def)
    with i b(1) tf show False by simp
  qed
  moreover have "toordinal t < toordinal e" using b(2) assms(4,8) midnight_le(2) by simp
  then have "micros f \<le> micros e" using assms(3,5,8) by (simp add: micros_def)
  ultimately show ?thesis using micros_inj [OF v end_after_start(2) [OF assms(7)]] by simp
qed

lemma early_ordinal: "valid_dt d \<Longrightarrow> 11 \<le> dt_year d \<Longrightarrow> 3000 < toordinal d"
  using days_before_year_mono [of 11 "dt_year d"] ordinal_in_year(1) [of d] by (simp add: valid_dt_def days_before_year_def)

lemma back_year:
  assumes "sub_days n d = Inr t"
  shows "dt_year t \<le> dt_year d"
proof -
  have "valid_date t" "valid_date d" "toordinal t \<le> toordinal d" using sub_days_Inr [OF assms] by (simp_all add: valid_dt_def)
  then show ?thesis
    using ordinal_in_year [of t] ordinal_in_year [of d] days_before_year_mono [of "dt_year d + 1" "dt_year t"] by linarith
qed

lemma frame_of_date:
  assumes "valid_dt t" "dt_year t \<le> 9980" "c \<noteq> Decade"
  shows "\<exists>s e. get_time_frame_start c t = Inr s \<and> get_end_time_for_start c s = Inr e"
  using frame_start_total [OF assms(1)] frame_start_valid [OF assms(1)] frame_start_year [OF assms(1)] frame_end_total assms(2,3)
  by (metis order_trans)

text \<open>The date from which the range is computed, for each name.\<close>

definition range_base :: "datetime \<Rightarrow> duration \<Rightarrow> datetime \<times> nat" where
  "range_base now c = (case c of Month \<Rightarrow> (now\<lparr>dt_day := 1\<rparr>, 1) | Year \<Rightarrow> (now\<lparr>dt_day := 1, dt_month := 1\<rparr>, 1)
     | Week \<Rightarrow> (now, 7) | _ \<Rightarrow> (now, 1))"

lemma range_by_class:
  assumes "range_class r = Some c" "range_base now c = (b, n)"
  shows "kpi_get_time_range now r k = bind_r (sub_days n b) (get_duration_class_start_end c)"
  using assms by (auto simp: range_class_def range_base_def kpi_get_time_range_def parse_kpi_time_range_def shift_days_def bind_r_def
      split: if_splits sum.splits)

lemma range_base_valid:
  assumes "range_base now c = (b, n)" "valid_dt now"
  shows "valid_dt b" "n \<le> 7" "dt_year b = dt_year now"
  using assms valid_first(1,2) [of now] by (auto simp: range_base_def valid_dt_def valid_date_def valid_time_def start_of_day_def split: duration.splits)

lemma previous_frame:
  assumes "range_base now c = (b, n)" "c \<in> {Day, Week, Month, Year}" "valid_dt now" "sub_days n b = Inr t"
    and s: "get_time_frame_start c t = Inr s" and e: "get_end_time_for_start c s = Inr e"
  shows "get_time_frame_start c now = Inr e"
proof (cases "c \<in> {Day, Week}")
  case True
  then show ?thesis using assms by (intro previous_fixed [of c now t s e]) (auto simp: range_base_def)
next
  case False
  then have c: "c \<in> {Month, Year}" "n = 1" using assms(1,2) by (auto simp: range_base_def)
  obtain f where f: "get_time_frame_start c now = Inr f" using frame_start_total [OF assms(3)] c by fastforce
  have start: "time_micros x = 0" if "get_time_frame_start c y = Inr x" for x y
    using that c(1) by (auto simp: get_time_frame_start_def time_micros_def start_of_day_def)
  have "time_micros e = 0"
    using e c(1) start by (auto simp: get_end_time_for_start_def bind_r_eq_Inr)
  moreover have "toordinal b = toordinal f"
    using assms(1) f c(1) by (auto simp: range_base_def get_time_frame_start_def toordinal_def start_of_day_def)
  ultimately have "f = e"
    using sub_days_Inr [OF assms(4)] c(2) s e start [OF f] by (intro previous_by_day [OF assms(3) f]) simp_all
  with f show ?thesis by simp
qed

text \<open>The ranges yesterday, last week, last month and last year are the frame that ends where the frame of the present
  starts, whatever the length of the month or year before.\<close>

theorem kpi_ranges:
  assumes "range_class r = Some c" "valid_dt now" "11 \<le> dt_year now" "dt_year now \<le> 9980"
  shows "\<exists>s e. kpi_get_time_range now r k = Inr (s, e) \<and> get_time_frame_start c s = Inr s \<and>
    get_end_time_for_start c s = Inr e \<and> get_time_frame_start c now = Inr e"
proof -
  have c: "c \<in> {Day, Week, Month, Year}" using assms(1) by (auto simp: range_class_def split: if_splits)
  obtain b n where b: "range_base now c = (b, n)" by (cases "range_base now c") auto
  note v = range_base_valid [OF b assms(2)]
  obtain t where t: "sub_days n b = Inr t" using sub_days_total [OF v(1), of n] early_ordinal [OF v(1)] v(2,3) assms(3) by auto
  note tv = sub_days_Inr(2) [OF t]
  have "dt_year t \<le> 9980" using back_year [OF t] v(3) assms(4) by linarith
  then obtain s e where se: "get_time_frame_start c t = Inr s" "get_end_time_for_start c s = Inr e"
    using frame_of_date [OF tv] c by blast
  then have "kpi_get_time_range now r k = Inr (s, e)"
    using range_by_class [OF assms(1) b] t by (simp add: get_duration_class_start_end_def)
  then show ?thesis using se frame_start_idem [OF tv se(1)] previous_frame [OF b c assms(2) t se] by blast
qed

theorem kpi_ranges_witness:
  "range_class ''last month'' = Some Month \<and>
   (\<exists>s. kpi_get_time_range demo_date ''last month'' 0 = Inr (s, start_of_day demo_date))"
proof -
  have "range_class ''last month'' = Some Month" "valid_dt demo_date" "11 \<le> dt_year demo_date" "dt_year demo_date \<le> 9980"
    "get_time_frame_start Month demo_date = Inr (start_of_day demo_date)" by code_simp+
  then show ?thesis using kpi_ranges [of "''last month''" Month demo_date 0] by auto
qed

lemma last_n_days:
  assumes "valid_dt now" "11 \<le> dt_year now" "dt_year now \<le> 9980" "0 \<le> n" "n \<le> 3000"
  shows "\<exists>s. kpi_get_time_range now ''last n days'' n = Inr (s, start_of_day now) \<and> start_of_day s = s \<and>
    micros (start_of_day now) = micros s + n * 86400000000"
proof -
  obtain t where t: "sub_days (nat n) now = Inr t"
    using sub_days_total [OF assms(1), of "nat n"] early_ordinal [OF assms(1,2)] assms(4,5) by auto
  let ?s = "start_of_day t"
  have s: "valid_dt ?s" "toordinal ?s = toordinal now - n" "time_micros ?s = 0"
    using sub_days_Inr [OF t] valid_first(4) assms(4) by simp_all
  have "toordinal ?s + n \<le> days_before_year 10000" using s(2) valid_ordinal(2) [OF assms(1)] by simp
  then obtain e where e: "add_days (nat n) ?s = Inr e" using add_days_total [OF s(1), of "nat n"] assms(4) by auto
  have "micros e = micros (start_of_day now)" using micros_add_days [OF e] s assms(4) by (simp add: micros_def algebra_simps)
  then have "e = start_of_day now" using micros_inj [OF add_days_Inr(2) [OF e] valid_first(4) [OF assms(1)]] by simp
  moreover have "shift_days (- n) now = Inr t" "shift_days n ?s = Inr e"
    using t e assms(4) by (auto simp: shift_days_def add_days_def sub_days_def)
  ultimately have "kpi_get_time_range now ''last n days'' n = Inr (?s, start_of_day now)"
    by (simp add: kpi_get_time_range_def parse_kpi_time_range_def get_time_frame_start_def)
  moreover have "micros (start_of_day now) = micros ?s + n * 86400000000" using s by (simp add: micros_def algebra_simps)
  moreover have "start_of_day ?s = ?s" by (simp add: start_of_day_def)
  ultimately show ?thesis by blast
qed

subsection \<open>Labels and steps of a display (frontend/common.py)\<close>

definition fmt_02d :: "int \<Rightarrow> string" where
  "fmt_02d i = (let s = str_of_int i in if length s < 2 then ''0'' @ s else s)"

definition fmt_04d :: "int \<Rightarrow> string" where
  "fmt_04d i = (let s = str_of_int i in replicate (4 - length s) (CHR ''0'') @ s)"

definition get_display_date :: "duration \<Rightarrow> datetime \<Rightarrow> string" where
  "get_display_date c t =
     (case c of
        Hour \<Rightarrow> fmt_02d (dt_hour t) @ '':00''
      | Month \<Rightarrow> str_of_int (dt_year t) @ ''-'' @ fmt_02d (dt_month t)
      | Year \<Rightarrow> fmt_04d (dt_year t)
      | Decade \<Rightarrow> fmt_04d (dt_year t)
      | _ \<Rightarrow> fmt_02d (dt_month t) @ ''-'' @ fmt_02d (dt_day t))"

definition parse_duration :: "string \<Rightarrow> datetime \<Rightarrow> (duration \<times> datetime \<times> datetime) res" where
  "parse_duration dur date =
     (let less_second = (\<lambda>c s e. bind_r e (\<lambda>e. bind_r (sub_second e) (\<lambda>e. Inr (c, s, e))))
      in if dur = ''day'' then
           bind_r (get_time_frame_start Day date) (\<lambda>s. less_second Hour s (get_end_time_for_start Day s))
         else if dur = ''week'' then
           bind_r (sub_days (nat (weekday date)) (start_of_day date)) (\<lambda>s. less_second Day s (add_days 7 s))
         else if dur = ''month'' then
           bind_r (get_time_frame_start Month date) (\<lambda>s. less_second Day s (get_end_time_for_start Month s))
         else if dur = ''year'' then
           less_second Month (new_year (dt_year date)) (if dt_year date < 9999 then Inr (new_year (dt_year date + 1)) else Inl ValueError)
         else Inl UnboundLocalError)"

lemma add_second_Inr:
  assumes "add_second d = Inr e"
  shows "valid_dt d" "valid_dt e" "micros e = micros d + 1000000"
proof -
  show d: "valid_dt d" and "valid_dt e"
    using assms add_hour_Inr by (auto simp: add_second_def bind_r_eq_Inr checked_Inr split: if_splits)
  have "valid_time d" using d by (simp add: valid_dt_def)
  then consider (s) "dt_second d < 59" "e = d\<lparr>dt_second := dt_second d + 1\<rparr>"
    | (m) "dt_second d = 59" "dt_minute d < 59" "e = d\<lparr>dt_second := 0, dt_minute := dt_minute d + 1\<rparr>"
    | (h) "dt_second d = 59" "dt_minute d = 59" "add_hour (d\<lparr>dt_second := 0, dt_minute := 0\<rparr>) = Inr e"
    using assms by (auto simp: add_second_def bind_r_eq_Inr checked_Inr valid_time_def split: if_splits)
  then show "micros e = micros d + 1000000"
    using add_hour_Inr(3) [of "d\<lparr>dt_second := 0, dt_minute := 0\<rparr>" e]
    by cases (simp_all add: micros_def toordinal_def time_micros_def)
qed

definition calendar_end :: int where
  "calendar_end = (days_before_year 10000 + 1) * 86400000000"

lemma micros_less_calendar_end: "valid_dt d \<Longrightarrow> micros d < calendar_end"
  using valid_ordinal(2) [of d] time_micros_bounds(2) [of d] unfolding micros_def calendar_end_def
  by (simp add: valid_dt_def distrib_right)

text \<open>The steps go to the end of the frame of the current time and one second further.\<close>

function step_times :: "duration \<Rightarrow> datetime \<Rightarrow> datetime \<Rightarrow> datetime list res" where
  "step_times c cur end_time =
     (if \<not> dt_less cur end_time then Inr []
      else
        (case get_end_time_for_start c cur of
           Inl err \<Rightarrow> Inl err
         | Inr e \<Rightarrow>
             (case add_second e of
                Inl err \<Rightarrow> Inl err
              | Inr n \<Rightarrow> bind_r (step_times c n end_time) (\<lambda>ts. Inr (cur # ts)))))"
  by pat_completeness auto
termination
proof (relation "measure (\<lambda>(c, cur, e). nat (calendar_end - micros cur))")
  fix c cur end_time e n
  assume "get_end_time_for_start c cur = Inr e" "add_second e = Inr n"
  then have "micros cur < micros n" "micros n < calendar_end"
    using end_after_start(3) [of c cur e] add_second_Inr [of e n] micros_less_calendar_end [of n] by simp_all
  then show "((c, n, end_time), (c, cur, end_time)) \<in> measure (\<lambda>(c, cur, e). nat (calendar_end - micros cur))" by simp
qed simp

declare step_times.simps [simp del]

definition get_steps :: "string \<Rightarrow> datetime \<Rightarrow> (string \<times> datetime) list res" where
  "get_steps dur date =
     bind_r (parse_duration dur date) (\<lambda>(c, s, e). bind_r (step_times c s e) (\<lambda>ts. Inr (map (\<lambda>t. (get_display_date c t, t)) ts)))"

end
