(* ===== verification/Log_Update.thy ===== *)
theory Log_Update
  imports Log_Aggregation Durations
begin

section \<open>The aggregation run (md_config_server/icinga_log_reader/log_aggregation.py)\<close>

text \<open>
  A run of the aggregator makes the rows of all complete time frames that are missing: hours from the raw tables of the
  log, and longer frames from the next shorter ones. The raw tables are lists of rows in the order of their dates, all
  times are counted in seconds from the start of the calendar. The two queries for the earliest alert give dates, and
  the request to exit is asked for after every frame.
\<close>

subsection \<open>The raw tables\<close>

record 'k raw_rows =
  rr_alerts :: "'k alert_row list"
  rr_flappings :: "'k event_row list"
  rr_downtimes :: "'k event_row list"
  rr_earliest :: "datetime option"

record ('h, 's) log_db =
  lg_hosts :: "'h raw_rows"
  lg_services :: "'s raw_rows"
  lg_dumps :: "py_float list"
  lg_last_read :: "py_float option"

definition seconds :: "datetime \<Rightarrow> py_float" where
  "seconds d = of_int (micros d) / 1000000"

text \<open>The state before the span: per key, state and state type the latest date, and the latest row of no device.\<close>

definition limit_query :: "py_float \<Rightarrow> 'k alert_row list \<Rightarrow> 'k limit_entry list" where
  "limit_query time rows =
     (let own = filter (\<lambda>r. \<not> ar_independent r \<and> al_date (ar_alert r) \<le> time) rows;
          group = (\<lambda>r. (ar_key r, state_of (ar_alert r)))
      in map (\<lambda>(k, s). \<lparr>le_key = k, le_state = s,
           le_date = Max (set (map (\<lambda>r. al_date (ar_alert r)) (filter (\<lambda>r. group r = (k, s)) own)))\<rparr>) (remdups (map group own)))"

definition latest_independent :: "py_float \<Rightarrow> 'k alert_row list \<Rightarrow> 'k limit_entry option" where
  "latest_independent time rows =
     (case sort_key (\<lambda>r. al_date (ar_alert r)) (filter (\<lambda>r. ar_independent r \<and> al_date (ar_alert r) \<le> time) rows) of
        [] \<Rightarrow> None
      | rs \<Rightarrow> let r = last rs in Some \<lparr>le_key = ar_key r, le_state = state_of (ar_alert r), le_date = al_date (ar_alert r)\<rparr>)"

definition raw_data_of ::
  "py_float \<Rightarrow> time_span \<Rightarrow> ('k \<times> (string \<times> state_type)) list \<Rightarrow> 'k raw_rows \<Rightarrow> 'k raw_data" where
  "raw_data_of now ts cache rr =
     \<lparr>rd_alerts = calc_alerts (\<lambda>_. True) (ts_start ts) (ts_end ts) (rr_alerts rr),
      rd_last = (if cache \<noteq> [] then cache
                 else calc_limit_alerts LastBefore (latest_independent (ts_start ts) (rr_alerts rr)) (limit_query (ts_start ts) (rr_alerts rr))),
      rd_downtimes = preprocess_start_stop_data now (ts_start ts) (ts_end ts) (rr_downtimes rr),
      rd_flappings = preprocess_start_stop_data now (ts_start ts) (ts_end ts) (rr_flappings rr)\<rparr>"

text \<open>The hosts and services of a span are those with an entry within five seconds of a full dump: of the latest dump before
  the span and those in it, or of the first one after its start.\<close>

definition dump_times_of :: "time_span \<Rightarrow> py_float list \<Rightarrow> py_float list" where
  "dump_times_of ts dumps =
     (let before = filter (\<lambda>d. d \<le> ts_start ts) dumps;
          times = (if before = [] then [] else [Max (set before)]) @ filter (\<lambda>d. ts_start ts \<le> d \<and> d \<le> ts_end ts) dumps;
          after = filter (\<lambda>d. ts_start ts \<le> d) dumps
      in if times \<noteq> [] then times else if after = [] then [] else [Min (set after)])"

definition active_keys :: "time_span \<Rightarrow> py_float list \<Rightarrow> 'k alert_row list \<Rightarrow> 'k list" where
  "active_keys ts dumps rows =
     remdups (map ar_key (filter (\<lambda>r. \<not> ar_independent r \<and>
       list_ex (\<lambda>t. t - 5 \<le> al_date (ar_alert r) \<and> al_date (ar_alert r) \<le> t + 5) (dump_times_of ts dumps)) rows))"

subsection \<open>The aggregated tables\<close>

record agg_span =
  sp_id :: nat
  sp_type :: duration
  sp_start :: datetime
  sp_end :: datetime

record ('h, 's) agg_db =
  ad_spans :: "agg_span list"
  ad_hosts :: "'h agg_row list"
  ad_services :: "'s agg_row list"

type_synonym 's state_cache = "('s \<times> (string \<times> state_type)) list"

definition create_from_raw_data ::
  "py_float \<Rightarrow> ('h, 's) log_db \<Rightarrow> agg_span \<Rightarrow> 's state_cache \<Rightarrow> ('h, 's) agg_db \<Rightarrow> (('h, 's) agg_db \<times> 's state_cache) res" where
  "create_from_raw_data now lg sp cache db =
     (let ts = \<lparr>ts_start = seconds (sp_start sp), ts_end = seconds (sp_end sp)\<rparr>;
          hosts = active_keys ts (lg_dumps lg) (rr_alerts (lg_hosts lg));
          services = active_keys ts (lg_dumps lg) (rr_alerts (lg_services lg))
      in bind_r (process_alerts ts (sp_id sp) (raw_data_of now ts cache (lg_services lg)) services) (\<lambda>(srows, next_cache).
         bind_r (process_alerts ts (sp_id sp) (raw_data_of now ts [] (lg_hosts lg)) hosts) (\<lambda>(hrows, _).
           Inr (db\<lparr>ad_services := ad_services db @ srows, ad_hosts := ad_hosts db @ hrows\<rparr>, next_cache))))"

definition source_spans :: "duration \<Rightarrow> agg_span \<Rightarrow> ('h, 's) agg_db \<Rightarrow> nat list" where
  "source_spans d sp db =
     map sp_id (filter (\<lambda>x. sp_type x = d \<and> seconds (sp_start sp) \<le> seconds (sp_start x) \<and>
       seconds (sp_start x) \<le> seconds (sp_end sp) - 1) (ad_spans db))"

definition create_incrementally :: "agg_span \<Rightarrow> ('h, 's) agg_db \<Rightarrow> ('h, 's) agg_db res" where
  "create_incrementally sp db =
     bind_r (get_shorter_duration (sp_type sp)) (\<lambda>d.
       let ids = source_spans d sp db
       in Inr (db\<lparr>ad_hosts := ad_hosts db @ create_entries_incrementally (sp_id sp) (filter (\<lambda>r. ag_timespan r \<in> set ids) (ad_hosts db)),
                  ad_services := ad_services db @ create_entries_incrementally (sp_id sp) (filter (\<lambda>r. ag_timespan r \<in> set ids) (ad_services db))\<rparr>))"

text \<open>A frame whose creation fails is deleted again.\<close>

definition create_timespan_entry ::
  "py_float \<Rightarrow> ('h, 's) log_db \<Rightarrow> duration \<Rightarrow> datetime \<Rightarrow> datetime \<Rightarrow> 's state_cache \<Rightarrow> ('h, 's) agg_db
     \<Rightarrow> (('h, 's) agg_db \<times> 's state_cache) res" where
  "create_timespan_entry now lg c s e cache db =
     (let sp = \<lparr>sp_id = length (ad_spans db), sp_type = c, sp_start = s, sp_end = e\<rparr>;
          db1 = db\<lparr>ad_spans := ad_spans db @ [sp]\<rparr>
      in if c = Hour then create_from_raw_data now lg sp cache db1
         else bind_r (create_incrementally sp db1) (\<lambda>db2. Inr (db2, [])))"

definition sufficient_data :: "('h, 's) log_db \<Rightarrow> datetime \<Rightarrow> bool" where
  "sufficient_data lg e = (case lg_last_read lg of Some t \<Rightarrow> seconds e < t | None \<Rightarrow> False)"

type_synonym ('h, 's) run = "('h, 's) agg_db \<times> py_error option"

function agg_loop ::
  "(nat \<Rightarrow> bool) \<Rightarrow> py_float \<Rightarrow> ('h, 's) log_db \<Rightarrow> duration \<Rightarrow> datetime \<Rightarrow> 's state_cache \<Rightarrow> ('h, 's) agg_db \<Rightarrow> ('h, 's) run" where
  "agg_loop exit_requested now lg c s cache db =
     (case get_end_time_for_start c s of
        Inl err \<Rightarrow> (db, Some err)
      | Inr e \<Rightarrow>
          if \<not> sufficient_data lg e then (db, None)
          else
            (case create_timespan_entry now lg c s e cache db of
               Inl err \<Rightarrow> (db, Some err)
             | Inr (db', cache') \<Rightarrow>
                 if exit_requested (length (ad_spans db')) then (db', None)
                 else agg_loop exit_requested now lg c e cache' db'))"
  by pat_completeness auto
termination
proof (relation "measure (\<lambda>(x, now, lg, c, s, cache, db). nat (calendar_end - micros s))")
  fix x :: "nat \<Rightarrow> bool" and now :: py_float and lg :: "('h, 's) log_db" and c s e cache and db db' :: "('h, 's) agg_db" and cache' r
  assume "get_end_time_for_start c s = Inr e"
  then have "micros s < micros e" "micros e < calendar_end"
    using end_after_start [of c s e] micros_less_calendar_end [of e] by simp_all
  then show "((x, now, lg, c, e, cache', db'), (x, now, lg, c, s, cache, db)) \<in>
      measure (\<lambda>(x, now, lg, c, s, cache, db). nat (calendar_end - micros s))" by simp
qed simp

declare agg_loop.simps [simp del]

text \<open>Where to go on: at the end of the last frame of the class, or with the frame of the first alert, if both tables have
  alerts.\<close>

definition latest_span :: "duration \<Rightarrow> agg_span list \<Rightarrow> agg_span option" where
  "latest_span c sps =
     (case filter (\<lambda>x. sp_type x = c) sps of [] \<Rightarrow> None
      | y # ys \<Rightarrow> Some (fold (\<lambda>x m. if dt_less (sp_start m) (sp_start x) then x else m) ys y))"

definition next_start_time :: "('h, 's) log_db \<Rightarrow> duration \<Rightarrow> ('h, 's) agg_db \<Rightarrow> datetime option res" where
  "next_start_time lg c db =
     (case latest_span c (ad_spans db) of
        Some sp \<Rightarrow> Inr (Some (sp_end sp))
      | None \<Rightarrow>
          (case (rr_earliest (lg_hosts lg), rr_earliest (lg_services lg)) of
             (Some d1, Some d2) \<Rightarrow> bind_r (get_time_frame_start c (if dt_less d2 d1 then d2 else d1)) (\<lambda>s. Inr (Some s))
           | _ \<Rightarrow> Inr None))"

definition update_class ::
  "(nat \<Rightarrow> bool) \<Rightarrow> py_float \<Rightarrow> ('h, 's) log_db \<Rightarrow> duration \<Rightarrow> ('h, 's) agg_db \<Rightarrow> ('h, 's) run" where
  "update_class exit_requested now lg c db =
     (case next_start_time lg c db of
        Inl err \<Rightarrow> (db, Some err)
      | Inr None \<Rightarrow> (db, None)
      | Inr (Some s) \<Rightarrow> agg_loop exit_requested now lg c s [] db)"

fun update_classes ::
  "(nat \<Rightarrow> bool) \<Rightarrow> py_float \<Rightarrow> ('h, 's) log_db \<Rightarrow> duration list \<Rightarrow> ('h, 's) agg_db \<Rightarrow> ('h, 's) run" where
  "update_classes exit_requested now lg [] db = (db, None)"
| "update_classes exit_requested now lg (c # cs) db =
     (case update_class exit_requested now lg c db of
        (db', Some err) \<Rightarrow> (db', Some err)
      | (db', None) \<Rightarrow> if exit_requested (length (ad_spans db')) then (db', None) else update_classes exit_requested now lg cs db')"

definition aggregator_update ::
  "(nat \<Rightarrow> bool) \<Rightarrow> py_float \<Rightarrow> ('h, 's) log_db \<Rightarrow> ('h, 's) agg_db \<Rightarrow> ('h, 's) run" where
  "aggregator_update exit_requested now lg db =
     update_classes exit_requested now lg [Hour, Day, Week, Month, Year] db"

subsection \<open>Weights of the aggregated rows\<close>

definition weights_ok :: "'k agg_row list \<Rightarrow> bool" where
  "weights_ok rows \<longleftrightarrow>
     (\<forall>r \<in> set rows. rows_value (ag_key r) (\<lambda>s. s \<noteq> Flapping) (filter (\<lambda>x. ag_timespan x = ag_timespan r) rows) = 1)"

lemma rows_value_append [simp]: "rows_value k P (xs @ ys) = rows_value k P xs + rows_value k P ys"
  by (simp add: rows_value_def)

lemma rows_value_none: "k \<notin> ag_key ` set rows \<Longrightarrow> rows_value k P rows = 0"
proof -
  assume "k \<notin> ag_key ` set rows"
  then have "filter (\<lambda>r. ag_key r = k \<and> P (ag_state r)) rows = []" by (auto simp: filter_empty_conv)
  then show ?thesis by (simp add: rows_value_def)
qed

lemma weights_ok_append:
  assumes "weights_ok xs" "weights_ok ys" "ag_timespan ` set xs \<inter> ag_timespan ` set ys = {}"
  shows "weights_ok (xs @ ys)"
proof -
  have "filter (\<lambda>x. ag_timespan x = ag_timespan r) ys = []" if "r \<in> set xs" for r
    using assms(3) that by (auto simp: filter_empty_conv)
  moreover have "filter (\<lambda>x. ag_timespan x = ag_timespan r) xs = []" if "r \<in> set ys" for r
    using assms(3) that by (auto simp: filter_empty_conv)
  ultimately show ?thesis
    using assms(1,2) rows_value_none [of _ "[]"] unfolding weights_ok_def by auto
qed

lemma weights_ok_one_span:
  assumes "\<forall>r \<in> set rows. ag_timespan r = t" "\<forall>r \<in> set rows. rows_value (ag_key r) (\<lambda>s. s \<noteq> Flapping) rows = 1"
  shows "weights_ok rows"
  using assms by (auto simp: weights_ok_def filter_id_conv)

definition key_rows :: "nat \<Rightarrow> 'k \<Rightarrow> (agg_state \<times> py_float) list \<Rightarrow> 'k agg_row list" where
  "key_rows t k ws = map (\<lambda>(s, v). \<lparr>ag_timespan = t, ag_key = k, ag_state = s, ag_value = v\<rparr>) ws"

lemma rows_value_key_rows:
  "rows_value j P (key_rows t k ws) = (if j = k then sum_list (map snd (filter (\<lambda>(s, v). P s) ws)) else 0)"
  by (induction ws) (auto simp: key_rows_def rows_value_def)

lemma process_alerts_rows:
  assumes "process_alerts ts t rd ks = Inr (rows, l)"
  obtains rs where "mapM_r (\<lambda>k. bind_r (process_key ts rd k) (\<lambda>(ws, l). Inr (k, ws, l))) ks = Inr rs"
    "rows = concat (map (\<lambda>(k, ws, l). key_rows t k ws) rs)"
  using assms by (auto simp: process_alerts_def bind_r_eq_Inr key_rows_def)

lemma mapM_keys:
  "mapM_r (\<lambda>k. bind_r (process_key ts rd k) (\<lambda>(ws, l). Inr (k, ws, l))) ks = Inr rs \<Longrightarrow>
   map fst rs = ks \<and> (\<forall>x \<in> set rs. process_key ts rd (fst x) = Inr (snd x))"
proof (induction ks arbitrary: rs)
  case (Cons k ks)
  have eq: "(\<lambda>(ws, l). Inr (k, ws, l)) = (\<lambda>p. Inr (k, p))" for k by auto
  from Cons.prems obtain p rs' where "process_key ts rd k = Inr p" "rs = (k, p) # rs'"
    "mapM_r (\<lambda>k. bind_r (process_key ts rd k) (\<lambda>p. Inr (k, p))) ks = Inr rs'"
    unfolding eq by (auto simp: bind_r_eq_Inr)
  with Cons.IH [of rs'] show ?case unfolding eq by simp
qed simp

lemma rows_value_concat:
  assumes "distinct (map fst rs)" "(k, ws, l) \<in> set rs"
  shows "rows_value k P (concat (map (\<lambda>(k, ws, l). key_rows t k ws) rs)) = sum_list (map snd (filter (\<lambda>(s, v). P s) ws))"
  using assms
proof (induction rs)
  case (Cons x rs)
  show ?case
  proof (cases "x = (k, ws, l)")
    case True
    then have "k \<notin> ag_key ` set (concat (map (\<lambda>(k, ws, l). key_rows t k ws) rs))"
      using Cons.prems(1) by (auto simp: key_rows_def image_iff)
    with True show ?thesis by (simp add: rows_value_none rows_value_key_rows)
  next
    case False
    then have "(k, ws, l) \<in> set rs" "fst x \<noteq> k" using Cons.prems by (auto simp: image_iff)
    then show ?thesis using Cons by (cases x) (simp add: rows_value_key_rows)
  qed
qed simp

lemma process_alerts_weights:
  assumes "process_alerts ts t rd ks = Inr (rows, l)" "distinct ks" "ts_start ts \<noteq> ts_end ts"
  shows "weights_ok rows" "\<forall>r \<in> set rows. ag_timespan r = t"
proof -
  obtain rs where rs: "mapM_r (\<lambda>k. bind_r (process_key ts rd k) (\<lambda>(ws, l). Inr (k, ws, l))) ks = Inr rs"
    "rows = concat (map (\<lambda>(k, ws, l). key_rows t k ws) rs)" using process_alerts_rows [OF assms(1)] .
  show t: "\<forall>r \<in> set rows. ag_timespan r = t" using rs(2) by (auto simp: key_rows_def)
  have "rows_value (ag_key r) (\<lambda>s. s \<noteq> Flapping) rows = 1" if "r \<in> set rows" for r
  proof -
    obtain x where "x \<in> set rs" "r \<in> set (case x of (k, ws, l) \<Rightarrow> key_rows t k ws)" using \<open>r \<in> set rows\<close> rs(2) by auto
    moreover obtain k ws m where "x = (k, ws, m)" by (cases x)
    ultimately have x: "(k, ws, m) \<in> set rs" "ag_key r = k" by (auto simp: key_rows_def)
    then have "process_key ts rd k = Inr (ws, m)" using mapM_keys [OF rs(1)] by fastforce
    then have "sum_list (map snd (filter (\<lambda>(s, v). s \<noteq> Flapping) ws)) = 1" using assms(3) by (rule process_key_sum)
    then show ?thesis using rows_value_concat [of rs k ws m "\<lambda>s. s \<noteq> Flapping" t] x mapM_keys [OF rs(1)] assms(2) rs(2) by simp
  qed
  with t show "weights_ok rows" by (intro weights_ok_one_span) auto
qed

lemma keys_add_to: "fst ` set (add_to k v d) = insert k (fst ` set d)"
  by (simp add: add_to_def dom_update)

lemma keys_fold_add_to: "fst ` set (fold (\<lambda>r. add_to (f r) (v r)) rs d) = f ` set rs \<union> fst ` set d"
  by (induction rs arbitrary: d) (auto simp: keys_add_to)

lemma keys_undetermined: "fst ` set (fold (add_undetermined rows) ks d) \<subseteq> fst ` set d \<union> {(k, s) | k s. k \<in> set ks}"
proof (induction ks arbitrary: d)
  case (Cons k ks)
  have "fst ` set (add_undetermined rows k d) \<subseteq> fst ` set d \<union> {(k, Regular (''UD'', ST_Undetermined))}"
    by (auto simp: add_undetermined_def keys_fold_add_to)
  with Cons [of "add_undetermined rows k d"] show ?case by auto
qed simp

lemma created_keys: "ag_key ` set (create_entries_incrementally t rows) \<subseteq> ag_key ` set rows"
proof -
  let ?d = "fold (add_undetermined rows) (remdups (map ag_key rows)) (data_sum rows)"
  have "fst ` set ?d \<subseteq> fst ` set (data_sum rows) \<union> {(k, s) | k s. k \<in> ag_key ` set rows}"
    using keys_undetermined [of rows "remdups (map ag_key rows)" "data_sum rows"] by simp
  moreover have "fst ` set (data_sum rows) = (\<lambda>r. (ag_key r, ag_state r)) ` set rows"
    by (simp add: data_sum_def keys_fold_add_to)
  ultimately have "fst x \<in> ag_key ` set rows" if "x \<in> fst ` set ?d" for x using that by auto
  then show ?thesis by (force simp: create_entries_incrementally_def Let_def)
qed

lemma created_weights:
  assumes "weights_ok rows"
  shows "weights_ok (create_entries_incrementally t rows)" "\<forall>r \<in> set (create_entries_incrementally t rows). ag_timespan r = t"
proof -
  show t: "\<forall>r \<in> set (create_entries_incrementally t rows). ag_timespan r = t"
    by (auto simp: create_entries_incrementally_def Let_def)
  have "rows_value (ag_key r) (\<lambda>s. s \<noteq> Flapping) (create_entries_incrementally t rows) = 1"
    if "r \<in> set (create_entries_incrementally t rows)" for r
  proof -
    have "\<forall>u \<in> set (timespans_of rows (ag_key r)). rows_value (ag_key r) (\<lambda>s. s \<noteq> Flapping) (filter (\<lambda>x. ag_timespan x = u) rows) = 1"
      using assms by (auto simp: timespans_of_def weights_ok_def)
    with incremental_sum [of "ag_key r" rows] created_keys [of t rows] that show ?thesis by blast
  qed
  with t show "weights_ok (create_entries_incrementally t rows)" by (intro weights_ok_one_span) auto
qed

lemma weights_ok_filter:
  fixes rows :: "'k agg_row list"
  assumes w: "weights_ok rows"
  shows "weights_ok (filter (\<lambda>r. ag_timespan r \<in> T) rows)"
proof -
  have "filter (\<lambda>x. ag_timespan x = ag_timespan r) (filter (\<lambda>r. ag_timespan r \<in> T) rows) = filter (\<lambda>x. ag_timespan x = ag_timespan r) rows"
    if "ag_timespan r \<in> T" for r :: "'k agg_row" using that by (auto intro: filter_cong)
  then have "\<forall>r \<in> set (filter (\<lambda>r. ag_timespan r \<in> T) rows). rows_value (ag_key r) (\<lambda>s. s \<noteq> Flapping)
      (filter (\<lambda>x. ag_timespan x = ag_timespan r) (filter (\<lambda>r. ag_timespan r \<in> T) rows)) = 1"
    using w unfolding weights_ok_def by (simp del: filter_filter)
  then show ?thesis unfolding weights_ok_def .
qed

subsection \<open>The frames of the aggregated tables\<close>

definition span_frame :: "agg_span \<Rightarrow> bool" where
  "span_frame sp \<longleftrightarrow> valid_dt (sp_start sp) \<and> get_time_frame_start (sp_type sp) (sp_start sp) = Inr (sp_start sp) \<and>
     get_end_time_for_start (sp_type sp) (sp_start sp) = Inr (sp_end sp)"

fun chained :: "agg_span list \<Rightarrow> bool" where
  "chained (a # b # sps) \<longleftrightarrow> sp_end a = sp_start b \<and> chained (b # sps)"
| "chained sps \<longleftrightarrow> True"

definition of_class :: "duration \<Rightarrow> agg_span list \<Rightarrow> agg_span list" where
  "of_class c sps = filter (\<lambda>x. sp_type x = c) sps"

text \<open>The tables are in order when the frames of every class are frames of the calendar without gap or overlap and the
  weights of every host and service sum to one in every frame.\<close>

definition agg_ok :: "('h, 's) agg_db \<Rightarrow> bool" where
  "agg_ok db \<longleftrightarrow>
     map sp_id (ad_spans db) = [0..<length (ad_spans db)] \<and>
     (\<forall>sp \<in> set (ad_spans db). span_frame sp) \<and>
     (\<forall>c. chained (of_class c (ad_spans db))) \<and>
     weights_ok (ad_hosts db) \<and> weights_ok (ad_services db) \<and>
     (\<forall>r \<in> set (ad_hosts db). ag_timespan r < length (ad_spans db)) \<and>
     (\<forall>r \<in> set (ad_services db). ag_timespan r < length (ad_spans db))"

lemma chained_snoc: "chained (sps @ [x]) \<longleftrightarrow> chained sps \<and> (sps \<noteq> [] \<longrightarrow> sp_end (last sps) = sp_start x)"
  by (induction sps rule: chained.induct) auto

lemma chained_increasing:
  assumes "chained sps" "\<forall>sp \<in> set sps. span_frame sp"
  shows "sorted_wrt (\<lambda>a b. dt_less (sp_start a) (sp_start b)) sps"
  using assms
proof (induction sps rule: chained.induct)
  case (1 a b sps)
  have less: "dt_less (sp_start x) (sp_start y) \<longleftrightarrow> micros (sp_start x) < micros (sp_start y)" if "span_frame x" "span_frame y" for x y
    using that by (simp add: span_frame_def dt_less_iff)
  have ab: "micros (sp_start a) < micros (sp_start b)"
    using 1 end_after_start(3) [of "sp_type a" "sp_start a" "sp_end a"] by (simp add: span_frame_def)
  have "sorted_wrt (\<lambda>a b. dt_less (sp_start a) (sp_start b)) (b # sps)" using 1 by simp
  moreover have "dt_less (sp_start a) (sp_start y)" if "y \<in> set (b # sps)" for y
    using that ab calculation 1 less by (fastforce simp: less)
  ultimately show ?case by simp
qed simp_all

lemma fold_latest:
  assumes "sorted_wrt (\<lambda>a b. dt_less (sp_start a) (sp_start b)) (y # ys)"
  shows "fold (\<lambda>x m. if dt_less (sp_start m) (sp_start x) then x else m) ys y = last (y # ys)"
  using assms by (induction ys arbitrary: y) auto

lemma latest_span_last:
  assumes "agg_ok db"
  shows "latest_span c (ad_spans db) = (if of_class c (ad_spans db) = [] then None else Some (last (of_class c (ad_spans db))))"
proof -
  have "sorted_wrt (\<lambda>a b. dt_less (sp_start a) (sp_start b)) (of_class c (ad_spans db))"
    using assms by (intro chained_increasing) (auto simp: agg_ok_def of_class_def)
  then show ?thesis
    by (auto simp: latest_span_def of_class_def fold_latest split: list.splits)
qed

text \<open>A time at which the next frame of a class may start.\<close>

definition can_follow :: "duration \<Rightarrow> datetime \<Rightarrow> ('h, 's) agg_db \<Rightarrow> bool" where
  "can_follow c s db \<longleftrightarrow> valid_dt s \<and> get_time_frame_start c s = Inr s \<and>
     (of_class c (ad_spans db) \<noteq> [] \<longrightarrow> sp_end (last (of_class c (ad_spans db))) = s)"

lemma new_rows_ok:
  assumes "weights_ok rows" "\<forall>r \<in> set rows. ag_timespan r < n" "weights_ok new" "\<forall>r \<in> set new. ag_timespan r = n"
  shows "weights_ok (rows @ new) \<and> (\<forall>r \<in> set (rows @ new). ag_timespan r < Suc n)"
  using assms by (intro conjI weights_ok_append) fastforce+

lemma create_timespan_entry_spans:
  assumes "create_timespan_entry now lg c s e cache db = Inr (db', cache')"
  shows "ad_spans db' = ad_spans db @ [\<lparr>sp_id = length (ad_spans db), sp_type = c, sp_start = s, sp_end = e\<rparr>]"
  using assms
  by (auto simp: create_timespan_entry_def create_from_raw_data_def create_incrementally_def bind_r_eq_Inr Let_def split: if_splits)

lemma seconds_less: "micros a < micros b \<Longrightarrow> seconds a < seconds b"
  by (simp add: seconds_def divide_strict_right_mono)

lemma create_timespan_entry_rows:
  assumes "create_timespan_entry now lg c s e cache db = Inr (db', cache')" "micros s < micros e"
    and "weights_ok (ad_hosts db)" "weights_ok (ad_services db)"
  obtains hs ss where "ad_hosts db' = ad_hosts db @ hs" "ad_services db' = ad_services db @ ss" "weights_ok hs" "weights_ok ss"
    "\<forall>r \<in> set hs. ag_timespan r = length (ad_spans db)" "\<forall>r \<in> set ss. ag_timespan r = length (ad_spans db)"
proof (cases "c = Hour")
  case True
  let ?ts = "\<lparr>ts_start = seconds s, ts_end = seconds e\<rparr>"
  have ts: "ts_start ?ts \<noteq> ts_end ?ts" using seconds_less [OF assms(2)] by simp
  obtain hs ss l where "ad_hosts db' = ad_hosts db @ hs" "ad_services db' = ad_services db @ ss"
    and p: "process_alerts ?ts (length (ad_spans db)) (raw_data_of now ?ts cache (lg_services lg))
        (active_keys ?ts (lg_dumps lg) (rr_alerts (lg_services lg))) = Inr (ss, cache')"
      "process_alerts ?ts (length (ad_spans db)) (raw_data_of now ?ts [] (lg_hosts lg))
        (active_keys ?ts (lg_dumps lg) (rr_alerts (lg_hosts lg))) = Inr (hs, l)"
    using assms(1) True by (auto simp: create_timespan_entry_def create_from_raw_data_def bind_r_eq_Inr Let_def)
  moreover have "distinct (active_keys t d r)" for t d and r :: "'k alert_row list" by (simp add: active_keys_def)
  ultimately show ?thesis
    using that process_alerts_weights [OF p(1) _ ts] process_alerts_weights [OF p(2) _ ts] by (simp add: active_keys_def)
next
  case False
  obtain ids where r: "ad_hosts db' = ad_hosts db @ create_entries_incrementally (length (ad_spans db)) (filter (\<lambda>r. ag_timespan r \<in> set ids) (ad_hosts db))"
    "ad_services db' = ad_services db @ create_entries_incrementally (length (ad_spans db)) (filter (\<lambda>r. ag_timespan r \<in> set ids) (ad_services db))"
    using assms(1) False by (auto simp: create_timespan_entry_def create_incrementally_def bind_r_eq_Inr Let_def)
  note w = created_weights [OF weights_ok_filter [OF assms(3)]] created_weights [OF weights_ok_filter [OF assms(4)]]
  show ?thesis by (rule that [OF r w(1) w(3) w(2) w(4)])
qed

lemma create_timespan_entry_ok:
  assumes "create_timespan_entry now lg c s e cache db = Inr (db', cache')"
    and "agg_ok db" "can_follow c s db" "get_end_time_for_start c s = Inr e"
  shows "agg_ok db' \<and> can_follow c e db'"
proof -
  let ?sp = "\<lparr>sp_id = length (ad_spans db), sp_type = c, sp_start = s, sp_end = e\<rparr>"
  note sps = create_timespan_entry_spans [OF assms(1)]
  have w: "weights_ok (ad_hosts db)" "weights_ok (ad_services db)" using assms(2) by (simp_all add: agg_ok_def)
  obtain hs ss where r: "ad_hosts db' = ad_hosts db @ hs" "ad_services db' = ad_services db @ ss" "weights_ok hs" "weights_ok ss"
    "\<forall>r \<in> set hs. ag_timespan r = length (ad_spans db)" "\<forall>r \<in> set ss. ag_timespan r = length (ad_spans db)"
    using create_timespan_entry_rows [OF assms(1) end_after_start(3) [OF assms(4)] w] .
  have "weights_ok (ad_hosts db') \<and> (\<forall>r \<in> set (ad_hosts db'). ag_timespan r < length (ad_spans db'))"
    "weights_ok (ad_services db') \<and> (\<forall>r \<in> set (ad_services db'). ag_timespan r < length (ad_spans db'))"
    using new_rows_ok [of "ad_hosts db" "length (ad_spans db)" hs] new_rows_ok [of "ad_services db" "length (ad_spans db)" ss]
      assms(2) r sps by (simp_all add: agg_ok_def)
  moreover have "span_frame ?sp" using assms(3,4) by (simp add: span_frame_def can_follow_def)
  moreover have "chained (of_class d (ad_spans db'))" for d
    using assms(2,3) sps by (auto simp: agg_ok_def of_class_def can_follow_def chained_snoc)
  moreover have "frame_law c s e" using assms(3,4) by (auto simp: can_follow_def intro: frames)
  ultimately show ?thesis
    using assms(2) sps by (auto simp: agg_ok_def can_follow_def frame_law_def of_class_def)
qed

subsection \<open>Runs\<close>

lemma agg_loop_extends: "\<exists>new. ad_spans (fst (agg_loop ex now lg c s cache db)) = ad_spans db @ new"
proof (induction ex now lg c s cache db rule: agg_loop.induct)
  case (1 ex now lg c s cache db)
  then show ?case
    by (subst agg_loop.simps) (fastforce simp: create_timespan_entry_spans split: sum.splits)
qed

text \<open>What a loop keeps: from a state in order, with a start where the next frame may be, it ends in a state in order; the
  frames of other classes stay; and a loop that ends by itself leaves no complete frame behind.\<close>

definition all_done :: "('h, 's) log_db \<Rightarrow> duration \<Rightarrow> datetime \<Rightarrow> bool" where
  "all_done lg c s \<longleftrightarrow> (\<exists>e. get_end_time_for_start c s = Inr e \<and> \<not> sufficient_data lg e)"

definition no_exit :: "(nat \<Rightarrow> bool) \<Rightarrow> bool" where
  "no_exit ex \<longleftrightarrow> (\<forall>n. \<not> ex n)"

lemma agg_loop_keeps:
  assumes "agg_ok db" "can_follow c s db"
  shows "agg_ok (fst (agg_loop ex now lg c s cache db)) \<and>
    (\<forall>d. d \<noteq> c \<longrightarrow> of_class d (ad_spans (fst (agg_loop ex now lg c s cache db))) = of_class d (ad_spans db)) \<and>
    (snd (agg_loop ex now lg c s cache db) = None \<and> no_exit ex \<longrightarrow>
      (\<exists>s'. can_follow c s' (fst (agg_loop ex now lg c s cache db)) \<and> all_done lg c s' \<and>
        (of_class c (ad_spans (fst (agg_loop ex now lg c s cache db))) = [] \<longrightarrow> s' = s)))"
  using assms
proof (induction ex now lg c s cache db rule: agg_loop.induct)
  case (1 ex now lg c s cache db)
  show ?case
  proof (cases "\<exists>e db' cache'. get_end_time_for_start c s = Inr e \<and> sufficient_data lg e \<and>
      create_timespan_entry now lg c s e cache db = Inr (db', cache')")
    case True
    then obtain e db' cache' where e: "get_end_time_for_start c s = Inr e" "sufficient_data lg e"
      "create_timespan_entry now lg c s e cache db = Inr (db', cache')" by blast
    have ok: "agg_ok db'" "can_follow c e db'" using create_timespan_entry_ok [OF e(3) 1(2,3) e(1)] by simp_all
    have other: "of_class d (ad_spans db') = of_class d (ad_spans db)" if "d \<noteq> c" for d
      using create_timespan_entry_spans [OF e(3)] that by (simp add: of_class_def)
    show ?thesis
    proof (cases "ex (length (ad_spans db'))")
      case True
      then show ?thesis using e ok other by (auto simp: agg_loop.simps [of ex now lg c s] no_exit_def)
    next
      case False
      have "agg_loop ex now lg c s cache db = agg_loop ex now lg c e cache' db'"
        using e False by (simp add: agg_loop.simps [of ex now lg c s])
      moreover have "of_class c (ad_spans (fst (agg_loop ex now lg c e cache' db'))) \<noteq> []" 
        using create_timespan_entry_spans [OF e(3)] agg_loop_extends [of ex now lg c e cache' db'] by (auto simp: of_class_def)
      ultimately show ?thesis using 1(1) [OF e(1) _ e(3) refl False ok] e(2) other by simp
    qed
  next
    case False
    then have "fst (agg_loop ex now lg c s cache db) = db \<and>
        (snd (agg_loop ex now lg c s cache db) = None \<longrightarrow> all_done lg c s)"
      by (auto simp: agg_loop.simps [of ex now lg c s] all_done_def split: sum.splits)
    then show ?thesis using 1(2,3) by auto
  qed
qed

definition log_dates_ok :: "('h, 's) log_db \<Rightarrow> bool" where
  "log_dates_ok lg \<longleftrightarrow>
     (\<forall>d. rr_earliest (lg_hosts lg) = Some d \<longrightarrow> valid_dt d) \<and> (\<forall>d. rr_earliest (lg_services lg) = Some d \<longrightarrow> valid_dt d)"

lemma next_start_follows:
  assumes "next_start_time lg c db = Inr (Some s)" "agg_ok db" "log_dates_ok lg"
  shows "can_follow c s db"
proof (cases "of_class c (ad_spans db) = []")
  case True
  then obtain d where "valid_dt d" "get_time_frame_start c d = Inr s"
    using assms latest_span_last [OF assms(2), of c]
    by (auto simp: next_start_time_def log_dates_ok_def bind_r_eq_Inr split: option.splits if_splits)
  then show ?thesis using True by (auto simp: can_follow_def intro: frame_start_valid frame_start_idem)
next
  case False
  define sp where "sp = last (of_class c (ad_spans db))"
  have sp: "sp \<in> set (ad_spans db)" "sp_type sp = c"
    using last_in_set [OF False] by (auto simp: sp_def of_class_def)
  have s: "s = sp_end sp" using assms(1) latest_span_last [OF assms(2), of c] False by (simp add: next_start_time_def sp_def)
  have "span_frame sp" using assms(2) sp by (simp add: agg_ok_def)
  then have "frame_law c (sp_start sp) (sp_end sp)" using sp(2) by (auto simp: span_frame_def intro: frames)
  then show ?thesis using s by (simp add: can_follow_def frame_law_def sp_def)
qed

lemma next_start_other:
  assumes "agg_ok db" "agg_ok db'" "of_class c (ad_spans db') = of_class c (ad_spans db)"
  shows "next_start_time lg c db' = next_start_time lg c db"
  using assms by (simp add: next_start_time_def latest_span_last)

text \<open>Nothing is left to do for a class.\<close>

definition class_done :: "('h, 's) log_db \<Rightarrow> duration \<Rightarrow> ('h, 's) agg_db \<Rightarrow> bool" where
  "class_done lg c db = (case next_start_time lg c db of Inr (Some s) \<Rightarrow> all_done lg c s | Inr None \<Rightarrow> True | Inl _ \<Rightarrow> False)"

lemma update_class_keeps:
  assumes "agg_ok db" "log_dates_ok lg"
  shows "agg_ok (fst (update_class ex now lg c db)) \<and>
    (\<forall>d. d \<noteq> c \<longrightarrow> of_class d (ad_spans (fst (update_class ex now lg c db))) = of_class d (ad_spans db)) \<and>
    (snd (update_class ex now lg c db) = None \<and> no_exit ex \<longrightarrow> class_done lg c (fst (update_class ex now lg c db)))"
proof (cases "\<exists>s. next_start_time lg c db = Inr (Some s)")
  case True
  then obtain s where s: "next_start_time lg c db = Inr (Some s)" by blast
  have u: "update_class ex now lg c db = agg_loop ex now lg c s [] db" by (simp add: update_class_def s)
  note k = agg_loop_keeps [OF assms(1) next_start_follows [OF s assms], of ex now lg "[]"]
  let ?db = "fst (agg_loop ex now lg c s [] db)"
  have "class_done lg c ?db" if s': "can_follow c s' ?db" "all_done lg c s'" "of_class c (ad_spans ?db) = [] \<longrightarrow> s' = s" for s'
  proof (cases "of_class c (ad_spans ?db) = []")
    case True
    moreover have "of_class c (ad_spans db) = []" using True agg_loop_extends [of ex now lg c s "[]" db] by (auto simp: of_class_def)
    ultimately have "next_start_time lg c ?db = next_start_time lg c db" using k assms(1) by (intro next_start_other) simp_all
    then show ?thesis using s s' True by (simp add: class_done_def)
  next
    case False
    then have "next_start_time lg c ?db = Inr (Some s')"
      using k s'(1) by (simp add: next_start_time_def latest_span_last can_follow_def)
    then show ?thesis using s'(2) by (simp add: class_done_def)
  qed
  with k show ?thesis unfolding u by blast
next
  case False
  then show ?thesis using assms by (auto simp: update_class_def class_done_def split: sum.splits option.splits)
qed

lemma update_classes_keeps:
  assumes "agg_ok db" "log_dates_ok lg" "distinct cs"
  shows "agg_ok (fst (update_classes ex now lg cs db)) \<and>
    (\<forall>d. d \<notin> set cs \<longrightarrow> of_class d (ad_spans (fst (update_classes ex now lg cs db))) = of_class d (ad_spans db)) \<and>
    (snd (update_classes ex now lg cs db) = None \<and> no_exit ex \<longrightarrow> (\<forall>c \<in> set cs. class_done lg c (fst (update_classes ex now lg cs db))))"
  using assms
proof (induction cs arbitrary: db)
  case (Cons c cs)
  obtain db1 err where u: "update_class ex now lg c db = (db1, err)" by (cases "update_class ex now lg c db")
  note k = update_class_keeps [OF Cons.prems(1,2), of ex now c, unfolded u fst_conv snd_conv]
  show ?case
  proof (cases "err = None \<and> \<not> ex (length (ad_spans db1))")
    case False
    then show ?thesis using k u by (auto simp: no_exit_def split: option.splits)
  next
    case True
    have r: "update_classes ex now lg (c # cs) db = update_classes ex now lg cs db1" using True u by simp
    note k1 = Cons.IH [of db1]
    let ?db = "fst (update_classes ex now lg cs db1)"
    have ok: "agg_ok db1" "distinct cs" "c \<notin> set cs" using k Cons.prems(3) by simp_all
    have "next_start_time lg c ?db = next_start_time lg c db1"
      using k1 ok Cons.prems(2) by (intro next_start_other) auto
    then have "class_done lg c ?db \<longleftrightarrow> class_done lg c db1" by (simp add: class_done_def)
    then show ?thesis using k k1 ok Cons.prems(2) True unfolding r by auto
  qed
qed simp

definition empty_agg :: "('h, 's) agg_db" where
  "empty_agg = \<lparr>ad_spans = [], ad_hosts = [], ad_services = []\<rparr>"

inductive agg_reachable :: "('h, 's) agg_db \<Rightarrow> bool" where
  start: "agg_reachable empty_agg"
| run: "agg_reachable db \<Longrightarrow> log_dates_ok lg \<Longrightarrow> agg_reachable (fst (aggregator_update ex now lg db))"

lemma empty_agg_ok: "agg_ok empty_agg"
  by (simp add: agg_ok_def empty_agg_def of_class_def weights_ok_def)

lemma update_keeps:
  assumes "agg_ok db" "log_dates_ok lg"
  shows "agg_ok (fst (aggregator_update ex now lg db))"
    and "snd (aggregator_update ex now lg db) = None \<Longrightarrow> no_exit ex \<Longrightarrow> c \<in> {Hour, Day, Week, Month, Year} \<Longrightarrow>
      class_done lg c (fst (aggregator_update ex now lg db))"
  using update_classes_keeps [OF assms, of "[Hour, Day, Week, Month, Year]" ex now] unfolding aggregator_update_def by auto

lemma reachable_ok: "agg_reachable db \<Longrightarrow> agg_ok db"
  by (induction rule: agg_reachable.induct) (auto intro: empty_agg_ok update_keeps(1))

text \<open>A log with one service and one host, read up to the middle of the second hour.\<close>

definition demo_rows :: "string raw_rows" where
  "demo_rows = \<lparr>rr_alerts = [\<lparr>ar_key = ''web'', ar_independent = False,
      ar_alert = \<lparr>al_date = seconds (new_year 2016) + 900, al_state = ''U'', al_state_type = Hard, al_msg = ''''\<rparr>\<rparr>],
    rr_flappings = [], rr_downtimes = [], rr_earliest = Some (new_year 2016)\<rparr>"

definition demo_log :: "(string, string) log_db" where
  "demo_log = \<lparr>lg_hosts = demo_rows, lg_services = demo_rows, lg_dumps = [seconds (new_year 2016) + 900],
     lg_last_read = Some (seconds (new_year 2016) + 5400)\<rparr>"

definition demo_agg :: "(string, string) agg_db" where
  "demo_agg = fst (aggregator_update (\<lambda>_. False) 0 demo_log empty_agg)"

lemma demo_agg_run:
  "snd (aggregator_update (\<lambda>_. False) 0 demo_log empty_agg) = None \<and>
   map (\<lambda>sp. (sp_type sp, sp_start sp)) (ad_spans demo_agg) = [(Hour, new_year 2016)] \<and>
   map (\<lambda>r. (ag_state r, ag_value r)) (ad_hosts demo_agg) =
     [(Regular (''UD'', ST_Undetermined), 1 / 4), (Regular (''U'', Hard), 3 / 4)]"
  by code_simp

text \<open>C21: after any runs of the aggregator, over any contents of the log and also when a run was stopped by a request to
  exit or by an error, the frames of every class are frames of the calendar that follow each other without gap or
  overlap, and in every frame the weights of the states of every host and service that has rows sum to one.\<close>

theorem aggregated_tables_ok:
  assumes "agg_reachable db"
  shows "(\<forall>sp \<in> set (ad_spans db). get_time_frame_start (sp_type sp) (sp_start sp) = Inr (sp_start sp) \<and>
      get_end_time_for_start (sp_type sp) (sp_start sp) = Inr (sp_end sp)) \<and>
    (\<forall>c. chained (of_class c (ad_spans db))) \<and>
    (\<forall>r \<in> set (ad_hosts db). rows_value (ag_key r) (\<lambda>s. s \<noteq> Flapping) (filter (\<lambda>x. ag_timespan x = ag_timespan r) (ad_hosts db)) = 1) \<and>
    (\<forall>r \<in> set (ad_services db). rows_value (ag_key r) (\<lambda>s. s \<noteq> Flapping) (filter (\<lambda>x. ag_timespan x = ag_timespan r) (ad_services db)) = 1)"
  using reachable_ok [OF assms] by (simp add: agg_ok_def span_frame_def weights_ok_def)

lemma demo_reachable: "log_dates_ok demo_log" "agg_reachable demo_agg"
proof -
  show "log_dates_ok demo_log" by (simp add: log_dates_ok_def demo_log_def demo_rows_def)
  then show "agg_reachable demo_agg" unfolding demo_agg_def by (intro agg_reachable.intros)
qed

theorem aggregated_tables_ok_witness:
  "agg_reachable demo_agg \<and>
   map (\<lambda>r. (ag_state r, ag_value r)) (ad_hosts demo_agg) = [(Regular (''UD'', ST_Undetermined), 1 / 4), (Regular (''U'', Hard), 3 / 4)] \<and>
   rows_value (ag_key (hd (ad_hosts demo_agg))) (\<lambda>s. s \<noteq> Flapping)
     (filter (\<lambda>x. ag_timespan x = ag_timespan (hd (ad_hosts demo_agg))) (ad_hosts demo_agg)) = 1"
proof -
  have "hd (ad_hosts demo_agg) \<in> set (ad_hosts demo_agg)" using demo_agg_run by (intro hd_in_set) auto
  then show ?thesis using aggregated_tables_ok [OF demo_reachable(2)] demo_reachable(2) demo_agg_run by blast
qed



lemma starts_distinct:
  assumes "agg_ok db"
  shows "distinct (map sp_start (of_class c (ad_spans db)))"
proof -
  have "sorted_wrt (\<lambda>a b. dt_less (sp_start a) (sp_start b)) (of_class c (ad_spans db))"
    using assms by (intro chained_increasing) (auto simp: agg_ok_def of_class_def)
  moreover have "distinct (map sp_start sps)" if "sorted_wrt (\<lambda>a b. dt_less (sp_start a) (sp_start b)) sps" for sps
    using that by (induction sps) (auto simp: dt_less_def)
  ultimately show ?thesis by blast
qed

lemma chained_frame_chain: "chained sps \<Longrightarrow> frame_chain (map (\<lambda>sp. (sp_start sp, sp_end sp)) sps)"
  by (induction sps rule: chained.induct) simp_all

text \<open>C22: at every time between the first and the last aggregated time of a class exactly one frame of the class is stored:
  no time is counted twice or left out, however often runs were interrupted.\<close>

theorem aggregated_once:
  assumes "agg_reachable db" "of_class c (ad_spans db) \<noteq> []" "valid_dt u"
    and "\<not> dt_less u (sp_start (hd (of_class c (ad_spans db))))" "dt_less u (sp_end (last (of_class c (ad_spans db))))"
  shows "\<exists>!sp. sp \<in> set (of_class c (ad_spans db)) \<and> \<not> dt_less u (sp_start sp) \<and> dt_less u (sp_end sp)"
proof -
  let ?sps = "of_class c (ad_spans db)" and ?f = "\<lambda>sp. (sp_start sp, sp_end sp)"
  have ok: "agg_ok db" by (rule reachable_ok [OF assms(1)])
  have sp: "span_frame sp \<and> sp_type sp = c" if "sp \<in> set ?sps" for sp using ok that by (auto simp: agg_ok_def of_class_def)
  have less: "(\<not> dt_less u (sp_start sp)) = (micros (sp_start sp) \<le> micros u)" "dt_less u (sp_end sp) = (micros u < micros (sp_end sp))"
    if "sp \<in> set ?sps" for sp
    using sp [OF that] assms(3) end_after_start(2) [of c "sp_start sp" "sp_end sp"] by (auto simp: dt_less_iff span_frame_def)
  have "\<exists>!f. f \<in> set (map ?f ?sps) \<and> micros (fst f) \<le> micros u \<and> micros u < micros (snd f)"
  proof (rule cal.chain_covers_once)
    show "frame_chain (map ?f ?sps)" using ok by (intro chained_frame_chain) (simp add: agg_ok_def)
    show "\<forall>f \<in> set (map ?f ?sps). cal.is_frame c f" using sp by (auto simp: cal.is_frame_def span_frame_def)
  qed (use assms(2-) less in \<open>simp_all add: hd_map last_map\<close>)
  then obtain sp where e: "sp \<in> set ?sps" "micros (sp_start sp) \<le> micros u" "micros u < micros (sp_end sp)" by auto
  have "y = sp" if y: "y \<in> set ?sps" "micros (sp_start y) \<le> micros u" "micros u < micros (sp_end y)" for y
  proof -
    have "get_time_frame_start c u = Inr (sp_start x)" if "x \<in> set ?sps" "micros (sp_start x) \<le> micros u" "micros u < micros (sp_end x)" for x
      using that sp [OF that(1)] cal.in_frame_iff [of c "sp_start x" "sp_end x" u] assms(3) by (auto simp: cal.is_frame_def span_frame_def)
    from this [OF y] this [OF e] have "sp_start y = sp_start sp" by simp
    with starts_distinct [OF ok, of c] y(1) e(1) show ?thesis by (auto simp: distinct_map inj_on_def)
  qed
  then show ?thesis
  proof (intro ex1I [of _ sp])
    show "sp \<in> set ?sps \<and> \<not> dt_less u (sp_start sp) \<and> dt_less u (sp_end sp)" using e less [OF e(1)] by simp
  qed (use less in blast)
qed

theorem aggregated_once_witness:
  "agg_reachable demo_agg \<and>
   (\<exists>!sp. sp \<in> set (of_class Hour (ad_spans demo_agg)) \<and> \<not> dt_less (new_year 2016) (sp_start sp) \<and> dt_less (new_year 2016) (sp_end sp))"
proof -
  obtain sp where sp: "ad_spans demo_agg = [sp]" "sp_type sp = Hour" "sp_start sp = new_year 2016"
    using demo_agg_run by (auto simp: map_eq_Cons_conv)
  then have one: "of_class Hour (ad_spans demo_agg) = [sp]" by (simp add: of_class_def)
  have "span_frame sp" using reachable_ok [OF demo_reachable(2)] sp(1) by (simp add: agg_ok_def)
  then have "dt_less (new_year 2016) (sp_end sp)" "\<not> dt_less (new_year 2016) (sp_start sp)"
    using end_after_start [of Hour "new_year 2016" "sp_end sp"] sp by (simp_all add: span_frame_def dt_less_iff)
  then show ?thesis
    using aggregated_once [OF demo_reachable(2), of Hour "new_year 2016"] demo_reachable(2) one by simp
qed

subsection \<open>The stop of the monitoring core\<close>

lemma no_event_no_interval:
  assumes "\<forall>r \<in> set rows. er_key r \<noteq> k"
  shows "at_key (preprocess_start_stop_data now a b rows) k = []"
proof -
  have "open_start (fold (pp_step a b) rows st) k = open_start st k \<and> finished (fold (pp_step a b) rows st) k = finished st k" for st
    using assms by (induction rows arbitrary: st) (auto simp: pp_step_key split: option.split)
  then show ?thesis by (simp add: preprocess_key Let_def open_start_def finished_def)
qed

text \<open>C24: the rows that the log reader makes for a stop of the monitoring core are to set all hosts and services
  undetermined, but a service without an alert of its own in the hour keeps its former state for the whole hour and in
  the states handed on to the next hour, whatever such rows the hour has.\<close>

theorem shutdown_unnoticed:
  assumes "\<forall>r \<in> set (rr_alerts rr). \<not> (ar_key r = k \<and> \<not> ar_independent r \<and> in_range (ts_start ts) (ts_end ts) r)"
    and "\<forall>r \<in> set (rr_downtimes rr). er_key r \<noteq> k" "\<forall>r \<in> set (rr_flappings rr). er_key r \<noteq> k"
    and "map_of cache k = Some st"
  shows "process_key ts (raw_data_of now ts cache rr) k = Inr ([(Regular st, 1)], st)"
proof -
  have "at_key (calc_alerts (\<lambda>_. True) (ts_start ts) (ts_end ts) (rr_alerts rr)) k = []"
    using assms(1) by (auto simp: at_key_def map_of_calc_alerts)
  moreover have "cache \<noteq> []" using assms(4) by auto
  ultimately show ?thesis
    using assms(2-4)
    by (simp add: process_key_def raw_data_of_def no_event_no_interval add_downtimes_to_alerts_def Let_def calc_weighted_states_def
        get_downtime_entry_def calc_flapping_ratio_def add_to_def get0_def)
qed

definition stopped_log :: "string raw_rows" where
  "stopped_log = \<lparr>rr_alerts = [\<lparr>ar_key = '''', ar_independent = True,
     ar_alert = \<lparr>al_date = 1800, al_state = ''UD'', al_state_type = ST_Undetermined, al_msg = ''Successfully shutdown''\<rparr>\<rparr>],
   rr_flappings = [], rr_downtimes = [], rr_earliest = None\<rparr>"

theorem shutdown_unnoticed_witness:
  "process_key \<lparr>ts_start = 0, ts_end = 3600\<rparr> (raw_data_of 9000 \<lparr>ts_start = 0, ts_end = 3600\<rparr> [(''web'', (''O'', Hard))] stopped_log) ''web'' =
     Inr ([(Regular (''O'', Hard), 1)], (''O'', Hard))"
  by (rule shutdown_unnoticed) (simp_all add: stopped_log_def)

end
