(* ===== verification/Duration_Steps.thy ===== *)
theory Duration_Steps
  imports Durations
begin

section \<open>The steps of a display (cluster/frontend/common.py)\<close>

text \<open>
  A display of a day, week, month or year asks for one step per hour, day or month. The loop of \<open>get_steps\<close> adds a second
  to the end of every frame, so it runs ahead of the frames by a growing number of seconds; it still takes exactly one
  step in every frame.
\<close>

function frame_starts :: "duration \<Rightarrow> datetime \<Rightarrow> datetime \<Rightarrow> datetime list" where
  "frame_starts c s stop =
     (if \<not> dt_less s stop then []
      else (case get_end_time_for_start c s of Inl _ \<Rightarrow> [s] | Inr e \<Rightarrow> s # frame_starts c e stop))"
  by pat_completeness auto
termination
proof (relation "measure (\<lambda>(c, s, stop). nat (calendar_end - micros s))")
  fix c s stop e
  assume "get_end_time_for_start c s = Inr e"
  then have "micros s < micros e" "micros e < calendar_end"
    using end_after_start [of c s e] micros_less_calendar_end [of e] by simp_all
  then show "((c, e, stop), (c, s, stop)) \<in> measure (\<lambda>(c, s, stop). nat (calendar_end - micros s))" by simp
qed simp

declare frame_starts.simps [simp del]

subsection \<open>Seconds\<close>

lemma sub_second_Inr:
  assumes "sub_second d = Inr e"
  shows "valid_dt d" "valid_dt e" "micros e = micros d - 1000000"
proof -
  show d: "valid_dt d" and "valid_dt e"
    using assms by (auto simp: sub_second_def bind_r_eq_Inr checked_Inr split: if_splits)
  have v: "valid_time d" "valid_date d" using d by (simp_all add: valid_dt_def)
  then consider (s) "e = d\<lparr>dt_second := dt_second d - 1\<rparr>"
    | (m) "dt_second d = 0" "e = d\<lparr>dt_second := 59, dt_minute := dt_minute d - 1\<rparr>"
    | (h) "dt_second d = 0" "dt_minute d = 0" "e = d\<lparr>dt_second := 59, dt_minute := 59, dt_hour := dt_hour d - 1\<rparr>"
    | (p) "dt_second d = 0" "dt_minute d = 0" "dt_hour d = 0" "e = (prev_day d)\<lparr>dt_second := 59, dt_minute := 59, dt_hour := 23\<rparr>"
    using assms by (auto simp: sub_second_def bind_r_eq_Inr checked_Inr valid_time_def split: if_splits)
  then show "micros e = micros d - 1000000"
  proof cases
    case p
    have "same_time (prev_day d) d" by (simp add: same_time_def prev_day_def)
    moreover have "toordinal (x\<lparr>dt_second := a, dt_minute := b, dt_hour := h\<rparr>) = toordinal x" for x a b h by (simp add: toordinal_def)
    ultimately show ?thesis using p prev_day_ordinal [OF v(2)] by (simp add: micros_def time_micros_def same_time_def)
  qed (simp_all add: micros_def toordinal_def time_micros_def)
qed

lemma sub_second_total: "valid_dt d \<Longrightarrow> 2 \<le> dt_year d \<Longrightarrow> \<exists>e. sub_second d = Inr e"
proof -
  assume d: "valid_dt d" "2 \<le> dt_year d"
  have "valid_dt (prev_day d)"
    using d prev_day_valid [of d] by (auto simp: valid_dt_def valid_time_def prev_day_def)
  then show ?thesis using d
    by (auto simp: sub_second_def checked_def valid_dt_def valid_date_def valid_time_def)
qed

lemma add_second_total: "valid_dt d \<Longrightarrow> dt_year d \<le> 9980 \<Longrightarrow> \<exists>e. add_second d = Inr e"
proof -
  assume d: "valid_dt d" "dt_year d \<le> 9980"
  have "\<exists>e. add_hour (d\<lparr>dt_second := 0, dt_minute := 0\<rparr>) = Inr e"
    using frame_end_total [of "d\<lparr>dt_second := 0, dt_minute := 0\<rparr>" Hour] d
    by (simp add: get_end_time_for_start_def valid_dt_def valid_date_def valid_time_def)
  then show ?thesis using d by (auto simp: add_second_def checked_def valid_dt_def valid_date_def valid_time_def)
qed

lemma year_of_micros:
  assumes "valid_dt a" "valid_dt b" "micros a < micros b + 86400000000"
  shows "dt_year a \<le> dt_year b + 1"
proof -
  have v: "valid_date a" "valid_date b" using assms(1,2) by (simp_all add: valid_dt_def)
  have "toordinal a \<le> toordinal b + 1"
    using assms time_micros_bounds [of a] time_micros_bounds [of b] by (simp add: micros_def valid_dt_def)
  also have "\<dots> \<le> days_before_year (dt_year b + 1) + 1" using ordinal_in_year(2) [OF v(2)] by simp
  finally have "toordinal a \<le> days_before_year (dt_year b + 1) + 1" .
  moreover have "days_before_year (dt_year b + 1) + 1 \<le> days_before_year (dt_year b + 2)"
    using days_before_next_year [of "dt_year b + 1"] by (simp add: days_in_year_def add.commute split: if_splits)
  ultimately show ?thesis
    using ordinal_in_year(1) [OF v(1)] days_before_year_mono [of "dt_year b + 2" "dt_year a"] by linarith
qed

subsection \<open>One step\<close>

definition min_length :: "duration \<Rightarrow> int" where
  "min_length c = (case c of Hour \<Rightarrow> 3600000000 | Day \<Rightarrow> 86400000000 | _ \<Rightarrow> 28 * 86400000000)"

lemma month_end:
  assumes "get_time_frame_start Month s = Inr s" "get_end_time_for_start Month s = Inr e" "add_days 35 cur = Inr x"
    and "toordinal cur = toordinal s"
  shows "get_time_frame_start Month x = Inr e"
proof -
  obtain y where y: "add_days 35 s = Inr y" "get_time_frame_start Month y = Inr e"
    using assms(2) by (auto simp: get_end_time_for_start_def bind_r_eq_Inr)
  have "dt_year x = dt_year y \<and> dt_month x = dt_month y"
    using ordinal_inj [of x y] add_days_Inr [OF y(1)] add_days_Inr [OF assms(3)] assms(4) by (simp add: valid_dt_def)
  then show ?thesis using y(2) by (cases x; cases y) (auto simp: get_time_frame_start_def start_of_day_def)
qed

lemma end_drift:
  assumes c: "c \<in> {Hour, Day, Month}" and s: "get_time_frame_start c s = Inr s" "get_end_time_for_start c s = Inr e"
    and cur: "valid_dt cur" "micros cur = micros s + k * 1000000" "0 \<le> k" "k < 3600" "dt_year cur \<le> 9980"
  shows "\<exists>e' k'. get_end_time_for_start c cur = Inr e' \<and> micros e' = micros e + k' * 1000000 \<and> 0 \<le> k' \<and> k' \<le> k"
proof -
  obtain e' where e': "get_end_time_for_start c cur = Inr e'" using frame_end_total [OF cur(1,5)] by blast
  show ?thesis
  proof (cases "c = Month")
    case False
    then have c3: "c \<in> {Hour, Day, Week}" using c by auto
    have "micros e' = micros e + k * 1000000" using fixed_end(3) [OF c3 e'] fixed_end(3) [OF c3 s(2)] cur(2) by simp
    with e' cur(3) show ?thesis by blast
  next
    case True
    have "time_micros s = 0" using s(1) True by (cases s) (auto simp: get_time_frame_start_def start_of_day_def time_micros_def)
    then have "toordinal cur = toordinal s"
      using cur(1-4) ordinal_micros [of cur] by (simp add: valid_dt_def micros_def [of s])
    moreover obtain x where x: "add_days 35 cur = Inr x" "get_time_frame_start Month x = Inr e'"
      using e' True by (auto simp: get_end_time_for_start_def bind_r_eq_Inr)
    ultimately have "e' = e" using month_end [of s e cur x] s True by simp
    with e' cur(3) show ?thesis by (intro exI [of _ e'] exI [of _ 0]) simp
  qed
qed

lemma frame_min_length:
  assumes "c \<in> {Hour, Day, Month}" "get_time_frame_start c s = Inr s" "get_end_time_for_start c s = Inr e"
  shows "micros s + min_length c \<le> micros e"
proof (cases "c = Month")
  case False
  then show ?thesis using assms(1) fixed_end(3) [of c s e] assms(3) by (auto simp: min_length_def frame_length_def)
next
  case True
  obtain x where x: "add_days 35 s = Inr x" "e = (start_of_day x)\<lparr>dt_day := 1\<rparr>"
    using assms(3) True by (auto simp: get_end_time_for_start_def get_time_frame_start_def bind_r_eq_Inr)
  note a = add_days_Inr [OF x(1)]
  have s0: "time_micros s = 0" "dt_day s = 1" using assms(2) True
    by (cases s; auto simp: get_time_frame_start_def start_of_day_def time_micros_def)+
  have law: "frame_law Month s e" using month_frame assms(2,3) True by simp
  let ?u = "s\<lparr>dt_day := 28\<rparr>"
  have u: "valid_dt ?u" using a(1) days_in_month_bounds(1) [of "dt_year s" "dt_month s"] by (auto simp: valid_dt_def valid_date_def valid_time_def)
  have "get_time_frame_start Month ?u = Inr s" using assms(2) True by (cases s) (auto simp: get_time_frame_start_def start_of_day_def)
  then have "micros ?u < micros e" using law u by (simp add: frame_law_def)
  moreover have "toordinal ?u = toordinal s + 27" "time_micros ?u = 0" using s0 by (simp_all add: toordinal_def time_micros_def)
  moreover have "time_micros e = 0" using x(2) by (simp add: start_of_day_def time_micros_def)
  ultimately have "toordinal s + 27 < toordinal e" using s0(1) by (simp add: micros_def)
  with s0(1) \<open>time_micros e = 0\<close> True show ?thesis by (simp add: micros_def min_length_def)
qed

subsection \<open>All steps\<close>

text \<open>The end of a display: a frame start, one second after the end that the loop compares with.\<close>

definition display_end :: "duration \<Rightarrow> datetime \<Rightarrow> datetime \<Rightarrow> bool" where
  "display_end c e stop \<longleftrightarrow> valid_dt e \<and> valid_dt stop \<and> dt_year stop \<le> 9970 \<and> get_time_frame_start c stop = Inr stop \<and>
     micros stop = micros e + 1000000"

lemma next_frame:
  assumes "display_end c e stop" "valid_dt s" "get_time_frame_start c s = Inr s" "micros s < micros stop"
  obtains e1 where "get_end_time_for_start c s = Inr e1" "valid_dt e1" "get_time_frame_start c e1 = Inr e1" "micros e1 \<le> micros stop"
    "frame_starts c s stop = s # frame_starts c e1 stop" "frame_law c s e1"
proof -
  have v: "valid_dt stop" "get_time_frame_start c stop = Inr stop" "dt_year stop \<le> 9970" using assms(1) by (simp_all add: display_end_def)
  have "dt_year s \<le> 9980" using year_of_micros [OF assms(2) v(1)] assms(4) v(3) by simp
  then obtain e1 where e1: "get_end_time_for_start c s = Inr e1" using frame_end_total [OF assms(2)] by blast
  have law: "frame_law c s e1" by (rule frames [OF assms(3) e1])
  have "micros e1 \<le> micros stop"
  proof (rule ccontr)
    assume "\<not> micros e1 \<le> micros stop"
    then have "get_time_frame_start c stop = Inr s" using law v(1) assms(4) by (simp add: frame_law_def)
    with v(2) assms(4) show False by simp
  qed
  moreover have "frame_starts c s stop = s # frame_starts c e1 stop"
    using assms(2,4) v(1) e1 by (simp add: frame_starts.simps [of c s] dt_less_iff)
  ultimately show ?thesis using that e1 law by (simp add: frame_law_def)
qed

lemma frame_starts_length:
  assumes "display_end c e stop" "c \<in> {Hour, Day, Month}" "valid_dt s" "get_time_frame_start c s = Inr s" "micros s \<le> micros stop"
  shows "int (length (frame_starts c s stop)) * min_length c \<le> micros stop - micros s"
  using assms
proof (induction c s stop rule: frame_starts.induct)
  case (1 c s stop)
  show ?case
  proof (cases "micros s < micros stop")
    case False
    then show ?thesis using 1(2,4,6) by (simp add: frame_starts.simps [of c s] dt_less_iff display_end_def)
  next
    case True
    then obtain e1 where e1: "get_end_time_for_start c s = Inr e1" "valid_dt e1" "get_time_frame_start c e1 = Inr e1" "micros e1 \<le> micros stop"
      "frame_starts c s stop = s # frame_starts c e1 stop"
      using next_frame [OF 1(2,4,5)] by blast
    have "\<not> \<not> dt_less s stop" using True 1(2,4) by (simp add: dt_less_iff display_end_def)
    from 1(1) [OF this e1(1) 1(2,3) e1(2-4)] frame_min_length [OF 1(3,5) e1(1)] e1(5)
    show ?thesis by (simp add: algebra_simps)
  qed
qed

lemma steps_drift:
  assumes "display_end c e stop" "c \<in> {Hour, Day, Month}" "valid_dt s" "get_time_frame_start c s = Inr s" "micros s \<le> micros stop"
    and "valid_dt cur" "micros cur = micros s + k * 1000000" "0 \<le> k" "k + int (length (frame_starts c s stop)) \<le> 3598"
  shows "\<exists>ts. step_times c cur e = Inr ts \<and> map (get_time_frame_start c) ts = map Inr (frame_starts c s stop)"
  using assms
proof (induction c s stop arbitrary: cur k rule: frame_starts.induct)
  case (1 c s stop)
  note d = 1(2) and c = 1(3)
  have e: "valid_dt e" "valid_dt stop" "dt_year stop \<le> 9970" "micros stop = micros e + 1000000" using d by (simp_all add: display_end_def)
  show ?case
  proof (cases "micros s < micros stop")
    case False
    then have "\<not> dt_less cur e" "frame_starts c s stop = []"
      using 1(4,7-9) e by (simp_all add: dt_less_iff frame_starts.simps [of c s])
    then show ?thesis by (simp add: step_times.simps)
  next
    case True
    then obtain e1 where e1: "get_end_time_for_start c s = Inr e1" "valid_dt e1" "get_time_frame_start c e1 = Inr e1" "micros e1 \<le> micros stop"
      "frame_starts c s stop = s # frame_starts c e1 stop" "frame_law c s e1"
      using next_frame [OF d 1(4,5)] by blast
    have k: "k \<le> 3597" using 1(10) e1(5) by simp
    have len: "micros s + 3600000000 \<le> micros e1" using frame_min_length [OF c 1(5) e1(1)] c by (auto simp: min_length_def)
    then have cur_e: "micros cur < micros e" "micros cur < micros e1" "micros s \<le> micros cur" using 1(8,9) k e1(4) e(4) by simp_all
    then have "dt_year cur \<le> 9980" using year_of_micros [OF 1(7) e(2)] e(3,4) by simp
    then obtain e2 k' where e2: "get_end_time_for_start c cur = Inr e2" "micros e2 = micros e1 + k' * 1000000" "0 \<le> k'" "k' \<le> k"
      using end_drift [OF c 1(5) e1(1) 1(7,8,9)] k by auto
    have v2: "valid_dt e2" using end_after_start(2) [OF e2(1)] .
    have "dt_year e2 \<le> 9980" using year_of_micros [OF v2 e(2)] e2(2,4) k e1(4) e(3) by simp
    then obtain n where n: "add_second e2 = Inr n" using add_second_total [OF v2] by blast
    note an = add_second_Inr [OF n]
    have "micros n = micros e1 + (k' + 1) * 1000000" using an(3) e2(2) by (simp add: algebra_simps)
    moreover have "\<not> \<not> dt_less s stop" using True 1(4) e(2) by (simp add: dt_less_iff)
    ultimately obtain ts where ts: "step_times c n e = Inr ts" "map (get_time_frame_start c) ts = map Inr (frame_starts c e1 stop)"
      using 1(1) [OF _ e1(1) d c e1(2-4) an(2), of "k' + 1"] e2(3,4) 1(10) e1(5) by auto
    have "dt_less cur e" using cur_e(1) 1(7) e(1) by (simp add: dt_less_iff)
    then have "step_times c cur e = Inr (cur # ts)" using e2(1) n ts(1) by (simp add: step_times.simps [of c cur])
    moreover have "get_time_frame_start c cur = Inr s" using e1(6) 1(7) cur_e by (simp add: frame_law_def)
    ultimately show ?thesis using ts(2) e1(5) by simp
  qed
qed

text \<open>The frames a display shows and the steps it takes.\<close>

definition display_classes :: "string \<Rightarrow> (duration \<times> duration) option" where
  "display_classes dur = map_of [(''day'', Day, Hour), (''week'', Week, Day), (''month'', Month, Day), (''year'', Year, Month)] dur"

lemma parse_duration_frame:
  assumes "display_classes dur = Some (p, c)" "get_time_frame_start p date = Inr s" "get_end_time_for_start p s = Inr stop" "valid_dt date"
    "dt_year date < 9999"
  shows "parse_duration dur date = bind_r (sub_second stop) (\<lambda>e. Inr (c, s, e))"
proof -
  consider "dur = ''day''" "p = Day" "c = Hour" | "dur = ''week''" "p = Week" "c = Day"
    | "dur = ''month''" "p = Month" "c = Day" | "dur = ''year''" "p = Year" "c = Month"
    using assms(1) by (auto simp: display_classes_def split: if_splits)
  then show ?thesis
  proof cases
    case 4
    have s: "s = new_year (dt_year date)" using assms(2) 4 by (simp add: year_starts)
    have "frame_law Year s stop" using year_frame assms(2,3) 4 frame_start_idem [OF assms(4), of Year s] by simp
    then have "valid_dt stop" "get_time_frame_start Year stop = Inr stop" by (simp_all add: frame_law_def)
    then obtain y where y: "stop = new_year y" by (simp add: year_starts) metis
    have "y = dt_year date + 1"
    proof -
      obtain x where x: "add_days 370 s = Inr x" "stop = new_year (dt_year x)"
        using assms(3) 4 by (auto simp: get_end_time_for_start_def year_starts bind_r_eq_Inr)
      note a = add_days_Inr [OF x(1)]
      have "dt_year x = dt_year date + 1"
        using a(2,3) s days_before_year_add [where n = 1 and y = "dt_year date"] days_before_year_add [where n = 1 and y = "dt_year date + 1"]
        by (intro year_of_ordinal) (simp_all add: valid_dt_def)
      with x(2) y show ?thesis by simp
    qed
    then show ?thesis using 4 s y assms(5) by (simp add: parse_duration_def)
  qed (use assms(2,3) in \<open>simp_all add: parse_duration_def get_time_frame_start_def get_end_time_for_start_def Let_def weekday_def\<close>)
qed

lemma display_stop:
  assumes "display_classes dur = Some (p, c)" "valid_dt date" "get_time_frame_start p date = Inr s" "get_end_time_for_start p s = Inr stop"
  shows "get_time_frame_start c s = Inr s" "get_time_frame_start c stop = Inr stop" "c \<in> {Hour, Day, Month}"
    and "micros stop - micros s \<le> (if c = Month then 370 else if c = Day then 35 else 1) * 86400000000"
proof -
  have law: "frame_law p s stop" by (rule frames [OF frame_start_idem [OF assms(2,3)] assms(4)])
  have i: "get_time_frame_start p s = Inr s" "get_time_frame_start p stop = Inr stop"
    using frame_start_idem [OF assms(2,3)] law by (simp_all add: frame_law_def)
  have pc: "(p, c) \<in> {(Day, Hour), (Week, Day), (Month, Day), (Year, Month)}"
    using assms(1) by (auto simp: display_classes_def split: if_splits)
  then show "c \<in> {Hour, Day, Month}" by auto
  have fine: "get_time_frame_start c x = Inr x" if "get_time_frame_start p x = Inr x" "valid_dt x" for x
  proof (cases "p = Week")
    case False
    with that pc show ?thesis
      by (cases x) (auto simp: get_time_frame_start_def start_of_day_def start_of_hour_def)
  next
    case True
    then have "same_time x (start_of_day x)" using that sub_days_Inr(4) by (fastforce simp: get_time_frame_start_def Let_def)
    with pc True show ?thesis by (cases x) (auto simp: get_time_frame_start_def start_of_day_def same_time_def)
  qed
  show "get_time_frame_start c s = Inr s" using fine [OF i(1)] end_after_start(1) [OF assms(4)] by simp
  show "get_time_frame_start c stop = Inr stop" using fine [OF i(2)] end_after_start(2) [OF assms(4)] by simp
  show "micros stop - micros s \<le> (if c = Month then 370 else if c = Day then 35 else 1) * 86400000000"
  proof (cases "p \<in> {Day, Week}")
    case True
    then have "p \<in> {Hour, Day, Week}" by auto
    from fixed_end(3) [OF this assms(4)] True pc show ?thesis by (auto simp: frame_length_def)
  next
    case False
    then have p: "p = Month \<and> c = Day \<or> p = Year \<and> c = Month" using pc by auto
    then obtain n x where x: "add_days n s = Inr x" "get_time_frame_start p x = Inr stop" "n = (if c = Month then 370 else 35)"
      using assms(4) by (auto simp: get_end_time_for_start_def bind_r_eq_Inr)
    have v: "valid_date x" "valid_time x" using add_days_Inr(2) [OF x(1)] by (simp_all add: valid_dt_def)
    have "toordinal stop \<le> toordinal x" "time_micros stop = 0"
      using p x(2) v(1) ordinal_in_year(1) [OF v(1)]
      by (auto simp: year_starts) (auto simp: get_time_frame_start_def toordinal_def start_of_day_def valid_date_def time_micros_def)
    then have "micros stop \<le> micros x" using time_micros_bounds(1) [OF v(2)] by (simp add: micros_def)
    with micros_add_days [OF x(1)] x(3) p show ?thesis by auto
  qed
qed

text \<open>C31: the steps of a display of a day, week, month or year: the display covers exactly the frame that holds the date, and
  there is one step in every hour, day or month of it, in order, although the loop adds a second at every step.\<close>

theorem steps_cover:
  assumes "display_classes dur = Some (p, c)" "valid_dt date" "11 \<le> dt_year date" "dt_year date \<le> 9960"
  shows "\<exists>s stop ts. get_time_frame_start p date = Inr s \<and> get_end_time_for_start p s = Inr stop \<and>
    get_steps dur date = Inr (map (\<lambda>t. (get_display_date c t, t)) ts) \<and>
    map (get_time_frame_start c) ts = map Inr (frame_starts c s stop)"
proof -
  have p: "p \<noteq> Decade" using assms(1) by (auto simp: display_classes_def split: if_splits)
  then obtain s stop where s: "get_time_frame_start p date = Inr s" "get_end_time_for_start p s = Inr stop"
    using frame_of_date [OF assms(2) _ p] assms(4) by force
  note d = display_stop [OF assms(1,2) s] and v = end_after_start [OF s(2)]
  have ystop: "dt_year stop \<le> 9970" "2 \<le> dt_year stop"
  proof -
    have b: "micros date < micros stop" "micros s \<le> micros date" using frame_start_before [OF assms(2) s] by simp_all
    have "toordinal date \<le> toordinal stop"
      using b(1) v(2) assms(2) ordinal_micros [of date] ordinal_micros [of stop] by (simp add: valid_dt_def zdiv_mono1)
    then have "\<not> dt_year stop + 1 \<le> dt_year date"
      using ordinal_in_year(1) [of date] ordinal_in_year(2) [of stop] v(2) assms(2) days_before_year_mono [of "dt_year stop + 1" "dt_year date"]
      by (auto simp: valid_dt_def)
    then show "2 \<le> dt_year stop" using assms(3) by simp
    have "toordinal stop \<le> toordinal s + 371"
    proof -
      have "micros stop - micros s \<le> 370 * 86400000000" using d(4) by (auto split: if_splits)
      then show ?thesis
        using time_micros_bounds [of s] time_micros_bounds [of stop] v(1,2) by (simp add: micros_def valid_dt_def)
    qed
    also have "toordinal s \<le> days_before_year (dt_year s + 1)" using ordinal_in_year(2) [of s] v(1) by (simp add: valid_dt_def)
    finally have "toordinal stop \<le> days_before_year (dt_year s + 1) + 371" by simp
    moreover have "days_before_year (dt_year s + 1) + 730 \<le> days_before_year (dt_year s + 3)"
      using days_before_year_add(1) [where n = 2 and y = "dt_year s + 1"] by (simp add: algebra_simps)
    ultimately have "\<not> dt_year s + 3 \<le> dt_year stop"
      using ordinal_in_year(1) [of stop] v(2) days_before_year_mono [of "dt_year s + 3" "dt_year stop"] by (auto simp: valid_dt_def)
    then show "dt_year stop \<le> 9970" using frame_start_year [OF assms(2) s(1)] assms(4) by simp
  qed
  obtain e where e: "sub_second stop = Inr e" using sub_second_total [OF v(2) ystop(2)] by blast
  note se = sub_second_Inr [OF e]
  have de: "display_end c e stop" using d(2) v(2) ystop(1) se by (simp add: display_end_def)
  have "int (length (frame_starts c s stop)) * min_length c \<le> micros stop - micros s"
    using frame_starts_length [OF de d(3) v(1) d(1)] v(3) by simp
  then have "int (length (frame_starts c s stop)) \<le> 3598"
    using d(3,4) by (auto simp: min_length_def split: if_splits)
  then obtain ts where ts: "step_times c s e = Inr ts" "map (get_time_frame_start c) ts = map Inr (frame_starts c s stop)"
    using steps_drift [OF de d(3) v(1) d(1) _ v(1), of 0] v(3) by auto
  have "get_steps dur date = Inr (map (\<lambda>t. (get_display_date c t, t)) ts)"
    using parse_duration_frame [OF assms(1) s assms(2)] assms(4) e ts(1) by (simp add: get_steps_def)
  with s ts(2) show ?thesis by blast
qed

theorem steps_cover_witness:
  "display_classes ''week'' = Some (Week, Day) \<and>
   (\<exists>ts. get_steps ''week'' demo_date = Inr (map (\<lambda>t. (get_display_date Day t, t)) ts))"
proof -
  have "display_classes ''week'' = Some (Week, Day)" "valid_dt demo_date" "11 \<le> dt_year demo_date" "dt_year demo_date \<le> 9960"
    by code_simp+
  then show ?thesis using steps_cover [of "''week''" Week Day demo_date] by blast
qed

end
