(* ===== verification/Sge_License.thy ===== *)
theory Sge_License
  imports Prelude
begin

section \<open>Licenses for the resource management (tools/sge_license_tools.py)\<close>

text \<open>
  The resource management hands out software licenses to jobs. The licenses of a site are read from a file, the server's
  usage and the requests of running jobs are fed into them, and the number that is left for jobs is set as a limit of the
  grid engine. A complex license has no server: its numbers are computed from the simple ones by an expression. The
  evaluation of expressions, the match of host names, the dates of expiry and their texts are parameters; the numbers
  in XML attributes are texts, as the source reads them; a name, attribute or type that is missing there is the empty text.
\<close>

subsection \<open>Licenses\<close>

record usage_counters =
  uc_sge_used :: int
  uc_requested :: int
  uc_issued :: int
  uc_external_used :: int

text \<open>The counters exist from the first reset on. \<open>li_match_str\<close> and \<open>li_eval_str\<close> are attributes that are not always set,
  \<open>li_external\<close> is one that nothing reads.\<close>

record 'e sge_license =
  li_name :: string
  li_attribute :: string
  li_type :: string
  li_site :: string
  li_servers :: "(int \<times> string) list"
  li_match_str :: "string option"
  li_eval_str :: "string option"
  li_total :: int
  li_reserved :: int
  li_limit :: int
  li_is_used :: bool
  li_show :: bool
  li_added :: string
  li_expires :: "'e option"
  li_used :: int
  li_usage :: "usage_counters option"
  li_external :: "int option"

record lic_xml =
  lx_attrs :: "(string \<times> string) list"
  lx_servers :: "(string \<times> string) list"

record srv_license =
  sl_attrs :: "(string \<times> string) list"
  sl_usages :: "(string \<times> string) list"
  sl_expiry :: "string option"

definition attr_or :: "(string \<times> string) list \<Rightarrow> string \<Rightarrow> string \<Rightarrow> string" where
  "attr_or d k v = (case map_of d k of Some x \<Rightarrow> x | None \<Rightarrow> v)"

definition int_attr :: "(string \<times> string) list \<Rightarrow> string \<Rightarrow> string \<Rightarrow> int res" where
  "int_attr d k v = py_int (attr_or d k v)"

text \<open>\<open>int(None)\<close> raises a TypeError.\<close>

definition int_attr_req :: "(string \<times> string) list \<Rightarrow> string \<Rightarrow> int res" where
  "int_attr_req d k = (case map_of d k of Some x \<Rightarrow> py_int x | None \<Rightarrow> Inl TypeError)"

definition parse_expires :: "(string \<Rightarrow> 'e res) \<Rightarrow> string \<Rightarrow> 'e option res" where
  "parse_expires strptime s = (if s = [] then Inr None else bind_r (strptime s) (\<lambda>e. Inr (Some e)))"

definition license_from_server :: "(string \<Rightarrow> 'e res) \<Rightarrow> string \<Rightarrow> srv_license \<Rightarrow> 'e sge_license res" where
  "license_from_server strptime site el =
     (let a = sl_attrs el in
      bind_r (int_attr a ''issued'' ''0'') (\<lambda>issued.
      bind_r (int_attr a ''reserved'' ''0'') (\<lambda>reserved.
      bind_r (parse_expires strptime (case sl_expiry el of Some e \<Rightarrow> e | None \<Rightarrow> [])) (\<lambda>ex.
        Inr \<lparr>li_name = attr_or a ''name'' [], li_attribute = attr_or a ''name'' [], li_type = ''simple'', li_site = site, li_servers = [],
             li_match_str = None, li_eval_str = None, li_total = issued, li_reserved = reserved, li_limit = 0, li_is_used = False,
             li_show = True, li_added = ''unknown'', li_expires = ex, li_used = 0, li_usage = None, li_external = None\<rparr>))))"

definition server_of :: "string \<times> string \<Rightarrow> (int \<times> string) res" where
  "server_of s = bind_r (py_int (fst s)) (\<lambda>p. Inr (p, snd s))"

definition license_from_file :: "(string \<Rightarrow> 'e res) \<Rightarrow> string \<Rightarrow> lic_xml \<Rightarrow> 'e sge_license res" where
  "license_from_file strptime site x =
     (let a = lx_attrs x; simple = (attr_or a ''type'' [] = ''simple'') in
      bind_r (if simple then mapM_r server_of (lx_servers x) else Inr []) (\<lambda>servers.
      bind_r (int_attr_req a ''total'') (\<lambda>total.
      bind_r (int_attr_req a ''reserved'') (\<lambda>reserved.
      bind_r (int_attr a ''limit'' ''0'') (\<lambda>limit.
      bind_r (int_attr a ''in_use'' ''0'') (\<lambda>in_use.
      bind_r (int_attr a ''show'' ''1'') (\<lambda>shown.
      bind_r (parse_expires strptime (attr_or a ''expires'' [])) (\<lambda>ex.
        Inr \<lparr>li_name = attr_or a ''name'' [], li_attribute = attr_or a ''attribute'' [], li_type = attr_or a ''type'' [], li_site = site,
             li_servers = servers, li_match_str = (if simple then Some (attr_or a ''match_str'' []) else None),
             li_eval_str = (if simple then None else map_of a ''eval_str''), li_total = total, li_reserved = reserved, li_limit = limit,
             li_is_used = (in_use \<noteq> 0), li_show = (shown \<noteq> 0), li_added = attr_or a ''added'' ''unknown'', li_expires = ex,
             li_used = 0, li_usage = None, li_external = None\<rparr>))))))))"

text \<open>A license of the old format, given by its attribute name.\<close>

definition old_server :: "string \<Rightarrow> (int \<times> string) res" where
  "old_server part = (case py_split CHR ''@'' part of [port, host] \<Rightarrow> server_of (port, host) | _ \<Rightarrow> Inl ValueError)"

definition new_license :: "string \<Rightarrow> string \<Rightarrow> string option \<Rightarrow> string option \<Rightarrow> 'e sge_license res" where
  "new_license site attribute license_server eval_str =
     bind_r (case license_server of Some ls \<Rightarrow> mapM_r old_server (py_split CHR '','' ls) | None \<Rightarrow> Inr []) (\<lambda>servers.
       Inr \<lparr>li_name = py_lower attribute, li_attribute = attribute, li_type = (if license_server \<noteq> None then ''simple'' else ''complex''),
            li_site = site, li_servers = servers, li_match_str = (if license_server \<noteq> None then Some [] else None),
            li_eval_str = (if license_server \<noteq> None then None else Some (case eval_str of Some e \<Rightarrow> e | None \<Rightarrow> ''1'')),
            li_total = 0, li_reserved = 0, li_limit = 0, li_is_used = False, li_show = True, li_added = ''unknown'', li_expires = None,
            li_used = 0, li_usage = None, li_external = None\<rparr>)"

definition lic_full_name :: "'e sge_license \<Rightarrow> string" where
  "lic_full_name l = (if li_type l = ''simple'' then ''lic'' else ''clic'') @ ''_'' @ li_site l @ ''_'' @ li_name l"

definition bool_attr :: "bool \<Rightarrow> string" where
  "bool_attr b = (if b then ''1'' else ''0'')"

text \<open>The XML form of a license, without usage. Reading an attribute that is not set raises.\<close>

definition get_xml :: "('e \<Rightarrow> string) \<Rightarrow> 'e sge_license \<Rightarrow> lic_xml res" where
  "get_xml strftime l =
     (let base = [(''full_name'', lic_full_name l), (''name'', li_name l), (''attribute'', li_attribute l), (''type'', li_type l),
                  (''total'', str_of_int (li_total l)), (''reserved'', str_of_int (li_reserved l)), (''show'', bool_attr (li_show l)),
                  (''limit'', str_of_int (li_limit l)), (''added'', li_added l), (''in_use'', bool_attr (li_is_used l))]
      in if li_type l = ''simple'' then
           (case li_match_str l of
              None \<Rightarrow> Inl AttributeError
            | Some m \<Rightarrow>
                Inr \<lparr>lx_attrs = base @ [(''expires'', case li_expires l of Some e \<Rightarrow> strftime e | None \<Rightarrow> []), (''match_str'', m)],
                     lx_servers = map (\<lambda>(p, h). (str_of_int p, h)) (li_servers l)\<rparr>)
         else
           (case li_eval_str l of
              None \<Rightarrow> Inl AttributeError
            | Some e \<Rightarrow> Inr \<lparr>lx_attrs = base @ [(''eval_str'', e)], lx_servers = []\<rparr>))"

subsection \<open>Usage\<close>

definition lic_reset :: "'e sge_license \<Rightarrow> 'e sge_license" where
  "lic_reset l = l\<lparr>li_used := 0, li_usage := Some \<lparr>uc_sge_used = 0, uc_requested = 0, uc_issued = 0, uc_external_used = 0\<rparr>\<rparr>"

definition counters :: "'e sge_license \<Rightarrow> usage_counters res" where
  "counters l = (case li_usage l of Some u \<Rightarrow> Inr u | None \<Rightarrow> Inl AttributeError)"

definition num_sge_specific :: "(string \<Rightarrow> string \<Rightarrow> bool) \<Rightarrow> 'e sge_license \<Rightarrow> srv_license \<Rightarrow> int res" where
  "num_sge_specific re_match l el =
     (case li_match_str l of
        None \<Rightarrow> Inl AttributeError
      | Some m \<Rightarrow>
          if m = [] then Inr 0
          else bind_r (mapM_r (\<lambda>(client, num). if re_match m client then py_int num else Inr 0) (sl_usages el)) (\<lambda>ns. Inr (sum_list ns)))"

definition get_sge_available :: "'e sge_license \<Rightarrow> int res" where
  "get_sge_available l = bind_r (counters l) (\<lambda>u. Inr (li_total l - max (uc_external_used u) (li_limit l)))"

definition lic_free :: "'e sge_license \<Rightarrow> int" where
  "lic_free l = li_total l - li_used l"

definition feed_server :: "(string \<Rightarrow> string \<Rightarrow> bool) \<Rightarrow> srv_license \<Rightarrow> 'e sge_license \<Rightarrow> 'e sge_license res" where
  "feed_server re_match el l =
     (let a = sl_attrs el in
      bind_r (int_attr a ''issued'' ''0'') (\<lambda>total.
      bind_r (int_attr a ''reserved'' ''0'') (\<lambda>reserved.
      bind_r (int_attr a ''used'' ''0'') (\<lambda>srv_used.
      bind_r (counters l) (\<lambda>u.
        let used = srv_used - reserved; l1 = l\<lparr>li_total := total, li_reserved := reserved, li_used := used\<rparr> in
        if li_type l = ''simple'' then
          bind_r (num_sge_specific re_match l el) (\<lambda>n.
            Inr (l1\<lparr>li_usage := Some (u\<lparr>uc_issued := uc_issued u + n, uc_external_used := uc_external_used u + (used - n)\<rparr>)\<rparr>))
        else Inr (l1\<lparr>li_usage := Some (u\<lparr>uc_external_used := uc_external_used u + used\<rparr>)\<rparr>))))))"

type_synonym 'e lic_table = "(string \<times> 'e sge_license) list"

definition update_one :: "(string \<Rightarrow> string \<Rightarrow> bool) \<Rightarrow> srv_license \<Rightarrow> 'e lic_table \<Rightarrow> 'e lic_table res" where
  "update_one re_match el d =
     (case map_of (sl_attrs el) ''name'' of
        None \<Rightarrow> Inr d
      | Some name \<Rightarrow>
          (case map_of d name of
             Some l \<Rightarrow> if li_is_used l then bind_r (feed_server re_match el l) (\<lambda>l'. Inr (AList.update name l' d)) else Inr d
           | None \<Rightarrow> Inr d))"

fun update_all :: "(string \<Rightarrow> string \<Rightarrow> bool) \<Rightarrow> srv_license list \<Rightarrow> 'e lic_table \<Rightarrow> 'e lic_table res" where
  "update_all re_match [] d = Inr d"
| "update_all re_match (el # els) d = bind_r (update_one re_match el d) (update_all re_match els)"

definition map_lics :: "('e sge_license \<Rightarrow> 'e sge_license) \<Rightarrow> 'e lic_table \<Rightarrow> 'e lic_table" where
  "map_lics f d = map (\<lambda>(k, l). (k, f l)) d"

definition update_usage :: "(string \<Rightarrow> string \<Rightarrow> bool) \<Rightarrow> srv_license list \<Rightarrow> 'e lic_table \<Rightarrow> 'e lic_table res" where
  "update_usage re_match els d = update_all re_match els (map_lics lic_reset d)"

definition on_counters :: "(usage_counters \<Rightarrow> usage_counters) \<Rightarrow> 'e sge_license \<Rightarrow> 'e sge_license res" where
  "on_counters f l = bind_r (counters l) (\<lambda>u. Inr (l\<lparr>li_usage := Some (f u)\<rparr>))"

definition for_licenses :: "(string \<Rightarrow> 'e sge_license \<Rightarrow> 'e sge_license res) \<Rightarrow> 'e lic_table \<Rightarrow> 'e lic_table res" where
  "for_licenses f d = mapM_r (\<lambda>(k, l). bind_r (f k l) (\<lambda>l'. Inr (k, l'))) d"

definition set_sge_used :: "(string \<times> int) list \<Rightarrow> 'e lic_table \<Rightarrow> 'e lic_table res" where
  "set_sge_used used d =
     for_licenses (\<lambda>k l. case map_of used k of
        Some n \<Rightarrow> on_counters (\<lambda>u. u\<lparr>uc_requested := uc_requested u + n\<rparr>) l
      | None \<Rightarrow> Inr l) d"

text \<open>The requests of the running jobs: every hard request counts once per slot, rounded, what is no number is skipped.\<close>

definition req_value :: "int \<Rightarrow> string \<Rightarrow> int option" where
  "req_value slots text = (case py_float_of text of Inr x \<Rightarrow> Some (py_trunc (x * of_int slots + 1 / 2)) | Inl _ \<Rightarrow> None)"

record sge_job =
  jb_slots :: "string option"
  jb_requests :: "(string \<times> string) list"

definition job_used :: "sge_job \<Rightarrow> (string \<times> int) list \<Rightarrow> (string \<times> int) list res" where
  "job_used j used =
     bind_r (case jb_slots j of Some s \<Rightarrow> py_int s | None \<Rightarrow> Inr 1) (\<lambda>slots.
       Inr (fold (\<lambda>(name, text) d. case req_value slots text of
              Some v \<Rightarrow> AList.update name ((case map_of d name of Some n \<Rightarrow> n | None \<Rightarrow> 0) + v) d
            | None \<Rightarrow> d) (jb_requests j) used))"

definition parse_sge_used :: "sge_job list option \<Rightarrow> (string \<times> int) list res" where
  "parse_sge_used jobs = (case jobs of None \<Rightarrow> Inr [] | Some js \<Rightarrow> fold (\<lambda>j m. bind_r m (job_used j)) js (Inr []))"

subsection \<open>Complex licenses\<close>

datatype lic_field = Total | Used | Limit | Requested | Issued

definition get_field :: "lic_field \<Rightarrow> 'e sge_license \<Rightarrow> int res" where
  "get_field f l =
     (case f of
        Total \<Rightarrow> Inr (li_total l)
      | Used \<Rightarrow> Inr (li_used l)
      | Limit \<Rightarrow> Inr (li_limit l)
      | Requested \<Rightarrow> bind_r (counters l) (\<lambda>u. Inr (uc_requested u))
      | Issued \<Rightarrow> bind_r (counters l) (\<lambda>u. Inr (uc_issued u)))"

definition set_field :: "lic_field \<Rightarrow> int \<Rightarrow> 'e sge_license \<Rightarrow> 'e sge_license res" where
  "set_field f v l =
     (case f of
        Total \<Rightarrow> Inr (l\<lparr>li_total := v\<rparr>)
      | Used \<Rightarrow> Inr (l\<lparr>li_used := v\<rparr>)
      | Limit \<Rightarrow> Inr (l\<lparr>li_limit := v\<rparr>)
      | Requested \<Rightarrow> on_counters (\<lambda>u. u\<lparr>uc_requested := v\<rparr>) l
      | Issued \<Rightarrow> on_counters (\<lambda>u. u\<lparr>uc_issued := v\<rparr>) l)"

type_synonym evaluator = "string \<Rightarrow> (string \<times> int) list \<Rightarrow> int res"

definition simple_values :: "lic_field \<Rightarrow> 'e lic_table \<Rightarrow> (string \<times> int) list res" where
  "simple_values f d = mapM_r (\<lambda>(k, l). bind_r (get_field f l) (\<lambda>v. Inr (k, v))) (filter (\<lambda>(k, l). li_type l = ''simple'') d)"

definition handle_field :: "evaluator \<Rightarrow> 'e lic_table \<Rightarrow> 'e sge_license \<Rightarrow> lic_field \<Rightarrow> 'e sge_license res" where
  "handle_field ev d l f =
     bind_r (simple_values f d) (\<lambda>glob.
       set_field f (case li_eval_str l of Some e \<Rightarrow> (case ev e glob of Inr v \<Rightarrow> v | Inl _ \<Rightarrow> 0) | None \<Rightarrow> 0) l)"

definition handle_complex :: "evaluator \<Rightarrow> 'e lic_table \<Rightarrow> 'e sge_license \<Rightarrow> 'e sge_license res" where
  "handle_complex ev d l = fold (\<lambda>f m. bind_r m (\<lambda>l. handle_field ev d l f)) [Total, Used, Limit, Requested, Issued] (Inr l)"

definition handle_complex_key :: "evaluator \<Rightarrow> string \<Rightarrow> 'e lic_table \<Rightarrow> 'e lic_table res" where
  "handle_complex_key ev k d =
     (case map_of d k of
        Some l \<Rightarrow> bind_r (handle_complex ev d l) (\<lambda>l'. Inr (AList.update k l' d))
      | None \<Rightarrow> Inl KeyError)"

definition complex_keys :: "'e lic_table \<Rightarrow> string list" where
  "complex_keys d = sort (map fst (filter (\<lambda>(k, l). li_is_used l \<and> li_type l = ''complex'') d))"

definition handle_complex_licenses :: "evaluator \<Rightarrow> 'e lic_table \<Rightarrow> 'e lic_table res" where
  "handle_complex_licenses ev d = fold (\<lambda>k m. bind_r m (handle_complex_key ev k)) (complex_keys d) (Inr d)"

text \<open>For a complex license the attribute \<open>external\<close> is set, not \<open>external_used\<close>.\<close>

definition calculate_one :: "'e sge_license \<Rightarrow> 'e sge_license res" where
  "calculate_one l =
     (if li_is_used l then
        bind_r (counters l) (\<lambda>u.
          let su = max (uc_issued u) (uc_requested u); l1 = l\<lparr>li_usage := Some (u\<lparr>uc_sge_used := su\<rparr>)\<rparr> in
          Inr (if li_type l = ''simple'' then l1 else l1\<lparr>li_external := Some (li_used l - su)\<rparr>))
      else Inr l)"

definition calculate_usage :: "'e lic_table \<Rightarrow> 'e lic_table res" where
  "calculate_usage d = for_licenses (\<lambda>k. calculate_one) d"

definition feed_xml_result ::
  "(string \<Rightarrow> string \<Rightarrow> bool) \<Rightarrow> evaluator \<Rightarrow> srv_license list \<Rightarrow> sge_job list option \<Rightarrow> 'e lic_table \<Rightarrow> 'e lic_table res" where
  "feed_xml_result re_match ev els jobs d =
     bind_r (update_usage re_match els d) (\<lambda>d1.
     bind_r (parse_sge_used jobs) (\<lambda>used.
     bind_r (set_sge_used used d1) (\<lambda>d2.
     bind_r (handle_complex_licenses ev d2) calculate_usage)))"

text \<open>The limits that the server sets at the grid engine (\<open>rms/license.py\<close>).\<close>

definition sge_global_limits :: "'e lic_table \<Rightarrow> (string \<times> int) list res" where
  "sge_global_limits d = mapM_r (\<lambda>(k, l). bind_r (get_sge_available l) (\<lambda>n. Inr (li_name l, n))) (filter (\<lambda>(k, l). li_is_used l) d)"

subsection \<open>What the accounting relies on\<close>

text \<open>An answer of a license server: the counts are numbers, for the licenses and for every use.\<close>

locale server_answer =
  fixes answer :: "'x \<Rightarrow> srv_license"
    and good :: "'x \<Rightarrow> bool"
    and issued :: "'x \<Rightarrow> int"
    and reserved :: "'x \<Rightarrow> int"
    and srv_used :: "'x \<Rightarrow> int"
  assumes issued: "good x \<Longrightarrow> int_attr (sl_attrs (answer x)) ''issued'' ''0'' = Inr (issued x)"
    and reserved: "good x \<Longrightarrow> int_attr (sl_attrs (answer x)) ''reserved'' ''0'' = Inr (reserved x)"
    and srv_used: "good x \<Longrightarrow> int_attr (sl_attrs (answer x)) ''used'' ''0'' = Inr (srv_used x)"
    and usages: "good x \<Longrightarrow> list_all (\<lambda>u. \<exists>n. py_int (snd u) = Inr n) (sl_usages (answer x))"
begin

lemma sge_specific:
  assumes "good x" "li_match_str l = Some m"
  shows "\<exists>n. num_sge_specific re l (answer x) = Inr n"
proof -
  have "\<exists>ns. mapM_r (\<lambda>(client, num). if re m client then py_int num else Inr 0) us = Inr ns"
    if "list_all (\<lambda>u. \<exists>n. py_int (snd u) = Inr n) us" for us
    using that by (induction us) auto
  from this [OF usages [OF assms(1)]] assms(2) show ?thesis by (cases "m = []") (auto simp: num_sge_specific_def)
qed

lemma feeds:
  assumes "good x" "li_match_str l \<noteq> None"
  shows "\<exists>l'. feed_server re (answer x) (lic_reset l) = Inr l' \<and> li_total l' = issued x \<and> li_reserved l' = reserved x \<and>
    li_used l' = srv_used x - reserved x"
proof -
  have c: "counters (lic_reset l) = Inr \<lparr>uc_sge_used = 0, uc_requested = 0, uc_issued = 0, uc_external_used = 0\<rparr>"
    by (simp add: counters_def lic_reset_def)
  obtain n where "num_sge_specific re (lic_reset l) (answer x) = Inr n"
    using sge_specific [OF assms(1), of "lic_reset l"] assms(2) by (auto simp: lic_reset_def)
  then show ?thesis
    by (cases "li_type (lic_reset l) = ''simple''") (auto simp: feed_server_def issued [OF assms(1)] reserved [OF assms(1)] srv_used [OF assms(1)] c Let_def)
qed

end

subsection \<open>Writing and reading the file\<close>

text \<open>A license as it stands in the file, before any usage is fed.\<close>

definition stored_license :: "'e sge_license \<Rightarrow> bool" where
  "stored_license l \<longleftrightarrow>
     li_used l = 0 \<and> li_usage l = None \<and> li_external l = None \<and>
     (if li_type l = ''simple'' then li_match_str l \<noteq> None \<and> li_eval_str l = None
      else li_match_str l = None \<and> li_eval_str l \<noteq> None \<and> li_servers l = [] \<and> li_expires l = None)"

lemma server_roundtrip: "mapM_r server_of (map (\<lambda>(p, h). (str_of_int p, h)) xs) = Inr xs"
  by (rule mapM_r_map_inv) (auto simp: server_of_def)

lemma int_attr_Some: "map_of a k = Some (str_of_int n) \<Longrightarrow> int_attr a k v = Inr n" "map_of a k = Some (str_of_int n) \<Longrightarrow> int_attr_req a k = Inr n"
  by (simp_all add: int_attr_def int_attr_req_def attr_or_def)

lemma bool_attr_int: "py_int (bool_attr b) = Inr (if b then 1 else 0)"
  by (simp add: bool_attr_def py_int_def) code_simp

text \<open>C34: a license that is written to the site's license file and read again is the same license, servers, match string or
  expression, limits, flags and expiry included, when the format of the expiry date reads back what it prints.\<close>

theorem license_file_roundtrip:
  assumes "stored_license l" "\<And>e. strptime (strftime e) = Inr e" "\<And>e. strftime e \<noteq> []"
  shows "\<exists>x. get_xml strftime l = Inr x \<and> license_from_file strptime (li_site l) x = Inr l"
proof (cases "li_type l = ''simple''")
  case True
  with assms(1) obtain m where m: "li_match_str l = Some m" by (auto simp: stored_license_def)
  show ?thesis
    using assms True m
    by (cases l) (auto simp: stored_license_def get_xml_def license_from_file_def attr_or_def int_attr_def int_attr_req_def bool_attr_int
        parse_expires_def server_roundtrip Let_def split: option.splits)
next
  case False
  with assms(1) obtain m where m: "li_eval_str l = Some m" by (auto simp: stored_license_def)
  show ?thesis
    using assms False m
    by (cases l) (auto simp: stored_license_def get_xml_def license_from_file_def attr_or_def int_attr_def int_attr_req_def bool_attr_int
        parse_expires_def Let_def)
qed

theorem license_file_roundtrip_witness:
  "\<exists>x. get_xml (\<lambda>e::nat. ''d'' @ str_of_nat e)
         \<lparr>li_name = ''matlab'', li_attribute = ''MATLAB'', li_type = ''simple'', li_site = ''vienna'', li_servers = [(1700, ''lic1''), (1701, ''lic2'')],
          li_match_str = Some ''node'', li_eval_str = None, li_total = 20, li_reserved = -1, li_limit = 2, li_is_used = True, li_show = False,
          li_added = ''unknown'', li_expires = Some 7, li_used = 0, li_usage = None, li_external = None\<rparr> = Inr x \<and>
       license_from_file (\<lambda>s. bind_r (py_int (tl s)) (\<lambda>n. Inr (nat n))) ''vienna'' x =
         Inr \<lparr>li_name = ''matlab'', li_attribute = ''MATLAB'', li_type = ''simple'', li_site = ''vienna'', li_servers = [(1700, ''lic1''), (1701, ''lic2'')],
          li_match_str = Some ''node'', li_eval_str = None, li_total = 20, li_reserved = -1, li_limit = 2, li_is_used = True, li_show = False,
          li_added = ''unknown'', li_expires = Some 7, li_used = 0, li_usage = None, li_external = None\<rparr>"
  using license_file_roundtrip [of
      "\<lparr>li_name = ''matlab'', li_attribute = ''MATLAB'', li_type = ''simple'', li_site = ''vienna'', li_servers = [(1700, ''lic1''), (1701, ''lic2'')],
        li_match_str = Some ''node'', li_eval_str = None, li_total = 20, li_reserved = -1, li_limit = 2, li_is_used = True, li_show = False,
        li_added = ''unknown'', li_expires = Some 7, li_used = 0, li_usage = None, li_external = None\<rparr>"
      "\<lambda>s. bind_r (py_int (tl s)) (\<lambda>n. Inr (nat n))" "\<lambda>e::nat. ''d'' @ str_of_nat e"]
  by (simp add: stored_license_def)

subsection \<open>The numbers of a license after a round\<close>

lemma for_licenses_lookup:
  assumes "for_licenses f d = Inr d'"
  shows "map fst d' = map fst d" and "map_of d k = Some l \<Longrightarrow> \<exists>l'. f k l = Inr l' \<and> map_of d' k = Some l'"
  using assms by (induction d arbitrary: d') (auto simp: for_licenses_def bind_r_eq_Inr split: if_splits)

lemma map_lics_lookup: "map_of (map_lics f d) k = map_option f (map_of d k)" "map fst (map_lics f d) = map fst d"
  by (induction d) (auto simp: map_lics_def)

lemma distinct_update: "distinct (map fst d) \<Longrightarrow> distinct (map fst (AList.update k l d))"
  by (rule AList.distinct_update)

definition named :: "string \<Rightarrow> srv_license \<Rightarrow> bool" where
  "named k el \<longleftrightarrow> map_of (sl_attrs el) ''name'' = Some k"

lemma update_one_other: "update_one re el d = Inr d' \<Longrightarrow> \<not> named k el \<Longrightarrow> map_of d' k = map_of d k"
  by (auto simp: update_one_def named_def bind_r_eq_Inr update_conv' split: option.splits if_splits)

lemma update_one_named:
  "update_one re el d = Inr d' \<Longrightarrow> named k el \<Longrightarrow> map_of d k = Some l \<Longrightarrow> li_is_used l \<Longrightarrow>
   \<exists>l'. feed_server re el l = Inr l' \<and> map_of d' k = Some l'"
  by (auto simp: update_one_def named_def bind_r_eq_Inr update_conv')

lemma update_one_distinct: "update_one re el d = Inr d' \<Longrightarrow> distinct (map fst d) \<Longrightarrow> distinct (map fst d')"
  by (auto simp: update_one_def bind_r_eq_Inr distinct_update split: option.splits if_splits)

lemma update_all_other: "update_all re els d = Inr d' \<Longrightarrow> filter (named k) els = [] \<Longrightarrow> map_of d' k = map_of d k"
  by (induction els arbitrary: d) (auto simp: bind_r_eq_Inr dest: update_one_other split: if_splits)

lemma update_all_distinct: "update_all re els d = Inr d' \<Longrightarrow> distinct (map fst d) \<Longrightarrow> distinct (map fst d')"
  by (induction els arbitrary: d) (auto simp: bind_r_eq_Inr dest: update_one_distinct)

lemma update_all_one:
  "update_all re els d = Inr d' \<Longrightarrow> filter (named k) els = [el] \<Longrightarrow> map_of d k = Some l \<Longrightarrow> li_is_used l \<Longrightarrow>
   \<exists>l'. feed_server re el l = Inr l' \<and> map_of d' k = Some l'"
proof (induction els arbitrary: d)
  case (Cons e els)
  then obtain d1 where d1: "update_one re e d = Inr d1" "update_all re els d1 = Inr d'" by (auto simp: bind_r_eq_Inr)
  show ?case
  proof (cases "named k e")
    case True
    with Cons.prems have "e = el" "filter (named k) els = []" by simp_all
    with d1 True Cons.prems show ?thesis using update_one_named [of re e d d1 k l] update_all_other [of re els d1 d' k] by auto
  next
    case False
    with d1 Cons.prems have "map_of d1 k = Some l" using update_one_other [of re e d d1 k] by simp
    with False d1(2) Cons.prems show ?thesis by (intro Cons.IH [of d1]) auto
  qed
qed simp

lemma complex_fold_Inl: "fold (\<lambda>k m. bind_r m (handle_complex_key ev k)) ks (Inl e) = Inl e"
  by (induction ks) simp_all

lemma complex_fold_other:
  "fold (\<lambda>k m. bind_r m (handle_complex_key ev k)) ks (Inr d) = Inr d' \<Longrightarrow> k \<notin> set ks \<Longrightarrow> map_of d' k = map_of d k"
proof (induction ks arbitrary: d)
  case (Cons a ks)
  then obtain d1 where d1: "handle_complex_key ev a d = Inr d1"
    by (cases "handle_complex_key ev a d") (auto simp: complex_fold_Inl)
  then have "map_of d1 k = map_of d k"
    using Cons.prems(2) by (auto simp: handle_complex_key_def bind_r_eq_Inr update_conv' split: option.splits)
  with Cons d1 show ?case by auto
qed simp

lemma simple_not_complex: "distinct (map fst d) \<Longrightarrow> map_of d k = Some l \<Longrightarrow> li_type l = ''simple'' \<Longrightarrow> k \<notin> set (complex_keys d)"
  by (auto simp: complex_keys_def dest: eq_key_imp_eq_value)

lemma handle_complex_simple:
  "handle_complex_licenses ev d = Inr d' \<Longrightarrow> distinct (map fst d) \<Longrightarrow> map_of d k = Some l \<Longrightarrow> li_type l = ''simple'' \<Longrightarrow> map_of d' k = Some l"
  using simple_not_complex complex_fold_other unfolding handle_complex_licenses_def by metis

text \<open>One round, step by step, for a simple license in use that the server lists once.\<close>

lemma round_simple:
  assumes "feed_xml_result re ev els jobs d = Inr d'" "distinct (map fst d)" "map_of d k = Some l" "li_type l = ''simple''" "li_is_used l"
    "filter (named k) els = [el]"
  obtains l1 l2 l' used where "feed_server re el (lic_reset l) = Inr l1" "parse_sge_used jobs = Inr used"
    "(case map_of used k of Some n \<Rightarrow> on_counters (\<lambda>u. u\<lparr>uc_requested := uc_requested u + n\<rparr>) l1 | None \<Rightarrow> Inr l1) = Inr l2"
    "calculate_one l2 = Inr l'" "map_of d' k = Some l'"
proof -
  from assms(1) obtain d1 used d2 d3 where
    d1: "update_usage re els d = Inr d1" and used: "parse_sge_used jobs = Inr used" and d2: "set_sge_used used d1 = Inr d2" and
    d3: "handle_complex_licenses ev d2 = Inr d3" and d4: "calculate_usage d3 = Inr d'"
    by (auto simp: feed_xml_result_def bind_r_eq_Inr)
  have used_l: "li_is_used (lic_reset l)" using assms(5) by (simp add: lic_reset_def)
  have "map_of (map_lics lic_reset d) k = Some (lic_reset l)" using assms(3) by (simp add: map_lics_lookup)
  from update_all_one [OF d1 [unfolded update_usage_def] assms(6) this used_l] obtain l1 where
    l1: "feed_server re el (lic_reset l) = Inr l1" "map_of d1 k = Some l1" by blast
  have dd1: "distinct (map fst d1)" using update_all_distinct [OF d1 [unfolded update_usage_def]] assms(2) by (simp add: map_lics_lookup)
  from for_licenses_lookup [OF d2 [unfolded set_sge_used_def]] l1(2) obtain l2 where
    l2: "(case map_of used k of Some n \<Rightarrow> on_counters (\<lambda>u. u\<lparr>uc_requested := uc_requested u + n\<rparr>) l1 | None \<Rightarrow> Inr l1) = Inr l2"
      "map_of d2 k = Some l2" and dd2: "map fst d2 = map fst d1" by blast
  have "li_type l1 = ''simple''" using l1(1) assms(4)
    by (auto simp: feed_server_def bind_r_eq_Inr Let_def lic_reset_def)
  then have "li_type l2 = ''simple''" using l2(1) by (auto simp: on_counters_def bind_r_eq_Inr split: option.splits)
  from handle_complex_simple [OF d3 _ l2(2) this] dd1 dd2 have "map_of d3 k = Some l2" by simp
  from for_licenses_lookup(2) [OF d4 [unfolded calculate_usage_def] this] obtain l' where
    "calculate_one l2 = Inr l'" "map_of d' k = Some l'" by blast
  with l1 l2 used that show thesis by blast
qed

text \<open>C32: after a round of feeding, a simple license in use that the server lists once has the server's numbers: what is
  used is the server's count without the reserved ones, it is split into what matching hosts hold and what is used outside,
  the grid's share is the larger of what matching hosts hold and what running jobs requested, what is free is what is
  not used, and the number offered to jobs leaves both the outside use and the configured limit untouched.\<close>

theorem license_accounting:
  assumes "feed_xml_result re ev els jobs d = Inr d'" "distinct (map fst d)" "map_of d k = Some l" "li_type l = ''simple''" "li_is_used l"
    "filter (named k) els = [el]"
  shows "\<exists>l' u n used total reserved srv_used.
    map_of d' k = Some l' \<and> li_usage l' = Some u \<and> parse_sge_used jobs = Inr used \<and> num_sge_specific re l el = Inr n \<and>
    int_attr (sl_attrs el) ''issued'' ''0'' = Inr total \<and> int_attr (sl_attrs el) ''reserved'' ''0'' = Inr reserved \<and>
    int_attr (sl_attrs el) ''used'' ''0'' = Inr srv_used \<and>
    li_total l' = total \<and> li_reserved l' = reserved \<and> li_used l' = srv_used - reserved \<and> li_limit l' = li_limit l \<and>
    uc_issued u = n \<and> uc_issued u + uc_external_used u = li_used l' \<and>
    uc_requested u = (case map_of used k of Some q \<Rightarrow> q | None \<Rightarrow> 0) \<and> uc_sge_used u = max (uc_issued u) (uc_requested u) \<and>
    lic_free l' + li_used l' = total \<and>
    get_sge_available l' = Inr (total - max (srv_used - reserved - n) (li_limit l))"
proof -
  from round_simple [OF assms] obtain l1 l2 l' used where
    s: "feed_server re el (lic_reset l) = Inr l1" "parse_sge_used jobs = Inr used"
      "(case map_of used k of Some n \<Rightarrow> on_counters (\<lambda>u. u\<lparr>uc_requested := uc_requested u + n\<rparr>) l1 | None \<Rightarrow> Inr l1) = Inr l2"
      "calculate_one l2 = Inr l'" "map_of d' k = Some l'" .
  have re: "num_sge_specific re (lic_reset l) el = num_sge_specific re l el" by (simp add: num_sge_specific_def lic_reset_def)
  from s(1) assms(4) re obtain n total reserved srv_used where
    n: "num_sge_specific re l el = Inr n" "int_attr (sl_attrs el) ''issued'' ''0'' = Inr total" "int_attr (sl_attrs el) ''reserved'' ''0'' = Inr reserved"
      "int_attr (sl_attrs el) ''used'' ''0'' = Inr srv_used" and
    l1: "l1 = l\<lparr>li_total := total, li_reserved := reserved, li_used := srv_used - reserved,
      li_usage := Some \<lparr>uc_sge_used = 0, uc_requested = 0, uc_issued = n, uc_external_used = srv_used - reserved - n\<rparr>\<rparr>"
    by (auto simp: feed_server_def bind_r_eq_Inr Let_def lic_reset_def counters_def)
  define q where "q = (case map_of used k of Some q \<Rightarrow> q | None \<Rightarrow> 0)"
  have l2: "l2 = l1\<lparr>li_usage := Some \<lparr>uc_sge_used = 0, uc_requested = q, uc_issued = n, uc_external_used = srv_used - reserved - n\<rparr>\<rparr>"
    using s(3) by (auto simp: l1 q_def on_counters_def counters_def split: option.splits)
  have l': "l' = l2\<lparr>li_usage := Some \<lparr>uc_sge_used = max n q, uc_requested = q, uc_issued = n, uc_external_used = srv_used - reserved - n\<rparr>\<rparr>"
    using s(4) assms(4,5) by (simp add: l2 l1 calculate_one_def counters_def)
  have "li_usage l' = Some \<lparr>uc_sge_used = max n q, uc_requested = q, uc_issued = n, uc_external_used = srv_used - reserved - n\<rparr>"
    by (simp add: l')
  with s(2,5) n show ?thesis
    by (intro exI conjI) (assumption | simp add: l' l2 l1 lic_free_def get_sge_available_def counters_def q_def)+
qed

text \<open>A complex license in use whose count of outside use is zero; no step after the reset changes that count.\<close>

definition no_external :: "'e sge_license \<Rightarrow> bool" where
  "no_external l \<longleftrightarrow> li_is_used l \<and> li_type l = ''complex'' \<and> map_option uc_external_used (li_usage l) = Some 0"

lemma handle_field_external: "handle_field ev d l f = Inr l' \<Longrightarrow> no_external l \<Longrightarrow> no_external l'"
  by (cases f) (auto simp: handle_field_def bind_r_eq_Inr set_field_def on_counters_def counters_def no_external_def split: option.splits)

lemma handle_complex_external: "handle_complex ev d l = Inr l' \<Longrightarrow> no_external l \<Longrightarrow> no_external l'"
  by (auto simp: handle_complex_def bind_r_eq_Inr dest!: handle_field_external)

lemma handle_key_external:
  assumes "handle_complex_key ev a d = Inr d1" "map_of d k = Some l" "no_external l"
  shows "\<exists>l1. map_of d1 k = Some l1 \<and> no_external l1"
proof (cases "k = a")
  case True
  with assms(1,2) obtain l1 where "handle_complex ev d l = Inr l1" "d1 = AList.update k l1 d"
    by (auto simp: handle_complex_key_def bind_r_eq_Inr)
  with assms(3) show ?thesis by (auto simp: update_conv' dest!: handle_complex_external)
next
  case False
  with assms show ?thesis by (auto simp: handle_complex_key_def bind_r_eq_Inr update_conv' split: option.splits)
qed

lemma complex_fold_external:
  "fold (\<lambda>k m. bind_r m (handle_complex_key ev k)) ks (Inr d) = Inr d' \<Longrightarrow> map_of d k = Some l \<Longrightarrow> no_external l \<Longrightarrow>
   \<exists>l'. map_of d' k = Some l' \<and> no_external l'"
proof (induction ks arbitrary: d l)
  case (Cons a ks)
  then obtain d1 where d1: "handle_complex_key ev a d = Inr d1"
    by (cases "handle_complex_key ev a d") (auto simp: complex_fold_Inl)
  from handle_key_external [OF this Cons.prems(2,3)] obtain l1 where "map_of d1 k = Some l1" "no_external l1" by blast
  with Cons d1 show ?case by auto
qed auto


text \<open>A site with a simple license that runs on two kinds of hosts and a complex one that counts the same licenses.\<close>

definition ex_site :: "nat lic_table" where
  "ex_site =
     [(''sim'', \<lparr>li_name = ''sim'', li_attribute = ''SIM'', li_type = ''simple'', li_site = ''x'', li_servers = [], li_match_str = Some ''node'',
        li_eval_str = None, li_total = 0, li_reserved = 0, li_limit = 2, li_is_used = True, li_show = True, li_added = ''unknown'',
        li_expires = None, li_used = 0, li_usage = None, li_external = None\<rparr>),
      (''all'', \<lparr>li_name = ''all'', li_attribute = ''ALL'', li_type = ''complex'', li_site = ''x'', li_servers = [], li_match_str = None,
        li_eval_str = Some ''sim'', li_total = 0, li_reserved = 0, li_limit = 0, li_is_used = True, li_show = True, li_added = ''unknown'',
        li_expires = None, li_used = 0, li_usage = None, li_external = None\<rparr>)]"

definition ex_answer :: "srv_license" where
  "ex_answer = \<lparr>sl_attrs = [(''name'', ''sim''), (''issued'', ''20''), (''reserved'', ''1''), (''used'', ''16'')],
     sl_usages = [(''node1'', ''4''), (''desk7'', ''11'')], sl_expiry = None\<rparr>"

definition ex_jobs :: "sge_job list" where
  "ex_jobs = [\<lparr>jb_slots = Some ''3'', jb_requests = [(''sim'', ''2''), (''mem'', ''4G'')]\<rparr>]"

definition ex_ev :: evaluator where
  "ex_ev e g = (case map_of g e of Some v \<Rightarrow> Inr v | None \<Rightarrow> Inl KeyError)"

definition ex_re :: "string \<Rightarrow> string \<Rightarrow> bool" where
  "ex_re m s = (take (length m) s = m)"

lemma ex_round: "(case feed_xml_result ex_re ex_ev [ex_answer] (Some ex_jobs) ex_site of
    Inr d \<Rightarrow> map (\<lambda>(k, l). (k, li_total l, li_used l, li_usage l, li_external l)) d | Inl _ \<Rightarrow> []) =
  [(''sim'', 20, 15, Some \<lparr>uc_sge_used = 6, uc_requested = 6, uc_issued = 4, uc_external_used = 11\<rparr>, None),
   (''all'', 20, 15, Some \<lparr>uc_sge_used = 6, uc_requested = 6, uc_issued = 4, uc_external_used = 0\<rparr>, Some 9)]"
  by code_simp

text \<open>What the round left in the two licenses, as the witnesses state it.\<close>

definition ex_result :: "string \<Rightarrow> nat sge_license option" where
  "ex_result k = (case feed_xml_result ex_re ex_ev [ex_answer] (Some ex_jobs) ex_site of Inr d \<Rightarrow> map_of d k | Inl _ \<Rightarrow> None)"

lemma ex_ok: "feed_xml_result ex_re ex_ev [ex_answer] (Some ex_jobs) ex_site =
    Inr (case feed_xml_result ex_re ex_ev [ex_answer] (Some ex_jobs) ex_site of Inr d \<Rightarrow> d | Inl _ \<Rightarrow> [])"
  using ex_round by (auto split: sum.splits)

theorem license_accounting_witness:
  "\<exists>l' u. ex_result ''sim'' = Some l' \<and> li_usage l' = Some u \<and> li_used l' = 15 \<and> uc_issued u = 4 \<and> uc_external_used u = 11 \<and>
     uc_sge_used u = 6 \<and> lic_free l' = 5 \<and> get_sge_available l' = Inr 9"
proof -
  have h: "distinct (map fst ex_site)" "map_of ex_site ''sim'' = Some (snd (hd ex_site))" "li_type (snd (hd ex_site)) = ''simple''"
    "li_is_used (snd (hd ex_site))" "filter (named ''sim'') [ex_answer] = [ex_answer]" "li_limit (snd (hd ex_site)) = 2"
    "num_sge_specific ex_re (snd (hd ex_site)) ex_answer = Inr 4"
    "int_attr (sl_attrs ex_answer) ''issued'' ''0'' = Inr 20" "int_attr (sl_attrs ex_answer) ''reserved'' ''0'' = Inr 1"
    "int_attr (sl_attrs ex_answer) ''used'' ''0'' = Inr 16" "parse_sge_used (Some ex_jobs) = Inr [(''sim'', 6)]"
    by code_simp+
  show ?thesis
    using license_accounting [OF ex_ok h(1-5)] ex_ok by (auto simp: ex_result_def h split: sum.splits)
qed


end
