(* ===== verification/Lmstat.thy ===== *)
theory Lmstat
  imports Sge_License
begin

section \<open>License files and the answer of the license server (tools/sge_license_tools.py)\<close>

text \<open>
  The text files of a site and the old format of its licenses, and the reader of what \<open>lmutil lmstat\<close> prints, which turns
  the lines into the XML that the licenses are fed with. The conversion of dates of expiry and of checkout times is a
  parameter. The elements of the XML tree are records; the one that is being filled is the last of its list.
\<close>

subsection \<open>Text files\<close>

definition tf_lines :: "bool \<Rightarrow> bool \<Rightarrow> string \<Rightarrow> string list" where
  "tf_lines strip_empty strip_hash text =
     (let ls = py_split (char_of (10::nat)) text;
          ls1 = (if strip_empty then filter (\<lambda>l. py_strip l \<noteq> []) ls else ls)
      in if strip_hash then filter (\<lambda>l. \<not> startswith (py_strip l) ''#'') ls1 else ls1)"

definition tf_entry :: "string \<Rightarrow> string \<times> string" where
  "tf_entry l = (case split_max CHR ''='' 1 l of [k, v] \<Rightarrow> (py_strip k, py_strip v) | _ \<Rightarrow> ([], []))"

text \<open>The entries in the order of the file; as a dictionary, a later one replaces an earlier one of the same key.\<close>

definition tf_dict :: "string list \<Rightarrow> (string \<times> string) list" where
  "tf_dict ls = map tf_entry (filter (\<lambda>l. CHR ''='' \<in> set l) ls)"

definition tf_write :: "(string \<times> string) list \<Rightarrow> string" where
  "tf_write d = py_join [char_of (10::nat)] (map (\<lambda>(k, v). k @ ''='' @ v) d @ [[]])"

definition read_text_file :: "bool \<Rightarrow> string \<Rightarrow> string list" where
  "read_text_file ignore_hashes text =
     (let ls = filter (\<lambda>l. l \<noteq> []) (map py_strip (py_split (char_of (10::nat)) text))
      in if ignore_hashes then filter (\<lambda>l. \<not> startswith l ''#'') ls else ls)"

subsection \<open>License files\<close>

text \<open>A line matches the pattern of a simple license when it starts with the prefix and consists of four words, the first
  longer than the prefix and the last of digits; the pattern of a complex license has three words.\<close>

definition slic_match :: "string \<Rightarrow> string \<Rightarrow> (string \<times> string \<times> string) option" where
  "slic_match site line =
     (let p = ''lic_'' @ site @ ''_'' in
      if startswith line p then
        (case py_split_ws line of
           [t, server, attribute, num] \<Rightarrow> if length p < length t \<and> py_isdigit num then Some (server, attribute, num) else None
         | _ \<Rightarrow> None)
      else None)"

definition clic_match :: "string \<Rightarrow> string \<Rightarrow> (string \<times> string) option" where
  "clic_match site line =
     (let p = ''clic_'' @ site @ ''_'' in
      if startswith line p then
        (case py_split_ws line of [t, attribute, ev] \<Rightarrow> if length p < length t then Some (attribute, ev) else None | _ \<Rightarrow> None)
      else None)"

definition old_license :: "string \<Rightarrow> string \<Rightarrow> 'e sge_license option res" where
  "old_license site line0 =
     (let comment = startswith (py_strip line0) ''#'';
          line = (if comment then py_strip (drop 1 line0) else line0)
      in bind_r
           (case slic_match site line of
              Some (server, attribute, num) \<Rightarrow>
                bind_r (new_license site attribute (Some server) None) (\<lambda>l. bind_r (py_int num) (\<lambda>n. Inr (Some (l\<lparr>li_total := n\<rparr>))))
            | None \<Rightarrow>
                (case clic_match site line of
                   Some (attribute, ev) \<Rightarrow> bind_r (new_license site attribute None (Some ev)) (\<lambda>l. Inr (Some l))
                 | None \<Rightarrow> Inr None))
           (\<lambda>r. Inr (map_option (\<lambda>l. if comment then l else l\<lparr>li_is_used := True\<rparr>) r)))"

fun parse_old :: "string \<Rightarrow> string list \<Rightarrow> 'e lic_table \<Rightarrow> 'e lic_table res" where
  "parse_old site [] d = Inr d"
| "parse_old site (line # ls) d =
     bind_r (old_license site line) (\<lambda>r. parse_old site ls
       (case r of None \<Rightarrow> d | Some l \<Rightarrow> if map_of d (li_name l) \<noteq> None then d else d @ [(li_name l, l)]))"

text \<open>The new format: the XML tree of the joined lines is a parameter, with the site and the licenses in it.\<close>

definition parse_license_lines ::
  "(string \<Rightarrow> 'e res) \<Rightarrow> (string list \<Rightarrow> (string \<times> lic_xml list) res) \<Rightarrow> string list \<Rightarrow> string \<Rightarrow> 'e lic_table res" where
  "parse_license_lines strptime fromstring ls site =
     (if ls \<noteq> [] \<and> startswith (hd ls) ''<'' then
        bind_r (fromstring ls) (\<lambda>(s, xs).
          bind_r (mapM_r (license_from_file strptime s) xs) (\<lambda>lics. Inr (fold (\<lambda>l d. AList.update (li_name l) l d) lics [])))
      else parse_old site ls [])"

subsection \<open>The answer of the license server\<close>

record lm_server =
  lm_info :: string
  lm_address :: string
  lm_port :: string
  lm_files :: "string list"

record lm_usage =
  lu_num :: string
  lu_user :: string
  lu_client_long :: string
  lu_client_short :: string
  lu_client_version :: string
  lu_checkout :: string

record lm_version =
  lv_version :: string
  lv_floating :: bool
  lv_vendor :: string
  lv_expiry :: "string option"
  lv_reservations :: "(string \<times> string) list"
  lv_usages :: "lm_usage list"

record lm_license =
  ll_name :: string
  ll_issued :: string
  ll_used :: string
  ll_reserved :: string
  ll_free :: string
  ll_versions :: "lm_version list"

text \<open>\<open>cur_srv\<close> and \<open>cur_lic_version\<close> are the last elements of their lists while the flags are set; \<open>cur_lic\<close> is the last license,
  if there is one.\<close>

record lm_state =
  st_servers :: "lm_server list"
  st_licenses :: "lm_license list"
  st_cur_srv :: bool
  st_cur_version :: bool

fun on_last :: "('a \<Rightarrow> 'a) \<Rightarrow> 'a list \<Rightarrow> 'a list" where
  "on_last f [] = []"
| "on_last f [x] = [f x]"
| "on_last f (x # y # xs) = x # on_last f (y # xs)"

definition strip_string :: "string \<Rightarrow> string" where
  "strip_string s = (if endswith s '','' then butlast s else s)"

definition strip_chars :: "string \<Rightarrow> string \<Rightarrow> string" where
  "strip_chars cs s = rev (dropWhile (\<lambda>c. c \<in> set cs) (rev (dropWhile (\<lambda>c. c \<in> set cs) s)))"

fun part_index :: "string \<Rightarrow> string list \<Rightarrow> nat" where
  "part_index x [] = 0"
| "part_index x (y # ys) = (if x = y then 0 else Suc (part_index x ys))"

definition server_line :: "string \<Rightarrow> string list \<Rightarrow> lm_state \<Rightarrow> lm_state res" where
  "server_line lline parts s =
     (if contains_str ''license server status'' lline then
        (case py_split CHR ''@'' (last parts) of
           [port, addr] \<Rightarrow>
             Inr (s\<lparr>st_servers := st_servers s @ [\<lparr>lm_info = last parts, lm_address = addr, lm_port = port, lm_files = []\<rparr>], st_cur_srv := True\<rparr>)
         | _ \<Rightarrow> Inl ValueError)
      else Inr s)"

definition server_file_line :: "string \<Rightarrow> string list \<Rightarrow> lm_state \<Rightarrow> lm_state" where
  "server_file_line lline parts s =
     (if st_cur_srv s \<and> contains_str ''license file'' lline then
        s\<lparr>st_servers := on_last (\<lambda>v. v\<lparr>lm_files := lm_files v @ [py_join '' '' (drop 4 parts)]\<rparr>) (st_servers s)\<rparr>
      else s)"

definition users_line :: "string list option \<Rightarrow> string \<Rightarrow> string list \<Rightarrow> lm_state \<Rightarrow> lm_state res" where
  "users_line license_names lline parts s0 =
     (if startswith (py_strip lline) ''users of'' then
        (let s = s0\<lparr>st_cur_srv := False, st_cur_version := False\<rparr> in
         bind_r (list_get parts 3) (\<lambda>p3.
           if strip_chars ''(:)'' p3 = ''error'' then Inr s
           else
             (let name = butlast (parts ! 2) in
              if p3 = ''cannot'' then Inr s
              else if license_names = None \<or> name \<in> set (the license_names) then
                bind_r (list_get parts 5) (\<lambda>issued. bind_r (list_get parts 10) (\<lambda>used.
                bind_r (py_int issued) (\<lambda>i. bind_r (py_int used) (\<lambda>u.
                  Inr (s\<lparr>st_licenses := st_licenses s @ [\<lparr>ll_name = name, ll_issued = issued, ll_used = used, ll_reserved = ''0'',
                    ll_free = str_of_int (i - u), ll_versions = []\<rparr>]\<rparr>)))))
              else Inr s)))
      else Inr s0)"

definition version_of :: "(string \<Rightarrow> string res) \<Rightarrow> string list \<Rightarrow> lm_version res" where
  "version_of conv parts =
     bind_r (list_get parts 1) (\<lambda>v.
       if ''vendor:'' \<in> set parts \<and> ''expiry:'' \<in> set parts then
         bind_r (list_get parts (part_index ''expiry:'' parts + 1)) (\<lambda>ex.
         bind_r (if ex \<noteq> ''1-jan-0'' then bind_r (conv ex) (\<lambda>e. Inr (Some e)) else Inr None) (\<lambda>expiry.
         bind_r (list_get parts (part_index ''vendor:'' parts + 1)) (\<lambda>vendor.
           Inr \<lparr>lv_version = strip_string v, lv_floating = False, lv_vendor = strip_string vendor, lv_expiry = expiry,
                lv_reservations = [], lv_usages = []\<rparr>)))
       else
         Inr \<lparr>lv_version = strip_string v, lv_floating = False, lv_vendor = strip_string (last parts), lv_expiry = Some [],
              lv_reservations = [], lv_usages = []\<rparr>)"

text \<open>A usage: \<open>user host display (version) (server/port handle), start <date>[, n licenses]\<close>. The count at the end is cut off
  before the date is read.\<close>

definition usage_of :: "(string \<Rightarrow> string res) \<Rightarrow> string list \<Rightarrow> lm_usage res" where
  "usage_of checkout parts =
     bind_r (if contains_str ''license'' (last parts) then
               bind_r (list_get parts (length parts - 2)) (\<lambda>n. bind_r (py_int n) (\<lambda>k.
                 if length parts < 3 then Inl IndexError
                 else Inr (k, on_last butlast (take (length parts - 2) parts))))
             else Inr (1, parts)) (\<lambda>(num, ps).
     bind_r (checkout (py_strip (hd (py_split CHR ''('' (py_join '' '' (drop 7 ps)))))) (\<lambda>co.
     bind_r (list_get ps 0) (\<lambda>user. bind_r (list_get ps 1) (\<lambda>long. bind_r (list_get ps 2) (\<lambda>short. bind_r (list_get ps 3) (\<lambda>ver.
       Inr \<lparr>lu_num = str_of_int num, lu_user = user, lu_client_long = long, lu_client_short = hd (py_split CHR ''.'' short),
            lu_client_version = butlast (tl ver), lu_checkout = co\<rparr>))))))"

definition on_version :: "(lm_version \<Rightarrow> lm_version) \<Rightarrow> lm_license \<Rightarrow> lm_license" where
  "on_version f l = l\<lparr>ll_versions := on_last f (ll_versions l)\<rparr>"

definition feed_license_version :: "(string \<Rightarrow> string res) \<Rightarrow> string list \<Rightarrow> lm_license \<Rightarrow> lm_license res" where
  "feed_license_version checkout parts l =
     (if hd parts = ''floating'' then Inr (on_version (\<lambda>v. v\<lparr>lv_floating := True\<rparr>) l)
      else bind_r (list_get parts 1) (\<lambda>p1.
        if contains_str ''reservation'' p1 then
          bind_r (py_int (ll_reserved l)) (\<lambda>r. bind_r (py_int (hd parts)) (\<lambda>n.
            Inr ((on_version (\<lambda>v. v\<lparr>lv_reservations := lv_reservations v @ [(hd parts, py_join '' '' (drop 3 parts))]\<rparr>) l)
                 \<lparr>ll_reserved := str_of_int (r + n)\<rparr>)))
        else bind_r (usage_of checkout parts) (\<lambda>u. Inr (on_version (\<lambda>v. v\<lparr>lv_usages := lv_usages v @ [u]\<rparr>) l))))"

definition license_line :: "(string \<Rightarrow> string res) \<Rightarrow> (string \<Rightarrow> string res) \<Rightarrow> string list \<Rightarrow> lm_state \<Rightarrow> lm_state res" where
  "license_line conv checkout parts s =
     (if st_licenses s = [] then Inr s
      else
        (let l = last (st_licenses s) in
         if hd parts = [CHR 0x22] @ ll_name l @ [CHR 0x22] then
           bind_r (version_of conv parts) (\<lambda>v.
             Inr (s\<lparr>st_licenses := butlast (st_licenses s) @ [l\<lparr>ll_versions := ll_versions l @ [v]\<rparr>], st_cur_version := True\<rparr>))
         else if st_cur_version s then
           bind_r (feed_license_version checkout parts l) (\<lambda>l'. Inr (s\<lparr>st_licenses := butlast (st_licenses s) @ [l']\<rparr>))
         else Inr s))"

definition lmstat_line ::
  "(string \<Rightarrow> string res) \<Rightarrow> (string \<Rightarrow> string res) \<Rightarrow> string list option \<Rightarrow> string \<Rightarrow> lm_state \<Rightarrow> lm_state res" where
  "lmstat_line conv checkout license_names line s =
     (if py_strip line = [] then Inr s
      else
        (let lline = py_lower line; parts = py_split_ws lline in
         bind_r (server_line lline parts s) (\<lambda>s1.
         bind_r (users_line license_names lline parts (server_file_line lline parts s1)) (license_line conv checkout parts))))"

fun lmstat_lines ::
  "(string \<Rightarrow> string res) \<Rightarrow> (string \<Rightarrow> string res) \<Rightarrow> string list option \<Rightarrow> string list \<Rightarrow> lm_state \<Rightarrow> lm_state res" where
  "lmstat_lines conv checkout names [] s = Inr s"
| "lmstat_lines conv checkout names (l # ls) s = bind_r (lmstat_line conv checkout names l s) (lmstat_lines conv checkout names ls)"

definition lm_start :: lm_state where
  "lm_start = \<lparr>st_servers = [], st_licenses = [], st_cur_srv = False, st_cur_version = False\<rparr>"

definition interpret_result ::
  "(string \<Rightarrow> string res) \<Rightarrow> (string \<Rightarrow> string res) \<Rightarrow> string list option \<Rightarrow> string \<Rightarrow> lm_state res" where
  "interpret_result conv checkout names text = lmstat_lines conv checkout names (py_split (char_of (10::nat)) text) lm_start"

text \<open>What the licenses are fed with: the attributes and usages of the XML elements.\<close>

definition srv_of :: "lm_license \<Rightarrow> srv_license" where
  "srv_of l = \<lparr>sl_attrs = [(''name'', ll_name l), (''issued'', ll_issued l), (''used'', ll_used l), (''reserved'', ll_reserved l), (''free'', ll_free l), (''source'', ''server'')],
     sl_usages = map (\<lambda>u. (lu_client_short u, lu_num u)) (concat (map lv_usages (ll_versions l))),
     sl_expiry = (case ll_versions l of [] \<Rightarrow> None | v # _ \<Rightarrow> lv_expiry v)\<rparr>"

subsection \<open>Files round trip\<close>

definition plain_entry :: "string \<times> string \<Rightarrow> bool" where
  "plain_entry e \<longleftrightarrow> (case e of (k, v) \<Rightarrow>
     CHR ''='' \<notin> set k \<and> char_of (10::nat) \<notin> set k \<and> char_of (10::nat) \<notin> set v \<and> py_strip k = k \<and> py_strip v = v \<and> \<not> startswith k ''#'')"

lemma strip_hd: "\<not> is_space c \<Longrightarrow> py_strip (c # s) = c # rev (dropWhile is_space (rev s))"
proof -
  assume c: "\<not> is_space c"
  have "dropWhile is_space (rev s @ [c]) = dropWhile is_space (rev s) @ [c]"
    using c by (cases "\<forall>x\<in>set s. is_space x") (auto simp: dropWhile_append dropWhile_eq_Nil_conv)
  with c show ?thesis by (simp add: py_strip_def)
qed

lemma strip_self_hd: "py_strip (c # s) = c # s \<Longrightarrow> \<not> is_space c"
proof
  assume e: "py_strip (c # s) = c # s" and c: "is_space c"
  have "length (py_strip (c # s)) \<le> length (dropWhile is_space s)"
    using c by (simp add: py_strip_def) (metis length_dropWhile_le length_rev)
  also have "\<dots> \<le> length s" by (rule length_dropWhile_le)
  finally show False using e by simp
qed

lemma entry_line: "plain_entry (k, v) \<Longrightarrow> py_strip (k @ ''='' @ v) \<noteq> [] \<and> \<not> startswith (py_strip (k @ ''='' @ v)) ''#''"
proof (cases k)
  case Nil
  then show ?thesis by (simp add: strip_hd is_space_def startswith_def)
next
  case (Cons c r)
  moreover assume "plain_entry (k, v)"
  ultimately show ?thesis by (auto simp: plain_entry_def strip_hd startswith_def dest!: strip_self_hd)
qed

lemma entry_back: "plain_entry (k, v) \<Longrightarrow> tf_entry (k @ CHR ''='' # v) = (k, v)"
  using split_max_part [of "CHR ''=''" k 0 v] by (simp add: plain_entry_def tf_entry_def)

lemma nl_not_eq: "char_of (10::nat) \<noteq> CHR ''=''"
  by code_simp

text \<open>A configuration that is written as lines \<open>key=value\<close> is read back entry for entry, when no key or value has blanks
  around it or a line break in it and no key holds an equals sign or starts a comment.\<close>

theorem text_file_roundtrip: "list_all plain_entry d \<Longrightarrow> tf_dict (tf_lines True True (tf_write d)) = d"
proof -
  assume d: "list_all plain_entry d"
  let ?ls = "map (\<lambda>(k, v). k @ ''='' @ v) d"
  have "py_split (char_of (10::nat)) (tf_write d) = ?ls @ [[]]"
    unfolding tf_write_def using d nl_not_eq by (intro py_split_join) (auto simp: list_all_iff plain_entry_def)
  moreover have "filter (\<lambda>l. py_strip l \<noteq> []) (?ls @ [[]]) = ?ls" "filter (\<lambda>l. \<not> startswith (py_strip l) ''#'') ?ls = ?ls"
    using d entry_line by (auto simp: list_all_iff filter_id_conv py_strip_def)
  moreover have "filter (\<lambda>l. CHR ''='' \<in> set l) ?ls = ?ls" by (auto simp: filter_id_conv)
  moreover have "map tf_entry ?ls = d" using d by (induction d) (auto simp: entry_back)
  ultimately show ?thesis unfolding tf_lines_def tf_dict_def Let_def by (simp only: if_True)
qed

theorem text_file_roundtrip_witness:
  "tf_dict (tf_lines True True (tf_write [(''LMUTIL_PATH'', ''/opt/cluster/bin/lmutil''), (''LICENSE_FILE'', '''')])) =
     [(''LMUTIL_PATH'', ''/opt/cluster/bin/lmutil''), (''LICENSE_FILE'', '''')]"
  by (rule text_file_roundtrip) code_simp

subsection \<open>The answer of the server is consistent\<close>

definition reservations :: "lm_license \<Rightarrow> int list res" where
  "reservations l = mapM_r (\<lambda>r. py_int (fst r)) (concat (map lv_reservations (ll_versions l)))"

definition lm_ok :: "string list option \<Rightarrow> lm_license \<Rightarrow> bool" where
  "lm_ok names l \<longleftrightarrow>
     (\<exists>ns. reservations l = Inr ns \<and> ll_reserved l = str_of_int (sum_list ns)) \<and>
     (\<exists>i u. py_int (ll_issued l) = Inr i \<and> py_int (ll_used l) = Inr u \<and> ll_free l = str_of_int (i - u)) \<and>
     list_all (\<lambda>u. \<exists>n. py_int (lu_num u) = Inr n) (concat (map lv_usages (ll_versions l))) \<and>
     (names = None \<or> ll_name l \<in> set (the names))"

definition lm_inv :: "string list option \<Rightarrow> lm_state \<Rightarrow> bool" where
  "lm_inv names s \<longleftrightarrow>
     list_all (lm_ok names) (st_licenses s) \<and> (st_cur_version s \<longrightarrow> st_licenses s \<noteq> [] \<and> ll_versions (last (st_licenses s)) \<noteq> [])"

lemma on_last_conv: "xs \<noteq> [] \<Longrightarrow> on_last f xs = butlast xs @ [f (last xs)]"
  by (induction f xs rule: on_last.induct) auto

lemma mapM_r_snoc: "mapM_r f (xs @ [x]) = bind_r (mapM_r f xs) (\<lambda>ys. bind_r (f x) (\<lambda>y. Inr (ys @ [y])))"
  by (induction xs) (auto simp: bind_r_def split: sum.splits)

lemma last_versions: "vs \<noteq> [] \<Longrightarrow> concat (map g vs) = concat (map g (butlast vs)) @ g (last vs)"
  by (induction vs) auto

lemma usage_num: "usage_of checkout parts = Inr u \<Longrightarrow> \<exists>n. py_int (lu_num u) = Inr n"
  by (auto simp: usage_of_def bind_r_eq_Inr)

lemma feed_version_ok:
  assumes "lm_ok names l" "ll_versions l \<noteq> []" "feed_license_version checkout parts l = Inr l'"
  shows "lm_ok names l' \<and> ll_versions l' \<noteq> []"
proof -
  note d = lm_ok_def reservations_def on_version_def on_last_conv [OF assms(2)] last_versions [OF assms(2)]
  consider (floating) "l' = on_version (\<lambda>v. v\<lparr>lv_floating := True\<rparr>) l"
    | (reserved) r n where "py_int (ll_reserved l) = Inr r" "py_int (hd parts) = Inr n"
        "l' = (on_version (\<lambda>v. v\<lparr>lv_reservations := lv_reservations v @ [(hd parts, py_join '' '' (drop 3 parts))]\<rparr>) l)\<lparr>ll_reserved := str_of_int (r + n)\<rparr>"
    | (use) u where "usage_of checkout parts = Inr u" "l' = on_version (\<lambda>v. v\<lparr>lv_usages := lv_usages v @ [u]\<rparr>) l"
    using assms(3) by (auto simp: feed_license_version_def bind_r_eq_Inr split: if_splits)
  then show ?thesis
  proof cases
    case floating
    with assms(1) show ?thesis by (simp add: d)
  next
    case reserved
    with assms(1) show ?thesis by (auto simp: d mapM_r_snoc simp flip: append_assoc)
  next
    case use
    with assms(1) usage_num show ?thesis by (auto simp: d)
  qed
qed

lemma license_line_inv:
  assumes "lm_inv names s" "license_line conv checkout parts s = Inr s'"
  shows "lm_inv names s'"
proof (cases "st_licenses s = []")
  case True
  with assms show ?thesis by (auto simp: license_line_def)
next
  case False
  let ?l = "last (st_licenses s)"
  have all: "list_all (lm_ok names) (butlast (st_licenses s))" "lm_ok names ?l"
    using assms(1) False by (auto simp: lm_inv_def list_all_iff dest: in_set_butlastD)
  consider (version) v where "version_of conv parts = Inr v"
      "s' = s\<lparr>st_licenses := butlast (st_licenses s) @ [?l\<lparr>ll_versions := ll_versions ?l @ [v]\<rparr>], st_cur_version := True\<rparr>"
    | (feed) l' where "st_cur_version s" "feed_license_version checkout parts ?l = Inr l'" "s' = s\<lparr>st_licenses := butlast (st_licenses s) @ [l']\<rparr>"
    | (same) "s' = s"
    using assms(2) False by (auto simp: license_line_def bind_r_eq_Inr Let_def split: if_splits)
  then show ?thesis
  proof cases
    case version
    then have "lv_reservations v = []" "lv_usages v = []" by (auto simp: version_of_def bind_r_eq_Inr split: if_splits)
    with all have "lm_ok names (?l\<lparr>ll_versions := ll_versions ?l @ [v]\<rparr>)" by (simp add: lm_ok_def reservations_def)
    with version(2) all show ?thesis by (simp add: lm_inv_def)
  next
    case feed
    with assms(1) all feed_version_ok [of names ?l checkout parts l'] show ?thesis by (simp add: lm_inv_def)
  qed (use assms in simp)
qed

lemma users_line_inv:
  assumes "lm_inv names s" "users_line names lline parts s = Inr s'"
  shows "lm_inv names s'"
proof -
  have "str_of_int 0 = ''0''" by code_simp
  then show ?thesis
    using assms by (auto simp: users_line_def bind_r_eq_Inr Let_def lm_inv_def lm_ok_def reservations_def split: if_splits)
qed

lemma lmstat_line_inv: "lm_inv names s \<Longrightarrow> lmstat_line conv checkout names line s = Inr s' \<Longrightarrow> lm_inv names s'"
proof -
  have srv: "lm_inv names t" if "server_line lline parts s = Inr t" "lm_inv names s" for lline parts s t
    using that unfolding server_line_def by (simp split: if_split_asm list.split_asm) (auto simp: lm_inv_def)
  have keep: "lm_inv names (server_file_line lline parts t)" if "lm_inv names t" for lline parts t
    using that by (auto simp: server_file_line_def lm_inv_def)
  assume s: "lm_inv names s" "lmstat_line conv checkout names line s = Inr s'"
  show ?thesis
  proof (cases "py_strip line = []")
    case False
    with s(2) obtain s1 s2 where "server_line (py_lower line) (py_split_ws (py_lower line)) s = Inr s1"
      "users_line names (py_lower line) (py_split_ws (py_lower line)) (server_file_line (py_lower line) (py_split_ws (py_lower line)) s1) = Inr s2"
      "license_line conv checkout (py_split_ws (py_lower line)) s2 = Inr s'"
      by (auto simp: lmstat_line_def Let_def bind_r_eq_Inr)
    with s(1) srv keep users_line_inv license_line_inv show ?thesis by blast
  qed (use s in \<open>simp add: lmstat_line_def\<close>)
qed

lemma lmstat_lines_inv: "lm_inv names s \<Longrightarrow> lmstat_lines conv checkout names ls s = Inr s' \<Longrightarrow> lm_inv names s'"
  by (induction ls arbitrary: s) (auto simp: bind_r_eq_Inr dest: lmstat_line_inv)

lemma interpret_ok: "interpret_result conv checkout names text = Inr s \<Longrightarrow> l \<in> set (st_licenses s) \<Longrightarrow> lm_ok names l"
  using lmstat_lines_inv [of names lm_start conv checkout "py_split (char_of (10::nat)) text" s]
  by (simp add: interpret_result_def lm_inv_def lm_start_def list_all_iff)

text \<open>The answer of the status command is an answer the licenses can be fed with.\<close>

definition count_of :: "string \<Rightarrow> int" where
  "count_of s = (case py_int s of Inr n \<Rightarrow> n | Inl _ \<Rightarrow> 0)"

interpretation lm: server_answer srv_of "lm_ok names" "\<lambda>x. count_of (ll_issued x)" "\<lambda>x. count_of (ll_reserved x)" "\<lambda>x. count_of (ll_used x)"
  for names
  by unfold_locales (auto simp: lm_ok_def count_of_def srv_of_def int_attr_def attr_or_def list_all_iff)

text \<open>C35: whatever the license server's status command prints, every license that is read from it can be fed: only licenses that
  were asked for are read, their numbers are numbers, and feeding one that is in use takes over the issued number and counts
  as used what the server counts without the sum of all reservations listed under the license.\<close>

theorem lmstat_feeds:
  assumes "interpret_result conv checkout names text = Inr s" "x \<in> set (st_licenses s)" "li_match_str l \<noteq> None"
  shows "\<exists>l' ns i u. feed_server re (srv_of x) (lic_reset l) = Inr l' \<and> reservations x = Inr ns \<and>
    py_int (ll_issued x) = Inr i \<and> py_int (ll_used x) = Inr u \<and> py_int (ll_free x) = Inr (i - u) \<and>
    li_total l' = i \<and> li_reserved l' = sum_list ns \<and> li_used l' = u - sum_list ns \<and>
    (names = None \<or> ll_name x \<in> set (the names))"
proof -
  from interpret_ok [OF assms(1,2)] obtain ns i u where
    x: "reservations x = Inr ns" "ll_reserved x = str_of_int (sum_list ns)" "py_int (ll_issued x) = Inr i" "py_int (ll_used x) = Inr u"
      "ll_free x = str_of_int (i - u)" "names = None \<or> ll_name x \<in> set (the names)"
    by (auto simp: lm_ok_def)
  have "count_of (ll_issued x) = i" "count_of (ll_used x) = u" "count_of (ll_reserved x) = sum_list ns" using x by (simp_all add: count_of_def)
  with lm.feeds [OF interpret_ok [OF assms(1,2)] assms(3), of re] x show ?thesis by auto
qed

lemma py_lower_code [code]:
  "py_lower s = map (\<lambda>c. let n = of_char c :: nat in if 65 \<le> n \<and> n \<le> 90 then char_of (n + 32) else c) s"
  by (simp add: py_lower_def Let_def)

text \<open>A license of nine, six in use: four on a node of the grid, and two reserved. The second license was not asked for.\<close>

definition ex_text :: string where
  "ex_text = py_join [char_of (10::nat)]
     [''Users of s: a b 9 c d e f 6'', [CHR 0x22] @ ''s'' @ [CHR 0x22] @ '' v9, x'', ''a n n.x (v) l s m 1, 4 licenses'', ''2 RESERVATION for d'',
      ''users of t: a b 5 c d e f 1'', ''3 reservation'']"

definition ex_license :: lm_license where
  "ex_license = \<lparr>ll_name = ''s'', ll_issued = ''9'', ll_used = ''6'', ll_reserved = ''2'', ll_free = ''3'', ll_versions =
     [\<lparr>lv_version = ''v9'', lv_floating = False, lv_vendor = ''x'', lv_expiry = Some [], lv_reservations = [(''2'', ''d'')], lv_usages =
        [\<lparr>lu_num = ''4'', lu_user = ''a'', lu_client_long = ''n'', lu_client_short = ''n'', lu_client_version = ''v'', lu_checkout = ''1''\<rparr>]\<rparr>]\<rparr>"

definition ex_state :: lm_state where
  "ex_state = \<lparr>st_servers = [], st_licenses = [ex_license], st_cur_srv = False, st_cur_version = False\<rparr>"

lemma ex_lm: "interpret_result Inr Inr (Some [''s'']) ex_text = Inr ex_state"
  by code_simp

theorem lmstat_feeds_witness:
  "\<exists>l'. feed_server ex_re (srv_of ex_license) (lic_reset (snd (hd ex_site))) = Inr l' \<and> li_total l' = 9 \<and> li_reserved l' = 2 \<and> li_used l' = 4"
proof -
  have h: "ex_license \<in> set (st_licenses ex_state)" "li_match_str (snd (hd ex_site)) \<noteq> None" by (simp_all add: ex_state_def ex_site_def)
  have v: "reservations ex_license = Inr [2]" "py_int (ll_issued ex_license) = Inr 9" "py_int (ll_used ex_license) = Inr 6"
    by code_simp+
  show ?thesis using lmstat_feeds [OF ex_lm h, of ex_re] by (auto simp: v)
qed

end
