(* ===== verification/Spec2Isabelle.thy ===== *)
theory Spec2Isabelle
  imports Ipv4 State_Schema Server_Timers Mon_Limits Threshold Config_Laws Config_File Kpi_Set Log_Reader Log_Update Duration_Steps Lmstat
begin

text \<open>
  \<^bold>\<open>Verification of the service management of icsw\<close>

  The program. icsw runs a set of daemons on every machine of a cluster. The meta-server watches them: it
  reads the descriptions of the services, compares the processes it finds with what should run, and starts
  and stops services in transitions that respect their dependencies. The command line tool uses the same
  classes. Beside it are modelled parts of the monitoring: limits, thresholds, the log of the monitoring core, the history of
  alerts and the key performance indicators computed from it; and the licenses handed out by the resource management.
  The parts and how they interact:

  \<^item> \<open>src/initat/icsw/service/constants.py\<close> names the states; the decision table \<open>ServiceActionState\<close> of
    \<open>src/initat/meta_server/servicestate.py\<close> maps target, process, configuration and license state to an
    action. Theory \<open>Service_Constants\<close>: \<open>action_table\<close> gives the table in closed form.
  \<^item> \<open>src/initat/icsw/service/instance.py\<close> reads the XML descriptions with overlays, aliases, defaults and
    dependencies. Theory \<open>Instance_Xml\<close>: the lookup tables are complete, the dependencies exact, the defaults
    idempotent; the locale \<open>dependency_source\<close> states what the state machine relies on.
  \<^item> \<open>src/initat/tools/process_tools.py\<close> keeps the MSI blocks in which daemons announce their processes, pid
    files and the search for stale instances. Theory \<open>Process_Tools\<close>: round trips, safety and termination of
    the search.
  \<^item> \<open>src/initat/tools/logging_tools.py\<close> formats numbers, times and lists. Theory \<open>Logging_Tools\<close>.
  \<^item> \<open>src/initat/tools/ipvx_tools.py\<close> has the IPv4 addresses used to match services to interfaces. Theory \<open>Ipv4\<close>.
  \<^item> \<open>src/initat/icsw/service/service.py\<close> checks one service and performs its actions. Theory \<open>Service\<close>: the
    run state is what the processes say, a service is configured only where it should run, cleanup kills
    exactly the processes of the service.
  \<^item> \<open>src/initat/icsw/service/container.py\<close> holds what a round of checks shares. Theory \<open>Service_Container\<close>: the
    version history, the plans of \<open>decide\<close>, the status table.
  \<^item> \<open>src/initat/icsw/service/transition.py\<close> works off the plans. Theory \<open>Transition\<close>: order and waiting times.
  \<^item> \<open>src/initat/meta_server/servicestate.py\<close> is the state machine over an SQLite database. Theory
    \<open>State_Schema\<close> has its schema, \<open>Service_State\<close> its operations and the two central invariants (transitions
    are justified, the caches follow the database), \<open>Service_State_Laws\<close> the transition lock, the commands, the
    progress of an update, the shutdown and the stability of states.
  \<^item> \<open>src/initat/meta_server/server.py\<close> is the process. Theory \<open>Meta_Server\<close> composes everything: signals, timers,
    file events and commands are steps of the server, and the invariants of the parts are carried over to
    every reachable state of the whole.
  \<^item> \<open>TimerBase\<close> of \<open>src/initat/tools/threading_tools.py\<close> keeps the timers of a process. Theory \<open>Timers\<close> has a heap of
    timer objects, because callbacks change the list while it is worked off: what a round does, and what
    happens to timers that are unregistered or restarted from a callback. Theory \<open>Server_Timers\<close> states what
    the meta-server relies on as the locale \<open>timer_service\<close> and shows that its flag follows the timer list.
  \<^item> \<open>src/initat/host_monitoring/limits.py\<close> compares measured values with limits. Theory \<open>Mon_Limits\<close>.
  \<^item> \<open>src/initat/collectd/sensor_threshold.py\<close> triggers actions when a sensor leaves its range. Theory \<open>Threshold\<close>:
    hysteresis, the exact condition of a trigger, the synchronisation with the database.
  \<^item> \<open>src/initat/tools/configfile.py\<close> is the configuration every daemon reads. Theory \<open>Conf_Var\<close> has the typed
    variables and their JSON documents, \<open>Config_Cache\<close> the copies that several processes keep of a dictionary
    in memcached, \<open>Configuration\<close> the object on top: the locale \<open>shared_dict\<close> states what it relies on, and the
    processes together refine a single dictionary. \<open>Config_Laws\<close> shows what happens outside the conditions of
    that theorem, \<open>Config_File\<close> has the files and the command line.
  \<^item> \<open>src/initat/md_config_server/kpi\<close> computes key performance indicators from the history of alerts. Theory \<open>Time_Line\<close>
    has the time lines of \<open>kpi_historic.py\<close>: merging several lines gives the best or worst state at every time, and
    the shares of the states sum to one. \<open>Alert_History\<close> has what the indicators use of
    \<open>src/initat/cluster/backbone/models/status_history.py\<close>: the pairing of downtime events, the downtimes laid over
    the alerts, and the way from the rows of the log to the merged line. \<open>Kpi_Set\<close> has the operations of
    \<open>kpi_language.py\<close>: filters, evaluation of results, of values and of time lines.
  \<^item> \<open>src/initat/md_config_server/icinga_log_reader\<close> feeds the history. Theory \<open>Icinga_Log\<close> has the reading of the log of the
    monitoring core (\<open>log_reader.py\<close>, \<open>log_reader_utils.py\<close>): a logged alert is recorded for the right service, an
    unknown state loses the file. \<open>Log_Reader\<close> keeps up with a log that grows and is rotated: every line is read once, unless
    the last line read was not complete. \<open>Log_Aggregation\<close> has the weights of the states in a time span and the averages over
    shorter spans of \<open>log_aggregation.py\<close>, \<open>Log_Update\<close> the run over all missing spans: in every reachable state of the
    tables each time is aggregated exactly once and the weights sum to one. The spans are those of theory \<open>Durations\<close>,
    the duration classes of \<open>src/initat/cluster/backbone/models/functions.py\<close> on a model of Python's dates; the locale
    \<open>time_frames\<close> states what the aggregation relies on. The time ranges of indicators (\<open>models/kpi.py\<close>) and the
    steps of a display (\<open>frontend/common.py\<close>) use the same classes; theory \<open>Duration_Steps\<close> shows that a display has one step
    in every frame.
  \<^item> \<open>src/initat/tools/sge_license_tools.py\<close> keeps the software licenses of the grid engine, whose limits
    \<open>src/initat/rms/license.py\<close> sets. Theory \<open>Sge_License\<close> has the licenses, their form in the license file and a round of
    accounting; \<open>Lmstat\<close> has the text files, the old format and the reader of the license server's answer. A license
    survives being written and read, the numbers of a simple license add up, those of a complex one ignore outside use,
    and every answer that is read can be fed; the locale \<open>server_answer\<close> states what the accounting relies on.

  State and effects. Objects are records, dictionaries are association lists with the order of insertion,
  database tables are lists of rows. A method is a function from the state (and what it observes of the
  system) to a result and a new state, or to the exception it raises (\<open>py_error\<close> of \<open>Prelude\<close>). Kills, file
  operations, commands and mails are recorded as effects. The clock is a rational number; an operation
  reads it once, except in \<open>Transition\<close>, where every look at the system may see another host and time,
  because the claims there depend on it.

  Loops. The inner loop of a transition terminates by a measure on pending actions and waits; the walk up
  the process tree may run for ever on a cyclic table and is a partial function to an option, with a
  theorem that it returns for the tables a kernel has. So are the loop that moves a timer forward (it ends
  for a positive step) and the iteration over a timer list that callbacks may extend. The loops over time
  frames end because every frame ends later than it starts and the calendar ends with the year 9999.
  Everything else is structural recursion; no fuel is used.

  Parameters. What is not under \<open>src/\<close> is an argument: the process table, the file system, the license and
  version queries, the memcache client, \<open>eval\<close>, argparse and regular expressions, the rows of the alert tables, the configuration database, the results of external scripts, the parsing of dates in license files and answers, the positions in
  log files, lxml's parsing and schema validation and the order in which it lists files, \<open>ctime\<close> and \<open>ordinalize\<close>.

  Not modelled. The sockets and the poller of the process framework (the handlers they call are the
  steps of the model), log messages without influence on the state, the web frontend, the database models,
  the other daemons and their monitoring modules: they are input and output around libraries (Django, 0MQ,
  SNMP, RRD) that are not part of the repository.
\<close>

end
